(* ===== verification/Prelude.thy ===== *)
theory Prelude
  imports Main "HOL-Library.Word" "HOL-Library.Char_ord" "HOL-Library.List_Lexorder"
begin

text \<open>
  The vocabulary every component shares.

  \<^item> Fixed-width unsigned integers are words (\<open>u8\<close>, \<open>u16\<close>, \<open>u32\<close>, \<open>u64\<close>). Signed
    32-bit integers are \<^typ>\<open>int\<close> together with \<open>i32\<close>, which makes an overflow
    (undefined in C++) an outcome of its own.
  \<^item> \<open>'a cpp\<close> is the result of a C++ computation: \<open>Inr\<close> a value, or \<open>Inl\<close> the
    reason why there is none (an exception, a failed assertion, undefined behaviour, a
    loop that does not end). \<open>cpp_bind\<close> sequences such computations.
  \<^item> \<open>std::string\<close> is \<^typ>\<open>string\<close>; \<open>bytes_of_string\<close> and \<open>string_of_bytes\<close> are
    the \<open>reinterpret_cast\<close>s between \<open>char*\<close> and \<open>std::uint8_t*\<close>.
  \<^item> \<open>be_bytes\<close> and \<open>be_value\<close> are the big-endian loops that \<open>ByteBuffer::append\<close> and
    \<open>ByteSpan::peek\<close> run.
  \<^item> The locale \<open>wire_codec\<close> states what an encoder promises its decoder, and derives
    that a sequence of encoded items decodes to that sequence.
\<close>

unbundle bit_operations_syntax

named_theorems cpp_simps \<open>evaluation of the error monad\<close>

section \<open>Machine types and outcomes\<close>

type_synonym u8 = "8 word"
type_synonym u16 = "16 word"
type_synonym u32 = "32 word"
type_synonym u64 = "64 word"

datatype cpp_error =
    RuntimeError string
  | InvalidArgument string
  | StdOutOfRange string
  | AssertionFailed string
  | UndefinedBehaviour string
  | Diverges string

type_synonym 'a cpp = "cpp_error + 'a"

fun cpp_bind :: "'a cpp \<Rightarrow> ('a \<Rightarrow> 'b cpp) \<Rightarrow> 'b cpp" where
  "cpp_bind (Inl e) f = Inl e"
| "cpp_bind (Inr x) f = f x"

definition INT32_MAX :: int where
  "INT32_MAX = 2147483647"

definition INT32_MIN :: int where
  "INT32_MIN = - 2147483648"

definition i32 :: "int \<Rightarrow> int cpp" where
  "i32 n = (if INT32_MIN \<le> n \<and> n \<le> INT32_MAX then Inr n
            else Inl (UndefinedBehaviour ''signed overflow''))"

section \<open>Strings and bytes\<close>

definition byte_of_char :: "char \<Rightarrow> u8" where
  "byte_of_char c = of_nat (of_char c)"

definition char_of_byte :: "u8 \<Rightarrow> char" where
  "char_of_byte b = char_of (unat b)"

definition bytes_of_string :: "string \<Rightarrow> u8 list" where
  "bytes_of_string s = map byte_of_char s"

definition string_of_bytes :: "u8 list \<Rightarrow> string" where
  "string_of_bytes bs = map char_of_byte bs"

section \<open>Big-endian integers\<close>

text \<open>
  \<open>append<T>\<close> writes byte \<open>i\<close> of \<open>n\<close> as \<open>value >> ((n - i - 1) * 8)\<close>, truncated;
  \<open>peek<T>\<close> folds \<open>(value << 8) | byte\<close> from the first byte on.
\<close>

definition be_bytes :: "nat \<Rightarrow> 'a::len word \<Rightarrow> u8 list" where
  "be_bytes n v = map (\<lambda>i. ucast (drop_bit ((n - i - 1) * 8) v)) [0..<n]"

definition be_value :: "u8 list \<Rightarrow> 'a::len word" where
  "be_value bs = fold (\<lambda>b v. push_bit 8 v OR ucast b) bs 0"

section \<open>Decoding a sequence of items\<close>

text \<open>The loop \<open>while (pop(item)) { \<dots> }\<close> of a decoder that consumes its input.\<close>

function decode_seq :: "(u8 list \<Rightarrow> ('a \<times> u8 list) option) \<Rightarrow> u8 list \<Rightarrow> 'a list \<times> u8 list" where
  "decode_seq dec bs =
     (case dec bs of
        None \<Rightarrow> ([], bs)
      | Some (x, r) \<Rightarrow>
          if length r < length bs
          then (case decode_seq dec r of (xs, r') \<Rightarrow> (x # xs, r'))
          else ([x], r))"
  by pat_completeness auto
termination
  by (relation "measure (\<lambda>(dec, bs). length bs)") auto

declare decode_seq.simps [simp del]

section \<open>Shared lemmas\<close>

lemma cpp_bind_eq_Inr [cpp_simps]:
  "cpp_bind m f = Inr y \<longleftrightarrow> (\<exists>x. m = Inr x \<and> f x = Inr y)"
  by (cases m) auto

lemma cpp_bind_eq_Inl [cpp_simps]:
  "cpp_bind m f = Inl e \<longleftrightarrow> m = Inl e \<or> (\<exists>x. m = Inr x \<and> f x = Inl e)"
  by (cases m) auto

lemma i32_Inr [simp]:
  "INT32_MIN \<le> n \<Longrightarrow> n \<le> INT32_MAX \<Longrightarrow> i32 n = Inr n"
  by (simp add: i32_def)

lemma i32_eq_Inr [cpp_simps]:
  "i32 n = Inr m \<longleftrightarrow> m = n \<and> INT32_MIN \<le> n \<and> n \<le> INT32_MAX"
  by (auto simp: i32_def)

lemma unat_byte_of_char: "unat (byte_of_char c) = of_char c"
proof -
  have "(of_char c :: nat) < 256" by (rule nat_of_char_less_256)
  then show ?thesis by (simp add: byte_of_char_def unat_of_nat)
qed

lemma char_of_byte_of_char [simp]: "char_of_byte (byte_of_char c) = c"
  by (simp add: char_of_byte_def unat_byte_of_char)

lemma byte_of_char_of_byte [simp]: "byte_of_char (char_of_byte b) = b"
proof -
  have "unat b < 256" using unsigned_less [of b] by simp
  then show ?thesis by (simp add: byte_of_char_def char_of_byte_def)
qed

lemma byte_of_char_eq_iff [simp]: "byte_of_char c = byte_of_char d \<longleftrightarrow> c = d"
  by (metis char_of_byte_of_char)

lemma string_of_bytes_of_string [simp]: "string_of_bytes (bytes_of_string s) = s"
  by (simp add: string_of_bytes_def bytes_of_string_def comp_def)

lemma bytes_of_string_of_bytes [simp]: "bytes_of_string (string_of_bytes bs) = bs"
  by (simp add: string_of_bytes_def bytes_of_string_def comp_def)

lemma length_bytes_of_string [simp]: "length (bytes_of_string s) = length s"
  by (simp add: bytes_of_string_def)

lemma length_string_of_bytes [simp]: "length (string_of_bytes bs) = length bs"
  by (simp add: string_of_bytes_def)

lemma length_be_bytes [simp]: "length (be_bytes n v) = n"
  by (simp add: be_bytes_def)

lemma be_bytes_1: "be_bytes 1 v = [ucast v]"
  by (simp add: be_bytes_def)

lemma be_bytes_2: "be_bytes 2 v = [ucast (drop_bit 8 v), ucast v]"
  by (simp add: be_bytes_def upt_rec)

lemma be_bytes_4:
  "be_bytes 4 v = [ucast (drop_bit 24 v), ucast (drop_bit 16 v), ucast (drop_bit 8 v), ucast v]"
  by (simp add: be_bytes_def upt_rec)

lemma be_value_2: "be_value [a, b] = push_bit 8 (ucast a) OR ucast b"
  by (simp add: be_value_def)

lemma be_value_4:
  "be_value [a, b, c, d] =
     push_bit 24 (ucast a) OR push_bit 16 (ucast b) OR push_bit 8 (ucast c) OR ucast d"
  by (simp add: be_value_def ac_simps)

lemma be_value_be_bytes_2 [simp]: "be_value (be_bytes 2 (v :: u16)) = v"
  unfolding be_bytes_2 be_value_2 by (rule bit_word_eqI) (auto simp: bit_simps)

lemma be_value_be_bytes_4 [simp]: "be_value (be_bytes 4 (v :: u32)) = v"
proof (rule bit_word_eqI)
  fix n
  assume "n < LENGTH(32)"
  then consider "n < 8" | "8 \<le> n" "n < 16" | "16 \<le> n" "n < 24" | "24 \<le> n" "n < 32"
    by force
  then show "bit (be_value (be_bytes 4 v) :: u32) n = bit v n"
    unfolding be_bytes_4 be_value_4 by cases (auto simp: bit_simps)
qed

section \<open>The contract between an encoder and its decoder\<close>

locale wire_codec =
  fixes enc :: "'a \<Rightarrow> u8 list"
    and dec :: "u8 list \<Rightarrow> ('a \<times> u8 list) option"
    and valid :: "'a \<Rightarrow> bool"
  assumes dec_enc: "valid x \<Longrightarrow> dec (enc x @ rest) = Some (x, rest)"
    and dec_consumes: "dec bs = Some (x, rest) \<Longrightarrow> length rest < length bs"
begin

lemma dec_Nil: "dec [] = None"
proof (cases "dec []")
  case (Some p)
  then show ?thesis using dec_consumes [of "[]" "fst p" "snd p"] by simp
qed simp

lemma decode_seq_step:
  "dec bs = Some (x, r) \<Longrightarrow>
   decode_seq dec bs = (x # fst (decode_seq dec r), snd (decode_seq dec r))"
  by (subst decode_seq.simps) (simp add: dec_consumes split: prod.split)

lemma decode_seq_enc:
  assumes "list_all valid xs"
  shows "decode_seq dec (concat (map enc xs) @ rest) =
         (xs @ fst (decode_seq dec rest), snd (decode_seq dec rest))"
  using assms by (induction xs) (simp_all add: decode_seq_step [OF dec_enc])

lemma decode_seq_enc_all:
  assumes "list_all valid xs"
  shows "decode_seq dec (concat (map enc xs)) = (xs, [])"
proof -
  have "decode_seq dec [] = ([], [])" by (subst decode_seq.simps) (simp add: dec_Nil)
  then show ?thesis using decode_seq_enc [OF assms, of "[]"] by simp
qed

lemma enc_inject: "valid x \<Longrightarrow> valid y \<Longrightarrow> enc x = enc y \<Longrightarrow> x = y"
  using dec_enc [of x "[]"] dec_enc [of y "[]"] by simp

end

text \<open>A decoder that more input does not disturb reads the same however the input is cut.\<close>

locale incremental_codec = wire_codec +
  assumes dec_append: "dec bs = Some (x, r) \<Longrightarrow> dec (bs @ bs') = Some (x, r @ bs')"
begin

lemma decode_seq_append:
  "decode_seq dec (a @ b) =
     (fst (decode_seq dec a) @ fst (decode_seq dec (snd (decode_seq dec a) @ b)),
      snd (decode_seq dec (snd (decode_seq dec a) @ b)))"
proof (induction "length a" arbitrary: a rule: less_induct)
  case less
  show ?case
  proof (cases "dec a")
    case None
    then have "decode_seq dec a = ([], a)" by (subst decode_seq.simps) simp
    then show ?thesis by simp
  next
    case (Some p)
    then obtain x r where p: "dec a = Some (x, r)" by (cases p) auto
    then show ?thesis
      using less [of r] dec_consumes [OF p] decode_seq_step [OF p] decode_seq_step [OF dec_append [OF p, of b]] by simp
  qed
qed

lemma decode_seq_split:
  assumes "list_all valid xs" and "a @ b = concat (map enc xs)"
  shows "\<exists>ys zs. xs = ys @ zs \<and> fst (decode_seq dec a) = ys \<and> decode_seq dec (snd (decode_seq dec a) @ b) = (zs, [])"
  using decode_seq_append [of a b] decode_seq_enc_all [OF assms(1)] assms(2) by (simp add: prod_eq_iff)

end

end
