(* ===== verification/Hpack_Table.thy ===== *)
theory Hpack_Table
  imports Prelude
begin

text \<open>
  Header fields and the HPACK index tables: include/chttp2/header_field.hpp,
  include/chttp2/hpack/table.hpp and src/hpack/table.cpp.

  \<open>HpackTable\<close> is the class: two hash maps from names and from name-value pairs to entry
  ids, the entries (oldest first), and the counters. Counters and sizes are 64-bit in the
  source and natural numbers here: they count the bytes and insertions of a connection.
  \<open>table_wf\<close> is the representation invariant; under it the table is the plain list of
  entries, newest first, cut to the size limit (\<open>fit\<close>), and \<open>find\<close> answers exactly what
  that list holds. The locale \<open>header_index\<close> states what the HPACK encoder needs of it.
\<close>

section \<open>Header fields\<close>

record HeaderField =
  hname :: string
  hvalue :: string
  sensitivity :: bool

definition HeaderField_new :: "string \<Rightarrow> string \<Rightarrow> HeaderField" where
  "HeaderField_new n v = \<lparr>hname = n, hvalue = v, sensitivity = False\<rparr>"

definition field_size :: "HeaderField \<Rightarrow> nat" where
  "field_size h = length (hname h) + length (hvalue h) + 32"

definition pseudo :: "HeaderField \<Rightarrow> bool" where
  "pseudo h \<longleftrightarrow> hname h \<noteq> [] \<and> hd (hname h) = CHR '':''"

definition field_eq :: "HeaderField \<Rightarrow> HeaderField \<Rightarrow> bool" where
  "field_eq a b \<longleftrightarrow> hname a = hname b \<and> hvalue a = hvalue b"

definition field_less :: "HeaderField \<Rightarrow> HeaderField \<Rightarrow> bool" where
  "field_less a b \<longleftrightarrow> hname a < hname b \<or> (hname a = hname b \<and> hvalue a < hvalue b)"

section \<open>The static table\<close>

definition STATIC_NAMES :: "(string \<times> nat) list" where
  "STATIC_NAMES =
     [('':authority'', 1), ('':method'', 2), ('':path'', 4), ('':scheme'', 6), ('':status'', 8),
      (''accept-charset'', 15), (''accept-encoding'', 16), (''accept-language'', 17),
      (''accept-ranges'', 18), (''accept'', 19), (''access-control-allow-origin'', 20), (''age'', 21),
      (''allow'', 22), (''authorization'', 23), (''cache-control'', 24),
      (''content-disposition'', 25), (''content-encoding'', 26), (''content-language'', 27),
      (''content-length'', 28), (''content-location'', 29), (''content-range'', 30),
      (''content-type'', 31), (''cookie'', 32), (''date'', 33), (''etag'', 34), (''expect'', 35),
      (''expires'', 36), (''from'', 37), (''host'', 38), (''if-match'', 39),
      (''if-modified-since'', 40), (''if-none-match'', 41), (''if-range'', 42),
      (''if-unmodified-since'', 43), (''last-modified'', 44), (''link'', 45), (''location'', 46),
      (''max-forwards'', 47), (''proxy-authenticate'', 48), (''proxy-authorization'', 49),
      (''range'', 50), (''referer'', 51), (''refresh'', 52), (''retry-after'', 53), (''server'', 54),
      (''set-cookie'', 55), (''strict-transport-security'', 56), (''transfer-encoding'', 57),
      (''user-agent'', 58), (''vary'', 59), (''via'', 60), (''www-authenticate'', 61)]"

definition STATIC_NAME_TABLE :: "string \<rightharpoonup> nat" where
  "STATIC_NAME_TABLE = map_of STATIC_NAMES"

definition STATIC_NAME_VALUES :: "((string \<times> string) \<times> nat) list" where
  "STATIC_NAME_VALUES =
     [(('':authority'', []), 1), (('':method'', ''GET''), 2), (('':method'', ''POST''), 3),
      (('':path'', ''/''), 4), (('':path'', ''/index.html''), 5), (('':scheme'', ''http''), 6),
      (('':scheme'', ''https''), 7), (('':status'', ''200''), 8), (('':status'', ''204''), 9),
      (('':status'', ''206''), 10), (('':status'', ''304''), 11), (('':status'', ''400''), 12),
      (('':status'', ''404''), 13), (('':status'', ''500''), 14), ((''accept-charset'', []), 15),
      ((''accept-encoding'', ''gzip, deflate''), 16), ((''accept-language'', []), 17),
      ((''accept-ranges'', []), 18), ((''accept'', []), 19),
      ((''access-control-allow-origin'', []), 20), ((''age'', []), 21), ((''allow'', []), 22),
      ((''authorization'', []), 23), ((''cache-control'', []), 24),
      ((''content-disposition'', []), 25), ((''content-encoding'', []), 26),
      ((''content-language'', []), 27), ((''content-length'', []), 28),
      ((''content-location'', []), 29), ((''content-range'', []), 30), ((''content-type'', []), 31),
      ((''cookie'', []), 32), ((''date'', []), 33), ((''etag'', []), 34), ((''expect'', []), 35),
      ((''expires'', []), 36), ((''from'', []), 37), ((''host'', []), 38), ((''if-match'', []), 39),
      ((''if-modified-since'', []), 40), ((''if-none-match'', []), 41), ((''if-range'', []), 42),
      ((''if-unmodified-since'', []), 43), ((''last-modified'', []), 44), ((''link'', []), 45),
      ((''location'', []), 46), ((''max-forwards'', []), 47), ((''proxy-authenticate'', []), 48),
      ((''proxy-authorization'', []), 49), ((''range'', []), 50), ((''referer'', []), 51),
      ((''refresh'', []), 52), ((''retry-after'', []), 53), ((''server'', []), 54),
      ((''set-cookie'', []), 55), ((''strict-transport-security'', []), 56),
      ((''transfer-encoding'', []), 57), ((''user-agent'', []), 58), ((''vary'', []), 59),
      ((''via'', []), 60), ((''www-authenticate'', []), 61)]"

definition STATIC_NAME_VALUE_TABLE :: "string \<times> string \<rightharpoonup> nat" where
  "STATIC_NAME_VALUE_TABLE = map_of STATIC_NAME_VALUES"

definition STATIC_ENTRY_TABLE :: "HeaderField list" where
  "STATIC_ENTRY_TABLE = map (\<lambda>(n, v). HeaderField_new n v)
     [('':authority'', []), ('':method'', ''GET''), ('':method'', ''POST''), ('':path'', ''/''),
      ('':path'', ''/index.html''), ('':scheme'', ''http''), ('':scheme'', ''https''),
      ('':status'', ''200''), ('':status'', ''204''), ('':status'', ''206''), ('':status'', ''304''),
      ('':status'', ''400''), ('':status'', ''404''), ('':status'', ''500''),
      (''accept-charset'', []), (''accept-encoding'', ''gzip, deflate''), (''accept-language'', []),
      (''accept-ranges'', []), (''accept'', []), (''access-control-allow-origin'', []), (''age'', []),
      (''allow'', []), (''authorization'', []), (''cache-control'', []),
      (''content-disposition'', []), (''content-encoding'', []), (''content-language'', []),
      (''content-length'', []), (''content-location'', []), (''content-range'', []),
      (''content-type'', []), (''cookie'', []), (''date'', []), (''etag'', []), (''expect'', []),
      (''expires'', []), (''from'', []), (''host'', []), (''if-match'', []),
      (''if-modified-since'', []), (''if-none-match'', []), (''if-range'', []),
      (''if-unmodified-since'', []), (''last-modified'', []), (''link'', []), (''location'', []),
      (''max-forwards'', []), (''proxy-authenticate'', []), (''proxy-authorization'', []),
      (''range'', []), (''referer'', []), (''refresh'', []), (''retry-after'', []), (''server'', []),
      (''set-cookie'', []), (''strict-transport-security'', []), (''transfer-encoding'', []),
      (''user-agent'', []), (''vary'', []), (''via'', []), (''www-authenticate'', [])]"

section \<open>The table\<close>

definition INIT_MAX_TABLE_SIZE :: nat where
  "INIT_MAX_TABLE_SIZE = 4096"

record HpackTable =
  nameTable :: "string \<rightharpoonup> nat"
  nameValueTable :: "string \<times> string \<rightharpoonup> nat"
  entryTable :: "HeaderField list"
  maxSize :: nat
  nextId :: nat
  dynamicBytes :: nat

definition HpackTable_new :: HpackTable where
  "HpackTable_new =
     \<lparr>nameTable = Map.empty, nameValueTable = Map.empty, entryTable = [],
      maxSize = INIT_MAX_TABLE_SIZE, nextId = 1, dynamicBytes = 0\<rparr>"

definition oldestId :: "HpackTable \<Rightarrow> nat" where
  "oldestId t = nextId t - length (entryTable t)"

definition id2Index :: "nat \<Rightarrow> HpackTable \<Rightarrow> nat option" where
  "id2Index i t =
     (if i < oldestId t then None else Some (length STATIC_ENTRY_TABLE + (nextId t - i)))"

text \<open>The pair is the returned flag and the reference parameter \<open>index\<close>.\<close>

definition table_find :: "HeaderField \<Rightarrow> HpackTable \<Rightarrow> bool \<times> nat" where
  "table_find h t =
     (let key = (hname h, hvalue h);
          exact = (if sensitivity h then None
                   else case STATIC_NAME_VALUE_TABLE key of
                     Some i \<Rightarrow> Some i
                   | None \<Rightarrow> (case nameValueTable t key of
                       None \<Rightarrow> None | Some i \<Rightarrow> id2Index i t))
      in case exact of
        Some i \<Rightarrow> (True, i)
      | None \<Rightarrow> (case STATIC_NAME_TABLE (hname h) of
          Some i \<Rightarrow> (False, i)
        | None \<Rightarrow> (case nameTable t (hname h) of
            None \<Rightarrow> (False, 0)
          | Some i \<Rightarrow> (case id2Index i t of None \<Rightarrow> (False, 0) | Some j \<Rightarrow> (False, j)))))"

definition addEntry :: "HeaderField \<Rightarrow> HpackTable \<Rightarrow> HpackTable" where
  "addEntry h t =
     t\<lparr>nameTable := (nameTable t)(hname h \<mapsto> nextId t),
       nameValueTable := (nameValueTable t)((hname h, hvalue h) \<mapsto> nextId t),
       entryTable := entryTable t @ [h],
       nextId := nextId t + 1\<rparr>"

text \<open>The loop of \<open>evict\<close> with its counter; the entries are erased after it.\<close>

definition evict_entry :: "HeaderField \<Rightarrow> nat \<Rightarrow> HpackTable \<Rightarrow> HpackTable" where
  "evict_entry h i t =
     t\<lparr>dynamicBytes := dynamicBytes t - field_size h,
       nameTable := (if nameTable t (hname h) = Some i
                     then (nameTable t)(hname h := None) else nameTable t),
       nameValueTable := (if nameValueTable t (hname h, hvalue h) = Some i
                          then (nameValueTable t)((hname h, hvalue h) := None)
                          else nameValueTable t)\<rparr>"

function evict_loop :: "nat \<Rightarrow> nat \<Rightarrow> HpackTable \<Rightarrow> nat \<times> HpackTable" where
  "evict_loop oldest cnt t =
     (if maxSize t < dynamicBytes t \<and> cnt < length (entryTable t)
      then evict_loop oldest (cnt + 1) (evict_entry (entryTable t ! cnt) (oldest + cnt) t)
      else (cnt, t))"
  by pat_completeness auto
termination
  by (relation "measure (\<lambda>(oldest, cnt, t). length (entryTable t) - cnt)") (auto simp: evict_entry_def)

declare evict_loop.simps [simp del]

definition evict :: "HpackTable \<Rightarrow> HpackTable" where
  "evict t =
     (case evict_loop (oldestId t) 0 t of (cnt, t') \<Rightarrow>
        t'\<lparr>entryTable := drop cnt (entryTable t')\<rparr>)"

definition table_insert :: "HeaderField \<Rightarrow> HpackTable \<Rightarrow> HpackTable" where
  "table_insert h t =
     (let t' = addEntry h t in evict (t'\<lparr>dynamicBytes := dynamicBytes t' + field_size h\<rparr>))"

definition table_at :: "nat \<Rightarrow> HpackTable \<Rightarrow> HeaderField option" where
  "table_at index t =
     (if index = 0 then None
      else if index \<le> length STATIC_ENTRY_TABLE then Some (STATIC_ENTRY_TABLE ! (index - 1))
      else let dynamicIdx = index - length STATIC_ENTRY_TABLE in
        if dynamicIdx = 0 \<or> length (entryTable t) < dynamicIdx then None
        else Some (entryTable t ! (length (entryTable t) - dynamicIdx)))"

definition table_setMaxSize :: "nat \<Rightarrow> HpackTable \<Rightarrow> HpackTable" where
  "table_setMaxSize sz t = evict (t\<lparr>maxSize := sz\<rparr>)"

section \<open>The specification: a list of entries cut to a size\<close>

text \<open>Entries newest first, as many as fit; this is what RFC 7541 calls the dynamic table.\<close>

fun fit :: "nat \<Rightarrow> HeaderField list \<Rightarrow> HeaderField list" where
  "fit m [] = []"
| "fit m (h # hs) = (if field_size h \<le> m then h # fit (m - field_size h) hs else [])"

definition dyn :: "HpackTable \<Rightarrow> HeaderField list" where
  "dyn t = rev (entryTable t)"

definition total_size :: "HeaderField list \<Rightarrow> nat" where
  "total_size hs = sum_list (map field_size hs)"

text \<open>The id of the last entry with a key, for entries numbered from \<open>i\<close>.\<close>

fun latest :: "(HeaderField \<Rightarrow> 'k) \<Rightarrow> HeaderField list \<Rightarrow> nat \<Rightarrow> 'k \<rightharpoonup> nat" where
  "latest key [] i = Map.empty"
| "latest key (e # es) i = [key e \<mapsto> i] ++ latest key es (Suc i)"

abbreviation field_key :: "HeaderField \<Rightarrow> string \<times> string" where
  "field_key h \<equiv> (hname h, hvalue h)"

definition indexed_from :: "nat \<Rightarrow> HeaderField list \<Rightarrow> HpackTable \<Rightarrow> bool" where
  "indexed_from i es t \<longleftrightarrow> nameTable t = latest hname es i \<and> nameValueTable t = latest field_key es i \<and>
     dynamicBytes t = total_size es"

definition table_wf :: "HpackTable \<Rightarrow> bool" where
  "table_wf t \<longleftrightarrow> length (entryTable t) < nextId t \<and> indexed_from (oldestId t) (entryTable t) t \<and>
     dynamicBytes t \<le> maxSize t"

lemma total_size_simps [simp]:
  "total_size [] = 0" "total_size (h # hs) = field_size h + total_size hs" "total_size (hs @ hs') = total_size hs + total_size hs'"
  "total_size (rev hs) = total_size hs"
  by (simp_all add: total_size_def rev_map [symmetric] sum_list_rev)

lemma fit_prefix: "total_size hs \<le> m \<Longrightarrow> total_size hs + field_size h > m \<Longrightarrow> fit m (hs @ h # hs') = hs"
  by (induction hs arbitrary: m) auto

lemma fit_all: "total_size hs \<le> m \<Longrightarrow> fit m hs = hs"
  by (induction hs arbitrary: m) auto

lemma total_size_fit: "total_size (fit m hs) \<le> m"
proof (induction hs arbitrary: m)
  case (Cons h hs)
  have "total_size (fit (m - field_size h) hs) \<le> m - field_size h" by (rule Cons.IH)
  then show ?case by auto
qed simp

lemma latest_snoc: "latest key (es @ [h]) i = (latest key es i)(key h \<mapsto> i + length es)"
  by (induction es arbitrary: i) simp_all

lemma latest_SomeD:
  "latest key es i n = Some j \<Longrightarrow> i \<le> j \<and> j < i + length es \<and> key (es ! (j - i)) = n"
proof (induction es arbitrary: i)
  case (Cons e es)
  then show ?case
    by (cases "latest key es (Suc i) n") (fastforce simp: map_add_def nth_Cons' split: if_splits)+
qed simp

lemma latest_None: "latest key es i n = None \<longleftrightarrow> n \<notin> key ` set es"
proof (induction es arbitrary: i)
  case (Cons e es)
  have "latest key es (Suc i) n = None \<longleftrightarrow> n \<notin> key ` set es" by (rule Cons.IH)
  then show ?case by (cases "latest key es (Suc i) n") (auto simp: map_add_def)
qed simp

lemma latest_drop_first:
  "(if latest key (e # es) i (key e) = Some i then (latest key (e # es) i)(key e := None)
    else latest key (e # es) i) = latest key es (Suc i)"
proof (cases "latest key es (Suc i) (key e)")
  case None
  then show ?thesis by (auto simp: map_add_def split: option.splits)
next
  case (Some j)
  then have "Suc i \<le> j" using latest_SomeD by fastforce
  with Some show ?thesis by (auto simp: map_add_def fun_eq_iff split: option.splits)
qed

section \<open>Eviction\<close>

lemma evict_entry_simps [simp]:
  "nameTable (evict_entry h i t) =
     (if nameTable t (hname h) = Some i then (nameTable t)(hname h := None) else nameTable t)"
  "nameValueTable (evict_entry h i t) =
     (if nameValueTable t (field_key h) = Some i then (nameValueTable t)(field_key h := None)
      else nameValueTable t)"
  "dynamicBytes (evict_entry h i t) = dynamicBytes t - field_size h"
  "entryTable (evict_entry h i t) = entryTable t" "maxSize (evict_entry h i t) = maxSize t"
  "nextId (evict_entry h i t) = nextId t"
  by (simp_all add: evict_entry_def)

lemma evict_entry_indexed:
  assumes "indexed_from i (e # es) t"
  shows "indexed_from (Suc i) es (evict_entry e i t)"
proof -
  have nt: "nameTable t = latest hname (e # es) i" "nameValueTable t = latest field_key (e # es) i"
    "dynamicBytes t = field_size e + total_size es"
    using assms unfolding indexed_from_def by simp_all
  show ?thesis
    unfolding indexed_from_def evict_entry_simps nt latest_drop_first [of hname] latest_drop_first [of field_key]
    by simp
qed

lemma evict_loop_spec:
  assumes "cnt \<le> length (entryTable t)" and "indexed_from (oldest + cnt) (drop cnt (entryTable t)) t"
    and "evict_loop oldest cnt t = (cnt', t')"
  shows "cnt \<le> cnt'" and "entryTable t' = entryTable t" and "maxSize t' = maxSize t" and "nextId t' = nextId t"
    and "cnt' \<le> length (entryTable t)" and "indexed_from (oldest + cnt') (drop cnt' (entryTable t)) t'"
    and "dynamicBytes t' \<le> maxSize t"
    and "cnt < cnt' \<Longrightarrow> maxSize t < total_size (drop (cnt' - 1) (entryTable t))"
proof -
  have "cnt \<le> cnt' \<and> entryTable t' = entryTable t \<and> maxSize t' = maxSize t \<and> nextId t' = nextId t \<and>
    cnt' \<le> length (entryTable t) \<and> indexed_from (oldest + cnt') (drop cnt' (entryTable t)) t' \<and>
    dynamicBytes t' \<le> maxSize t \<and> (cnt < cnt' \<longrightarrow> maxSize t < total_size (drop (cnt' - 1) (entryTable t)))"
    using assms
  proof (induction oldest cnt t rule: evict_loop.induct)
    case (1 oldest cnt t)
    show ?case
    proof (cases "maxSize t < dynamicBytes t \<and> cnt < length (entryTable t)")
      case True
      let ?t = "evict_entry (entryTable t ! cnt) (oldest + cnt) t"
      have drop: "drop cnt (entryTable t) = entryTable t ! cnt # drop (Suc cnt) (entryTable t)"
        using True by (simp add: Cons_nth_drop_Suc)
      have ix: "indexed_from (oldest + (cnt + 1)) (drop (cnt + 1) (entryTable ?t)) ?t"
        using evict_entry_indexed [of "oldest + cnt"] 1(3) drop by (simp add: evict_entry_def)
      have loop: "evict_loop oldest (cnt + 1) ?t = (cnt', t')"
        using 1(4) True by (subst (asm) evict_loop.simps) simp
      have "maxSize t < total_size (drop cnt (entryTable t))" using True 1(3) by (simp add: indexed_from_def)
      then show ?thesis
        using 1(1) [OF True _ ix loop] True
        by (auto simp: evict_entry_def less_Suc_eq_le elim: le_neq_implies_less)
    next
      case False
      then have "cnt' = cnt" "t' = t" using 1(4) by (subst (asm) evict_loop.simps, auto)+
      moreover have "dynamicBytes t \<le> maxSize t"
        using False 1(2,3) by (cases "cnt = length (entryTable t)") (auto simp: indexed_from_def)
      ultimately show ?thesis using 1(2,3) by simp
    qed
  qed
  then show "cnt \<le> cnt'" "entryTable t' = entryTable t" "maxSize t' = maxSize t" "nextId t' = nextId t"
    "cnt' \<le> length (entryTable t)" "indexed_from (oldest + cnt') (drop cnt' (entryTable t)) t'"
    "dynamicBytes t' \<le> maxSize t"
    "cnt < cnt' \<Longrightarrow> maxSize t < total_size (drop (cnt' - 1) (entryTable t))"
    by blast+
qed

lemma evict_spec:
  assumes "length (entryTable t) < nextId t" and "indexed_from (oldestId t) (entryTable t) t"
  shows "table_wf (evict t)" and "dyn (evict t) = fit (maxSize t) (dyn t)"
    and "maxSize (evict t) = maxSize t" and "nextId (evict t) = nextId t"
proof -
  obtain cnt t' where loop: "evict_loop (oldestId t) 0 t = (cnt, t')" by fastforce
  have "indexed_from (oldestId t + 0) (drop 0 (entryTable t)) t" using assms(2) by simp
  note spec = evict_loop_spec [OF le0 this loop]
  have ev: "evict t = t'\<lparr>entryTable := drop cnt (entryTable t)\<rparr>"
    using loop spec(2) by (simp add: evict_def)
  then show "maxSize (evict t) = maxSize t" "nextId (evict t) = nextId t" using spec by simp_all
  have "oldestId (evict t) = oldestId t + cnt"
    using ev spec(4,5) assms(1) by (simp add: oldestId_def)
  then show "table_wf (evict t)"
    using ev spec assms(1) by (simp add: table_wf_def indexed_from_def)
  have bytes: "total_size (drop cnt (entryTable t)) \<le> maxSize t"
    using spec(6,7) by (simp add: indexed_from_def)
  show "dyn (evict t) = fit (maxSize t) (dyn t)"
  proof (cases cnt)
    case 0
    then show ?thesis using ev bytes by (simp add: dyn_def fit_all)
  next
    case (Suc c)
    then have "drop c (entryTable t) = entryTable t ! c # drop cnt (entryTable t)"
      using spec(5) by (simp add: Cons_nth_drop_Suc)
    moreover have "dyn t = rev (drop c (entryTable t)) @ rev (take c (entryTable t))"
      unfolding dyn_def by (metis append_take_drop_id rev_append)
    ultimately show ?thesis
      using ev spec(8) bytes Suc by (simp add: dyn_def fit_prefix)
  qed
qed

lemma table_insert_spec:
  assumes "table_wf t"
  shows "table_wf (table_insert h t)" and "dyn (table_insert h t) = fit (maxSize t) (h # dyn t)"
    and "maxSize (table_insert h t) = maxSize t"
proof -
  let ?t = "(addEntry h t)\<lparr>dynamicBytes := dynamicBytes (addEntry h t) + field_size h\<rparr>"
  have "oldestId ?t = oldestId t" "length (entryTable ?t) < nextId ?t"
    using assms by (auto simp: oldestId_def addEntry_def table_wf_def)
  moreover have "oldestId t + length (entryTable t) = nextId t"
    using assms by (simp add: table_wf_def oldestId_def)
  ultimately have "indexed_from (oldestId ?t) (entryTable ?t) ?t"
    using assms by (simp add: table_wf_def indexed_from_def addEntry_def latest_snoc)
  note spec = evict_spec [OF \<open>length (entryTable ?t) < nextId ?t\<close> this]
  have ins: "table_insert h t = evict ?t" by (simp add: table_insert_def Let_def)
  show "table_wf (table_insert h t)" "dyn (table_insert h t) = fit (maxSize t) (h # dyn t)"
    "maxSize (table_insert h t) = maxSize t"
    using spec unfolding ins by (simp_all add: addEntry_def dyn_def)
qed

lemma table_setMaxSize_spec:
  assumes "table_wf t"
  shows "table_wf (table_setMaxSize m t)" and "dyn (table_setMaxSize m t) = fit m (dyn t)"
    and "maxSize (table_setMaxSize m t) = m"
proof -
  let ?t = "t\<lparr>maxSize := m\<rparr>"
  have "indexed_from (oldestId ?t) (entryTable ?t) ?t" "length (entryTable ?t) < nextId ?t"
    using assms by (auto simp: table_wf_def indexed_from_def oldestId_def)
  note spec = evict_spec [OF this(2,1)]
  show "table_wf (table_setMaxSize m t)" "dyn (table_setMaxSize m t) = fit m (dyn t)"
    "maxSize (table_setMaxSize m t) = m"
    using spec unfolding table_setMaxSize_def by (simp_all add: dyn_def)
qed

lemma HpackTable_new_wf: "table_wf HpackTable_new" "dyn HpackTable_new = []"
  by (simp_all add: table_wf_def HpackTable_new_def indexed_from_def oldestId_def dyn_def total_size_def)

section \<open>Lookups\<close>

lemma length_STATIC_ENTRY_TABLE [simp]: "length STATIC_ENTRY_TABLE = 61"
  by (simp add: STATIC_ENTRY_TABLE_def)

lemma static_values_ok:
  "list_all (\<lambda>(k, i). 0 < i \<and> i \<le> 61 \<and> field_key (STATIC_ENTRY_TABLE ! (i - 1)) = k) STATIC_NAME_VALUES"
  by (simp add: STATIC_NAME_VALUES_def STATIC_ENTRY_TABLE_def HeaderField_new_def)

lemma static_names_ok:
  "list_all (\<lambda>(n, i). 0 < i \<and> i \<le> 61 \<and> hname (STATIC_ENTRY_TABLE ! (i - 1)) = n) STATIC_NAMES"
  by (simp add: STATIC_NAMES_def STATIC_ENTRY_TABLE_def HeaderField_new_def)

lemma static_values_all: "map fst STATIC_NAME_VALUES = map field_key STATIC_ENTRY_TABLE"
  by (simp add: STATIC_NAME_VALUES_def STATIC_ENTRY_TABLE_def HeaderField_new_def)

lemma static_exact:
  assumes "STATIC_NAME_VALUE_TABLE k = Some i"
  shows "0 < i" and "i \<le> 61" and "field_key (STATIC_ENTRY_TABLE ! (i - 1)) = k"
  using map_of_SomeD [OF assms [unfolded STATIC_NAME_VALUE_TABLE_def]] static_values_ok
  by (auto simp: list_all_iff)

lemma static_name:
  assumes "STATIC_NAME_TABLE n = Some i"
  shows "0 < i" and "i \<le> 61" and "hname (STATIC_ENTRY_TABLE ! (i - 1)) = n"
  using map_of_SomeD [OF assms [unfolded STATIC_NAME_TABLE_def]] static_names_ok
  by (auto simp: list_all_iff)

lemma static_complete:
  assumes "e \<in> set STATIC_ENTRY_TABLE"
  shows "STATIC_NAME_VALUE_TABLE (field_key e) \<noteq> None"
proof -
  have "field_key e \<in> set (map fst STATIC_NAME_VALUES)" using assms unfolding static_values_all by simp
  then show ?thesis by (simp add: STATIC_NAME_VALUE_TABLE_def map_of_eq_None_iff image_iff)
qed

lemma table_at_static: "0 < i \<Longrightarrow> i \<le> 61 \<Longrightarrow> table_at i t = Some (STATIC_ENTRY_TABLE ! (i - 1))"
  by (simp add: table_at_def)

text \<open>An index names the static entries first, then the dynamic ones, newest first.\<close>

lemma table_at_spec:
  "table_at i t =
     (if i = 0 \<or> 61 + length (dyn t) < i then None
      else if i \<le> 61 then Some (STATIC_ENTRY_TABLE ! (i - 1)) else Some (dyn t ! (i - 62)))"
proof (cases "61 < i \<and> i \<le> 61 + length (dyn t)")
  case True
  then have "i - 62 < length (entryTable t)" "Suc (i - 62) = i - 61" by (auto simp: dyn_def)
  then have "entryTable t ! (length (entryTable t) - (i - 61)) = rev (entryTable t) ! (i - 62)"
    by (simp add: rev_nth)
  then show ?thesis using True by (auto simp: table_at_def dyn_def Let_def)
qed (auto simp: table_at_def dyn_def Let_def)

lemma id2Index_latest:
  assumes "table_wf t" and "latest key (entryTable t) (oldestId t) k = Some j"
  shows "\<exists>i e. id2Index j t = Some i \<and> 61 < i \<and> i \<le> 61 + length (dyn t) \<and> table_at i t = Some e \<and>
               e \<in> set (dyn t) \<and> key e = k"
proof -
  have j: "oldestId t \<le> j" "j < oldestId t + length (entryTable t)" "key (entryTable t ! (j - oldestId t)) = k"
    using latest_SomeD [OF assms(2)] by auto
  have len: "oldestId t + length (entryTable t) = nextId t" using assms(1) by (simp add: table_wf_def oldestId_def)
  let ?i = "61 + (nextId t - j)"
  have "table_at ?i t = Some (entryTable t ! (j - oldestId t))"
  proof -
    have "length (entryTable t) - (nextId t - j) = j - oldestId t" using j len by simp
    then show ?thesis using j len by (simp add: table_at_def Let_def)
  qed
  moreover have "id2Index j t = Some ?i" using j by (simp add: id2Index_def)
  moreover have "61 < ?i" "?i \<le> 61 + length (dyn t)" using j len by (auto simp: dyn_def)
  moreover have "entryTable t ! (j - oldestId t) \<in> set (dyn t)" using j by (simp add: dyn_def)
  ultimately show ?thesis using j(3) by blast
qed

text \<open>What \<open>find\<close> answers, in terms of the fields the table holds.\<close>

definition holds :: "HpackTable \<Rightarrow> HeaderField set" where
  "holds t = set STATIC_ENTRY_TABLE \<union> set (dyn t)"

lemma table_at_holds: "table_at i t = Some e \<Longrightarrow> e \<in> holds t"
  by (auto simp: table_at_spec holds_def split: if_splits)

lemma static_plain: "e \<in> set STATIC_ENTRY_TABLE \<Longrightarrow> \<not> sensitivity e"
  by (auto simp: STATIC_ENTRY_TABLE_def HeaderField_new_def)

lemma table_find_exact:
  assumes "table_wf t" and "table_find h t = (True, i)"
  shows "\<exists>e. table_at i t = Some e \<and> field_key e = field_key h" and "\<not> sensitivity h"
proof -
  have nv: "nameValueTable t = latest field_key (entryTable t) (oldestId t)"
    using assms(1) by (simp add: table_wf_def indexed_from_def)
  show "\<not> sensitivity h" using assms(2) by (auto simp: table_find_def Let_def split: option.splits)
  then consider "STATIC_NAME_VALUE_TABLE (field_key h) = Some i"
    | j where "nameValueTable t (field_key h) = Some j" "id2Index j t = Some i"
    using assms(2) by (auto simp: table_find_def Let_def split: option.splits)
  then show "\<exists>e. table_at i t = Some e \<and> field_key e = field_key h"
  proof cases
    case 1
    then show ?thesis
      using static_exact [OF 1] table_at_static [of i t] by simp
  next
    case (2 j)
    then show ?thesis using id2Index_latest [OF assms(1), of field_key] nv by force
  qed
qed

lemma table_find_name:
  assumes "table_wf t" and "table_find h t = (False, i)" and "i \<noteq> 0"
  shows "\<exists>e. table_at i t = Some e \<and> hname e = hname h"
proof -
  have nt: "nameTable t = latest hname (entryTable t) (oldestId t)"
    using assms(1) by (simp add: table_wf_def indexed_from_def)
  consider "STATIC_NAME_TABLE (hname h) = Some i"
    | j where "nameTable t (hname h) = Some j" "id2Index j t = Some i"
    using assms(2,3) by (auto simp: table_find_def Let_def split: option.splits if_splits)
  then show ?thesis
  proof cases
    case 1
    then show ?thesis using static_name [OF 1] table_at_static [of i t] by simp
  next
    case (2 j)
    then show ?thesis using id2Index_latest [OF assms(1), of hname] nt by force
  qed
qed

lemma table_find_complete:
  assumes "table_wf t" and "\<not> sensitivity h" and "e \<in> holds t" and "field_key e = field_key h"
  shows "fst (table_find h t)"
proof (cases "STATIC_NAME_VALUE_TABLE (field_key h)")
  case None
  moreover have "e \<notin> set STATIC_ENTRY_TABLE" using static_complete None assms(4) by metis
  then have "e \<in> set (entryTable t)" using assms(3) by (simp add: holds_def dyn_def)
  then have "field_key h \<in> field_key ` set (entryTable t)" 
    by (rule rev_image_eqI) (use assms(4) in simp)
  then obtain j where j: "nameValueTable t (field_key h) = Some j"
    "latest field_key (entryTable t) (oldestId t) (field_key h) = Some j"
    using assms(1) latest_None [of field_key "entryTable t" "oldestId t" "field_key h"]
    by (auto simp: table_wf_def indexed_from_def)
  ultimately show ?thesis
    using id2Index_latest [OF assms(1) j(2)] assms(2) j(1) by (auto simp: table_find_def Let_def)
qed (use assms(2) in \<open>simp add: table_find_def\<close>)

lemma table_find_bound: "table_wf t \<Longrightarrow> snd (table_find h t) \<le> 61 + length (dyn t)"
proof (cases "table_find h t")
  case (Pair b i)
  assume wf: "table_wf t"
  show ?thesis
  proof (cases "i = 0")
    case False
    then have "table_at i t \<noteq> None"
      using Pair table_find_exact(1) [OF wf] table_find_name [OF wf] by (cases b) force+
    then show ?thesis using Pair by (auto simp: table_at_spec split: if_splits)
  qed (simp add: Pair)
qed

lemma length_dyn_bound:
  assumes "table_wf t"
  shows "32 * length (dyn t) \<le> maxSize t"
proof -
  have "32 * length hs \<le> total_size hs" for hs by (induction hs) (auto simp: field_size_def)
  then show ?thesis
    using assms order_trans by (fastforce simp: table_wf_def indexed_from_def dyn_def)
qed

section \<open>The interface of the index\<close>

text \<open>
  Encoder and decoder each keep a table. What makes them agree: a lookup returns an index at
  which the other side, holding the same dynamic entries, finds the same field or name.
\<close>

locale header_index =
  fixes wf :: "'t \<Rightarrow> bool"
    and entries :: "'t \<Rightarrow> HeaderField list"
    and limit :: "'t \<Rightarrow> nat"
    and find :: "HeaderField \<Rightarrow> 't \<Rightarrow> bool \<times> nat"
    and at :: "nat \<Rightarrow> 't \<Rightarrow> HeaderField option"
    and put :: "HeaderField \<Rightarrow> 't \<Rightarrow> 't"
    and resize :: "nat \<Rightarrow> 't \<Rightarrow> 't"
  assumes find_exact: "wf t \<Longrightarrow> find h t = (True, i) \<Longrightarrow> \<exists>e. at i t = Some e \<and> field_key e = field_key h"
    and find_name: "wf t \<Longrightarrow> find h t = (False, i) \<Longrightarrow> i \<noteq> 0 \<Longrightarrow> \<exists>e. at i t = Some e \<and> hname e = hname h"
    and at_entries: "entries t = entries t' \<Longrightarrow> at i t = at i t'"
    and put_spec: "wf t \<Longrightarrow> wf (put h t) \<and> entries (put h t) = fit (limit t) (h # entries t) \<and> limit (put h t) = limit t"
    and resize_spec: "wf t \<Longrightarrow> wf (resize m t) \<and> entries (resize m t) = fit m (entries t) \<and> limit (resize m t) = m"
begin

definition agree :: "'t \<Rightarrow> 't \<Rightarrow> bool" where
  "agree t u \<longleftrightarrow> wf t \<and> wf u \<and> entries t = entries u \<and> limit t = limit u"

lemma agree_put: "agree t u \<Longrightarrow> agree (put h t) (put h u)"
  using put_spec by (simp add: agree_def)

lemma agree_resize: "agree t u \<Longrightarrow> agree (resize m t) (resize m u)"
  using resize_spec by (simp add: agree_def)

lemma agree_exact:
  "agree t u \<Longrightarrow> find h t = (True, i) \<Longrightarrow> \<exists>e. at i u = Some e \<and> field_key e = field_key h"
  using find_exact at_entries by (metis agree_def)

lemma agree_name:
  "agree t u \<Longrightarrow> find h t = (False, i) \<Longrightarrow> i \<noteq> 0 \<Longrightarrow> \<exists>e. at i u = Some e \<and> hname e = hname h"
  using find_name at_entries by (metis agree_def)

end

interpretation htable: header_index table_wf dyn maxSize table_find table_at table_insert table_setMaxSize
proof (unfold_locales, goal_cases)
  case (1 t h i)
  then show ?case by (rule table_find_exact(1))
next
  case (2 t h i)
  then show ?case by (rule table_find_name)
qed (simp_all add: table_at_spec table_insert_spec table_setMaxSize_spec)

end
