(* ===== verification/Bytes.thy ===== *)
theory Bytes
  imports Prelude "HOL-Library.While_Combinator"
begin

text \<open>
  \<open>ByteSpan\<close> (include/chttp2/byte_span.hpp) and \<open>ByteBuffer\<close> (include/chttp2/byte_buffer.hpp,
  src/byte_buffer.cpp).

  A span is the bytes it points to and its cursor; its length and cursor are 32-bit, so
  \<open>size\<close>, \<open>advance\<close> and \<open>subspan\<close> compute modulo \<open>2 ^ 32\<close>, while \<open>peek\<close> compares in
  \<open>size_t\<close>. A buffer is its allocation (a byte that was never written is \<open>None\<close>), its
  length and its capacity, again 32-bit. Growing may not end, storing past the allocation is
  undefined; both are outcomes of the model.

  The locale \<open>byte_sink\<close> is what the rest of the library relies on (appending bytes appends
  them); \<open>ByteBuffer\<close> provides it up to \<open>2 ^ 31\<close> bytes. The other theories therefore write a
  \<open>ByteBuffer\<close> as the list of its bytes.
\<close>

section \<open>ByteSpan\<close>

record ByteSpan =
  sp_data :: "u8 list"
  sp_cur :: nat

definition span_of :: "u8 list \<Rightarrow> ByteSpan" where
  "span_of bs = \<lparr>sp_data = bs, sp_cur = 0\<rparr>"

definition span_size :: "ByteSpan \<Rightarrow> nat" where
  "span_size s = (length (sp_data s) + 2 ^ 32 - sp_cur s) mod 2 ^ 32"

definition span_empty :: "ByteSpan \<Rightarrow> bool" where
  "span_empty s \<longleftrightarrow> length (sp_data s) \<le> sp_cur s"

text \<open>The bytes between \<open>begin()\<close> and \<open>end()\<close>.\<close>

definition span_rest :: "ByteSpan \<Rightarrow> u8 list" where
  "span_rest s = drop (sp_cur s) (sp_data s)"

text \<open>\<open>operator[]\<close> counts from the start of the data, not from the cursor.\<close>

definition span_at :: "ByteSpan \<Rightarrow> nat \<Rightarrow> u8 cpp" where
  "span_at s i =
     (if length (sp_data s) \<le> i then Inl (RuntimeError ''ByteSpan::operator[]: out of range'')
      else Inr (sp_data s ! i))"

definition span_advance :: "nat \<Rightarrow> ByteSpan \<Rightarrow> ByteSpan cpp" where
  "span_advance n s =
     (let c = (sp_cur s + n) mod 2 ^ 32 in
      if length (sp_data s) < c then Inl (RuntimeError ''ByteSpan::advance: out of range'')
      else Inr (s\<lparr>sp_cur := c\<rparr>))"

definition span_peek :: "nat \<Rightarrow> ByteSpan \<Rightarrow> 'a::len word cpp" where
  "span_peek n s =
     (if length (sp_data s) < sp_cur s + n then Inl (RuntimeError ''ByteSpan::peek: out of range'')
      else Inr (be_value (take n (drop (sp_cur s) (sp_data s)))))"

definition span_readAs :: "nat \<Rightarrow> ByteSpan \<Rightarrow> ('a::len word \<times> ByteSpan) cpp" where
  "span_readAs n s =
     cpp_bind (span_peek n s) (\<lambda>v. cpp_bind (span_advance n s) (\<lambda>s'. Inr (v, s')))"

definition span_subspan :: "nat \<Rightarrow> nat \<Rightarrow> ByteSpan \<Rightarrow> ByteSpan cpp" where
  "span_subspan off count s =
     (if length (sp_data s) < (sp_cur s + off + count) mod 2 ^ 32
      then Inl (RuntimeError ''ByteSpan::subspan: out of range'')
      else if length (sp_data s) < sp_cur s + off + count
      then Inl (UndefinedBehaviour ''span past the end of its data'')
      else Inr (span_of (take count (drop (sp_cur s + off) (sp_data s)))))"

text \<open>The range \<open>begin() .. begin() + n\<close> handed to \<open>ByteBuffer::from\<close>.\<close>

definition span_prefix :: "nat \<Rightarrow> ByteSpan \<Rightarrow> u8 list cpp" where
  "span_prefix n s =
     (if n \<le> length (span_rest s) then Inr (take n (span_rest s))
      else Inl (UndefinedBehaviour ''read past the end of a span''))"

definition span_wf :: "ByteSpan \<Rightarrow> bool" where
  "span_wf s \<longleftrightarrow> sp_cur s \<le> length (sp_data s) \<and> length (sp_data s) < 2 ^ 32"

section \<open>ByteBuffer\<close>

record ByteBuffer =
  bb_ptr :: "u8 option list"
  bb_len :: nat
  bb_cap :: nat

definition bb_new :: "nat \<Rightarrow> ByteBuffer" where
  "bb_new capacity = \<lparr>bb_ptr = replicate capacity None, bb_len = 0, bb_cap = capacity\<rparr>"

definition grow_capacity :: "nat \<Rightarrow> nat \<Rightarrow> nat option" where
  "grow_capacity cap needed =
     while_option (\<lambda>newCap. newCap < needed) (\<lambda>newCap. (newCap * 2) mod 2 ^ 32)
       (max 8 ((cap * 2) mod 2 ^ 32))"

definition ensureCapacity :: "nat \<Rightarrow> ByteBuffer \<Rightarrow> ByteBuffer cpp" where
  "ensureCapacity needed b =
     (if needed \<le> bb_cap b then Inr b
      else case grow_capacity (bb_cap b) needed of
             None \<Rightarrow> Inl (Diverges ''ByteBuffer::ensureCapacity'')
           | Some newCap \<Rightarrow>
               Inr (b\<lparr>bb_ptr := take (bb_len b) (bb_ptr b) @ replicate (newCap - bb_len b) None,
                      bb_cap := newCap\<rparr>))"

definition bb_store :: "u8 list \<Rightarrow> nat \<Rightarrow> ByteBuffer \<Rightarrow> ByteBuffer cpp" where
  "bb_store bs count b =
     (if bb_cap b < bb_len b + length bs
      then Inl (UndefinedBehaviour ''write past the end of an allocation'')
      else Inr (b\<lparr>bb_ptr := take (bb_len b) (bb_ptr b) @ map Some bs
                             @ drop (bb_len b + length bs) (bb_ptr b),
                  bb_len := (bb_len b + count) mod 2 ^ 32\<rparr>))"

definition bb_append :: "nat \<Rightarrow> 'a::len word \<Rightarrow> ByteBuffer \<Rightarrow> ByteBuffer cpp" where
  "bb_append n v b =
     cpp_bind (ensureCapacity ((bb_len b + n) mod 2 ^ 32) b) (bb_store (be_bytes n v) n)"

definition bb_append_range :: "u8 list \<Rightarrow> ByteBuffer \<Rightarrow> ByteBuffer cpp" where
  "bb_append_range bs b =
     (let count = length bs mod 2 ^ 32 in
      if count = 0 then Inr b
      else cpp_bind (ensureCapacity ((bb_len b + count) mod 2 ^ 32) b) (bb_store bs count))"

definition bb_from :: "u8 list \<Rightarrow> ByteBuffer cpp" where
  "bb_from bs = bb_append_range bs (bb_new 0)"

definition bb_index :: "ByteBuffer \<Rightarrow> nat \<Rightarrow> u8 option cpp" where
  "bb_index b i =
     (if bb_len b \<le> i then Inl (RuntimeError ''ByteBuffer::operator[]: out of range'')
      else Inr (bb_ptr b ! i))"

definition bb_writeAt :: "nat \<Rightarrow> 'a::len word \<Rightarrow> nat \<Rightarrow> ByteBuffer \<Rightarrow> ByteBuffer cpp" where
  "bb_writeAt n v off b =
     (if bb_len b < off + n then Inl (RuntimeError ''ByteBuffer::writeAt: out of range'')
      else Inr (b\<lparr>bb_ptr := take off (bb_ptr b) @ map Some (be_bytes n v)
                             @ drop (off + n) (bb_ptr b)\<rparr>))"

definition bb_clear :: "ByteBuffer \<Rightarrow> ByteBuffer" where
  "bb_clear b = b\<lparr>bb_len := 0\<rparr>"

text \<open>Move construction and assignment: the new owner and what is left behind.\<close>

definition bb_move :: "ByteBuffer \<Rightarrow> ByteBuffer \<times> ByteBuffer" where
  "bb_move other = (other, other\<lparr>bb_ptr := [], bb_len := 0, bb_cap := 0\<rparr>)"

text \<open>The bytes of a buffer, and what a buffer built by these operations satisfies.\<close>

definition bb_bytes :: "ByteBuffer \<Rightarrow> u8 list" where
  "bb_bytes b = map the (take (bb_len b) (bb_ptr b))"

definition bb_wf :: "ByteBuffer \<Rightarrow> bool" where
  "bb_wf b \<longleftrightarrow>
     length (bb_ptr b) = bb_cap b \<and> bb_len b \<le> bb_cap b \<and> bb_cap b < 2 ^ 32 \<and>
     None \<notin> set (take (bb_len b) (bb_ptr b))"

text \<open>\<open>buffer[pos] |= flag\<close> on the bytes of a buffer, with the range check of \<open>operator[]\<close>.\<close>

definition buf_or_at :: "nat \<Rightarrow> u8 \<Rightarrow> u8 list \<Rightarrow> u8 list cpp" where
  "buf_or_at pos flag bs =
     (if length bs \<le> pos then Inl (RuntimeError ''ByteBuffer::operator[]: out of range'')
      else Inr (bs[pos := bs ! pos OR flag]))"

section \<open>Spans\<close>

lemma span_wf_bounds:
  assumes "span_wf s" and "n \<le> length (span_rest s)"
  shows "sp_cur s + n \<le> length (sp_data s)" and "length (sp_data s) < 2 ^ 32"
  using assms by (auto simp: span_wf_def span_rest_def)

lemma span_size_wf:
  assumes "span_wf s"
  shows "span_size s = length (span_rest s)"
proof -
  from assms have "length (sp_data s) + 2 ^ 32 - sp_cur s = length (sp_data s) - sp_cur s + 2 ^ 32"
    by (simp add: span_wf_def)
  moreover from assms have "length (sp_data s) - sp_cur s < 2 ^ 32"
    unfolding span_wf_def by linarith
  ultimately show ?thesis
    unfolding span_size_def span_rest_def by (simp only: mod_add_self2 mod_less length_drop)
qed

lemma span_empty_rest: "span_empty s \<longleftrightarrow> span_rest s = []"
  by (simp add: span_empty_def span_rest_def)

lemma span_of_simps [simp]:
  "sp_data (span_of bs) = bs" "sp_cur (span_of bs) = 0" "span_rest (span_of bs) = bs"
  by (simp_all add: span_of_def span_rest_def)

lemma span_wf_of [simp]: "span_wf (span_of bs) \<longleftrightarrow> length bs < 2 ^ 32"
  by (simp add: span_wf_def span_of_def)

lemma span_rest_cur [simp]: "span_rest (s\<lparr>sp_cur := n\<rparr>) = drop n (sp_data s)"
  by (simp add: span_rest_def)

lemma span_advance_wf:
  assumes "span_wf s" and "n \<le> length (span_rest s)"
  shows "span_advance n s = Inr (s\<lparr>sp_cur := sp_cur s + n\<rparr>)"
  using span_wf_bounds [OF assms] by (simp add: span_advance_def Let_def)

lemma span_wf_advance:
  assumes "span_wf s" and "n \<le> length (span_rest s)"
  shows "span_wf (s\<lparr>sp_cur := sp_cur s + n\<rparr>)"
  using span_wf_bounds [OF assms] by (simp add: span_wf_def)

lemma span_peek_wf:
  assumes "span_wf s" and "n \<le> length (span_rest s)"
  shows "span_peek n s = Inr (be_value (take n (span_rest s)))"
  using span_wf_bounds [OF assms] by (simp add: span_peek_def span_rest_def)

lemma span_readAs_wf:
  assumes "span_wf s" and "n \<le> length (span_rest s)"
  shows "span_readAs n s = Inr (be_value (take n (span_rest s)), s\<lparr>sp_cur := sp_cur s + n\<rparr>)"
  using assms by (simp add: span_readAs_def span_peek_wf span_advance_wf)

lemma span_readAs_short:
  assumes "length (span_rest s) < n" and "sp_cur s \<le> length (sp_data s)"
  shows "span_readAs n s = Inl (RuntimeError ''ByteSpan::peek: out of range'')"
  using assms by (auto simp: span_readAs_def span_peek_def span_rest_def)

lemma span_subspan_wf:
  assumes "span_wf s" and "n \<le> length (span_rest s)"
  shows "span_subspan 0 n s = Inr (span_of (take n (span_rest s)))"
  using span_wf_bounds [OF assms] by (simp add: span_subspan_def span_rest_def)

section \<open>Growing a buffer\<close>

lemma grow_capacity_ends:
  assumes "needed \<le> 2 ^ 31" and "cap < 2 ^ 32"
  shows "\<exists>c. grow_capacity cap needed = Some c \<and> needed \<le> c \<and> c < 2 ^ 32"
proof -
  let ?b = "\<lambda>c. c < needed" and ?c = "\<lambda>c. (c * 2) mod 2 ^ 32"
  let ?P = "\<lambda>c :: nat. 8 \<le> c \<and> c < 2 ^ 32"
  have start: "?P (max 8 ((cap * 2) mod 2 ^ 32))" by simp
  have step: "?P (?c c) \<and> c < ?c c" if "?P c" and "?b c" for c
    using that assms(1) by simp
  have "\<exists>t. while_option ?b ?c (max 8 ((cap * 2) mod 2 ^ 32)) = Some t"
    by (rule measure_while_option_Some [where P = ?P and f = "\<lambda>c. needed - c"])
       (use start step in fastforce)+
  then obtain t where t: "while_option ?b ?c (max 8 ((cap * 2) mod 2 ^ 32)) = Some t" ..
  have "?P t" by (rule while_option_rule [OF _ t, where P = ?P]) (use start step in blast)+
  moreover have "\<not> t < needed" using while_option_stop [OF t] .
  ultimately show ?thesis using t by (simp add: grow_capacity_def)
qed

text \<open>From an empty buffer on, a capacity is zero or a power of two.\<close>

definition power_cap :: "nat \<Rightarrow> bool" where
  "power_cap c \<longleftrightarrow> c = 0 \<or> (\<exists>j\<le>31. c = 2 ^ j)"

lemma power_cap_le: "power_cap c \<Longrightarrow> c \<le> 2 ^ 31"
  using power_increasing [of _ 31 "2 :: nat"] by (auto simp: power_cap_def)

lemma power_cap_double:
  assumes "power_cap c"
  shows "power_cap ((c * 2) mod 2 ^ 32)"
proof (cases "c = 0 \<or> c = 2 ^ 31")
  case False
  with assms obtain j where j: "c = 2 ^ j" "j < 31" by (auto simp: power_cap_def order_le_less)
  then have "(2 :: nat) ^ Suc j < 2 ^ 32" by (intro power_strict_increasing) auto
  with j show ?thesis unfolding power_cap_def by (intro disjI2 exI [of _ "Suc j"]) simp
qed (auto simp: power_cap_def)

lemma grow_capacity_power:
  assumes "power_cap cap" and "grow_capacity cap needed = Some c"
  shows "power_cap c" and "needed \<le> c"
proof -
  let ?start = "max 8 ((cap * 2) mod 2 ^ 32)"
  have w: "while_option (\<lambda>c. c < needed) (\<lambda>c. (c * 2) mod 2 ^ 32) ?start = Some c"
    using assms(2) by (simp add: grow_capacity_def)
  have "power_cap 8" unfolding power_cap_def by (intro disjI2 exI [of _ 3]) simp
  then have "power_cap ?start" using power_cap_double [OF assms(1)] by (simp add: max_def)
  then show "power_cap c"
    by (intro while_option_rule [OF _ w, where P = power_cap] power_cap_double)
  show "needed \<le> c" using while_option_stop [OF w] by simp
qed

lemma grow_capacity_diverges:
  assumes "2 ^ 31 < needed" and "power_cap cap"
  shows "grow_capacity cap needed = None"
proof (cases "grow_capacity cap needed")
  case (Some c)
  then show ?thesis using grow_capacity_power [OF assms(2) Some] power_cap_le [of c] assms(1) by simp
qed

lemma ensureCapacity_wf:
  assumes "bb_wf b" and "needed \<le> 2 ^ 31"
  shows "\<exists>b'. ensureCapacity needed b = Inr b' \<and> bb_wf b' \<and> bb_bytes b' = bb_bytes b
              \<and> needed \<le> bb_cap b' \<and> bb_len b' = bb_len b"
proof (cases "needed \<le> bb_cap b")
  case True
  with assms show ?thesis by (simp add: ensureCapacity_def)
next
  case False
  from assms obtain c where c: "grow_capacity (bb_cap b) needed = Some c"
    and le: "needed \<le> c" "c < 2 ^ 32"
    using grow_capacity_ends by (metis bb_wf_def)
  with False assms show ?thesis
    by (auto simp: ensureCapacity_def bb_wf_def bb_bytes_def)
qed

lemma bb_store_wf:
  assumes "bb_wf b" and "bb_len b + length bs \<le> bb_cap b"
  shows "\<exists>b'. bb_store bs (length bs) b = Inr b' \<and> bb_wf b' \<and> bb_bytes b' = bb_bytes b @ bs"
  using assms by (auto simp: bb_store_def bb_wf_def bb_bytes_def comp_def)

lemma bb_append_range_wf:
  assumes "bb_wf b" and "length (bb_bytes b) + length bs \<le> 2 ^ 31"
  shows "\<exists>b'. bb_append_range bs b = Inr b' \<and> bb_wf b' \<and> bb_bytes b' = bb_bytes b @ bs"
proof (cases "bs = []")
  case True
  with assms show ?thesis by (simp add: bb_append_range_def)
next
  case False
  have len: "length (bb_bytes b) = bb_len b"
    using assms(1) by (simp add: bb_bytes_def bb_wf_def)
  obtain b1 where b1: "ensureCapacity (bb_len b + length bs) b = Inr b1" "bb_wf b1"
      "bb_bytes b1 = bb_bytes b" "bb_len b + length bs \<le> bb_cap b1" "bb_len b1 = bb_len b"
    using ensureCapacity_wf [OF assms(1), of "bb_len b + length bs"] assms(2) len by auto
  then show ?thesis
    using False assms(2) len bb_store_wf [OF b1(2), of bs] by (auto simp: bb_append_range_def)
qed

lemma append_range_exact:
  assumes "bb_wf b" and "power_cap (bb_cap b)" and "length (bb_bytes b) + length bs < 2 ^ 32"
  shows "if bs \<noteq> [] \<and> 2 ^ 31 < length (bb_bytes b) + length bs
    then bb_append_range bs b = Inl (Diverges ''ByteBuffer::ensureCapacity'')
    else \<exists>b'. bb_append_range bs b = Inr b' \<and> bb_wf b' \<and> power_cap (bb_cap b') \<and> bb_bytes b' = bb_bytes b @ bs"
proof -
  have len: "length (bb_bytes b) = bb_len b" using assms(1) by (auto simp: bb_wf_def bb_bytes_def)
  consider "bs = []" | "bs \<noteq> []" "2 ^ 31 < bb_len b + length bs" | "bs \<noteq> []" "bb_len b + length bs \<le> 2 ^ 31" by linarith
  then show ?thesis
  proof cases
    case 1
    then show ?thesis using assms by (auto simp: bb_append_range_def)
  next
    case 2
    then have "bb_cap b < bb_len b + length bs" using power_cap_le [OF assms(2)] by simp
    then have "ensureCapacity (bb_len b + length bs) b = Inl (Diverges ''ByteBuffer::ensureCapacity'')"
      using grow_capacity_diverges [OF 2(2) assms(2)] by (simp add: ensureCapacity_def)
    then show ?thesis using 2 len assms(3) by (simp add: bb_append_range_def Let_def)
  next
    case 3
    then obtain b' where b': "bb_append_range bs b = Inr b'" "bb_wf b'" "bb_bytes b' = bb_bytes b @ bs"
      using bb_append_range_wf [OF assms(1), of bs] len by auto
    then have "bb_cap b' = bb_cap b \<or> grow_capacity (bb_cap b) (bb_len b + length bs) = Some (bb_cap b')"
      using 3 by (auto simp: bb_append_range_def bb_store_def ensureCapacity_def Let_def cpp_simps split: if_splits option.splits)
    then have "power_cap (bb_cap b')" using assms(2) grow_capacity_power(1) [OF assms(2)] by metis
    then show ?thesis using 3 b' len by auto
  qed
qed

lemma bb_append_wf:
  assumes "bb_wf b" and "length (bb_bytes b) + n \<le> 2 ^ 31"
  shows "\<exists>b'. bb_append n v b = Inr b' \<and> bb_wf b' \<and> bb_bytes b' = bb_bytes b @ be_bytes n v"
proof -
  have len: "length (bb_bytes b) = bb_len b"
    using assms(1) by (simp add: bb_bytes_def bb_wf_def)
  obtain b1 where b1: "ensureCapacity (bb_len b + n) b = Inr b1" "bb_wf b1"
      "bb_bytes b1 = bb_bytes b" "bb_len b + n \<le> bb_cap b1" "bb_len b1 = bb_len b"
    using ensureCapacity_wf [OF assms(1), of "bb_len b + n"] assms(2) len by auto
  then show ?thesis
    using assms(2) len bb_store_wf [OF b1(2), of "be_bytes n v"] by (auto simp: bb_append_def)
qed

lemma bb_new_wf: "capacity < 2 ^ 32 \<Longrightarrow> bb_wf (bb_new capacity) \<and> bb_bytes (bb_new capacity) = []"
  by (simp add: bb_new_def bb_wf_def bb_bytes_def)

section \<open>The interface the rest of the library uses\<close>

locale byte_sink =
  fixes bytes :: "'b \<Rightarrow> u8 list"
    and wf :: "'b \<Rightarrow> bool"
    and put :: "u8 list \<Rightarrow> 'b \<Rightarrow> 'b cpp"
    and limit :: nat
  assumes put_appends: "wf b \<Longrightarrow> length (bytes b) + length bs \<le> limit \<Longrightarrow>
    \<exists>b'. put bs b = Inr b' \<and> wf b' \<and> bytes b' = bytes b @ bs"
begin

lemma put_all:
  assumes "wf b" and "length (bytes b) + length (concat bss) \<le> limit"
  shows "\<exists>b'. fold (\<lambda>bs m. cpp_bind m (put bs)) bss (Inr b) = Inr b' \<and> wf b'
              \<and> bytes b' = bytes b @ concat bss"
  using assms
proof (induction bss arbitrary: b)
  case (Cons bs bss)
  from Cons.prems obtain b1 where "put bs b = Inr b1" "wf b1" "bytes b1 = bytes b @ bs"
    using put_appends [of b bs] by auto
  with Cons.IH [of b1] Cons.prems show ?case by simp
qed simp

end

interpretation bb: byte_sink bb_bytes bb_wf bb_append_range "2 ^ 31"
  by unfold_locales (rule bb_append_range_wf)

end
