(* ===== verification/Constants.thy ===== *)
theory Constants
  imports Prelude
begin

text \<open>
  The enumerations and constants of include/chttp2/http2_constants.hpp.

  \<open>FrameType\<close> and \<open>ErrorCode\<close> are scoped enumerations with a fixed underlying type, and the
  code casts arbitrary bytes to them, so each has a constructor for the values without a
  name. \<open>ft_value\<close>/\<open>ft_of\<close> and \<open>ec_value\<close>/\<open>ec_of\<close> are the \<open>static_cast\<close>s.
\<close>

type_synonym StreamId = u32

definition HTTP2_CONNECTION_PREFACE :: string where
  "HTTP2_CONNECTION_PREFACE =
     ''PRI * HTTP/2.0'' @ [CHR 0x0D, CHR 0x0A, CHR 0x0D, CHR 0x0A] @ ''SM''
       @ [CHR 0x0D, CHR 0x0A, CHR 0x0D, CHR 0x0A]"

section \<open>Frame types and flags\<close>

datatype FrameType =
    FT_DATA | FT_HEADERS | FT_PRIORITY | FT_RST_STREAM | FT_SETTINGS | FT_PUSH_PROMISE
  | FT_PING | FT_GOAWAY | FT_WINDOW_UPDATE | FT_CONTINUATION | FT_INVALID
  | FT_OTHER u8

fun ft_value :: "FrameType \<Rightarrow> u8" where
  "ft_value FT_DATA = 0x0"
| "ft_value FT_HEADERS = 0x1"
| "ft_value FT_PRIORITY = 0x2"
| "ft_value FT_RST_STREAM = 0x3"
| "ft_value FT_SETTINGS = 0x4"
| "ft_value FT_PUSH_PROMISE = 0x5"
| "ft_value FT_PING = 0x6"
| "ft_value FT_GOAWAY = 0x7"
| "ft_value FT_WINDOW_UPDATE = 0x8"
| "ft_value FT_CONTINUATION = 0x9"
| "ft_value FT_INVALID = 0xff"
| "ft_value (FT_OTHER b) = b"

definition ft_of :: "u8 \<Rightarrow> FrameType" where
  "ft_of b =
     (if b = 0x0 then FT_DATA else if b = 0x1 then FT_HEADERS
      else if b = 0x2 then FT_PRIORITY else if b = 0x3 then FT_RST_STREAM
      else if b = 0x4 then FT_SETTINGS else if b = 0x5 then FT_PUSH_PROMISE
      else if b = 0x6 then FT_PING else if b = 0x7 then FT_GOAWAY
      else if b = 0x8 then FT_WINDOW_UPDATE else if b = 0x9 then FT_CONTINUATION
      else if b = 0xff then FT_INVALID else FT_OTHER b)"

datatype FrameFlag = FF_END_STREAM | FF_ACK | FF_END_HEADERS | FF_PADDED | FF_PRIORITY

fun ff_value :: "FrameFlag \<Rightarrow> u8" where
  "ff_value FF_END_STREAM = 0x1"
| "ff_value FF_ACK = 0x1"
| "ff_value FF_END_HEADERS = 0x4"
| "ff_value FF_PADDED = 0x8"
| "ff_value FF_PRIORITY = 0x20"

section \<open>Error codes\<close>

datatype ErrorCode =
    EC_NO_ERROR | EC_PROTOCOL_ERROR | EC_INTERNAL_ERROR | EC_FLOW_CONTROL_ERROR
  | EC_SETTINGS_TIMEOUT | EC_STREAM_CLOSED | EC_FRAME_SIZE_ERROR | EC_REFUSED_STREAM
  | EC_CANCEL | EC_COMPRESSION_ERROR | EC_CONNECT_ERROR | EC_ENHANCE_YOUR_CALM
  | EC_INADEQUATE_SECURITY | EC_HTTP_1_1_REQUIRED
  | EC_OTHER u32

fun ec_value :: "ErrorCode \<Rightarrow> u32" where
  "ec_value EC_NO_ERROR = 0x0"
| "ec_value EC_PROTOCOL_ERROR = 0x1"
| "ec_value EC_INTERNAL_ERROR = 0x2"
| "ec_value EC_FLOW_CONTROL_ERROR = 0x3"
| "ec_value EC_SETTINGS_TIMEOUT = 0x4"
| "ec_value EC_STREAM_CLOSED = 0x5"
| "ec_value EC_FRAME_SIZE_ERROR = 0x6"
| "ec_value EC_REFUSED_STREAM = 0x7"
| "ec_value EC_CANCEL = 0x8"
| "ec_value EC_COMPRESSION_ERROR = 0x9"
| "ec_value EC_CONNECT_ERROR = 0xa"
| "ec_value EC_ENHANCE_YOUR_CALM = 0xb"
| "ec_value EC_INADEQUATE_SECURITY = 0xc"
| "ec_value EC_HTTP_1_1_REQUIRED = 0xd"
| "ec_value (EC_OTHER v) = v"

definition ec_of :: "u32 \<Rightarrow> ErrorCode" where
  "ec_of v =
     (if v = 0x0 then EC_NO_ERROR else if v = 0x1 then EC_PROTOCOL_ERROR
      else if v = 0x2 then EC_INTERNAL_ERROR else if v = 0x3 then EC_FLOW_CONTROL_ERROR
      else if v = 0x4 then EC_SETTINGS_TIMEOUT else if v = 0x5 then EC_STREAM_CLOSED
      else if v = 0x6 then EC_FRAME_SIZE_ERROR else if v = 0x7 then EC_REFUSED_STREAM
      else if v = 0x8 then EC_CANCEL else if v = 0x9 then EC_COMPRESSION_ERROR
      else if v = 0xa then EC_CONNECT_ERROR else if v = 0xb then EC_ENHANCE_YOUR_CALM
      else if v = 0xc then EC_INADEQUATE_SECURITY else if v = 0xd then EC_HTTP_1_1_REQUIRED
      else EC_OTHER v)"

section \<open>Settings and stream states\<close>

datatype Http2SettingParameter =
    SP_HEADER_TABLE_SIZE | SP_ENABLE_PUSH | SP_MAX_CONCURRENT_STREAMS | SP_INITIAL_WINDOW_SIZE
  | SP_MAX_FRAME_SIZE | SP_MAX_HEADER_LIST_SIZE
  | SP_OTHER u16

fun sp_value :: "Http2SettingParameter \<Rightarrow> u16" where
  "sp_value SP_HEADER_TABLE_SIZE = 0x1"
| "sp_value SP_ENABLE_PUSH = 0x2"
| "sp_value SP_MAX_CONCURRENT_STREAMS = 0x3"
| "sp_value SP_INITIAL_WINDOW_SIZE = 0x4"
| "sp_value SP_MAX_FRAME_SIZE = 0x5"
| "sp_value SP_MAX_HEADER_LIST_SIZE = 0x6"
| "sp_value (SP_OTHER v) = v"

definition sp_of :: "u16 \<Rightarrow> Http2SettingParameter" where
  "sp_of v =
     (if v = 0x1 then SP_HEADER_TABLE_SIZE else if v = 0x2 then SP_ENABLE_PUSH
      else if v = 0x3 then SP_MAX_CONCURRENT_STREAMS else if v = 0x4 then SP_INITIAL_WINDOW_SIZE
      else if v = 0x5 then SP_MAX_FRAME_SIZE else if v = 0x6 then SP_MAX_HEADER_LIST_SIZE
      else SP_OTHER v)"

definition isSupportedHttp2SettingParameter :: "u32 \<Rightarrow> bool" where
  "isSupportedHttp2SettingParameter param \<longleftrightarrow>
     0 < param \<and> param \<le> ucast (sp_value SP_MAX_HEADER_LIST_SIZE)"

datatype StreamState =
    SS_IDLE | SS_RESERVED_LOCAL | SS_RESERVED_REMOTE | SS_OPEN | SS_HALF_CLOSED_LOCAL
  | SS_HALF_CLOSED_REMOTE | SS_CLOSED

definition defaultMaxConcurrentStreams :: u32 where "defaultMaxConcurrentStreams = 250"
definition defaultHeaderTableSize :: u32 where "defaultHeaderTableSize = 4096"
definition defaultEnablePush :: bool where "defaultEnablePush = False"
definition defaultInitialWindowSize :: u32 where "defaultInitialWindowSize = 65535"
definition maximumWindowSize :: u32 where "maximumWindowSize = 0x7fffffff"
definition defaultMaxFrameSize :: u32 where "defaultMaxFrameSize = 16384"
definition minimumMaxFrameSize :: u32 where "minimumMaxFrameSize = 16384"
definition maximumMaxFrameSize :: u32 where "maximumMaxFrameSize = push_bit 24 1 - 1"
definition defaultMaxHeaderListSize :: u32 where
  "defaultMaxHeaderListSize = 10 * push_bit 20 1"

lemmas setting_defaults =
  defaultMaxConcurrentStreams_def defaultHeaderTableSize_def defaultEnablePush_def
  defaultInitialWindowSize_def maximumWindowSize_def defaultMaxFrameSize_def
  minimumMaxFrameSize_def maximumMaxFrameSize_def defaultMaxHeaderListSize_def

section \<open>Names\<close>

fun frameTypeString :: "FrameType \<Rightarrow> string" where
  "frameTypeString FT_DATA = ''DATA''"
| "frameTypeString FT_HEADERS = ''HEADERS''"
| "frameTypeString FT_PRIORITY = ''PRIORITY''"
| "frameTypeString FT_RST_STREAM = ''RST_STREAM''"
| "frameTypeString FT_SETTINGS = ''SETTINGS''"
| "frameTypeString FT_PUSH_PROMISE = ''PUSH_PROMISE''"
| "frameTypeString FT_PING = ''PING''"
| "frameTypeString FT_GOAWAY = ''GOAWAY''"
| "frameTypeString FT_WINDOW_UPDATE = ''WINDOW_UPDATE''"
| "frameTypeString FT_CONTINUATION = ''CONTINUATION''"
| "frameTypeString _ = ''INVALID''"

fun errorCodeString :: "ErrorCode \<Rightarrow> string" where
  "errorCodeString EC_NO_ERROR = ''NO_ERROR''"
| "errorCodeString EC_PROTOCOL_ERROR = ''PROTOCOL_ERROR''"
| "errorCodeString EC_INTERNAL_ERROR = ''INTERNAL_ERROR''"
| "errorCodeString EC_FLOW_CONTROL_ERROR = ''FLOW_CONTROL_ERROR''"
| "errorCodeString EC_SETTINGS_TIMEOUT = ''SETTINGS_TIMEOUT''"
| "errorCodeString EC_STREAM_CLOSED = ''STREAM_CLOSED''"
| "errorCodeString EC_FRAME_SIZE_ERROR = ''FRAME_SIZE_ERROR''"
| "errorCodeString EC_REFUSED_STREAM = ''REFUSED_STREAM''"
| "errorCodeString EC_CANCEL = ''CANCEL''"
| "errorCodeString EC_COMPRESSION_ERROR = ''COMPRESSION_ERROR''"
| "errorCodeString EC_CONNECT_ERROR = ''CONNECT_ERROR''"
| "errorCodeString EC_ENHANCE_YOUR_CALM = ''ENHANCE_YOUR_CALM''"
| "errorCodeString EC_INADEQUATE_SECURITY = ''INADEQUATE_SECURITY''"
| "errorCodeString EC_HTTP_1_1_REQUIRED = ''HTTP_1_1_REQUIRED''"
| "errorCodeString (EC_OTHER _) = ''UNKNOWN''"

fun streamStateString :: "StreamState \<Rightarrow> string" where
  "streamStateString SS_IDLE = ''IDLE''"
| "streamStateString SS_RESERVED_LOCAL = ''RESERVED_LOCAL''"
| "streamStateString SS_RESERVED_REMOTE = ''RESERVED_REMOTE''"
| "streamStateString SS_OPEN = ''OPEN''"
| "streamStateString SS_HALF_CLOSED_LOCAL = ''HALF_CLOSED_LOCAL''"
| "streamStateString SS_HALF_CLOSED_REMOTE = ''HALF_CLOSED_REMOTE''"
| "streamStateString SS_CLOSED = ''CLOSED''"

section \<open>The casts\<close>

text \<open>A named value is the image of its cast; only such values occur in the program.\<close>

definition ft_named :: "FrameType \<Rightarrow> bool" where
  "ft_named t \<longleftrightarrow> ft_of (ft_value t) = t"

definition ec_named :: "ErrorCode \<Rightarrow> bool" where
  "ec_named c \<longleftrightarrow> ec_of (ec_value c) = c"

lemma ft_value_of [simp]: "ft_value (ft_of b) = b"
  by (simp add: ft_of_def)

lemma ec_value_of [simp]: "ec_value (ec_of v) = v"
  by (simp add: ec_of_def)

lemma sp_value_of [simp]: "sp_value (sp_of v) = v"
  by (simp add: sp_of_def)

lemma ft_named_simps [simp]:
  "ft_named FT_DATA" "ft_named FT_HEADERS" "ft_named FT_PRIORITY" "ft_named FT_RST_STREAM"
  "ft_named FT_SETTINGS" "ft_named FT_PUSH_PROMISE" "ft_named FT_PING" "ft_named FT_GOAWAY"
  "ft_named FT_WINDOW_UPDATE" "ft_named FT_CONTINUATION" "ft_named FT_INVALID"
  "ft_named (ft_of b)"
  by (simp_all add: ft_named_def) (simp_all add: ft_of_def)

lemma ec_named_of [simp]: "ec_named (ec_of v)"
  by (simp add: ec_named_def)

lemma isSupportedHttp2SettingParameter_iff:
  "isSupportedHttp2SettingParameter (ucast v) \<longleftrightarrow> (\<forall>w. sp_of v \<noteq> SP_OTHER w)" for v :: u16
proof -
  have "unat v < 2 ^ 32" using unsigned_less [of v, where 'a = nat] by simp
  then have "(0 :: u32) < ucast v \<and> ucast v \<le> (6 :: u32) \<longleftrightarrow> 0 < unat v \<and> unat v \<le> 6"
    by (simp add: word_less_nat_alt word_le_nat_alt unsigned_ucast_eq take_bit_nat_eq_self)
  also have "\<dots> \<longleftrightarrow> unat v \<in> {1, 2, 3, 4, 5, 6}" by auto
  also have "\<dots> \<longleftrightarrow> v \<in> {1, 2, 3, 4, 5, 6}"
    by (simp add: word_unat_eq_iff)
  finally show ?thesis by (auto simp: isSupportedHttp2SettingParameter_def sp_of_def)
qed

end
