(* ===== verification/Frames.thy ===== *)
theory Frames
  imports Bytes Constants
begin

text \<open>
  Frames on the wire: include/chttp2/frame.hpp, src/frame.cpp and the incremental splitter
  \<open>FrameCodec\<close> of src/frame_codec.cpp.

  Each frame struct is a record; \<open>X_of_raw\<close> is the constructor that reads it from a raw
  frame through a \<open>ByteSpan\<close>, \<open>X_toBytes\<close> its serialisation. The three padded frames share
  \<open>read_pad\<close> (the optional pad length) and \<open>split_padding\<close> (data, then padding).
  \<open>FrameCodec\<close> is its buffered bytes. The lemmas show that every frame a client can build
  is read back from its bytes, and that the splitter is a \<open>wire_codec\<close>.
\<close>

section \<open>Frame headers\<close>

record FrameHeader =
  payloadLength :: u32
  ftype :: FrameType
  flags :: u8
  streamId :: StreamId

definition FrameHeader_new :: "FrameType \<Rightarrow> StreamId \<Rightarrow> FrameHeader" where
  "FrameHeader_new t sid = \<lparr>payloadLength = 0, ftype = t, flags = 0, streamId = sid\<rparr>"

definition encodedSize :: nat where
  "encodedSize = 9"

definition hasAnyFlag :: "FrameFlag \<Rightarrow> FrameHeader \<Rightarrow> bool" where
  "hasAnyFlag f h \<longleftrightarrow> (flags h AND ff_value f) \<noteq> 0"

definition retainFlag :: "FrameFlag \<Rightarrow> FrameHeader \<Rightarrow> FrameHeader" where
  "retainFlag f h = h\<lparr>flags := flags h AND ff_value f\<rparr>"

definition setFlag :: "FrameFlag \<Rightarrow> FrameHeader \<Rightarrow> FrameHeader" where
  "setFlag f h = h\<lparr>flags := flags h OR ff_value f\<rparr>"

definition FrameHeader_decode :: "ByteSpan \<Rightarrow> FrameHeader cpp" where
  "FrameHeader_decode s =
     (if span_size s \<noteq> 9 then Inl (AssertionFailed ''data.size() == 9'')
      else cpp_bind (span_at s 0) (\<lambda>d0. cpp_bind (span_at s 1) (\<lambda>d1.
           cpp_bind (span_at s 2) (\<lambda>d2. cpp_bind (span_at s 3) (\<lambda>d3.
           cpp_bind (span_at s 4) (\<lambda>d4. cpp_bind (span_at s 5) (\<lambda>d5.
           cpp_bind (span_at s 6) (\<lambda>d6. cpp_bind (span_at s 7) (\<lambda>d7.
           cpp_bind (span_at s 8) (\<lambda>d8.
             Inr \<lparr>payloadLength = push_bit 16 (ucast d0) OR push_bit 8 (ucast d1) OR ucast d2,
                  ftype = ft_of d3,
                  flags = d4,
                  streamId = (push_bit 24 (ucast d5) OR push_bit 16 (ucast d6)
                              OR push_bit 8 (ucast d7) OR ucast d8) AND 0x7FFFFFFF\<rparr>))))))))))"

definition FrameHeader_encode :: "FrameHeader \<Rightarrow> u8 list" where
  "FrameHeader_encode h =
     [ucast (drop_bit 16 (payloadLength h)), ucast (drop_bit 8 (payloadLength h)),
      ucast (payloadLength h), ft_value (ftype h), flags h,
      ucast (drop_bit 24 (streamId h)), ucast (drop_bit 16 (streamId h)),
      ucast (drop_bit 8 (streamId h)), ucast (streamId h)]"

record RawFrame =
  rf_header :: FrameHeader
  rf_data :: "u8 list"

section \<open>Padding\<close>

definition read_pad :: "FrameHeader \<Rightarrow> ByteSpan \<Rightarrow> (u8 \<times> ByteSpan) cpp" where
  "read_pad h payload =
     (if hasAnyFlag FF_PADDED h
      then cpp_bind (span_at payload 0) (\<lambda>p. cpp_bind (span_advance 1 payload) (\<lambda>s. Inr (p, s)))
      else Inr (0, payload))"

definition split_padding :: "u8 \<Rightarrow> ByteSpan \<Rightarrow> (u8 list \<times> u8 list) cpp" where
  "split_padding pad payload =
     (if 0 < pad
      then let dataSize = (span_size payload + 2 ^ 32 - unat pad) mod 2 ^ 32 in
        cpp_bind (span_prefix dataSize payload) (\<lambda>d.
        cpp_bind (span_advance dataSize payload) (\<lambda>s. Inr (d, span_rest s)))
      else Inr (span_rest payload, []))"

section \<open>The frames\<close>

record DataFrame =
  df_header :: FrameHeader
  df_padLength :: u8
  df_data :: "u8 list"
  df_padding :: "u8 list"

definition DataFrame_new :: "StreamId \<Rightarrow> DataFrame" where
  "DataFrame_new sid =
     \<lparr>df_header = FrameHeader_new FT_DATA sid, df_padLength = 0, df_data = [], df_padding = []\<rparr>"

definition DataFrame_of_raw :: "RawFrame \<Rightarrow> DataFrame cpp" where
  "DataFrame_of_raw fr =
     cpp_bind (read_pad (rf_header fr) (span_of (rf_data fr))) (\<lambda>(pad, payload).
     cpp_bind (split_padding pad payload) (\<lambda>(d, p).
       Inr \<lparr>df_header = rf_header fr, df_padLength = pad, df_data = d, df_padding = p\<rparr>))"

definition DataFrame_toBytes :: "DataFrame \<Rightarrow> u8 list" where
  "DataFrame_toBytes f =
     FrameHeader_encode (df_header f)
     @ (if hasAnyFlag FF_PADDED (df_header f) then [df_padLength f] else [])
     @ df_data f
     @ (if hasAnyFlag FF_PADDED (df_header f) then df_padding f else [])"

record HeadersFrame =
  hf_header :: FrameHeader
  hf_padLength :: u8
  hf_streamDependency :: u32
  hf_weight :: u8
  hf_data :: "u8 list"
  hf_padding :: "u8 list"

definition HeadersFrame_new :: "StreamId \<Rightarrow> HeadersFrame" where
  "HeadersFrame_new sid =
     \<lparr>hf_header = FrameHeader_new FT_HEADERS sid, hf_padLength = 0, hf_streamDependency = 0,
      hf_weight = 0, hf_data = [], hf_padding = []\<rparr>"

definition read_priority :: "FrameHeader \<Rightarrow> ByteSpan \<Rightarrow> (u32 \<times> u8 \<times> ByteSpan) cpp" where
  "read_priority h payload =
     (if hasAnyFlag FF_PRIORITY h
      then cpp_bind (span_readAs 4 payload) (\<lambda>(dep, s).
           cpp_bind (span_readAs 1 s) (\<lambda>(w, s'). Inr (dep, w, s')))
      else Inr (0, 0, payload))"

definition HeadersFrame_of_raw :: "RawFrame \<Rightarrow> HeadersFrame cpp" where
  "HeadersFrame_of_raw fr =
     cpp_bind (read_pad (rf_header fr) (span_of (rf_data fr))) (\<lambda>(pad, payload).
     cpp_bind (read_priority (rf_header fr) payload) (\<lambda>(dep, w, payload').
     cpp_bind (split_padding pad payload') (\<lambda>(d, p).
       Inr \<lparr>hf_header = rf_header fr, hf_padLength = pad, hf_streamDependency = dep,
            hf_weight = w, hf_data = d, hf_padding = p\<rparr>)))"

definition HeadersFrame_toBytes :: "HeadersFrame \<Rightarrow> u8 list" where
  "HeadersFrame_toBytes f =
     FrameHeader_encode (hf_header f)
     @ (if hasAnyFlag FF_PADDED (hf_header f) then [hf_padLength f] else [])
     @ (if hasAnyFlag FF_PRIORITY (hf_header f)
        then be_bytes 4 (hf_streamDependency f) @ [hf_weight f] else [])
     @ hf_data f
     @ (if hasAnyFlag FF_PADDED (hf_header f) then hf_padding f else [])"

record RstStreamFrame =
  rst_header :: FrameHeader
  rst_errorCode :: u32

definition RstStreamFrame_new :: "StreamId \<Rightarrow> RstStreamFrame" where
  "RstStreamFrame_new sid = \<lparr>rst_header = FrameHeader_new FT_RST_STREAM sid, rst_errorCode = 0\<rparr>"

definition RstStreamFrame_of_raw :: "RawFrame \<Rightarrow> RstStreamFrame cpp" where
  "RstStreamFrame_of_raw fr =
     cpp_bind (span_readAs 4 (span_of (rf_data fr))) (\<lambda>(e, _).
       Inr \<lparr>rst_header = rf_header fr, rst_errorCode = e\<rparr>)"

definition RstStreamFrame_toBytes :: "RstStreamFrame \<Rightarrow> u8 list" where
  "RstStreamFrame_toBytes f = FrameHeader_encode (rst_header f) @ be_bytes 4 (rst_errorCode f)"

record SettingFrame =
  sf_header :: FrameHeader
  sf_settings :: "(u16 \<times> u32) list"

definition SettingFrame_new :: "StreamId \<Rightarrow> SettingFrame" where
  "SettingFrame_new sid = \<lparr>sf_header = FrameHeader_new FT_SETTINGS sid, sf_settings = []\<rparr>"

text \<open>The loop \<open>while (!payload.empty())\<close> reads two and four bytes; a shorter rest throws.\<close>

function read_settings :: "ByteSpan \<Rightarrow> (u16 \<times> u32) list \<Rightarrow> (u16 \<times> u32) list cpp" where
  "read_settings payload acc =
     (if span_empty payload then Inr acc
      else case span_readAs 2 payload of
        Inl e \<Rightarrow> Inl e
      | Inr (i, s) \<Rightarrow> (case span_readAs 4 s of
          Inl e \<Rightarrow> Inl e
        | Inr (v, s') \<Rightarrow>
            if length (span_rest s') < length (span_rest payload)
            then read_settings s' (acc @ [(i, v)])
            else Inl (UndefinedBehaviour ''span cursor wrapped around'')))"
  by pat_completeness auto
termination
  by (relation "measure (\<lambda>(s, acc). length (span_rest s))") auto

declare read_settings.simps [simp del]

definition SettingFrame_of_raw :: "RawFrame \<Rightarrow> SettingFrame cpp" where
  "SettingFrame_of_raw fr =
     (let payload = span_of (rf_data fr) in
      if span_size payload mod 6 \<noteq> 0 then Inr \<lparr>sf_header = rf_header fr, sf_settings = []\<rparr>
      else cpp_bind (read_settings payload []) (\<lambda>ss.
        Inr \<lparr>sf_header = rf_header fr, sf_settings = ss\<rparr>))"

definition setting_bytes :: "u16 \<times> u32 \<Rightarrow> u8 list" where
  "setting_bytes s = be_bytes 2 (fst s) @ be_bytes 4 (snd s)"

definition SettingFrame_toBytes :: "SettingFrame \<Rightarrow> u8 list" where
  "SettingFrame_toBytes f =
     FrameHeader_encode (sf_header f) @ concat (map setting_bytes (sf_settings f))"

record PushPromiseFrame =
  pp_header :: FrameHeader
  pp_padLength :: u8
  pp_promisedStreamId :: u32
  pp_data :: "u8 list"
  pp_padding :: "u8 list"

definition PushPromiseFrame_of_raw :: "RawFrame \<Rightarrow> PushPromiseFrame cpp" where
  "PushPromiseFrame_of_raw fr =
     cpp_bind (read_pad (rf_header fr) (span_of (rf_data fr))) (\<lambda>(pad, payload).
     cpp_bind (span_readAs 4 payload) (\<lambda>(promised, payload').
     cpp_bind (split_padding pad payload') (\<lambda>(d, p).
       Inr \<lparr>pp_header = rf_header fr, pp_padLength = pad,
            pp_promisedStreamId = promised AND 0x7fffffff, pp_data = d, pp_padding = p\<rparr>)))"

definition PushPromiseFrame_toBytes :: "PushPromiseFrame \<Rightarrow> u8 list" where
  "PushPromiseFrame_toBytes f =
     FrameHeader_encode (pp_header f)
     @ (if hasAnyFlag FF_PADDED (pp_header f) then [pp_padLength f] else [])
     @ be_bytes 4 (pp_promisedStreamId f)
     @ pp_data f
     @ (if hasAnyFlag FF_PADDED (pp_header f) then pp_padding f else [])"

record PingFrame =
  ping_header :: FrameHeader
  ping_data :: "u8 list"

definition PingFrame_new :: PingFrame where
  "PingFrame_new = \<lparr>ping_header = FrameHeader_new FT_PING 0, ping_data = []\<rparr>"

definition PingFrame_of_raw :: "RawFrame \<Rightarrow> PingFrame" where
  "PingFrame_of_raw fr = \<lparr>ping_header = rf_header fr, ping_data = span_rest (span_of (rf_data fr))\<rparr>"

definition PingFrame_toBytes :: "PingFrame \<Rightarrow> u8 list" where
  "PingFrame_toBytes f = FrameHeader_encode (ping_header f) @ ping_data f"

record GoAwayFrame =
  ga_header :: FrameHeader
  ga_lastStreamId :: u32
  ga_errorCode :: u32
  ga_data :: "u8 list"

definition GoAwayFrame_of_raw :: "RawFrame \<Rightarrow> GoAwayFrame cpp" where
  "GoAwayFrame_of_raw fr =
     cpp_bind (span_readAs 4 (span_of (rf_data fr))) (\<lambda>(l, s).
     cpp_bind (span_readAs 4 s) (\<lambda>(e, s').
       Inr \<lparr>ga_header = rf_header fr, ga_lastStreamId = l AND 0x7fffffff, ga_errorCode = e,
            ga_data = span_rest s'\<rparr>))"

definition GoAwayFrame_toBytes :: "GoAwayFrame \<Rightarrow> u8 list" where
  "GoAwayFrame_toBytes f =
     FrameHeader_encode (ga_header f) @ be_bytes 4 (ga_lastStreamId f)
     @ be_bytes 4 (ga_errorCode f) @ ga_data f"

record WindowUpdateFrame =
  wu_header :: FrameHeader
  wu_windowSizeIncrement :: u32

definition WindowUpdateFrame_of_raw :: "RawFrame \<Rightarrow> WindowUpdateFrame cpp" where
  "WindowUpdateFrame_of_raw fr =
     cpp_bind (span_readAs 4 (span_of (rf_data fr))) (\<lambda>(n, _).
       Inr \<lparr>wu_header = rf_header fr, wu_windowSizeIncrement = n\<rparr>)"

definition WindowUpdateFrame_toBytes :: "WindowUpdateFrame \<Rightarrow> u8 list" where
  "WindowUpdateFrame_toBytes f =
     FrameHeader_encode (wu_header f) @ be_bytes 4 (wu_windowSizeIncrement f)"

record ContinuationFrame =
  cf_header :: FrameHeader
  cf_data :: "u8 list"

definition ContinuationFrame_new :: "StreamId \<Rightarrow> ContinuationFrame" where
  "ContinuationFrame_new sid = \<lparr>cf_header = FrameHeader_new FT_CONTINUATION sid, cf_data = []\<rparr>"

definition ContinuationFrame_of_raw :: "RawFrame \<Rightarrow> ContinuationFrame" where
  "ContinuationFrame_of_raw fr =
     \<lparr>cf_header = rf_header fr, cf_data = span_rest (span_of (rf_data fr))\<rparr>"

definition ContinuationFrame_toBytes :: "ContinuationFrame \<Rightarrow> u8 list" where
  "ContinuationFrame_toBytes f = FrameHeader_encode (cf_header f) @ cf_data f"

section \<open>FrameCodec\<close>

type_synonym FrameCodec = "u8 list"

text \<open>A null or empty input leaves the buffer as it is, which is appending nothing.\<close>

definition FrameCodec_feed :: "u8 list \<Rightarrow> FrameCodec \<Rightarrow> FrameCodec" where
  "FrameCodec_feed data buffer = (if data = [] then buffer else buffer @ data)"

definition tryPop :: "FrameCodec \<Rightarrow> (RawFrame \<times> FrameCodec) option cpp" where
  "tryPop buffer =
     (if length buffer < encodedSize then Inr None
      else cpp_bind (FrameHeader_decode (span_of (take encodedSize buffer))) (\<lambda>h.
        let totalSize = encodedSize + unat (payloadLength h) in
        if length buffer < totalSize then Inr None
        else Inr (Some (\<lparr>rf_header = h, rf_data = take (totalSize - encodedSize) (drop encodedSize buffer)\<rparr>,
                        drop totalSize buffer))))"

definition FrameCodec_clear :: "FrameCodec \<Rightarrow> FrameCodec" where
  "FrameCodec_clear buffer = []"

text \<open>The bytes of a raw frame, and the frames that fit the wire format.\<close>

definition raw_bytes :: "RawFrame \<Rightarrow> u8 list" where
  "raw_bytes fr = FrameHeader_encode (rf_header fr) @ rf_data fr"

definition raw_ok :: "RawFrame \<Rightarrow> bool" where
  "raw_ok fr \<longleftrightarrow>
     unat (payloadLength (rf_header fr)) = length (rf_data fr) \<and> length (rf_data fr) < 2 ^ 24 \<and>
     unat (streamId (rf_header fr)) < 2 ^ 31 \<and> ft_named (ftype (rf_header fr))"

definition popped :: "FrameCodec \<Rightarrow> (RawFrame \<times> FrameCodec) option" where
  "popped buffer = (case tryPop buffer of Inr (Some p) \<Rightarrow> Some p | _ \<Rightarrow> None)"

section \<open>Headers survive the wire\<close>

lemma be24_of_bytes:
  fixes v :: u32
  assumes "unat v < 2 ^ 24"
  shows "push_bit 16 (ucast (ucast (drop_bit 16 v) :: u8)) OR push_bit 8 (ucast (ucast (drop_bit 8 v) :: u8))
         OR ucast (ucast v :: u8) = v"
proof (rule bit_word_eqI)
  fix n
  assume "n < LENGTH(32)"
  have "take_bit 24 v = v"
    using assms by (simp add: word_unat_eq_iff unsigned_take_bit_eq take_bit_nat_eq_self)
  then have "bit v n \<Longrightarrow> n < 24" by (metis bit_take_bit_iff)
  then consider "n < 8" | "8 \<le> n" "n < 16" | "16 \<le> n" "n < 24" | "24 \<le> n" "n < 32" "\<not> bit v n"
    using \<open>n < LENGTH(32)\<close> by force
  then show "bit (push_bit 16 (ucast (ucast (drop_bit 16 v) :: u8))
      OR push_bit 8 (ucast (ucast (drop_bit 8 v) :: u8)) OR ucast (ucast v :: u8) :: u32) n = bit v n"
    by cases (auto simp: bit_simps)
qed

lemma be31_of_bytes:
  fixes v :: u32
  assumes "unat v < 2 ^ 31"
  shows "(push_bit 24 (ucast (ucast (drop_bit 24 v) :: u8)) OR push_bit 16 (ucast (ucast (drop_bit 16 v) :: u8))
         OR push_bit 8 (ucast (ucast (drop_bit 8 v) :: u8)) OR ucast (ucast v :: u8)) AND 0x7FFFFFFF = v"
proof -
  have "(0x7FFFFFFF :: u32) = mask 31" by (simp add: mask_eq_exp_minus_1)
  moreover have "take_bit 31 v = v"
    using assms by (simp add: word_unat_eq_iff unsigned_take_bit_eq take_bit_nat_eq_self)
  ultimately show ?thesis
    using be_value_be_bytes_4 [of v] unfolding be_bytes_4 be_value_4
    by (simp add: take_bit_eq_mask)
qed

lemma FrameHeader_decode_bytes:
  "FrameHeader_decode (span_of [d0, d1, d2, d3, d4, d5, d6, d7, d8]) =
     Inr \<lparr>payloadLength = push_bit 16 (ucast d0) OR push_bit 8 (ucast d1) OR ucast d2,
          ftype = ft_of d3, flags = d4,
          streamId = (push_bit 24 (ucast d5) OR push_bit 16 (ucast d6)
                      OR push_bit 8 (ucast d7) OR ucast d8) AND 0x7FFFFFFF\<rparr>"
  by (simp add: FrameHeader_decode_def span_size_def span_at_def)

lemma length_FrameHeader_encode [simp]: "length (FrameHeader_encode h) = 9"
  by (simp add: FrameHeader_encode_def)

lemma FrameHeader_decode_encode:
  assumes "unat (payloadLength h) < 2 ^ 24" and "unat (streamId h) < 2 ^ 31"
    and "ft_named (ftype h)"
  shows "FrameHeader_decode (span_of (FrameHeader_encode h)) = Inr h"
  using assms be24_of_bytes [of "payloadLength h"] be31_of_bytes [of "streamId h"]
  unfolding FrameHeader_encode_def FrameHeader_decode_bytes by (simp add: ft_named_def)

lemma length_9_cases:
  assumes "length bs = 9"
  obtains d0 d1 d2 d3 d4 d5 d6 d7 d8 where "bs = [d0, d1, d2, d3, d4, d5, d6, d7, d8]"
  using assms by (auto simp: numeral_eq_Suc length_Suc_conv)

lemma bit_u8: "bit (b :: u8) n \<Longrightarrow> n < 8"
  using bit_imp_le_length [of b n] by simp

lemma unat_less_exp_if_bits:
  fixes v :: "'a::len word"
  assumes "\<And>n. bit v n \<Longrightarrow> n < k"
  shows "unat v < 2 ^ k"
proof -
  have "take_bit k v = v" using assms by (auto intro: bit_word_eqI simp: bit_take_bit_iff)
  then have "unat v = take_bit k (unat v)" by (metis unsigned_take_bit_eq)
  then show ?thesis by (metis take_bit_nat_less_exp)
qed

lemma FrameHeader_decode_total:
  assumes "length bs = 9"
  shows "\<exists>h. FrameHeader_decode (span_of bs) = Inr h \<and> unat (payloadLength h) < 2 ^ 24 \<and>
             unat (streamId h) < 2 ^ 31 \<and> ft_named (ftype h)"
proof -
  obtain d0 d1 d2 d3 d4 d5 d6 d7 d8 where bs: "bs = [d0, d1, d2, d3, d4, d5, d6, d7, d8]"
    using assms by (rule length_9_cases)
  let ?p = "push_bit 16 (ucast d0) OR push_bit 8 (ucast d1) OR ucast d2 :: u32"
  have "bit ?p n \<Longrightarrow> n < 24" for n
    using bit_u8 [of d0 "n - 16"] bit_u8 [of d1 "n - 8"] bit_u8 [of d2 n]
    by (auto simp: bit_simps)
  then have p: "unat ?p < 2 ^ 24" by (rule unat_less_exp_if_bits)
  have "unat (x AND 0x7FFFFFFF :: u32) < 2 ^ 31" for x
  proof -
    have "x AND 0x7FFFFFFF = take_bit 31 x"
      by (simp add: take_bit_eq_mask mask_eq_exp_minus_1)
    then show ?thesis
      using take_bit_nat_less_exp [of 31 "unat x"] by (simp only: unsigned_take_bit_eq)
  qed
  with p show ?thesis unfolding bs FrameHeader_decode_bytes by (simp add: ft_named_def)
qed

section \<open>The splitter\<close>

lemma tryPop_total: "\<exists>r. tryPop buffer = Inr r"
proof (cases "length buffer < encodedSize")
  case False
  then have "length (take encodedSize buffer) = 9" by (simp add: encodedSize_def)
  then obtain h where "FrameHeader_decode (span_of (take encodedSize buffer)) = Inr h"
    using FrameHeader_decode_total by blast
  with False show ?thesis by (simp add: tryPop_def Let_def)
qed (simp add: tryPop_def)

lemma tryPop_popped: "tryPop buffer = Inr (popped buffer)"
  using tryPop_total [of buffer] by (auto simp: popped_def split: option.splits)

lemma popped_SomeD:
  assumes "popped buffer = Some (fr, rest)"
  shows "raw_ok fr" and "length buffer = 9 + length (rf_data fr) + length rest"
    and "buffer = take 9 buffer @ rf_data fr @ rest"
proof -
  have ge: "9 \<le> length buffer"
    using assms by (auto simp: popped_def tryPop_def encodedSize_def split: if_splits sum.splits option.splits)
  then obtain h where h: "FrameHeader_decode (span_of (take 9 buffer)) = Inr h"
    "unat (payloadLength h) < 2 ^ 24" "unat (streamId h) < 2 ^ 31" "ft_named (ftype h)"
    using FrameHeader_decode_total [of "take 9 buffer"] by auto
  with assms ge have fr: "9 + unat (payloadLength h) \<le> length buffer"
      "fr = \<lparr>rf_header = h, rf_data = take (unat (payloadLength h)) (drop 9 buffer)\<rparr>"
      "rest = drop (9 + unat (payloadLength h)) buffer"
    by (auto simp: popped_def tryPop_def encodedSize_def Let_def split: if_splits)
  then show "raw_ok fr" "length buffer = 9 + length (rf_data fr) + length rest"
    using h by (simp_all add: raw_ok_def)
  show "buffer = take 9 buffer @ rf_data fr @ rest"
    using fr by simp (metis append_take_drop_id drop_drop add.commute)
qed

lemma popped_raw_bytes:
  assumes "raw_ok fr"
  shows "popped (raw_bytes fr @ rest) = Some (fr, rest)"
proof -
  have "FrameHeader_decode (span_of (take 9 (raw_bytes fr @ rest))) = Inr (rf_header fr)"
    using assms FrameHeader_decode_encode [of "rf_header fr"] by (simp add: raw_bytes_def raw_ok_def)
  then show ?thesis
    using assms by (simp add: popped_def tryPop_def encodedSize_def raw_bytes_def raw_ok_def Let_def)
qed

text \<open>A frame that is not complete yet stays in the buffer; more bytes do not disturb it.\<close>

lemma popped_append:
  assumes "popped buffer = Some (fr, rest)"
  shows "popped (buffer @ bs) = Some (fr, rest @ bs)"
proof -
  have ge: "9 \<le> length buffer" using popped_SomeD(2) [OF assms] by simp
  then obtain h where "FrameHeader_decode (span_of (take 9 buffer)) = Inr h"
    using FrameHeader_decode_total [of "take 9 buffer"] by auto
  with assms ge show ?thesis
    by (auto simp: popped_def tryPop_def encodedSize_def Let_def split: if_splits)
qed

text \<open>The splitter meets the codec contract: \<open>frames.decode_seq_enc\<close> then reads any sequence back,
  however its bytes are cut.\<close>

interpretation frames: incremental_codec raw_bytes popped raw_ok
  by unfold_locales (simp_all add: popped_raw_bytes popped_SomeD(2) popped_append)

section \<open>Frames survive the wire\<close>

lemma read_pad_padded:
  assumes "hasAnyFlag FF_PADDED h" and "length (p # xs) < 2 ^ 32"
  shows "read_pad h (span_of (p # xs)) = Inr (p, \<lparr>sp_data = p # xs, sp_cur = 1\<rparr>)"
  using assms by (simp add: read_pad_def span_at_def span_advance_def span_of_def Let_def)

lemma read_pad_plain: "\<not> hasAnyFlag FF_PADDED h \<Longrightarrow> read_pad h s = Inr (0, s)"
  by (simp add: read_pad_def)

lemma split_padding_wf:
  assumes "span_wf s" and "span_rest s = d @ p" and "length p = unat pad"
  shows "split_padding pad s = Inr (d, p)"
proof (cases "0 < pad")
  case False
  with assms show ?thesis by (simp add: split_padding_def word_gt_0)
next
  case True
  have lt: "length d < 2 ^ 32"
    using assms(1,2) span_wf_bounds [of s "length (span_rest s)"] by simp
  have "span_size s + 2 ^ 32 - unat pad = length d + 2 ^ 32"
    using assms span_size_wf [OF assms(1)] by simp
  then have size: "(span_size s + 2 ^ 32 - unat pad) mod 2 ^ 32 = length d"
    using lt by (simp only: mod_add_self2 mod_less)
  have "span_advance (length d) s = Inr (s\<lparr>sp_cur := sp_cur s + length d\<rparr>)"
    using assms by (intro span_advance_wf) auto
  moreover have "drop (sp_cur s + length d) (sp_data s) = p"
    using assms(2) by (metis add.commute append_eq_conv_conj drop_drop span_rest_def)
  ultimately show ?thesis
    using True assms(2) by (simp only: split_padding_def size Let_def) (simp add: span_prefix_def)
qed

text \<open>
  What a padded frame must satisfy to be written: the padding is announced by the flag and
  has the announced length.
\<close>

definition padding_ok :: "FrameHeader \<Rightarrow> u8 \<Rightarrow> u8 list \<Rightarrow> bool" where
  "padding_ok h pad p \<longleftrightarrow> length p = unat pad \<and> (\<not> hasAnyFlag FF_PADDED h \<longrightarrow> pad = 0)"

definition pad_prefix :: "FrameHeader \<Rightarrow> u8 \<Rightarrow> u8 list" where
  "pad_prefix h pad = (if hasAnyFlag FF_PADDED h then [pad] else [])"

lemma read_pad_prefix:
  assumes "padding_ok h pad p" and "length (pad_prefix h pad @ xs) < 2 ^ 32"
  shows "\<exists>s. read_pad h (span_of (pad_prefix h pad @ xs)) = Inr (pad, s) \<and> span_wf s \<and> span_rest s = xs"
proof (cases "hasAnyFlag FF_PADDED h")
  case True
  with assms read_pad_padded [OF True, of pad xs] show ?thesis
    by (auto simp: pad_prefix_def span_wf_def span_rest_def)
next
  case False
  with assms show ?thesis by (simp add: pad_prefix_def read_pad_plain padding_ok_def)
qed

lemma span_read_bytes:
  fixes v :: "'a::len word"
  assumes "span_wf s" and "span_rest s = be_bytes n v @ xs" and "be_value (be_bytes n v) = v"
  shows "span_readAs n s = Inr (v, s\<lparr>sp_cur := sp_cur s + n\<rparr>)"
    and "span_wf (s\<lparr>sp_cur := sp_cur s + n\<rparr>)" and "span_rest (s\<lparr>sp_cur := sp_cur s + n\<rparr>) = xs"
proof -
  have n: "n \<le> length (span_rest s)" using assms(2) by simp
  show "span_readAs n s = Inr (v, s\<lparr>sp_cur := sp_cur s + n\<rparr>)"
    using span_readAs_wf [OF assms(1) n, where 'a = 'a] assms(2,3) by simp
  show "span_wf (s\<lparr>sp_cur := sp_cur s + n\<rparr>)" by (rule span_wf_advance [OF assms(1) n])
  have "drop n (span_rest s) = xs" using assms(2) by simp
  then show "span_rest (s\<lparr>sp_cur := sp_cur s + n\<rparr>) = xs"
    by (simp add: span_rest_def add.commute)
qed

lemma be_value_be_bytes_1 [simp]: "be_value (be_bytes 1 (v :: u8)) = v"
  unfolding be_bytes_1 be_value_def by simp

text \<open>A frame fits when its raw form does; reading a frame back is two steps, popping and parsing.\<close>

definition fits :: "FrameHeader \<Rightarrow> u8 list \<Rightarrow> bool" where
  "fits h payload \<longleftrightarrow> raw_ok \<lparr>rf_header = h, rf_data = payload\<rparr>"

lemma popped_fits:
  "fits h payload \<Longrightarrow>
   popped (FrameHeader_encode h @ payload @ rest) = Some (\<lparr>rf_header = h, rf_data = payload\<rparr>, rest)"
  using popped_raw_bytes [of "\<lparr>rf_header = h, rf_data = payload\<rparr>" rest]
  by (simp add: fits_def raw_bytes_def)

lemma fits_length: "fits h payload \<Longrightarrow> length payload < 2 ^ 32"
  by (simp add: fits_def raw_ok_def)

definition read_back :: "('f \<Rightarrow> u8 list) \<Rightarrow> (RawFrame \<Rightarrow> 'f cpp) \<Rightarrow> 'f \<Rightarrow> bool" where
  "read_back bytes parse f \<longleftrightarrow> (\<forall>rest. \<exists>fr. popped (bytes f @ rest) = Some (fr, rest) \<and> parse fr = Inr f)"

lemma DataFrame_read_back:
  assumes "padding_ok (df_header f) (df_padLength f) (df_padding f)"
    and "fits (df_header f) (pad_prefix (df_header f) (df_padLength f) @ df_data f @ df_padding f)"
  shows "\<exists>fr. popped (DataFrame_toBytes f @ rest) = Some (fr, rest) \<and> DataFrame_of_raw fr = Inr f"
proof -
  let ?h = "df_header f" and ?body = "df_data f @ df_padding f"
  obtain s where s: "read_pad ?h (span_of (pad_prefix ?h (df_padLength f) @ ?body)) = Inr (df_padLength f, s)"
    "span_wf s" "span_rest s = ?body"
    using read_pad_prefix [OF assms(1) fits_length [OF assms(2)]] by blast
  have "split_padding (df_padLength f) s = Inr (df_data f, df_padding f)"
    using split_padding_wf [OF s(2,3)] assms(1) by (simp add: padding_ok_def)
  moreover have "DataFrame_toBytes f = FrameHeader_encode ?h @ pad_prefix ?h (df_padLength f) @ ?body"
    using assms(1) by (auto simp: DataFrame_toBytes_def pad_prefix_def padding_ok_def)
  ultimately show ?thesis
    using popped_fits [OF assms(2), of rest] s(1) by (simp add: DataFrame_of_raw_def)
qed

lemma HeadersFrame_read_back:
  assumes "padding_ok (hf_header f) (hf_padLength f) (hf_padding f)"
    and "\<not> hasAnyFlag FF_PRIORITY (hf_header f) \<longrightarrow> hf_streamDependency f = 0 \<and> hf_weight f = 0"
    and "fits (hf_header f) (pad_prefix (hf_header f) (hf_padLength f)
         @ (if hasAnyFlag FF_PRIORITY (hf_header f)
            then be_bytes 4 (hf_streamDependency f) @ be_bytes 1 (hf_weight f) else [])
         @ hf_data f @ hf_padding f)"
  shows "\<exists>fr. popped (HeadersFrame_toBytes f @ rest) = Some (fr, rest) \<and> HeadersFrame_of_raw fr = Inr f"
proof -
  let ?h = "hf_header f" and ?body = "hf_data f @ hf_padding f"
  let ?prio = "if hasAnyFlag FF_PRIORITY ?h then be_bytes 4 (hf_streamDependency f) @ be_bytes 1 (hf_weight f) else []"
  obtain s where s: "read_pad ?h (span_of (pad_prefix ?h (hf_padLength f) @ ?prio @ ?body)) = Inr (hf_padLength f, s)"
    "span_wf s" "span_rest s = ?prio @ ?body"
    using read_pad_prefix [OF assms(1) fits_length [OF assms(3)]] by blast
  obtain s' where s': "read_priority ?h s = Inr (hf_streamDependency f, hf_weight f, s')"
    "span_wf s'" "span_rest s' = ?body"
  proof (cases "hasAnyFlag FF_PRIORITY ?h")
    case True
    define s1 where "s1 = s\<lparr>sp_cur := sp_cur s + 4\<rparr>"
    have rest: "span_rest s = be_bytes 4 (hf_streamDependency f) @ (be_bytes 1 (hf_weight f) @ ?body)"
      using s(3) True by simp
    note r1 = span_read_bytes [OF s(2) rest be_value_be_bytes_4, folded s1_def]
    note r2 = span_read_bytes [OF r1(2,3) be_value_be_bytes_1]
    show ?thesis by (rule that [OF _ r2(2,3)]) (simp add: read_priority_def True r1(1) r2(1) del: One_nat_def)
  next
    case False
    with s assms(2) show ?thesis by (intro that [of s]) (auto simp: read_priority_def)
  qed
  have "split_padding (hf_padLength f) s' = Inr (hf_data f, hf_padding f)"
    using split_padding_wf [OF s'(2,3)] assms(1) by (simp add: padding_ok_def)
  moreover have "HeadersFrame_toBytes f = FrameHeader_encode ?h @ pad_prefix ?h (hf_padLength f) @ ?prio @ ?body"
    using assms(1) by (auto simp: HeadersFrame_toBytes_def pad_prefix_def padding_ok_def be_bytes_1 simp del: One_nat_def)
  ultimately show ?thesis
    using popped_fits [OF assms(3), of rest] s(1) s'(1) by (simp add: HeadersFrame_of_raw_def)
qed

lemma RstStreamFrame_read_back:
  assumes "fits (rst_header f) (be_bytes 4 (rst_errorCode f))"
  shows "\<exists>fr. popped (RstStreamFrame_toBytes f @ rest) = Some (fr, rest) \<and> RstStreamFrame_of_raw fr = Inr f"
  using popped_fits [OF assms, of rest]
    span_read_bytes(1) [of "span_of (be_bytes 4 (rst_errorCode f))" 4 "rst_errorCode f" "[]"]
  by (simp add: RstStreamFrame_toBytes_def RstStreamFrame_of_raw_def)

lemma read_settings_bytes:
  assumes "span_wf s" and "span_rest s = concat (map setting_bytes ss)"
  shows "read_settings s acc = Inr (acc @ ss)"
  using assms
proof (induction ss arbitrary: s acc)
  case Nil
  then show ?case by (subst read_settings.simps) (simp add: span_empty_rest)
next
  case (Cons x ss)
  define s1 where "s1 = s\<lparr>sp_cur := sp_cur s + 2\<rparr>"
  define s2 where "s2 = s1\<lparr>sp_cur := sp_cur s1 + 4\<rparr>"
  have rest: "span_rest s = be_bytes 2 (fst x) @ be_bytes 4 (snd x) @ concat (map setting_bytes ss)"
    using Cons.prems(2) by (simp add: setting_bytes_def [of x])
  note r1 = span_read_bytes [OF Cons.prems(1) rest be_value_be_bytes_2, folded s1_def]
  note r2 = span_read_bytes [OF r1(2,3) be_value_be_bytes_4, folded s2_def]
  have "\<not> span_empty s"
    using Cons.prems rest by (simp add: span_empty_rest) (metis append_is_Nil_conv length_0_conv length_be_bytes zero_neq_numeral)
  then show ?case
    using Cons.IH [OF r2(2,3)] by (subst read_settings.simps) (simp add: r1(1) r2(1,3) rest)
qed

lemma length_setting_bytes: "length (concat (map setting_bytes ss)) = 6 * length ss"
  by (induction ss) (simp_all add: setting_bytes_def)

lemma SettingFrame_read_back:
  assumes "fits (sf_header f) (concat (map setting_bytes (sf_settings f)))"
  shows "\<exists>fr. popped (SettingFrame_toBytes f @ rest) = Some (fr, rest) \<and> SettingFrame_of_raw fr = Inr f"
proof -
  let ?p = "concat (map setting_bytes (sf_settings f))"
  have len: "length ?p < 2 ^ 32" using assms by (rule fits_length)
  then have "read_settings (span_of ?p) [] = Inr (sf_settings f)"
    using read_settings_bytes [of "span_of ?p" "sf_settings f" "[]"] by simp
  moreover have "span_size (span_of ?p) mod 6 = 0"
    using len by (simp add: span_size_wf length_setting_bytes)
  ultimately show ?thesis
    using popped_fits [OF assms, of rest] by (simp add: SettingFrame_toBytes_def SettingFrame_of_raw_def)
qed

lemma mask_31_id: "unat (v :: u32) < 2 ^ 31 \<Longrightarrow> v AND 0x7FFFFFFF = v"
  using be31_of_bytes [of v] be_value_be_bytes_4 [of v] unfolding be_bytes_4 be_value_4 by simp

lemma PushPromiseFrame_read_back:
  assumes "padding_ok (pp_header f) (pp_padLength f) (pp_padding f)"
    and "unat (pp_promisedStreamId f) < 2 ^ 31"
    and "fits (pp_header f) (pad_prefix (pp_header f) (pp_padLength f)
           @ be_bytes 4 (pp_promisedStreamId f) @ pp_data f @ pp_padding f)"
  shows "\<exists>fr. popped (PushPromiseFrame_toBytes f @ rest) = Some (fr, rest) \<and>
              PushPromiseFrame_of_raw fr = Inr f"
proof -
  let ?h = "pp_header f" and ?pid = "pp_promisedStreamId f" and ?body = "pp_data f @ pp_padding f"
  obtain s where s: "read_pad ?h (span_of (pad_prefix ?h (pp_padLength f) @ be_bytes 4 ?pid @ ?body))
      = Inr (pp_padLength f, s)" "span_wf s" "span_rest s = be_bytes 4 ?pid @ ?body"
    using read_pad_prefix [OF assms(1) fits_length [OF assms(3)]] by blast
  note r = span_read_bytes [OF s(2,3) be_value_be_bytes_4]
  have "split_padding (pp_padLength f) (s\<lparr>sp_cur := sp_cur s + 4\<rparr>) = Inr (pp_data f, pp_padding f)"
    using split_padding_wf [OF r(2,3)] assms(1) by (simp add: padding_ok_def)
  moreover have "PushPromiseFrame_toBytes f =
      FrameHeader_encode ?h @ pad_prefix ?h (pp_padLength f) @ be_bytes 4 ?pid @ ?body"
    using assms(1) by (auto simp: PushPromiseFrame_toBytes_def pad_prefix_def padding_ok_def)
  ultimately show ?thesis
    using popped_fits [OF assms(3), of rest] s(1) r(1)
    by (simp add: PushPromiseFrame_of_raw_def mask_31_id [OF assms(2)])
qed

lemma PingFrame_read_back:
  assumes "fits (ping_header f) (ping_data f)"
  shows "\<exists>fr. popped (PingFrame_toBytes f @ rest) = Some (fr, rest) \<and> PingFrame_of_raw fr = f"
  using popped_fits [OF assms, of rest] by (simp add: PingFrame_toBytes_def PingFrame_of_raw_def)

lemma GoAwayFrame_read_back:
  assumes "unat (ga_lastStreamId f) < 2 ^ 31"
    and "fits (ga_header f) (be_bytes 4 (ga_lastStreamId f) @ be_bytes 4 (ga_errorCode f) @ ga_data f)"
  shows "\<exists>fr. popped (GoAwayFrame_toBytes f @ rest) = Some (fr, rest) \<and> GoAwayFrame_of_raw fr = Inr f"
proof -
  let ?s = "span_of (be_bytes 4 (ga_lastStreamId f) @ be_bytes 4 (ga_errorCode f) @ ga_data f)"
  have "span_wf ?s" using fits_length [OF assms(2)] by simp
  note r1 = span_read_bytes [OF this span_of_simps(3) be_value_be_bytes_4]
  note r2 = span_read_bytes [OF r1(2,3) be_value_be_bytes_4]
  show ?thesis
    using popped_fits [OF assms(2), of rest] r1(1) r2
    by (simp add: GoAwayFrame_toBytes_def GoAwayFrame_of_raw_def mask_31_id [OF assms(1)])
qed

lemma WindowUpdateFrame_read_back:
  assumes "fits (wu_header f) (be_bytes 4 (wu_windowSizeIncrement f))"
  shows "\<exists>fr. popped (WindowUpdateFrame_toBytes f @ rest) = Some (fr, rest) \<and>
              WindowUpdateFrame_of_raw fr = Inr f"
  using popped_fits [OF assms, of rest]
    span_read_bytes(1) [of "span_of (be_bytes 4 (wu_windowSizeIncrement f))" 4 "wu_windowSizeIncrement f" "[]"]
  by (simp add: WindowUpdateFrame_toBytes_def WindowUpdateFrame_of_raw_def)

lemma ContinuationFrame_read_back:
  assumes "fits (cf_header f) (cf_data f)"
  shows "\<exists>fr. popped (ContinuationFrame_toBytes f @ rest) = Some (fr, rest) \<and> ContinuationFrame_of_raw fr = f"
  using popped_fits [OF assms, of rest] by (simp add: ContinuationFrame_toBytes_def ContinuationFrame_of_raw_def)

end
