(* ===== verification/Messages.thy ===== *)
theory Messages
  imports Hpack_Table Frames
begin

text \<open>
  Requests, responses and the checks on header fields: include/chttp2/request.hpp,
  include/chttp2/response.hpp, include/chttp2/client_config.hpp and the helpers in the
  anonymous namespace of src/http2_protocol.cpp.

  \<open>std::map<std::string, std::string>\<close> is the list of its entries in key order
  (\<open>map_set\<close> is \<open>operator[] =\<close>); \<open>char\<close> is signed, so comparisons of characters go through
  \<open>schar\<close>. \<open>std_stoi\<close> is \<open>std::stoi\<close> with its two exceptions.
\<close>

section \<open>Requests\<close>

fun map_set :: "string \<Rightarrow> string \<Rightarrow> (string \<times> string) list \<Rightarrow> (string \<times> string) list" where
  "map_set k v [] = [(k, v)]"
| "map_set k v ((k', v') # kvs) =
     (if k < k' then (k, v) # (k', v') # kvs
      else if k = k' then (k, v) # kvs
      else (k', v') # map_set k v kvs)"

record Request =
  rq_headers :: "(string \<times> string) list"
  rq_body :: string

definition Request_new :: Request where
  "Request_new = \<lparr>rq_headers = [], rq_body = []\<rparr>"

definition setHeader :: "string \<Rightarrow> string \<Rightarrow> Request \<Rightarrow> bool \<times> Request" where
  "setHeader k v r = (True, r\<lparr>rq_headers := map_set k v (rq_headers r)\<rparr>)"

definition Request_find :: "Request \<Rightarrow> string \<Rightarrow> string option" where
  "Request_find r k = map_of (rq_headers r) k"

definition Request_isValid :: "Request \<Rightarrow> bool" where
  "Request_isValid r =
     (if rq_headers r = [] then False
      else case Request_find r '':method'' of
        None \<Rightarrow> False
      | Some m \<Rightarrow>
          if m = ''CONNECT''
          then if Request_find r '':authority'' = None then False
               else if Request_find r '':scheme'' \<noteq> None then False
               else if Request_find r '':path'' \<noteq> None then False
               else True
          else if Request_find r '':scheme'' = None then False
          else if Request_find r '':path'' = None then False
          else True)"

section \<open>Responses\<close>

record Response =
  rs_headers :: "HeaderField list"
  rs_trailers :: "HeaderField list"
  rs_body :: string
  rs_isError :: bool
  rs_errorCode :: ErrorCode
  rs_errorMsg :: string
  rs_extraMsg :: string

definition Response_new :: Response where
  "Response_new =
     \<lparr>rs_headers = [], rs_trailers = [], rs_body = [], rs_isError = False,
      rs_errorCode = EC_NO_ERROR, rs_errorMsg = [], rs_extraMsg = []\<rparr>"

definition is_space :: "char \<Rightarrow> bool" where
  "is_space c \<longleftrightarrow> of_char c = (32 :: nat) \<or> (9 \<le> (of_char c :: nat) \<and> (of_char c :: nat) \<le> 13)"

definition is_digit :: "char \<Rightarrow> bool" where
  "is_digit c \<longleftrightarrow> 48 \<le> (of_char c :: nat) \<and> (of_char c :: nat) \<le> 57"

definition digit_value :: "char \<Rightarrow> int" where
  "digit_value c = int (of_char c) - 48"

definition digits_value :: "string \<Rightarrow> int" where
  "digits_value ds = fold (\<lambda>c n. n * 10 + digit_value c) ds 0"

text \<open>Leading white space, a sign, then the longest run of digits; the rest is ignored.\<close>

definition std_stoi :: "string \<Rightarrow> int cpp" where
  "std_stoi s =
     (let s = dropWhile is_space s;
          negative = (s \<noteq> [] \<and> hd s = CHR ''-'');
          s = (if s \<noteq> [] \<and> (hd s = CHR ''-'' \<or> hd s = CHR ''+'') then tl s else s);
          ds = takeWhile is_digit s;
          n = (if negative then - digits_value ds else digits_value ds)
      in if ds = [] then Inl (InvalidArgument ''stoi'')
         else if n < INT32_MIN \<or> INT32_MAX < n then Inl (StdOutOfRange ''stoi'')
         else Inr n)"

definition first_value :: "string \<Rightarrow> HeaderField list \<Rightarrow> string option" where
  "first_value k hs = map_option hvalue (find (\<lambda>h. hname h = k) hs)"

definition getStatusCode :: "Response \<Rightarrow> int cpp" where
  "getStatusCode r =
     (case first_value '':status'' (rs_headers r) of None \<Rightarrow> Inr (-1) | Some v \<Rightarrow> std_stoi v)"

definition getBody :: "Response \<Rightarrow> string" where
  "getBody r = rs_body r"

definition getHeader :: "string \<Rightarrow> Response \<Rightarrow> string" where
  "getHeader k r = (case first_value k (rs_headers r) of None \<Rightarrow> [] | Some v \<Rightarrow> v)"

definition failConnectionError :: "string \<Rightarrow> Response" where
  "failConnectionError msg =
     Response_new\<lparr>rs_isError := True, rs_errorMsg := ''Connection error'', rs_extraMsg := msg\<rparr>"

definition failSendError :: Response where
  "failSendError = Response_new\<lparr>rs_isError := True, rs_errorMsg := ''Send error''\<rparr>"

definition customError :: "string \<Rightarrow> Response" where
  "customError msg = Response_new\<lparr>rs_isError := True, rs_errorMsg := msg\<rparr>"

definition protocolError :: "ErrorCode \<Rightarrow> string \<Rightarrow> Response" where
  "protocolError code msg =
     Response_new\<lparr>rs_isError := True, rs_errorCode := code, rs_errorMsg := ''Protocol error'',
                  rs_extraMsg := msg\<rparr>"

section \<open>Configuration\<close>

record ClientConfig =
  keepAliveSec :: int
  connectTimeoutMs :: int
  pingIntervalSec :: int
  pingTimeoutSec :: int
  cfg_maxConcurrentStreams :: u32
  cfg_initialWindowSize :: u32
  cfg_maxFrameSize :: u32
  cfg_maxHeaderListSize :: u32
  cfg_headerTableSize :: u32

definition ClientConfig_new :: ClientConfig where
  "ClientConfig_new =
     \<lparr>keepAliveSec = 60, connectTimeoutMs = 5000, pingIntervalSec = 30, pingTimeoutSec = 10,
      cfg_maxConcurrentStreams = 100, cfg_initialWindowSize = 65535, cfg_maxFrameSize = 16384,
      cfg_maxHeaderListSize = 0, cfg_headerTableSize = 4096\<rparr>"

section \<open>Checks on header fields\<close>

definition buildRequestHeaderFields :: "Request \<Rightarrow> HeaderField list" where
  "buildRequestHeaderFields r = map (\<lambda>(k, v). HeaderField_new k v) (rq_headers r)"

definition schar :: "char \<Rightarrow> int" where
  "schar c = (let n = int (of_char c) in if 128 \<le> n then n - 256 else n)"

definition hasInvalidFieldNameChar :: "string \<Rightarrow> bool" where
  "hasInvalidFieldNameChar s =
     list_ex (\<lambda>c. schar c \<le> 0x20 \<or> (0x41 \<le> schar c \<and> schar c \<le> 0x5a) \<or> 0x7f \<le> schar c) s"

definition hasInvalidFieldValue :: "string \<Rightarrow> bool" where
  "hasInvalidFieldValue s =
     (if s = [] then False
      else let f = byte_of_char (hd s); l = byte_of_char (last s) in
        if f = 0x20 \<or> f = 0x09 \<or> l = 0x20 \<or> l = 0x09 then True
        else list_ex (\<lambda>ch. let c = byte_of_char ch in c = 0x00 \<or> c = 0x0a \<or> c = 0x0d) s)"

definition lower_ascii :: "char \<Rightarrow> char" where
  "lower_ascii c =
     (if schar CHR ''A'' \<le> schar c \<and> schar c \<le> schar CHR ''Z''
      then char_of (of_char c - of_char CHR ''A'' + of_char CHR ''a'' :: nat) else c)"

fun equalsIgnoreCaseAscii :: "string \<Rightarrow> string \<Rightarrow> bool" where
  "equalsIgnoreCaseAscii (l # ls) (r # rs) =
     (if lower_ascii l \<noteq> lower_ascii r then False else equalsIgnoreCaseAscii ls rs)"
| "equalsIgnoreCaseAscii ls rs = (ls = [] \<and> rs = [])"

definition isConnectionSpecificHeader :: "HeaderField \<Rightarrow> bool" where
  "isConnectionSpecificHeader h \<longleftrightarrow>
     equalsIgnoreCaseAscii (hname h) ''connection'' \<or>
     equalsIgnoreCaseAscii (hname h) ''proxy-connection'' \<or>
     equalsIgnoreCaseAscii (hname h) ''keep-alive'' \<or>
     equalsIgnoreCaseAscii (hname h) ''upgrade'' \<or>
     equalsIgnoreCaseAscii (hname h) ''transfer-encoding'' \<or>
     equalsIgnoreCaseAscii (hname h) ''te''"

definition headerListSize :: "HeaderField list \<Rightarrow> nat" where
  "headerListSize hs = sum_list (map (\<lambda>h. length (hname h) + length (hvalue h) + 32) hs)"

text \<open>\<open>Inl\<close> is the error code and the debug text of a refused frame.\<close>

definition validatePaddedPayload :: "RawFrame \<Rightarrow> u32 \<Rightarrow> (ErrorCode \<times> string + unit) cpp" where
  "validatePaddedPayload fr fixedPrefixBytes =
     (let h = rf_header fr in
      if \<not> hasAnyFlag FF_PADDED h
      then if payloadLength h < fixedPrefixBytes
           then Inr (Inl (EC_FRAME_SIZE_ERROR, ''frame payload shorter than required prefix''))
           else Inr (Inr ())
      else if payloadLength h = 0
      then Inr (Inl (EC_PROTOCOL_ERROR, ''PADDED frame missing pad length''))
      else cpp_bind (span_at (span_of (rf_data fr)) 0) (\<lambda>padLength.
        if payloadLength h < 1 + fixedPrefixBytes
        then Inr (Inl (EC_FRAME_SIZE_ERROR, ''frame payload shorter than padded prefix''))
        else let remaining = payloadLength h - 1 - fixedPrefixBytes in
          if remaining \<le> ucast padLength
          then Inr (Inl (EC_PROTOCOL_ERROR, ''padding exceeds frame payload''))
          else Inr (Inr ())))"

definition digit_loop :: "char \<Rightarrow> int option \<Rightarrow> int option" where
  "digit_loop c r =
     (case r of
        None \<Rightarrow> None
      | Some n \<Rightarrow> if schar c < 48 \<or> 57 < schar c then None else Some (n * 10 + (schar c - 48)))"

definition tryParseStatusCode :: "string \<Rightarrow> int option" where
  "tryParseStatusCode s =
     (if length s \<noteq> 3 then None
      else case fold digit_loop s (Some 0) of
        None \<Rightarrow> None
      | Some code \<Rightarrow> if code < 100 \<or> 599 < code then None else Some code)"

definition length_loop :: "char \<Rightarrow> int option \<Rightarrow> int option" where
  "length_loop c r =
     (case r of
        None \<Rightarrow> None
      | Some n \<Rightarrow>
          if schar c < 48 \<or> 57 < schar c then None
          else if 1000000000000000 < n then None
          else Some (n * 10 + (schar c - 48)))"

definition tryParseContentLength :: "string \<Rightarrow> int option" where
  "tryParseContentLength s = (if s = [] then None else fold length_loop s (Some 0))"

text \<open>\<open>std::to_string\<close> of an unsigned number.\<close>

fun to_string :: "nat \<Rightarrow> string" where
  "to_string n = (if n < 10 then [char_of (48 + n)] else to_string (n div 10) @ [char_of (48 + n mod 10)])"

declare to_string.simps [simp del]

section \<open>Requests are maps\<close>

definition Request_wf :: "Request \<Rightarrow> bool" where
  "Request_wf r \<longleftrightarrow> sorted_wrt (<) (map fst (rq_headers r))"

lemma map_of_map_set: "map_of (map_set k v kvs) k' = (if k' = k then Some v else map_of kvs k')"
  by (induction k v kvs rule: map_set.induct) auto

lemma set_map_set: "fst ` set (map_set k v kvs) = insert k (fst ` set kvs)"
  by (induction k v kvs rule: map_set.induct) auto

lemma map_set_sorted: "sorted_wrt (<) (map fst kvs) \<Longrightarrow> sorted_wrt (<) (map fst (map_set k v kvs))"
proof (induction k v kvs rule: map_set.induct)
  case (2 k v k' v' kvs)
  have "k' < x" if "x \<in> fst ` set (map_set k v kvs)" "k' < k" for x
    using that 2(2) by (auto simp: set_map_set)
  moreover have "k < x" if "k < k'" "x \<in> fst ` set kvs" for x
    using that 2(2) by (auto intro: order.strict_trans)
  ultimately show ?case using 2 by fastforce
qed simp

lemma setHeader_wf: "Request_wf r \<Longrightarrow> Request_wf (snd (setHeader k v r))"
  by (simp add: Request_wf_def setHeader_def map_set_sorted)

section \<open>What the checks mean\<close>

lemma char_code:
  obtains n where "(of_char c :: nat) = n" "n \<le> 255" "schar c = (if 128 \<le> n then int n - 256 else int n)"
    "digit_value c = int n - 48"
proof (rule that [OF refl])
  show "(of_char c :: nat) \<le> 255" using nat_of_char_less_256 [of c] by linarith
  have "128 \<le> int (of_char c) \<longleftrightarrow> 128 \<le> (of_char c :: nat)" by linarith
  then show "schar c = (if 128 \<le> (of_char c :: nat) then int (of_char c) - 256 else int (of_char c))"
    by (simp only: schar_def Let_def)
  show "digit_value c = int (of_char c) - 48" by (simp only: digit_value_def)
qed

lemma schar_digit: "(schar c < 48 \<or> 57 < schar c) \<longleftrightarrow> \<not> is_digit c"
  by (rule char_code [of c]) (auto simp: is_digit_def simp del: of_nat_of_char)

lemma schar_value: "is_digit c \<Longrightarrow> schar c - 48 = digit_value c"
  by (rule char_code [of c]) (auto simp: is_digit_def simp del: of_nat_of_char)

lemma digit_value_bounds: "is_digit c \<Longrightarrow> 0 \<le> digit_value c \<and> digit_value c \<le> 9"
  by (rule char_code [of c]) (auto simp: is_digit_def simp del: of_nat_of_char)

lemma hasInvalidFieldNameChar_iff:
  "hasInvalidFieldNameChar s \<longleftrightarrow>
     (\<exists>c\<in>set s. let n = (of_char c :: nat) in n \<le> 0x20 \<or> (0x41 \<le> n \<and> n \<le> 0x5a) \<or> 0x7f \<le> n)"
proof -
  have "(schar c \<le> 0x20 \<or> (0x41 \<le> schar c \<and> schar c \<le> 0x5a) \<or> 0x7f \<le> schar c) \<longleftrightarrow>
        (let n = (of_char c :: nat) in n \<le> 0x20 \<or> (0x41 \<le> n \<and> n \<le> 0x5a) \<or> 0x7f \<le> n)" for c
    by (rule char_code [of c]) (auto simp: Let_def simp del: of_nat_of_char)
  then show ?thesis by (simp add: hasInvalidFieldNameChar_def list_ex_iff)
qed

lemma equalsIgnoreCaseAscii_iff:
  "equalsIgnoreCaseAscii a b \<longleftrightarrow> map lower_ascii a = map lower_ascii b"
  by (induction a b rule: equalsIgnoreCaseAscii.induct) auto

lemma digit_loop_None [simp]: "fold digit_loop s None = None"
  by (induction s) (simp_all add: digit_loop_def)

lemma fold_digit_loop:
  "fold digit_loop s (Some n) =
     (if list_all is_digit s then Some (fold (\<lambda>c n. n * 10 + digit_value c) s n) else None)"
proof (induction s arbitrary: n)
  case (Cons c s)
  show ?case
  proof (cases "is_digit c")
    case True
    then have "digit_loop c (Some n) = Some (n * 10 + digit_value c)"
      using schar_digit [of c] schar_value [of c] by (simp add: digit_loop_def)
    then show ?thesis using True Cons.IH by simp
  next
    case False
    then have "digit_loop c (Some n) = None" using schar_digit [of c] by (simp add: digit_loop_def)
    then show ?thesis using False by simp
  qed
qed simp

lemma tryParseStatusCode_iff:
  "tryParseStatusCode s = Some n \<longleftrightarrow>
     length s = 3 \<and> list_all is_digit s \<and> n = digits_value s \<and> 100 \<le> n \<and> n \<le> 599"
  by (auto simp: tryParseStatusCode_def fold_digit_loop digits_value_def split: if_splits)

lemma std_stoi_digits:
  assumes "s \<noteq> []" and "list_all is_digit s" and "digits_value s \<le> INT32_MAX" and "0 \<le> digits_value s"
  shows "std_stoi s = Inr (digits_value s)"
proof -
  obtain c t where s: "s = c # t" using assms(1) by (cases s) auto
  have c: "\<not> is_space c" "c \<noteq> CHR ''-''" "c \<noteq> CHR ''+''" using assms(2) s by (auto simp: is_space_def is_digit_def)
  have "takeWhile is_digit s = s" using assms(2) by (simp add: list_all_iff takeWhile_eq_all_conv)
  then show ?thesis
    using assms(3,4) c s by (simp add: std_stoi_def Let_def INT32_MIN_def)
qed

lemma status_code_stoi:
  assumes "tryParseStatusCode s = Some n"
  shows "std_stoi s = Inr n"
proof -
  have "s \<noteq> []" "list_all is_digit s" "n = digits_value s" "100 \<le> n" "n \<le> 599"
    using assms by (auto simp: tryParseStatusCode_iff)
  then show ?thesis using std_stoi_digits [of s] by (simp add: INT32_MAX_def)
qed

lemma digits_fold_mono:
  "list_all is_digit s \<Longrightarrow> 0 \<le> n \<Longrightarrow> n \<le> fold (\<lambda>c n. n * 10 + digit_value c) s n"
proof (induction s arbitrary: n)
  case (Cons c s)
  have "n \<le> n * 10 + digit_value c" using Cons.prems digit_value_bounds [of c] by simp
  also have "\<dots> \<le> fold (\<lambda>c n. n * 10 + digit_value c) s (n * 10 + digit_value c)"
    using Cons.prems calculation by (intro Cons.IH) auto
  finally show ?case by simp
qed simp

lemma length_loop_None [simp]: "fold length_loop s None = None"
  by (induction s) (simp_all add: length_loop_def)

lemma length_loop_Some:
  "fold length_loop s (Some n) = Some m \<Longrightarrow>
     list_all is_digit s \<and> m = fold (\<lambda>c n. n * 10 + digit_value c) s n"
proof (induction s arbitrary: n)
  case (Cons c s)
  show ?case
  proof (cases "is_digit c \<and> n \<le> 1000000000000000")
    case True
    then have "length_loop c (Some n) = Some (n * 10 + digit_value c)"
      using schar_digit [of c] schar_value [of c] by (simp add: length_loop_def)
    then show ?thesis using True Cons by simp
  next
    case False
    then have "length_loop c (Some n) = None" using schar_digit [of c] by (auto simp: length_loop_def)
    then show ?thesis using Cons.prems by simp
  qed
qed simp

lemma length_loop_small:
  assumes "list_all is_digit s" and "0 \<le> n" and "fold (\<lambda>c n. n * 10 + digit_value c) s n \<le> 10000000000000000"
  shows "fold length_loop s (Some n) = Some (fold (\<lambda>c n. n * 10 + digit_value c) s n)"
  using assms
proof (induction s arbitrary: n)
  case (Cons c s)
  have d: "is_digit c" "0 \<le> digit_value c" "digit_value c \<le> 9" using Cons.prems digit_value_bounds by auto
  have "n * 10 + digit_value c \<le> fold (\<lambda>c n. n * 10 + digit_value c) s (n * 10 + digit_value c)"
    using Cons.prems d by (intro digits_fold_mono) auto
  then have "n \<le> 1000000000000000" using Cons.prems(3) d by simp
  then have "length_loop c (Some n) = Some (n * 10 + digit_value c)"
    using d schar_digit [of c] schar_value [of c] by (simp add: length_loop_def)
  then show ?case using Cons d by simp
qed simp

text \<open>A padded payload that passes the check can be taken apart.\<close>

lemma validatePaddedPayload_total:
  assumes "raw_ok fr"
  shows "\<exists>r. validatePaddedPayload fr k = Inr r"
proof (cases "payloadLength (rf_header fr) = 0")
  case False
  then have "rf_data fr \<noteq> []" using assms by (auto simp: raw_ok_def unat_eq_zero)
  then show ?thesis by (simp add: validatePaddedPayload_def Let_def span_at_def)
qed (simp add: validatePaddedPayload_def Let_def)

lemma padded_payload_exact:
  assumes "raw_ok fr" and "hasAnyFlag FF_PADDED (rf_header fr)" and "rf_data fr = pad # rest" and "unat k \<le> 5"
  shows "validatePaddedPayload fr k =
    (if length rest < unat k then Inr (Inl (EC_FRAME_SIZE_ERROR, ''frame payload shorter than padded prefix''))
     else if length rest - unat k \<le> unat pad then Inr (Inl (EC_PROTOCOL_ERROR, ''padding exceeds frame payload''))
     else Inr (Inr ()))"
proof -
  let ?n = "payloadLength (rf_header fr)"
  have n: "unat ?n = Suc (length rest)" using assms(1,3) by (simp add: raw_ok_def)
  have k1: "unat (1 + k) = 1 + unat k" using assms(4) by (simp add: unat_word_ariths)
  have short: "?n < 1 + k \<longleftrightarrow> length rest < unat k" using n k1 by (simp add: word_less_nat_alt)
  have "unat pad < 2 ^ 32" using unsigned_less [of pad] by (rule order.strict_trans2) simp
  then have pad: "unat (ucast pad :: u32) = unat pad" by (simp add: unsigned_ucast_eq take_bit_nat_eq_self)
  have "unat (?n - 1 - k) = length rest - unat k" if "\<not> ?n < 1 + k"
    using that n k1 unat_sub [of "1 + k" ?n] by (simp add: diff_diff_eq not_less)
  then have full: "?n - 1 - k \<le> ucast pad \<longleftrightarrow> length rest - unat k \<le> unat pad" if "\<not> ?n < 1 + k"
    using that pad by (simp add: word_le_nat_alt)
  have "?n \<noteq> 0" using n by auto
  then show ?thesis using assms(2,3) short full by (simp add: validatePaddedPayload_def Let_def span_at_def)
qed

lemma validatePaddedPayload_ok:
  assumes "raw_ok fr" and "unat k \<le> 5" and "validatePaddedPayload fr k = Inr (Inr ())"
  shows "unat k \<le> length (rf_data fr)"
    and "hasAnyFlag FF_PADDED (rf_header fr) \<Longrightarrow>
         \<exists>p ps. rf_data fr = p # ps \<and> unat k + unat p < length ps"
proof -
  have len: "unat (payloadLength (rf_header fr)) = length (rf_data fr)" using assms(1) by (simp add: raw_ok_def)
  show padded: "\<exists>p ps. rf_data fr = p # ps \<and> unat k + unat p < length ps" if "hasAnyFlag FF_PADDED (rf_header fr)"
  proof (cases "rf_data fr")
    case Nil
    then show ?thesis using that assms(3) len by (simp add: validatePaddedPayload_def Let_def unat_eq_zero)
  next
    case (Cons p ps)
    then show ?thesis using padded_payload_exact [OF assms(1) that Cons assms(2)] assms(3) by (auto split: if_splits)
  qed
  show "unat k \<le> length (rf_data fr)"
    using padded assms(3) len by (cases "hasAnyFlag FF_PADDED (rf_header fr)")
      (fastforce, auto simp: validatePaddedPayload_def Let_def word_less_nat_alt split: if_splits)
qed

section \<open>Decimal numbers\<close>

lemma digit_char:
  assumes "d < 10"
  shows "is_digit (char_of (48 + d))" and "digit_value (char_of (48 + d)) = int d"
  using assms by (simp_all add: is_digit_def digit_value_def)

lemma to_string_digits: "list_all is_digit (to_string n)" "to_string n \<noteq> []"
   by (induction n rule: to_string.induct; subst to_string.simps; simp add: digit_char(1))+

lemma digits_to_string: "digits_value (to_string n) = int n"
proof (induction n rule: to_string.induct)
  case (1 n)
  show ?case
  proof (cases "n < 10")
    case True
    then show ?thesis by (subst to_string.simps) (simp add: digits_value_def digit_char(2))
  next
    case False
    have "digits_value (xs @ [c]) = digits_value xs * 10 + digit_value c" for xs c by (simp add: digits_value_def)
    moreover have "int (n div 10) * 10 + int (n mod 10) = int n"
      using arg_cong [OF div_mult_mod_eq [of n 10], of int] by (simp only: of_nat_add of_nat_mult of_nat_numeral)
    ultimately show ?thesis using 1 False by (subst to_string.simps) (simp add: digit_char(2))
  qed
qed

lemma content_length_round_trip:
  assumes "n \<le> 10000000000000000"
  shows "tryParseContentLength (to_string n) = Some (int n)"
  using length_loop_small [of "to_string n" 0] to_string_digits [of n] digits_to_string [of n] assms
  by (simp add: tryParseContentLength_def digits_value_def)

end
