(* ===== verification/Flow.thy ===== *)
theory Flow
  imports Prelude
begin

text \<open>
  Flow-control windows: \<open>InFlow\<close> and \<open>OutFlow\<close> of include/chttp2/flow.hpp and src/flow.cpp.

  The windows are \<open>int32_t\<close>: an \<^typ>\<open>int\<close> here, with \<open>i32\<close> where the source adds in 32 bits
  and \<open>i32_cast\<close> where it narrows a 64-bit sum. The \<open>conn\<close> pointer of a stream's \<open>OutFlow\<close>
  aliases the connection's window, so the operations take that window (or \<open>None\<close> for
  \<open>nullptr\<close>) and return it changed.

  The locale \<open>receive_window\<close> is the contract the protocol relies on when it accounts for
  DATA: taking bytes and giving them back leaves the credit of the window as it was.
\<close>

definition INFLOW_MIN_REFRESH :: int where
  "INFLOW_MIN_REFRESH = 4096"

definition i32_cast :: "int \<Rightarrow> int" where
  "i32_cast n = (n + 2 ^ 31) mod 2 ^ 32 - 2 ^ 31"

section \<open>Incoming data\<close>

record InFlow =
  avail :: int
  unsnt :: int

definition InFlow_zero :: InFlow where
  "InFlow_zero = \<lparr>avail = 0, unsnt = 0\<rparr>"

definition InFlow_init :: "int \<Rightarrow> InFlow \<Rightarrow> InFlow" where
  "InFlow_init n f = f\<lparr>avail := n\<rparr>"

definition InFlow_add :: "int \<Rightarrow> InFlow \<Rightarrow> (int \<times> InFlow) cpp" where
  "InFlow_add n f =
     (let sum = unsnt f + n in
      if INT32_MAX < sum then Inr (- 1, f)
      else let f1 = f\<lparr>unsnt := i32_cast sum\<rparr> in
        if unsnt f1 < INFLOW_MIN_REFRESH \<and> unsnt f1 < avail f1 then Inr (0, f1)
        else cpp_bind (i32 (avail f1 + unsnt f1)) (\<lambda>a.
          Inr (unsnt f1, f1\<lparr>avail := a, unsnt := 0\<rparr>)))"

definition InFlow_take :: "u32 \<Rightarrow> InFlow \<Rightarrow> bool \<times> InFlow" where
  "InFlow_take n f =
     (if avail f \<le> 0 then (False, f)
      else if (word_of_int (avail f) :: u32) < n then (False, f)
      else (True, f\<lparr>avail := avail f - sint n\<rparr>))"

definition takeInflows :: "InFlow \<Rightarrow> InFlow \<Rightarrow> u32 \<Rightarrow> bool \<times> InFlow \<times> InFlow" where
  "takeInflows f1 f2 n =
     (if n = 0 then (True, f1, f2)
      else if avail f1 \<le> 0 \<or> avail f2 \<le> 0 then (False, f1, f2)
      else if (word_of_int (avail f1) :: u32) < n \<or> (word_of_int (avail f2) :: u32) < n
      then (False, f1, f2)
      else (True, f1\<lparr>avail := avail f1 - sint n\<rparr>, f2\<lparr>avail := avail f2 - sint n\<rparr>))"

section \<open>Outgoing data\<close>

record OutFlow =
  of_window :: int

definition OutFlow_zero :: OutFlow where
  "OutFlow_zero = \<lparr>of_window = 0\<rparr>"

definition OutFlow_available :: "OutFlow \<Rightarrow> OutFlow option \<Rightarrow> int" where
  "OutFlow_available f conn =
     (case conn of
        None \<Rightarrow> of_window f
      | Some c \<Rightarrow> if of_window c < of_window f then of_window c else of_window f)"

definition OutFlow_take :: "int \<Rightarrow> OutFlow \<Rightarrow> OutFlow option \<Rightarrow> (OutFlow \<times> OutFlow option) cpp" where
  "OutFlow_take n f conn =
     (if OutFlow_available f conn < n then Inl (RuntimeError ''internal error: took too much'')
      else cpp_bind (i32 (of_window f - n)) (\<lambda>w.
        case conn of
          None \<Rightarrow> Inr (f\<lparr>of_window := w\<rparr>, None)
        | Some c \<Rightarrow> cpp_bind (i32 (of_window c - n)) (\<lambda>cw.
            Inr (f\<lparr>of_window := w\<rparr>, Some (c\<lparr>of_window := cw\<rparr>)))))"

definition OutFlow_add :: "int \<Rightarrow> OutFlow \<Rightarrow> bool \<times> OutFlow" where
  "OutFlow_add n f =
     (let sum = of_window f + n in
      if INT32_MAX < sum \<or> sum < INT32_MIN then (False, f)
      else (True, f\<lparr>of_window := sum\<rparr>))"

section \<open>What the windows satisfy\<close>

text \<open>
  The credit of a receive window is what the peer may still send plus what was consumed but
  not announced yet.
\<close>

definition InFlow_credit :: "InFlow \<Rightarrow> int" where
  "InFlow_credit f = avail f + unsnt f"

definition InFlow_wf :: "InFlow \<Rightarrow> bool" where
  "InFlow_wf f \<longleftrightarrow> INT32_MIN \<le> avail f \<and> avail f \<le> INT32_MAX \<and> 0 \<le> unsnt f \<and>
     InFlow_credit f \<le> INT32_MAX"

definition OutFlow_wf :: "OutFlow \<Rightarrow> bool" where
  "OutFlow_wf f \<longleftrightarrow> INT32_MIN \<le> of_window f \<and> of_window f \<le> INT32_MAX"

lemmas i32_bounds = INT32_MIN_def INT32_MAX_def

lemma i32_cast_id: "INT32_MIN \<le> n \<Longrightarrow> n \<le> INT32_MAX \<Longrightarrow> i32_cast n = n"
  by (simp add: i32_cast_def i32_bounds)

lemma sint_u32_small:
  fixes n :: u32
  assumes "uint n \<le> INT32_MAX"
  shows "sint n = uint n"
  using assms by (simp add: sint_uint signed_take_bit_eq_take_bit_shift take_bit_eq_mod i32_bounds)

lemma word_of_int_less_u32:
  fixes n :: u32
  assumes "0 \<le> a" and "a \<le> INT32_MAX"
  shows "(word_of_int a :: u32) < n \<longleftrightarrow> a < uint n"
  using assms by (simp add: word_less_alt uint_word_of_int i32_bounds)

lemma InFlow_take_iff:
  assumes "InFlow_wf f"
  shows "InFlow_take n f =
     (if 0 < avail f \<and> uint n \<le> avail f then (True, f\<lparr>avail := avail f - uint n\<rparr>) else (False, f))"
proof (cases "0 < avail f")
  case True
  from assms have le: "avail f \<le> INT32_MAX" by (simp add: InFlow_wf_def)
  have "(word_of_int (avail f) :: u32) < n \<longleftrightarrow> avail f < uint n"
    using word_of_int_less_u32 [of "avail f" n] True le by simp
  then show ?thesis using True sint_u32_small [of n] le by (auto simp: InFlow_take_def)
qed (simp add: InFlow_take_def)

lemma takeInflows_iff:
  assumes "InFlow_wf f1" and "InFlow_wf f2"
  shows "takeInflows f1 f2 n =
     (if n = 0 then (True, f1, f2)
      else if 0 < avail f1 \<and> uint n \<le> avail f1 \<and> 0 < avail f2 \<and> uint n \<le> avail f2
      then (True, f1\<lparr>avail := avail f1 - uint n\<rparr>, f2\<lparr>avail := avail f2 - uint n\<rparr>)
      else (False, f1, f2))"
proof -
  have le: "avail f1 \<le> INT32_MAX" "avail f2 \<le> INT32_MAX" using assms by (simp_all add: InFlow_wf_def)
  have w: "(word_of_int (avail f1) :: u32) < n \<longleftrightarrow> avail f1 < uint n" if "0 < avail f1"
    using word_of_int_less_u32 [of "avail f1" n] that le by simp
  have w': "(word_of_int (avail f2) :: u32) < n \<longleftrightarrow> avail f2 < uint n" if "0 < avail f2"
    using word_of_int_less_u32 [of "avail f2" n] that le by simp
  show ?thesis using w w' sint_u32_small [of n] le by (auto simp: takeInflows_def)
qed

lemma InFlow_add_wf:
  assumes "InFlow_wf f" and "0 \<le> n" and "InFlow_credit f + n \<le> INT32_MAX" and "unsnt f + n \<le> INT32_MAX"
  shows "\<exists>r f'. InFlow_add n f = Inr (r, f') \<and> 0 \<le> r \<and> InFlow_wf f' \<and>
    InFlow_credit f' = InFlow_credit f + n \<and> avail f' = avail f + r"
proof -
  have "i32_cast (unsnt f + n) = unsnt f + n"
    using assms by (intro i32_cast_id) (auto simp: InFlow_wf_def i32_bounds)
  with assms show ?thesis
    by (auto simp: InFlow_add_def InFlow_wf_def InFlow_credit_def Let_def i32_bounds i32_def)
qed

text \<open>A window whose consumed bytes were all given back never stays shut.\<close>

lemma InFlow_add_open:
  assumes "InFlow_wf f" and "0 \<le> n" and "InFlow_add n f = Inr (r, f')" and "0 \<le> r"
    and "0 < InFlow_credit f + n"
  shows "0 < avail f'"
proof -
  have "unsnt f + n \<le> INT32_MAX" using assms(3,4) by (auto simp: InFlow_add_def Let_def split: if_splits)
  then have "i32_cast (unsnt f + n) = unsnt f + n"
    using assms by (intro i32_cast_id) (auto simp: InFlow_wf_def i32_bounds)
  with assms show ?thesis
    by (auto simp: InFlow_add_def InFlow_wf_def InFlow_credit_def Let_def cpp_simps split: if_splits)
qed

lemma OutFlow_available_le:
  "OutFlow_available f conn \<le> of_window f"
  "OutFlow_available f (Some c) \<le> of_window c"
  by (auto simp: OutFlow_available_def split: option.splits)

lemma OutFlow_take_wf:
  assumes "OutFlow_wf f" and "OutFlow_wf c" and "0 \<le> n" and "n \<le> OutFlow_available f (Some c)"
  shows "OutFlow_take n f (Some c) =
     Inr (f\<lparr>of_window := of_window f - n\<rparr>, Some (c\<lparr>of_window := of_window c - n\<rparr>))"
  using assms OutFlow_available_le(1) [of f "Some c"] OutFlow_available_le(2) [of f c]
  by (simp add: OutFlow_take_def OutFlow_wf_def i32_bounds i32_def)

lemma OutFlow_add_wf: "OutFlow_wf f \<Longrightarrow> OutFlow_wf (snd (OutFlow_add n f))"
  by (simp add: OutFlow_add_def OutFlow_wf_def Let_def)

section \<open>The contract of a receive window\<close>

locale receive_window =
  fixes wf :: "'f \<Rightarrow> bool"
    and credit :: "'f \<Rightarrow> int"
    and usable :: "'f \<Rightarrow> int"
    and take :: "u32 \<Rightarrow> 'f \<Rightarrow> bool \<times> 'f"
    and give :: "int \<Rightarrow> 'f \<Rightarrow> (int \<times> 'f) cpp"
  assumes wf_credit: "wf f \<Longrightarrow> credit f \<le> INT32_MAX"
    and take_ok: "wf f \<Longrightarrow> take n f = (True, f') \<Longrightarrow>
      wf f' \<and> credit f' = credit f - uint n \<and> usable f' = usable f - uint n \<and> 0 \<le> usable f'"
    and take_refused: "wf f \<Longrightarrow> take n f = (False, f') \<Longrightarrow> f' = f"
    and give_ok: "wf f \<Longrightarrow> 0 \<le> k \<Longrightarrow> 0 \<le> usable f \<Longrightarrow> credit f + k \<le> INT32_MAX \<Longrightarrow>
      \<exists>r f'. give k f = Inr (r, f') \<and> 0 \<le> r \<and> wf f' \<and> credit f' = credit f + k
             \<and> usable f' = usable f + r"
begin

lemma take_give:
  assumes "wf f" and "take n f = (True, f1)"
  shows "\<exists>r f2. give (uint n) f1 = Inr (r, f2) \<and> 0 \<le> r \<and> wf f2 \<and> credit f2 = credit f
                \<and> usable f2 = usable f - uint n + r"
proof -
  from take_ok [OF assms] wf_credit [OF assms(1)] show ?thesis
    using give_ok [of f1 "uint n"] by fastforce
qed

end

interpretation inflow: receive_window InFlow_wf InFlow_credit avail InFlow_take InFlow_add
proof (unfold_locales, goal_cases)
  case (2 f n f')
  then show ?case
    by (auto simp: InFlow_take_iff InFlow_wf_def InFlow_credit_def i32_bounds split: if_splits)
       (use uint_ge_0 [of n] in linarith)+
next
  case (4 f n)
  then show ?case using InFlow_add_wf [of f n] by (simp add: InFlow_credit_def)
qed (auto simp: InFlow_take_iff InFlow_wf_def split: if_splits)

end
