(* ===== verification/Streams.thy ===== *)
theory Streams
  imports Messages Flow
begin

text \<open>
  One request/response exchange and what the protocol reports: include/chttp2/stream.hpp,
  src/stream.cpp, include/chttp2/protocol_event.hpp and \<open>ProtocolStepResult\<close> of
  include/chttp2/http2_protocol.hpp.

  \<open>ProtocolEvent\<close> has one constructor per factory function, with the fields that function
  sets. The stream's back pointer to the connection's send window is passed where it is used.
\<close>

section \<open>Streams\<close>

record Stream =
  st_id :: StreamId
  st_state :: StreamState
  requestStarted :: bool
  localEndStreamSent :: bool
  remoteEndStreamReceived :: bool
  waitingForContinuation :: bool
  pendingHeaderEndStream :: bool
  finalResponseHeadersReceived :: bool
  trailingHeadersReceived :: bool
  responseComplete :: bool
  isHeadRequest :: bool
  requestBodyOffset :: nat
  expectedContentLength :: int
  receivedContentLength :: int
  rqst :: Request
  resp :: Response
  lastEC :: ErrorCode
  pendingHeaderBlock :: "u8 list"
  inflow :: InFlow
  outflow :: OutFlow

definition Stream_new :: "StreamId \<Rightarrow> Stream" where
  "Stream_new sid =
     \<lparr>st_id = sid, st_state = SS_IDLE, requestStarted = False, localEndStreamSent = False,
      remoteEndStreamReceived = False, waitingForContinuation = False,
      pendingHeaderEndStream = False, finalResponseHeadersReceived = False,
      trailingHeadersReceived = False, responseComplete = False, isHeadRequest = False,
      requestBodyOffset = 0, expectedContentLength = -1, receivedContentLength = 0,
      rqst = Request_new, resp = Response_new, lastEC = EC_NO_ERROR, pendingHeaderBlock = [],
      inflow = InFlow_zero, outflow = OutFlow_zero\<rparr>"

definition Stream_isClosed :: "Stream \<Rightarrow> bool" where
  "Stream_isClosed s \<longleftrightarrow> st_state s = SS_CLOSED"

definition hasBody :: "Stream \<Rightarrow> bool" where
  "hasBody s \<longleftrightarrow> rq_body (rqst s) \<noteq> []"

definition hasPendingRequestBody :: "Stream \<Rightarrow> bool" where
  "hasPendingRequestBody s \<longleftrightarrow> requestBodyOffset s < length (rq_body (rqst s))"

definition remainingBodySize :: "Stream \<Rightarrow> nat" where
  "remainingBodySize s = (length (rq_body (rqst s)) + 2 ^ 64 - requestBodyOffset s) mod 2 ^ 64"

definition expectsNoBody :: "Stream \<Rightarrow> bool cpp" where
  "expectsNoBody s =
     cpp_bind (getStatusCode (resp s)) (\<lambda>status.
       Inr (isHeadRequest s \<or> status = 204 \<or> status = 304))"

definition setRequest :: "Request \<Rightarrow> Stream \<Rightarrow> Stream" where
  "setRequest r s =
     s\<lparr>rqst := r, isHeadRequest := (Request_find r '':method'' = Some ''HEAD'')\<rparr>"

definition markClosed :: "ErrorCode \<Rightarrow> Stream \<Rightarrow> Stream" where
  "markClosed e s = s\<lparr>lastEC := e, st_state := SS_CLOSED\<rparr>"

section \<open>Events and results\<close>

datatype ProtocolEvent =
    EV_CONNECTION_STARTED
  | EV_SETTINGS_RECEIVED
  | EV_SETTINGS_ACK_RECEIVED
  | EV_PING_RECEIVED string
  | EV_PING_ACK_RECEIVED string
  | EV_GOAWAY_SENT StreamId ErrorCode string
  | EV_GOAWAY_RECEIVED StreamId ErrorCode string
  | EV_CONNECTION_ERROR ErrorCode
  | EV_CONNECTION_CLOSED ErrorCode
  | EV_TRANSPORT_CLOSED
  | EV_STREAM_OPENED StreamId
  | EV_STREAM_HEADERS_RECEIVED StreamId Response
  | EV_STREAM_RESET_RECEIVED StreamId ErrorCode
  | EV_STREAM_CLOSED StreamId ErrorCode
  | EV_WINDOW_UPDATE_RECEIVED StreamId u32
  | EV_PUSH_PROMISE_RECEIVED StreamId StreamId
  | EV_UNKNOWN_FRAME_RECEIVED FrameType StreamId u8 string
  | EV_RESPONSE_COMPLETED StreamId Response
  | EV_RESPONSE_FAILED StreamId ErrorCode

record ProtocolStepResult =
  outbound :: "u8 list list"
  events :: "ProtocolEvent list"
  hasSubmittedStream :: bool
  submittedStreamId :: StreamId

definition no_result :: ProtocolStepResult where
  "no_result = \<lparr>outbound = [], events = [], hasSubmittedStream = False, submittedStreamId = 0\<rparr>"

definition push_event :: "ProtocolEvent \<Rightarrow> ProtocolStepResult \<Rightarrow> ProtocolStepResult" where
  "push_event e r = r\<lparr>events := events r @ [e]\<rparr>"

text \<open>\<open>appendOutboundFrame\<close> on the bytes of the frame.\<close>

definition appendOutboundFrame :: "u8 list \<Rightarrow> ProtocolStepResult \<Rightarrow> ProtocolStepResult" where
  "appendOutboundFrame bs r = r\<lparr>outbound := outbound r @ [bs]\<rparr>"

definition mergeStepResult :: "ProtocolStepResult \<Rightarrow> ProtocolStepResult \<Rightarrow> ProtocolStepResult" where
  "mergeStepResult dst src =
     (let dst = dst\<lparr>outbound := outbound dst @ outbound src, events := events dst @ events src\<rparr>
      in if hasSubmittedStream src
         then dst\<lparr>hasSubmittedStream := True, submittedStreamId := submittedStreamId src\<rparr> else dst)"

section \<open>Simple facts\<close>

lemma result_simps [simp]:
  "outbound no_result = []" "events no_result = []" "\<not> hasSubmittedStream no_result"
  "outbound (push_event e r) = outbound r" "events (push_event e r) = events r @ [e]"
  "hasSubmittedStream (push_event e r) = hasSubmittedStream r"
  "submittedStreamId (push_event e r) = submittedStreamId r"
  "outbound (appendOutboundFrame bs r) = outbound r @ [bs]"
  "events (appendOutboundFrame bs r) = events r"
  "hasSubmittedStream (appendOutboundFrame bs r) = hasSubmittedStream r"
  "submittedStreamId (appendOutboundFrame bs r) = submittedStreamId r"
  "outbound (mergeStepResult a b) = outbound a @ outbound b"
  "events (mergeStepResult a b) = events a @ events b"
  "hasSubmittedStream (mergeStepResult a b) = (hasSubmittedStream a \<or> hasSubmittedStream b)"
  by (simp_all add: no_result_def push_event_def appendOutboundFrame_def mergeStepResult_def Let_def)

lemma merge_no_result [simp]: "mergeStepResult r no_result = r"
  by (simp add: mergeStepResult_def no_result_def)

lemma merge_assoc: "mergeStepResult (mergeStepResult a b) c = mergeStepResult a (mergeStepResult b c)"
  by (auto simp: mergeStepResult_def Let_def)

lemma remainingBodySize_le:
  assumes "requestBodyOffset s \<le> length (rq_body (rqst s))" and "length (rq_body (rqst s)) < 2 ^ 64"
  shows "remainingBodySize s = length (rq_body (rqst s)) - requestBodyOffset s"
proof -
  let ?n = "length (rq_body (rqst s))"
  have "?n + 2 ^ 64 - requestBodyOffset s = (?n - requestBodyOffset s) + 2 ^ 64" using assms(1) by simp
  moreover have "?n - requestBodyOffset s < 2 ^ 64" using assms(2) by linarith
  ultimately show ?thesis unfolding remainingBodySize_def by (simp only: mod_add_self2 mod_less)
qed

end
