(* ===== verification/Huffman.thy ===== *)
theory Huffman
  imports Bytes "HOL-Library.Sublist"
begin

text \<open>
  The Huffman code of HPACK: include/chttp2/hpack/huffman.hpp and src/hpack/huffman.cpp.

  \<open>Node\<close> is the struct of the decoding tree, its array of 256 child pointers a function from
  bytes to optional nodes; \<open>buildTree\<close> inserts the 256 codes eight bits at a time. The
  encoder keeps its 64-bit accumulator, the decoder its 32-bit one. The lemmas relate both
  to lists of bits: the tree holds exactly the codes (\<open>info_at_buildTree\<close>), the codes are
  prefix free, the encoder writes the padded concatenation of the codes, and the decoder
  reads it back.

  Bit counts (\<open>len\<close>, \<open>nbits\<close>, \<open>avail\<close>, \<open>pending\<close>) are natural numbers: they stay below 256
  except \<open>pending\<close>, whose wrap-around is written out.
\<close>

section \<open>Tables\<close>

definition codes :: "u32 list" where
  "codes =
     [0x1ff8, 0x7fffd8, 0xfffffe2, 0xfffffe3, 0xfffffe4, 0xfffffe5, 0xfffffe6, 0xfffffe7,
      0xfffffe8, 0xffffea, 0x3ffffffc, 0xfffffe9, 0xfffffea, 0x3ffffffd, 0xfffffeb, 0xfffffec,
      0xfffffed, 0xfffffee, 0xfffffef, 0xffffff0, 0xffffff1, 0xffffff2, 0x3ffffffe, 0xffffff3,
      0xffffff4, 0xffffff5, 0xffffff6, 0xffffff7, 0xffffff8, 0xffffff9, 0xffffffa, 0xffffffb,
      0x14, 0x3f8, 0x3f9, 0xffa, 0x1ff9, 0x15, 0xf8, 0x7fa,
      0x3fa, 0x3fb, 0xf9, 0x7fb, 0xfa, 0x16, 0x17, 0x18,
      0x0, 0x1, 0x2, 0x19, 0x1a, 0x1b, 0x1c, 0x1d,
      0x1e, 0x1f, 0x5c, 0xfb, 0x7ffc, 0x20, 0xffb, 0x3fc,
      0x1ffa, 0x21, 0x5d, 0x5e, 0x5f, 0x60, 0x61, 0x62,
      0x63, 0x64, 0x65, 0x66, 0x67, 0x68, 0x69, 0x6a,
      0x6b, 0x6c, 0x6d, 0x6e, 0x6f, 0x70, 0x71, 0x72,
      0xfc, 0x73, 0xfd, 0x1ffb, 0x7fff0, 0x1ffc, 0x3ffc, 0x22,
      0x7ffd, 0x3, 0x23, 0x4, 0x24, 0x5, 0x25, 0x26,
      0x27, 0x6, 0x74, 0x75, 0x28, 0x29, 0x2a, 0x7,
      0x2b, 0x76, 0x2c, 0x8, 0x9, 0x2d, 0x77, 0x78,
      0x79, 0x7a, 0x7b, 0x7ffe, 0x7fc, 0x3ffd, 0x1ffd, 0xffffffc,
      0xfffe6, 0x3fffd2, 0xfffe7, 0xfffe8, 0x3fffd3, 0x3fffd4, 0x3fffd5, 0x7fffd9,
      0x3fffd6, 0x7fffda, 0x7fffdb, 0x7fffdc, 0x7fffdd, 0x7fffde, 0xffffeb, 0x7fffdf,
      0xffffec, 0xffffed, 0x3fffd7, 0x7fffe0, 0xffffee, 0x7fffe1, 0x7fffe2, 0x7fffe3,
      0x7fffe4, 0x1fffdc, 0x3fffd8, 0x7fffe5, 0x3fffd9, 0x7fffe6, 0x7fffe7, 0xffffef,
      0x3fffda, 0x1fffdd, 0xfffe9, 0x3fffdb, 0x3fffdc, 0x7fffe8, 0x7fffe9, 0x1fffde,
      0x7fffea, 0x3fffdd, 0x3fffde, 0xfffff0, 0x1fffdf, 0x3fffdf, 0x7fffeb, 0x7fffec,
      0x1fffe0, 0x1fffe1, 0x3fffe0, 0x1fffe2, 0x7fffed, 0x3fffe1, 0x7fffee, 0x7fffef,
      0xfffea, 0x3fffe2, 0x3fffe3, 0x3fffe4, 0x7ffff0, 0x3fffe5, 0x3fffe6, 0x7ffff1,
      0x3ffffe0, 0x3ffffe1, 0xfffeb, 0x7fff1, 0x3fffe7, 0x7ffff2, 0x3fffe8, 0x1ffffec,
      0x3ffffe2, 0x3ffffe3, 0x3ffffe4, 0x7ffffde, 0x7ffffdf, 0x3ffffe5, 0xfffff1, 0x1ffffed,
      0x7fff2, 0x1fffe3, 0x3ffffe6, 0x7ffffe0, 0x7ffffe1, 0x3ffffe7, 0x7ffffe2, 0xfffff2,
      0x1fffe4, 0x1fffe5, 0x3ffffe8, 0x3ffffe9, 0xffffffd, 0x7ffffe3, 0x7ffffe4, 0x7ffffe5,
      0xfffec, 0xfffff3, 0xfffed, 0x1fffe6, 0x3fffe9, 0x1fffe7, 0x1fffe8, 0x7ffff3,
      0x3fffea, 0x3fffeb, 0x1ffffee, 0x1ffffef, 0xfffff4, 0xfffff5, 0x3ffffea, 0x7ffff4,
      0x3ffffeb, 0x7ffffe6, 0x3ffffec, 0x3ffffed, 0x7ffffe7, 0x7ffffe8, 0x7ffffe9, 0x7ffffea,
      0x7ffffeb, 0xffffffe, 0x7ffffec, 0x7ffffed, 0x7ffffee, 0x7ffffef, 0x7fffff0, 0x3ffffee]"

definition lengths :: "nat list" where
  "lengths =
     [13, 23, 28, 28, 28, 28, 28, 28, 28, 24, 30, 28, 28, 30, 28, 28, 28, 28, 28, 28, 28, 28, 30, 28,
      28, 28, 28, 28, 28, 28, 28, 28, 6, 10, 10, 12, 13, 6, 8, 11, 10, 10, 8, 11, 8, 6, 6, 6,
      5, 5, 5, 6, 6, 6, 6, 6, 6, 6, 7, 8, 15, 6, 12, 10, 13, 6, 7, 7, 7, 7, 7, 7,
      7, 7, 7, 7, 7, 7, 7, 7, 7, 7, 7, 7, 7, 7, 7, 7, 8, 7, 8, 13, 19, 13, 14, 6,
      15, 5, 6, 5, 6, 5, 6, 6, 6, 5, 7, 7, 6, 6, 6, 5, 6, 7, 6, 5, 5, 6, 7, 7,
      7, 7, 7, 15, 11, 14, 13, 28, 20, 22, 20, 20, 22, 22, 22, 23, 22, 23, 23, 23, 23, 23, 24, 23,
      24, 24, 22, 23, 24, 23, 23, 23, 23, 21, 22, 23, 22, 23, 23, 24, 22, 21, 20, 22, 22, 23, 23, 21,
      23, 22, 22, 24, 21, 22, 23, 23, 21, 21, 22, 21, 23, 22, 23, 23, 20, 22, 22, 22, 23, 22, 22, 23,
      26, 26, 20, 19, 22, 23, 22, 25, 26, 26, 26, 27, 27, 26, 24, 25, 19, 21, 26, 27, 27, 26, 27, 24,
      21, 21, 26, 26, 28, 27, 27, 27, 20, 24, 20, 21, 22, 21, 21, 23, 22, 22, 25, 25, 24, 24, 26, 23,
      26, 27, 26, 26, 27, 27, 27, 27, 27, 28, 27, 27, 27, 27, 27, 26]"

section \<open>The tree\<close>

datatype Node = Node (children: "u8 \<Rightarrow> Node option") (leaf: bool) (bits: nat) (symbol: u8)

definition new_Node :: Node where
  "new_Node = Node (\<lambda>_. None) False 0 0"

definition set_child :: "Node \<Rightarrow> u8 \<Rightarrow> Node \<Rightarrow> Node" where
  "set_child n i c = Node ((children n)(i \<mapsto> c)) (leaf n) (bits n) (symbol n)"

text \<open>The fill loop for the last partial byte, and the walk over the full bytes before it.\<close>

definition fill_leaf :: "nat \<Rightarrow> u8 \<Rightarrow> nat \<Rightarrow> Node \<Rightarrow> Node" where
  "fill_leaf len sy j n =
     (if children n (of_nat j) = None
      then set_child n (of_nat j) (Node (\<lambda>_. None) True len sy) else n)"

function insert_code :: "u32 \<Rightarrow> nat \<Rightarrow> u8 \<Rightarrow> Node \<Rightarrow> Node" where
  "insert_code code len sy n =
     (if 8 < len
      then let idx = ucast (drop_bit (len - 8) code) in
        set_child n idx
          (insert_code code (len - 8) sy
             (case children n idx of None \<Rightarrow> new_Node | Some c \<Rightarrow> c))
      else let shift = 8 - len; start = unat (ucast (push_bit shift code) :: u8); count = 2 ^ shift in
        fold (fill_leaf len sy) [start..<start + count] n)"
  by pat_completeness auto
termination
  by (relation "measure (\<lambda>(code, len, sy, n). len)") auto

declare insert_code.simps [simp del]

definition buildTree :: Node where
  "buildTree =
     fold (\<lambda>s. insert_code (codes ! s) (lengths ! s) (of_nat s)) [0..<length codes] new_Node"

section \<open>Encoding\<close>

definition code_of :: "char \<Rightarrow> u32" where
  "code_of c = codes ! unat (byte_of_char c)"

definition length_of :: "char \<Rightarrow> nat" where
  "length_of c = lengths ! unat (byte_of_char c)"

definition encodedLength :: "string \<Rightarrow> nat" where
  "encodedLength str = (sum_list (map length_of str) + 7) div 8"

definition huffman_put :: "char \<Rightarrow> u8 list \<times> u64 \<times> nat \<Rightarrow> u8 list \<times> u64 \<times> nat" where
  "huffman_put c st =
     (case st of (out, buf, nbits) \<Rightarrow>
        let buf = push_bit (length_of c) buf OR ucast (code_of c);
            nbits = nbits + length_of c
        in if 32 \<le> nbits
           then let nbits = nbits - 32;
                    word = ucast (drop_bit nbits buf) :: u32
                in (out @ [ucast (drop_bit 24 word), ucast (drop_bit 16 word),
                           ucast (drop_bit 8 word), ucast word], buf, nbits)
           else (out, buf, nbits))"

fun huffman_flush :: "u8 list \<Rightarrow> u64 \<Rightarrow> nat \<Rightarrow> u8 list" where
  "huffman_flush out buf nbits =
     (if 8 \<le> nbits
      then huffman_flush (out @ [ucast (drop_bit (nbits - 8) buf)]) buf (nbits - 8)
      else out)"

declare huffman_flush.simps [simp del]

definition huffman_encode :: "string \<Rightarrow> u8 list" where
  "huffman_encode str =
     (case fold huffman_put str ([], 0, 0) of (out, buf, nbits) \<Rightarrow>
        let rem = nbits mod 8 in
        if 0 < rem
        then let pad = 8 - rem in
          huffman_flush out (push_bit pad buf OR (push_bit pad 1 - 1)) (nbits + pad)
        else huffman_flush out buf nbits)"

section \<open>Decoding\<close>

datatype HuffmanResult = HR_OK | HR_INVALID_CODE

record Decoder =
  d_node :: Node
  d_buf :: u32
  d_avail :: nat
  d_pending :: nat
  d_result :: string

text \<open>
  The inner loop \<open>while (avail >= 8)\<close>; \<open>False\<close> is the early return of \<open>INVALID_CODE\<close>. A leaf
  that consumed no bits would make it run forever.
\<close>

function decode_full :: "Decoder \<Rightarrow> (bool \<times> Decoder) cpp" where
  "decode_full d =
     (if 8 \<le> d_avail d
      then let idx = ucast (drop_bit (d_avail d - 8) (d_buf d) AND 0xff) :: u8 in
        (case children (d_node d) idx of
           None \<Rightarrow> Inr (False, d)
         | Some n \<Rightarrow>
             if leaf n
             then if bits n = 0 then Inl (Diverges ''Huffman::decode'')
               else decode_full (d\<lparr>d_result := d_result d @ [char_of_byte (symbol n)],
                                   d_avail := d_avail d - bits n,
                                   d_node := buildTree,
                                   d_pending := d_avail d - bits n\<rparr>)
             else decode_full (d\<lparr>d_node := n, d_avail := d_avail d - 8\<rparr>))
      else Inr (True, d))"
  by pat_completeness auto
termination
  by (relation "measure d_avail") auto

declare decode_full.simps [simp del]

fun decode_bytes :: "u8 list \<Rightarrow> Decoder \<Rightarrow> (bool \<times> Decoder) cpp" where
  "decode_bytes [] d = Inr (True, d)"
| "decode_bytes (b # bs) d =
     cpp_bind (decode_full (d\<lparr>d_buf := push_bit 8 (d_buf d) OR ucast b,
                              d_avail := d_avail d + 8,
                              d_pending := (d_pending d + 8) mod 256\<rparr>)) (\<lambda>(ok, d').
       if ok then decode_bytes bs d' else Inr (False, d'))"

text \<open>The loop on the remaining bits, fewer than eight.\<close>

function decode_rest :: "Decoder \<Rightarrow> Decoder cpp" where
  "decode_rest d =
     (if 0 < d_avail d
      then let idx = ucast (push_bit (8 - d_avail d) (d_buf d) AND 0xff) :: u8 in
        (case children (d_node d) idx of
           None \<Rightarrow> Inr d
         | Some n \<Rightarrow>
             if \<not> leaf n \<or> d_avail d < bits n then Inr d
             else if bits n = 0 then Inl (Diverges ''Huffman::decode'')
             else decode_rest (d\<lparr>d_result := d_result d @ [char_of_byte (symbol n)],
                                 d_avail := d_avail d - bits n,
                                 d_node := buildTree,
                                 d_pending := d_avail d - bits n\<rparr>))
      else Inr d)"
  by pat_completeness auto
termination
  by (relation "measure d_avail") auto

declare decode_rest.simps [simp del]

text \<open>The result is what was appended to the caller's string, with the code returned.\<close>

definition huffman_decode :: "u8 list \<Rightarrow> (HuffmanResult \<times> string) cpp" where
  "huffman_decode data =
     cpp_bind (decode_bytes data
       \<lparr>d_node = buildTree, d_buf = 0, d_avail = 0, d_pending = 0, d_result = []\<rparr>) (\<lambda>(ok, d).
     if \<not> ok then Inr (HR_INVALID_CODE, d_result d)
     else cpp_bind (decode_rest d) (\<lambda>d.
       if 7 < d_pending d then Inr (HR_INVALID_CODE, d_result d)
       else let mask = push_bit (d_avail d) 1 - 1 in
         if d_buf d AND mask \<noteq> mask then Inr (HR_INVALID_CODE, d_result d)
         else Inr (HR_OK, d_result d)))"

section \<open>The shape of the tree\<close>

fun node_at :: "Node \<Rightarrow> u8 list \<Rightarrow> Node option" where
  "node_at n [] = Some n"
| "node_at n (i # p) = (case children n i of None \<Rightarrow> None | Some c \<Rightarrow> node_at c p)"

definition info_at :: "Node \<Rightarrow> u8 list \<Rightarrow> (bool \<times> nat \<times> u8) option" where
  "info_at n p = map_option (\<lambda>n. (leaf n, bits n, symbol n)) (node_at n p)"

text \<open>What inserting one code adds at a path where the tree had nothing.\<close>

fun added :: "u32 \<Rightarrow> nat \<Rightarrow> u8 \<Rightarrow> u8 list \<Rightarrow> (bool \<times> nat \<times> u8) option" where
  "added code len sy [] = None"
| "added code len sy (i # p) =
     (if 8 < len
      then if i = ucast (drop_bit (len - 8) code)
        then if p = [] then Some (False, 0, 0) else added code (len - 8) sy p
        else None
      else if p = [] \<and> drop_bit (8 - len) (unat i) = drop_bit (8 - len) (unat (ucast (push_bit (8 - len) code) :: u8))
      then Some (True, len, sy) else None)"

lemma set_child_simps [simp]:
  "children (set_child n i c) = (children n)(i \<mapsto> c)" "leaf (set_child n i c) = leaf n"
  "bits (set_child n i c) = bits n" "symbol (set_child n i c) = symbol n"
  by (simp_all add: set_child_def)

lemma fill_leaf_info [simp]:
  "leaf (fold (fill_leaf len sy) js n) = leaf n" "bits (fold (fill_leaf len sy) js n) = bits n"
  "symbol (fold (fill_leaf len sy) js n) = symbol n"
  by (induction js arbitrary: n) (simp_all add: fill_leaf_def)

lemma children_fill_leaf:
  "children (fold (fill_leaf len sy) js n) i =
     (case children n i of
        Some c \<Rightarrow> Some c
      | None \<Rightarrow> if i \<in> of_nat ` set js then Some (Node (\<lambda>_. None) True len sy) else None)"
proof (induction js arbitrary: n)
  case (Cons j js)
  show ?case unfolding fold_simps comp_apply Cons.IH by (auto simp: fill_leaf_def split: option.splits)
qed (simp split: option.split)

lemma div_eq_iff_range: "0 < (b::nat) \<Longrightarrow> k div b = m \<longleftrightarrow> m * b \<le> k \<and> k < (m + 1) * b"
  using div_times_less_eq_dividend [of k b] dividend_less_div_times [of b k]
  by (auto intro!: div_nat_eqI simp: mult.commute)

lemma start_range:
  fixes code :: u32 and i :: u8
  assumes "s \<le> 8"
  defines "start \<equiv> unat (ucast (push_bit s code) :: u8)"
  shows "i \<in> of_nat ` {start..<start + 2 ^ s} \<longleftrightarrow> drop_bit s (unat i) = drop_bit s start"
proof -
  have "take_bit s (ucast (push_bit s code) :: u8) = 0" by (rule bit_word_eqI) (auto simp: bit_simps)
  then have "take_bit s start = 0" by (simp add: start_def flip: unsigned_take_bit_eq)
  then have start: "start = start div 2 ^ s * 2 ^ s"
    by (metis add.right_neutral div_mult_mod_eq take_bit_eq_mod)
  have lt: "start < 2 ^ 8" using unsigned_less [of "ucast (push_bit s code) :: u8"] by (simp add: start_def)
  have "(2::nat) ^ 8 = 2 ^ (8 - s) * 2 ^ s" using assms(1) by (simp flip: power_add)
  then have "start div 2 ^ s < 2 ^ (8 - s)" using lt start by (metis less_mult_imp_div_less)
  then have "(start div 2 ^ s + 1) * 2 ^ s \<le> 2 ^ (8 - s) * 2 ^ s" by (intro mult_right_mono) auto
  then have hi: "start + 2 ^ s \<le> 256" using start \<open>(2::nat) ^ 8 = _\<close> by simp
  have iff: "k \<in> {start..<start + 2 ^ s} \<longleftrightarrow> drop_bit s k = drop_bit s start" for k
  proof -
    have "k div 2 ^ s = start div 2 ^ s \<longleftrightarrow> start div 2 ^ s * 2 ^ s \<le> k \<and> k < (start div 2 ^ s + 1) * 2 ^ s"
      by (rule div_eq_iff_range) simp
    then show ?thesis using start by (simp add: drop_bit_eq_div add.commute)
  qed
  show ?thesis
  proof
    assume "i \<in> of_nat ` {start..<start + 2 ^ s}"
    then obtain k where k: "i = of_nat k" "k \<in> {start..<start + 2 ^ s}" by blast
    then have "unat i = k" using hi by (simp add: unat_of_nat)
    then show "drop_bit s (unat i) = drop_bit s start" using iff k by simp
  next
    assume "drop_bit s (unat i) = drop_bit s start"
    then have "unat i \<in> {start..<start + 2 ^ s}" using iff by blast
    then show "i \<in> of_nat ` {start..<start + 2 ^ s}" by (intro image_eqI [of _ _ "unat i"]) simp_all
  qed
qed

lemma insert_code_info [simp]:
  "leaf (insert_code code len sy n) = leaf n" "bits (insert_code code len sy n) = bits n"
  "symbol (insert_code code len sy n) = symbol n"
  by (subst insert_code.simps, simp add: Let_def)+

lemma new_Node_simps [simp]:
  "\<not> leaf new_Node" "bits new_Node = 0" "symbol new_Node = 0"
  by (simp_all add: new_Node_def)

lemma info_at_new [simp]: "p \<noteq> [] \<Longrightarrow> info_at new_Node p = None"
  by (cases p) (simp_all add: info_at_def new_Node_def)

lemma info_at_Nil: "info_at n [] = Some (leaf n, bits n, symbol n)"
  by (simp add: info_at_def)

lemma info_at_Cons: "info_at n (i # p) = (case children n i of None \<Rightarrow> None | Some c \<Rightarrow> info_at c p)"
  by (simp add: info_at_def split: option.split)

lemma info_at_leaf: "info_at (Node (\<lambda>_. None) a b c) p = (if p = [] then Some (a, b, c) else None)"
  by (cases p) (simp_all add: info_at_def)

lemma info_at_insert_code:
  "p \<noteq> [] \<Longrightarrow> info_at (insert_code code len sy n) p =
     (case info_at n p of None \<Rightarrow> added code len sy p | Some x \<Rightarrow> Some x)"
proof (induction code len sy n arbitrary: p rule: insert_code.induct)
  case (1 code len sy n)
  then obtain i q where p: "p = i # q" by (cases p) auto
  show ?case
  proof (cases "8 < len")
    case True
    define idx :: u8 where "idx = ucast (drop_bit (len - 8) code)"
    note IH = 1(1) [OF True idx_def]
    show ?thesis
      using True IH [of q] unfolding p
      by (subst insert_code.simps)
         (auto simp: Let_def info_at_Cons info_at_Nil simp flip: idx_def split: option.splits) 
  next
    case False
    then show ?thesis
      unfolding p by (subst insert_code.simps)
        (auto simp: Let_def info_at_Cons children_fill_leaf start_range info_at_Nil info_at_leaf split: option.splits)
  qed
qed

section \<open>Lists of bits\<close>

definition to_bits :: "nat \<Rightarrow> 'a::len word \<Rightarrow> bool list" where
  "to_bits n v = map (bit v) (rev [0..<n])"

definition path_bits :: "u8 list \<Rightarrow> bool list" where
  "path_bits p = concat (map (to_bits 8) p)"

lemma length_to_bits [simp]: "length (to_bits n v) = n"
  by (simp add: to_bits_def)

lemma length_path_bits [simp]: "length (path_bits p) = 8 * length p"
  by (induction p) (simp_all add: path_bits_def)

lemma path_bits_simps [simp]:
  "path_bits [] = []" "path_bits (i # p) = to_bits 8 i @ path_bits p"
  "path_bits (p @ q) = path_bits p @ path_bits q"
  by (simp_all add: path_bits_def)

lemma to_bits_nth: "i < n \<Longrightarrow> to_bits n v ! i = bit v (n - Suc i)"
  by (simp add: to_bits_def rev_nth)

lemma to_bits_eqI: "(\<And>i. i < n \<Longrightarrow> bit v i = bit w i) \<Longrightarrow> to_bits n v = to_bits n w"
  by (simp add: to_bits_def)

lemma to_bits_eq_iff: "to_bits n v = to_bits n w \<longleftrightarrow> (\<forall>i<n. bit v i = bit w i)"
  by (auto simp: to_bits_def)

lemma to_bits_add: "to_bits (m + n) v = to_bits m (drop_bit n v) @ to_bits n v"
  by (rule nth_equalityI) (auto simp: to_bits_nth nth_append bit_drop_bit_eq add.commute)

lemma to_bits_byte: "to_bits 8 (ucast v :: u8) = to_bits 8 v"
  by (rule to_bits_eqI) (auto simp: bit_simps)

lemma to_bits_byte_inject [simp]: "to_bits 8 (a :: u8) = to_bits 8 b \<longleftrightarrow> a = b"
  by (auto simp: to_bits_eq_iff intro: bit_word_eqI)

lemma take_to_bits: "m \<le> n \<Longrightarrow> take m (to_bits n v) = to_bits m (drop_bit (n - m) v)"
  using to_bits_add [of m "n - m" v] by simp

lemma prefix_append_eq_length:
  "length a = length b \<Longrightarrow> prefix (a @ x) (b @ y) \<longleftrightarrow> a = b \<and> prefix x y"
  "length a = length b \<Longrightarrow> prefix a (b @ y) \<longleftrightarrow> a = b"
  by (auto simp: prefix_def)

lemma unat_drop_bit: "unat (drop_bit n (w :: 'a::len word)) = drop_bit n (unat w)"
  by (rule unat_drop_bit_eq)

lemma prefix_to_bits:
  fixes code :: u32 and i :: u8
  assumes "len \<le> 8"
  shows "prefix (to_bits len code) (to_bits 8 i) \<longleftrightarrow>
    drop_bit (8 - len) (unat i) = drop_bit (8 - len) (unat (ucast (push_bit (8 - len) code) :: u8))"
proof -
  let ?w = "ucast (push_bit (8 - len) code) :: u8"
  have eq: "bit (drop_bit (8 - len) ?w) j = (j < len \<and> bit code j)" for j
    using assms by (auto simp: bit_simps)
  have out: "bit (drop_bit (8 - len) i) j \<Longrightarrow> j < len" for j
    using assms bit_imp_le_length [of i "8 - len + j"] by (auto simp: bit_simps)
  have "prefix (to_bits len code) (to_bits 8 i) \<longleftrightarrow> to_bits len code = to_bits len (drop_bit (8 - len) i)"
    using assms take_to_bits [of len 8 i] by (metis length_to_bits prefix_def append_eq_conv_conj take_is_prefix)
  also have "\<dots> \<longleftrightarrow> drop_bit (8 - len) i = drop_bit (8 - len) ?w"
    unfolding to_bits_eq_iff using eq out by (metis bit_word_eqI)
  also have "\<dots> \<longleftrightarrow> unat (drop_bit (8 - len) i) = unat (drop_bit (8 - len) ?w)" by (rule word_unat_eq_iff)
  finally show ?thesis by (simp only: unat_drop_bit)
qed

lemma added_bits:
  assumes "0 < len"
  shows "added code len sy p =
    (if p = [] then None
     else if 8 * length p < len \<and> prefix (path_bits p) (to_bits len code) then Some (False, 0, 0)
     else if 8 * (length p - 1) < len \<and> len \<le> 8 * length p \<and> prefix (to_bits len code) (path_bits p)
     then Some (True, len - 8 * (length p - 1), sy) else None)"
  using assms
proof (induction p arbitrary: len)
  case (Cons i p)
  show ?case
  proof (cases "8 < len")
    case True
    then have len: "to_bits len code = to_bits 8 (drop_bit (len - 8) code) @ to_bits (len - 8) code"
      using to_bits_add [of 8 "len - 8" code] by simp
    show ?thesis
      using True Cons.IH [of "len - 8"] to_bits_byte_inject [of i "ucast (drop_bit (len - 8) code)"]
      by (cases p) (auto simp: len prefix_append_eq_length to_bits_byte simp del: to_bits_byte_inject)
  next
    case False
    then show ?thesis
      using Cons.prems prefix_to_bits [of len code i] by (cases p) auto
  qed
qed simp

section \<open>The code is canonical\<close>

text \<open>
  Codes of one length are consecutive in the order of the symbols: \<open>assign\<close> deals them out
  from a table with the next code of each length. \<open>first_codes\<close> and \<open>code_limits\<close> are the
  tables before and after.
\<close>

fun bump :: "nat \<Rightarrow> (nat \<times> nat) list \<Rightarrow> nat \<times> (nat \<times> nat) list" where
  "bump l [] = (0, [])"
| "bump l ((k, c) # t) = (if k = l then (c, (k, c + 1) # t) else case bump l t of (d, t') \<Rightarrow> (d, (k, c) # t'))"

fun assign :: "nat list \<Rightarrow> (nat \<times> nat) list \<Rightarrow> nat list \<times> (nat \<times> nat) list" where
  "assign [] t = ([], t)"
| "assign (l # ls) t = (case bump l t of (c, t') \<Rightarrow> case assign ls t' of (cs, t'') \<Rightarrow> (c # cs, t''))"

definition first_codes :: "(nat \<times> nat) list" where
  "first_codes =
     [(5, 0x0), (6, 0x14), (7, 0x5c), (8, 0xf8), (10, 0x3f8), (11, 0x7fa), (12, 0xffa), (13,
      0x1ff8), (14, 0x3ffc), (15, 0x7ffc), (19, 0x7fff0), (20, 0xfffe6), (21, 0x1fffdc), (22,
      0x3fffd2), (23, 0x7fffd8), (24, 0xffffea), (25, 0x1ffffec), (26, 0x3ffffe0), (27,
      0x7ffffde), (28, 0xfffffe2), (30, 0x3ffffffc)]"

definition code_limits :: "(nat \<times> nat) list" where
  "code_limits =
     [(5, 0xa), (6, 0x2e), (7, 0x7c), (8, 0xfe), (10, 0x3fd), (11, 0x7fd), (12, 0xffc), (13,
      0x1ffe), (14, 0x3ffe), (15, 0x7fff), (19, 0x7fff3), (20, 0xfffee), (21, 0x1fffe9), (22,
      0x3fffec), (23, 0x7ffff5), (24, 0xfffff6), (25, 0x1fffff0), (26, 0x3ffffef), (27,
      0x7fffff1), (28, 0xfffffff), (30, 0x3fffffff)]"

lemma length_codes [simp]: "length codes = 256" "length lengths = 256"
  by (simp_all add: codes_def lengths_def)

lemma assign_lengths: "assign lengths first_codes = (map unat codes, code_limits)"
  unfolding first_codes_def code_limits_def codes_def lengths_def by simp

lemma lengths_known: "list_all (\<lambda>l. l \<in> set (map fst first_codes)) lengths"
  unfolding first_codes_def lengths_def by simp

lemma code_limits_bounds: "list_all (\<lambda>(l, m). 5 \<le> l \<and> l \<le> 30 \<and> m < 2 ^ l) code_limits"
  unfolding code_limits_def by simp

lemma code_groups_chain:
  "list_all (\<lambda>(l, m). list_all (\<lambda>(l', f). l < l' \<longrightarrow> m * 2 ^ (l' - l) \<le> f) first_codes) code_limits"
  unfolding code_limits_def first_codes_def by simp

lemma bump_map_of:
  assumes "map_of t l = Some c"
  shows "\<exists>t'. bump l t = (c, t') \<and> map_of t' = (map_of t)(l \<mapsto> c + 1)"
  using assms by (induction t) (auto split: if_splits simp: fun_upd_twist)

lemma assign_props:
  assumes "assign ls t = (cs, t')" and "set ls \<subseteq> dom (map_of t)"
  shows "length cs = length ls" "dom (map_of t') = dom (map_of t)"
    "\<And>l. the (map_of t l) \<le> the (map_of t' l)"
    "\<And>i. i < length ls \<Longrightarrow> the (map_of t (ls ! i)) \<le> cs ! i \<and> cs ! i < the (map_of t' (ls ! i))"
    "\<And>i j. i < j \<Longrightarrow> j < length ls \<Longrightarrow> ls ! i = ls ! j \<Longrightarrow> cs ! i < cs ! j"
proof -
  have "length cs = length ls \<and> dom (map_of t') = dom (map_of t) \<and> (\<forall>l. the (map_of t l) \<le> the (map_of t' l))
    \<and> (\<forall>i<length ls. the (map_of t (ls ! i)) \<le> cs ! i \<and> cs ! i < the (map_of t' (ls ! i)))
    \<and> (\<forall>j<length ls. \<forall>i<j. ls ! i = ls ! j \<longrightarrow> cs ! i < cs ! j)"
    using assms
  proof (induction ls arbitrary: t cs)
    case (Cons l ls)
    then obtain c where c: "map_of t l = Some c" by auto
    then obtain t1 where t1: "bump l t = (c, t1)" "map_of t1 = (map_of t)(l \<mapsto> c + 1)"
      using bump_map_of by blast
    obtain ds where ds: "assign ls t1 = (ds, t')" "cs = c # ds"
      using Cons.prems(1) t1(1) by (auto split: prod.splits)
    have sub: "set ls \<subseteq> dom (map_of t1)" using Cons.prems(2) t1(2) by auto
    have IH: "length ds = length ls" "dom (map_of t') = dom (map_of t1)" "\<forall>k. the (map_of t1 k) \<le> the (map_of t' k)"
      "\<forall>i<length ls. the (map_of t1 (ls ! i)) \<le> ds ! i \<and> ds ! i < the (map_of t' (ls ! i))"
      "\<forall>j<length ls. \<forall>i<j. ls ! i = ls ! j \<longrightarrow> ds ! i < ds ! j"
      using Cons.IH [OF ds(1) sub] by blast+
    have le: "the (map_of t k) \<le> the (map_of t1 k)" for k using c t1(2) by auto
    have l: "c < the (map_of t' l)" using IH(3) t1(2) by (metis fun_upd_same le_simps(3) option.sel add.commute plus_1_eq_Suc)
    have "the (map_of t ((l # ls) ! i)) \<le> cs ! i \<and> cs ! i < the (map_of t' ((l # ls) ! i))"
      if "i < Suc (length ls)" for i
      using that IH(4) le l c ds(2) by (cases i) (auto intro: order_trans)
    moreover have "cs ! i < cs ! j" if lt: "j < Suc (length ls)" "i < j" and eq: "(l # ls) ! i = (l # ls) ! j" for i j
    proof -
      obtain j' where j: "j = Suc j'" "j' < length ls" using lt by (cases j) auto
      show ?thesis
      proof (cases i)
        case 0
        then have "ls ! j' = l" using eq j by simp
        then have "c + 1 \<le> ds ! j'" using IH(4) j(2) t1(2) by (metis fun_upd_same option.sel)
        then show ?thesis using 0 j ds(2) by simp
      next
        case (Suc i')
        then show ?thesis using IH(5) j lt eq ds(2) by simp
      qed
    qed
    ultimately show ?case
      using IH(1,2) order_trans [OF le] IH(3) ds(2) t1(2) c by (auto simp: insert_absorb)
  qed auto
  then show "length cs = length ls" "dom (map_of t') = dom (map_of t)"
    "\<And>l. the (map_of t l) \<le> the (map_of t' l)"
    "\<And>i. i < length ls \<Longrightarrow> the (map_of t (ls ! i)) \<le> cs ! i \<and> cs ! i < the (map_of t' (ls ! i))"
    "\<And>i j. i < j \<Longrightarrow> j < length ls \<Longrightarrow> ls ! i = ls ! j \<Longrightarrow> cs ! i < cs ! j"
    by blast+
qed

definition code_bits :: "nat \<Rightarrow> bool list" where
  "code_bits s = to_bits (lengths ! s) (codes ! s)"

lemma to_bits_inject:
  fixes v w :: "'a::len word"
  assumes "to_bits n v = to_bits n w" and "unat v < 2 ^ n" and "unat w < 2 ^ n"
  shows "v = w"
proof -
  have "take_bit n v = take_bit n w"
    by (rule bit_word_eqI) (use assms(1) in \<open>auto simp: to_bits_eq_iff bit_take_bit_iff\<close>)
  then have "take_bit n (unat v) = take_bit n (unat w)" by (metis unsigned_take_bit_eq)
  then show ?thesis using assms(2,3) by (simp add: take_bit_nat_eq_self word_unat_eq_iff)
qed

lemma code_table:
  assumes "s < 256"
  shows "(lengths ! s, the (map_of code_limits (lengths ! s))) \<in> set code_limits"
    and "(lengths ! s, the (map_of first_codes (lengths ! s))) \<in> set first_codes"
    and "the (map_of first_codes (lengths ! s)) \<le> unat (codes ! s)"
    and "unat (codes ! s) < the (map_of code_limits (lengths ! s))"
    and "t < s \<Longrightarrow> lengths ! t = lengths ! s \<Longrightarrow> unat (codes ! t) < unat (codes ! s)"
proof -
  have dom: "set lengths \<subseteq> dom (map_of first_codes)"
    using lengths_known by (auto simp: list_all_iff dom_map_of_conv_image_fst)
  note props = assign_props [OF assign_lengths dom]
  have "lengths ! s \<in> dom (map_of first_codes)" using dom assms by (simp add: subset_iff)
  then show "(lengths ! s, the (map_of code_limits (lengths ! s))) \<in> set code_limits"
    "(lengths ! s, the (map_of first_codes (lengths ! s))) \<in> set first_codes"
    using props(2) by (metis domD map_of_SomeD option.sel)+
  show "the (map_of first_codes (lengths ! s)) \<le> unat (codes ! s)"
    "unat (codes ! s) < the (map_of code_limits (lengths ! s))"
    using props(4) [of s] assms by simp_all
  show "t < s \<Longrightarrow> lengths ! t = lengths ! s \<Longrightarrow> unat (codes ! t) < unat (codes ! s)"
    using props(5) [of t s] assms by simp
qed

lemma code_bounds:
  assumes "s < 256"
  shows "5 \<le> lengths ! s" "lengths ! s \<le> 30" "unat (codes ! s) < 2 ^ (lengths ! s) - 1"
  using code_table(1,4) [OF assms] code_limits_bounds by (fastforce simp: list_all_iff)+

lemma code_prefix_free:
  assumes "s < 256" and "t < 256" and "prefix (code_bits s) (code_bits t)"
  shows "s = t"
proof -
  let ?l = "lengths ! s" and ?m = "lengths ! t" and ?c = "codes ! s" and ?d = "codes ! t"
  have le: "?l \<le> ?m" using prefix_length_le [OF assms(3)] by (simp add: code_bits_def)
  have lt: "unat ?c < 2 ^ ?l" "unat ?d < 2 ^ ?m" using code_bounds(3) [OF assms(1)] code_bounds(3) [OF assms(2)] by linarith+
  have "to_bits ?l ?c = take ?l (to_bits ?m ?d)"
    using assms(3) by (metis code_bits_def append_eq_conv_conj length_to_bits prefix_def)
  then have "to_bits ?l ?c = to_bits ?l (drop_bit (?m - ?l) ?d)" using le by (simp add: take_to_bits)
  moreover have "unat (drop_bit (?m - ?l) ?d) < 2 ^ ?l"
    using lt(2) le
    by (subst unat_drop_bit) (simp add: drop_bit_eq_div less_mult_imp_div_less flip: power_add)
  ultimately have "?c = drop_bit (?m - ?l) ?d" using lt(1) by (intro to_bits_inject) auto
  then have c: "unat ?c = unat ?d div 2 ^ (?m - ?l)" 
    by (metis unat_drop_bit drop_bit_eq_div)
  have "?l = ?m"
  proof (rule ccontr)
    assume "?l \<noteq> ?m"
    then have "the (map_of code_limits ?l) * 2 ^ (?m - ?l) \<le> the (map_of first_codes ?m)"
      using code_groups_chain code_table(1) [OF assms(1)] code_table(2) [OF assms(2)] le
      by (fastforce simp: list_all_iff)
    then have "the (map_of code_limits ?l) * 2 ^ (?m - ?l) \<le> unat ?d"
      using code_table(3) [OF assms(2)] by simp
    then have "the (map_of code_limits ?l) \<le> unat ?c" by (simp add: c less_eq_div_iff_mult_less_eq)
    then show False using code_table(4) [OF assms(1)] by simp
  qed
  then have "unat ?c = unat ?d" using c by simp
  then show "s = t"
    using code_table(5) [OF assms(1), of t] code_table(5) [OF assms(2), of s] \<open>?l = ?m\<close>
    by (metis less_irrefl linorder_neqE_nat)
qed

section \<open>What the tree holds\<close>

abbreviation symbol_added :: "u8 list \<Rightarrow> nat \<Rightarrow> (bool \<times> nat \<times> u8) option" where
  "symbol_added p s \<equiv> added (codes ! s) (lengths ! s) (of_nat s) p"

lemma info_at_fold:
  assumes "p \<noteq> []" and "info_at n p = None \<or> info_at n p = Some x"
    and "\<And>s. s \<in> set ss \<Longrightarrow> symbol_added p s = None \<or> symbol_added p s = Some x"
  shows "info_at (fold (\<lambda>s. insert_code (codes ! s) (lengths ! s) (of_nat s)) ss n) p =
    (if info_at n p = Some x \<or> (\<exists>s\<in>set ss. symbol_added p s = Some x) then Some x else None)"
  using assms(2,3)
proof (induction ss arbitrary: n)
  case (Cons s ss)
  have "info_at (insert_code (codes ! s) (lengths ! s) (of_nat s) n) p =
      (if info_at n p = Some x \<or> symbol_added p s = Some x then Some x else None)"
    using Cons.prems(1) Cons.prems(2) [of s] assms(1) by (auto simp: info_at_insert_code)
  then show ?case using Cons.IH Cons.prems(2) by auto
qed auto

lemma info_at_fold_SomeD:
  assumes "p \<noteq> []" and "info_at (fold (\<lambda>s. insert_code (codes ! s) (lengths ! s) (of_nat s)) ss n) p = Some x"
  shows "info_at n p = Some x \<or> (\<exists>s\<in>set ss. symbol_added p s = Some x)"
  using assms(2) by (induction ss arbitrary: n) (use assms(1) in \<open>fastforce simp: info_at_insert_code split: option.splits\<close>)+

lemma info_at_buildTree:
  assumes "p \<noteq> []" and "s < 256" and "symbol_added p s = Some x"
    and "\<And>t. t < 256 \<Longrightarrow> symbol_added p t = None \<or> symbol_added p t = Some x"
  shows "info_at buildTree p = Some x"
  using assms info_at_fold [of p new_Node x "[0..<256]"] by (auto simp: buildTree_def)

lemma tree_leaf:
  assumes "s < 256" and "p \<noteq> []" and "prefix (code_bits s) (path_bits p)"
    and "8 * (length p - 1) < lengths ! s" "lengths ! s \<le> 8 * length p"
  shows "info_at buildTree p = Some (True, lengths ! s - 8 * (length p - 1), of_nat s)"
proof (rule info_at_buildTree [OF assms(2,1)])
  have "0 < lengths ! s" using assms(4) by simp
  then show "symbol_added p s = Some (True, lengths ! s - 8 * (length p - 1), of_nat s)"
    using assms by (simp add: added_bits code_bits_def)
  fix t :: nat
  assume t: "t < 256"
  then have "0 < lengths ! t" using code_bounds(1) [OF t] by simp
  then have "symbol_added p t = None \<or> prefix (code_bits s) (code_bits t) \<or> prefix (code_bits t) (code_bits s)"
    using assms(3) prefix_same_cases prefix_order.trans by (fastforce simp: added_bits code_bits_def split: if_splits)
  then show "symbol_added p t = None \<or> symbol_added p t = Some (True, lengths ! s - 8 * (length p - 1), of_nat s)"
    using code_prefix_free [OF assms(1) t] code_prefix_free [OF t assms(1)]
      \<open>symbol_added p s = Some (True, lengths ! s - 8 * (length p - 1), of_nat s)\<close> by metis
qed

lemma tree_inner:
  assumes "s < 256" and "p \<noteq> []" and "prefix (path_bits p) (code_bits s)" and "8 * length p < lengths ! s"
  shows "info_at buildTree p = Some (False, 0, 0)"
proof (rule info_at_buildTree [OF assms(2,1)])
  have "0 < lengths ! s" using assms(4) by simp
  then show "symbol_added p s = Some (False, 0, 0)"
    using assms by (simp add: added_bits code_bits_def)
  fix t :: nat
  assume t: "t < 256"
  then have "0 < lengths ! t" using code_bounds(1) [OF t] by simp
  then have "symbol_added p t \<in> {None, Some (False, 0, 0)} \<or> prefix (code_bits t) (code_bits s) \<and> lengths ! t \<le> 8 * length p"
    using assms(3) prefix_order.trans by (fastforce simp: added_bits code_bits_def split: if_splits)
  then show "symbol_added p t = None \<or> symbol_added p t = Some (False, 0, 0)"
    using code_prefix_free [OF t assms(1)] assms(4) by auto
qed

lemma tree_sound:
  assumes "info_at buildTree p = Some (f, b, y)" and "p \<noteq> []"
  obtains s where "s < 256" "f" "y = of_nat s" "b = lengths ! s - 8 * (length p - 1)"
      "prefix (code_bits s) (path_bits p)" "8 * (length p - 1) < lengths ! s" "lengths ! s \<le> 8 * length p"
  | s where "s < 256" "\<not> f" "prefix (path_bits p) (code_bits s)" "8 * length p < lengths ! s"
proof -
  obtain s where s: "s < 256" "symbol_added p s = Some (f, b, y)"
    using info_at_fold_SomeD [of p "[0..<256]" new_Node] assms by (auto simp: buildTree_def)
  have "0 < lengths ! s" using code_bounds(1) [OF s(1)] by simp
  then show ?thesis
    using s that by (auto simp: added_bits code_bits_def split: if_splits)
qed

section \<open>The decoder on lists of bits\<close>

definition string_bits :: "string \<Rightarrow> bool list" where
  "string_bits cs = concat (map (\<lambda>c. code_bits (unat (byte_of_char c))) cs)"

lemma string_bits_simps [simp]:
  "string_bits [] = []" "string_bits (c # cs) = code_bits (unat (byte_of_char c)) @ string_bits cs"
  "string_bits (cs @ ds) = string_bits cs @ string_bits ds"
  by (simp_all add: string_bits_def)

lemma length_code_bits [simp]: "length (code_bits s) = lengths ! s"
  by (simp add: code_bits_def)

lemma byte_lt_256 [simp]: "unat (b :: u8) < 256"
  using unsigned_less [of b] by simp

text \<open>
  The state of the decoder: it stands at an inner node, reached by the whole bytes \<open>p\<close> of an
  unfinished code, and the low \<open>avail\<close> bits of \<open>buf\<close> are still to be read.
\<close>

definition window :: "Decoder \<Rightarrow> bool list" where
  "window d = to_bits (d_avail d) (d_buf d)"

definition dec_inv :: "Decoder \<Rightarrow> u8 list \<Rightarrow> bool" where
  "dec_inv d p \<longleftrightarrow> node_at buildTree p = Some (d_node d) \<and> d_pending d = 8 * length p + d_avail d \<and>
     (p = [] \<or> (\<exists>s<256. prefix (path_bits p) (code_bits s) \<and> 8 * length p < lengths ! s))"

lemma node_at_snoc: "node_at n (p @ [i]) = (case node_at n p of None \<Rightarrow> None | Some m \<Rightarrow> children m i)"
  by (induction p arbitrary: n) (auto split: option.splits)

lemma dec_inv_child:
  assumes "dec_inv d p"
  shows "info_at buildTree (p @ [i]) = map_option (\<lambda>n. (leaf n, bits n, symbol n)) (children (d_node d) i)"
  using assms by (simp add: info_at_def dec_inv_def node_at_snoc)

lemma dec_inv_path: "dec_inv d p \<Longrightarrow> length p \<le> 3"
  using code_bounds(2) by (fastforce simp: dec_inv_def)

lemma dec_inv_root: "dec_inv (d\<lparr>d_node := buildTree, d_pending := d_avail d\<rparr>) []"
  by (simp add: dec_inv_def)

lemma window_split:
  assumes "k \<le> d_avail d"
  shows "window d = to_bits k (drop_bit (d_avail d - k) (d_buf d)) @ window (d\<lparr>d_avail := d_avail d - k\<rparr>)"
  using assms to_bits_add [of k "d_avail d - k" "d_buf d"] by (simp add: window_def)

abbreviation top_byte :: "Decoder \<Rightarrow> u8" where
  "top_byte d \<equiv> ucast (drop_bit (d_avail d - 8) (d_buf d) AND 0xff)"

abbreviation accept :: "Node \<Rightarrow> Decoder \<Rightarrow> Decoder" where
  "accept n d \<equiv> d\<lparr>d_result := d_result d @ [char_of_byte (symbol n)], d_avail := d_avail d - bits n,
                   d_node := buildTree, d_pending := d_avail d - bits n\<rparr>"

lemma mask_255: "(0xff :: u32) = mask 8"
  by (simp add: mask_eq_exp_minus_1)

lemma to_bits_top_byte: "to_bits 8 (top_byte d) = to_bits 8 (drop_bit (d_avail d - 8) (d_buf d))"
  unfolding mask_255 by (rule to_bits_eqI) (auto simp: bit_simps)

lemma window_top_byte:
  "8 \<le> d_avail d \<Longrightarrow> window d = to_bits 8 (top_byte d) @ window (d\<lparr>d_avail := d_avail d - 8\<rparr>)"
  using window_split [of 8 d] by (simp only: to_bits_top_byte)

text \<open>What one child of the current node says about the bits read so far.\<close>

lemma child_cases:
  assumes "dec_inv d p" and "children (d_node d) i = Some n"
  obtains s where "s < 256" "leaf n" "symbol n = of_nat s" "bits n = lengths ! s - 8 * length p"
      "prefix (code_bits s) (path_bits p @ to_bits 8 i)" "8 * length p < lengths ! s"
      "lengths ! s \<le> 8 * length p + 8"
  | "\<not> leaf n" "dec_inv (d\<lparr>d_node := n, d_avail := d_avail d - 8\<rparr>) (p @ [i]) \<or> d_avail d < 8"
proof -
  have "info_at buildTree (p @ [i]) = Some (leaf n, bits n, symbol n)"
    using dec_inv_child [OF assms(1)] assms(2) by simp
  moreover have "p @ [i] \<noteq> []" by simp
  ultimately show ?thesis
  proof (cases rule: tree_sound)
    case (2 s)
    moreover have "node_at buildTree (p @ [i]) = Some n" "d_pending d = 8 * length p + d_avail d"
      using assms by (auto simp: dec_inv_def node_at_snoc)
    ultimately have "dec_inv (d\<lparr>d_node := n, d_avail := d_avail d - 8\<rparr>) (p @ [i]) \<or> d_avail d < 8"
      by (auto simp: dec_inv_def)
    then show ?thesis using that(2) 2 by blast
  qed (use that(1) in auto)
qed

lemma prefix_split_window:
  assumes "prefix (code_bits s) (path_bits p @ to_bits k v)" and "8 * length p < lengths ! s"
    and "lengths ! s \<le> 8 * length p + k"
  shows "path_bits p @ to_bits k v = code_bits s @ to_bits (k - (lengths ! s - 8 * length p)) v"
proof -
  let ?b = "lengths ! s - 8 * length p"
  have "path_bits p @ to_bits k v = (path_bits p @ to_bits ?b (drop_bit (k - ?b) v)) @ to_bits (k - ?b) v"
    using assms(2,3) to_bits_add [of ?b "k - ?b" v] by simp
  moreover have "length (path_bits p @ to_bits ?b (drop_bit (k - ?b) v)) = length (code_bits s)"
    using assms(2) by simp
  ultimately show ?thesis using assms(1) by (metis prefix_append_eq_length(2))
qed

lemma byte_of_nat_symbol: "s < 256 \<Longrightarrow> unat (byte_of_char (char_of_byte (of_nat s))) = s"
  by (simp add: unat_of_nat)

lemma accept_inv:
  assumes "bits n \<le> d_avail d"
  shows "dec_inv (accept n d) []" and "window (accept n d) = to_bits (d_avail d - bits n) (d_buf d)"
  by (simp_all add: dec_inv_def window_def)

lemma decode_full_steps:
  "d_avail d < 8 \<Longrightarrow> decode_full d = Inr (True, d)"
  "8 \<le> d_avail d \<Longrightarrow> children (d_node d) (top_byte d) = None \<Longrightarrow> decode_full d = Inr (False, d)"
  "8 \<le> d_avail d \<Longrightarrow> children (d_node d) (top_byte d) = Some n \<Longrightarrow> leaf n \<Longrightarrow> 0 < bits n \<Longrightarrow>
     decode_full d = decode_full (accept n d)"
  "8 \<le> d_avail d \<Longrightarrow> children (d_node d) (top_byte d) = Some n \<Longrightarrow> \<not> leaf n \<Longrightarrow>
     decode_full d = decode_full (d\<lparr>d_node := n, d_avail := d_avail d - 8\<rparr>)"
  by (subst decode_full.simps, simp)+

lemma accept_window:
  assumes "prefix (code_bits s) (path_bits p @ window d)" and "8 * length p < lengths ! s"
    and "bits n = lengths ! s - 8 * length p" and "bits n \<le> d_avail d"
  shows "path_bits p @ window d = code_bits s @ window (accept n d)"
  using prefix_split_window [of s p "d_avail d" "d_buf d"] assms by (simp add: window_def)

lemma path_top_byte:
  assumes "8 \<le> d_avail d"
  shows "path_bits p @ window d = path_bits (p @ [top_byte d]) @ window (d\<lparr>d_avail := d_avail d - 8\<rparr>)"
  by (simp add: window_top_byte [OF assms])

text \<open>Soundness: what was read is the codes of the result, then the unfinished code.\<close>

definition decoded :: "Decoder \<Rightarrow> u8 list \<Rightarrow> string \<Rightarrow> Decoder \<Rightarrow> u8 list \<Rightarrow> bool" where
  "decoded d p r d' p' \<longleftrightarrow> dec_inv d' p' \<and> d_buf d' = d_buf d \<and> d_result d' = d_result d @ r \<and>
     path_bits p @ window d = string_bits r @ path_bits p' @ window d'"

lemma decoded_accept:
  assumes "prefix (code_bits s) (path_bits p @ window d)" and "8 * length p < lengths ! s"
    and "bits n = lengths ! s - 8 * length p" and "bits n \<le> d_avail d"
    and "s < 256" and "symbol n = of_nat s" and "decoded (accept n d) [] r d' p'"
  shows "decoded d p (char_of_byte (of_nat s) # r) d' p'"
  using accept_window [OF assms(1-4)] assms(5-) byte_of_nat_symbol [OF assms(5)]
  by (simp add: decoded_def)

lemma decode_full_sound:
  assumes "dec_inv d p"
  shows "\<exists>ok d'. decode_full d = Inr (ok, d') \<and>
           (ok \<longrightarrow> d_avail d' < 8 \<and> (\<exists>p' r. decoded d p r d' p'))"
  using assms
proof (induction "d_avail d" arbitrary: d p rule: less_induct)
  case less
  show ?case
  proof (cases "d_avail d < 8")
    case True
    moreover have "decoded d p [] d p" using less.prems by (simp add: decoded_def)
    ultimately show ?thesis using decode_full_steps(1) [OF True] by blast
  next
    case False
    then have ge: "8 \<le> d_avail d" by simp
    show ?thesis
    proof (cases "children (d_node d) (top_byte d)")
      case None
      then show ?thesis using decode_full_steps(2) [OF ge None] by blast
    next
      case (Some n)
      from less.prems Some show ?thesis
      proof (cases rule: child_cases)
        case (1 s)
        have b: "0 < bits n" "bits n \<le> d_avail d" using 1 ge by auto
        have "prefix (code_bits s) (path_bits p @ window d)"
          using prefix_prefix [OF 1(5)] by (simp add: path_top_byte [OF ge])
        note acc = decoded_accept [OF this 1(6,4) b(2) 1(1,3)]
        have "d_avail (accept n d) < d_avail d" using b by simp
        from less.hyps [OF this accept_inv(1) [OF b(2)]] obtain ok d' where
          "decode_full (accept n d) = Inr (ok, d')" "ok \<longrightarrow> d_avail d' < 8 \<and> (\<exists>p' r. decoded (accept n d) [] r d' p')"
          by blast
        then show ?thesis using acc decode_full_steps(3) [OF ge Some 1(2) b(1)] by metis
      next
        case 2
        let ?d = "d\<lparr>d_node := n, d_avail := d_avail d - 8\<rparr>"
        have inv: "dec_inv ?d (p @ [top_byte d])" using 2 ge by auto
        have "d_avail ?d < d_avail d" using ge by simp
        from less.hyps [OF this inv] obtain ok d' where
          "decode_full ?d = Inr (ok, d')" "ok \<longrightarrow> d_avail d' < 8 \<and> (\<exists>p' r. decoded ?d (p @ [top_byte d]) r d' p')"
          by blast
        moreover have "decoded ?d (p @ [top_byte d]) r d' p' \<Longrightarrow> decoded d p r d' p'" for r d' p'
          using path_top_byte [OF ge, of p] by (simp add: decoded_def window_def)
        ultimately show ?thesis using decode_full_steps(4) [OF ge Some 2(1)] by metis
      qed
    qed
  qed
qed

abbreviation load :: "u8 \<Rightarrow> Decoder \<Rightarrow> Decoder" where
  "load b d \<equiv> d\<lparr>d_buf := push_bit 8 (d_buf d) OR ucast b, d_avail := d_avail d + 8,
                d_pending := (d_pending d + 8) mod 256\<rparr>"

lemma to_bits_push:
  fixes v w :: "'a::len word"
  assumes "m + n \<le> LENGTH('a)" and "\<And>i. bit w i \<Longrightarrow> i < n"
  shows "to_bits (m + n) (push_bit n v OR w) = to_bits m v @ to_bits n w"
proof -
  have "to_bits m (drop_bit n (push_bit n v OR w)) = to_bits m v"
    using assms by (intro to_bits_eqI) (auto simp: bit_simps)
  moreover have "to_bits n (push_bit n v OR w) = to_bits n w"
    by (intro to_bits_eqI) (auto simp: bit_simps)
  ultimately show ?thesis by (simp add: to_bits_add)
qed

lemma load_window:
  assumes "d_avail d < 8"
  shows "window (load b d) = window d @ to_bits 8 b"
proof -
  have "bit (ucast b :: u32) i \<Longrightarrow> i < 8" for i
    using bit_imp_le_length [of b i] by (auto simp: bit_simps)
  then have "to_bits (d_avail d + 8) (push_bit 8 (d_buf d) OR ucast b) = to_bits (d_avail d) (d_buf d) @ to_bits 8 (ucast b :: u32)"
    using assms by (intro to_bits_push) auto
  moreover have "to_bits 8 (ucast b :: u32) = to_bits 8 b" by (rule to_bits_eqI) (auto simp: bit_simps)
  ultimately show ?thesis by (simp add: window_def)
qed

lemma load_inv: "dec_inv d p \<Longrightarrow> d_avail d < 8 \<Longrightarrow> dec_inv (load b d) p"
  using dec_inv_path [of d p] by (simp add: dec_inv_def)

lemma decode_bytes_sound:
  assumes "dec_inv d p" and "d_avail d < 8"
  shows "\<exists>ok d'. decode_bytes bs d = Inr (ok, d') \<and> (ok \<longrightarrow> d_avail d' < 8 \<and>
    (\<exists>p' r. dec_inv d' p' \<and> d_result d' = d_result d @ r \<and>
            path_bits p @ window d @ path_bits bs = string_bits r @ path_bits p' @ window d'))"
  using assms
proof (induction bs arbitrary: d p)
  case Nil
  then show ?case by (force intro: exI [of _ p] exI [of _ "[]"])
next
  case (Cons b bs)
  from decode_full_sound [OF load_inv [OF Cons.prems, of b]] obtain ok d1 where
    d1: "decode_full (load b d) = Inr (ok, d1)" "ok \<longrightarrow> d_avail d1 < 8 \<and> (\<exists>p' r. decoded (load b d) p r d1 p')"
    by blast
  show ?case
  proof (cases ok)
    case True
    then obtain p1 r1 where p1: "d_avail d1 < 8" "decoded (load b d) p r1 d1 p1" using d1(2) by blast
    then have "dec_inv d1 p1" by (simp add: decoded_def)
    from Cons.IH [OF this p1(1)] obtain ok' d' where d': "decode_bytes bs d1 = Inr (ok', d')"
      "ok' \<longrightarrow> d_avail d' < 8 \<and> (\<exists>p' r. dec_inv d' p' \<and> d_result d' = d_result d1 @ r \<and>
         path_bits p1 @ window d1 @ path_bits bs = string_bits r @ path_bits p' @ window d')" by blast
    have "path_bits p @ window d @ path_bits (b # bs) = string_bits r1 @ path_bits p1 @ window d1 @ path_bits bs"
      using p1(2) load_window [OF Cons.prems(2), of b] by (simp add: decoded_def)
    moreover have "d_result d1 = d_result d @ r1" using p1(2) by (simp add: decoded_def)
    ultimately have "ok' \<longrightarrow> d_avail d' < 8 \<and> (\<exists>p' r. dec_inv d' p' \<and> d_result d' = d_result d @ r \<and>
         path_bits p @ window d @ path_bits (b # bs) = string_bits r @ path_bits p' @ window d')"
      using d'(2) by (metis append.assoc string_bits_simps(3))
    then show ?thesis using d1(1) d'(1) True by simp
  next
    case False
    then have "decode_bytes (b # bs) d = Inr (False, d1)" using d1(1) by simp
    then show ?thesis by blast
  qed
qed

abbreviation last_byte :: "Decoder \<Rightarrow> u8" where
  "last_byte d \<equiv> ucast (push_bit (8 - d_avail d) (d_buf d) AND 0xff)"

lemma to_bits_last_byte:
  assumes "d_avail d \<le> 8"
  shows "to_bits 8 (last_byte d) = window d @ replicate (8 - d_avail d) False"
proof (rule nth_equalityI)
  fix i
  assume "i < length (to_bits 8 (last_byte d))"
  then show "to_bits 8 (last_byte d) ! i = (window d @ replicate (8 - d_avail d) False) ! i"
    unfolding mask_255 window_def using assms
    by (auto simp: to_bits_nth nth_append bit_simps) (simp add: diff_diff_add)?
qed (use assms in \<open>simp add: window_def\<close>)

lemma decode_rest_steps:
  "d_avail d = 0 \<Longrightarrow> decode_rest d = Inr d"
  "children (d_node d) (last_byte d) = None \<Longrightarrow> decode_rest d = Inr d"
  "children (d_node d) (last_byte d) = Some n \<Longrightarrow> \<not> leaf n \<or> d_avail d < bits n \<Longrightarrow> decode_rest d = Inr d"
  "0 < d_avail d \<Longrightarrow> children (d_node d) (last_byte d) = Some n \<Longrightarrow> leaf n \<Longrightarrow> 0 < bits n \<Longrightarrow> bits n \<le> d_avail d \<Longrightarrow>
     decode_rest d = decode_rest (accept n d)"
  by (subst decode_rest.simps, simp)+

definition stuck :: "Decoder \<Rightarrow> bool" where
  "stuck d \<longleftrightarrow> \<not> (0 < d_avail d \<and>
     (\<exists>n. children (d_node d) (last_byte d) = Some n \<and> leaf n \<and> bits n \<le> d_avail d))"

lemma decode_rest_sound:
  assumes "dec_inv d p" and "d_avail d < 8"
  shows "\<exists>d' p' r. decode_rest d = Inr d' \<and> decoded d p r d' p' \<and> d_avail d' < 8 \<and> stuck d'"
  using assms
proof (induction "d_avail d" arbitrary: d p rule: less_induct)
  case less
  have idle: "decoded d p [] d p" using less.prems by (simp add: decoded_def)
  show ?case
  proof (cases "stuck d")
    case False
    then obtain n where n: "0 < d_avail d" "children (d_node d) (last_byte d) = Some n" "leaf n" "bits n \<le> d_avail d"
      by (auto simp: stuck_def)
    from less.prems(1) n(2) show ?thesis
    proof (cases rule: child_cases)
      case (1 s)
      have b: "0 < bits n" using 1 by simp
      have "prefix (code_bits s) ((path_bits p @ window d) @ replicate (8 - d_avail d) False)"
        using 1(5) to_bits_last_byte [of d] less.prems(2) by simp
      moreover have "length (code_bits s) \<le> length (path_bits p @ window d)"
        using 1(4,6) n(4) by (simp add: window_def)
      ultimately have "prefix (code_bits s) (path_bits p @ window d)"
        by (rule prefix_length_prefix [OF _ prefixI [OF refl]])
      note acc = decoded_accept [OF this 1(6,4) n(4) 1(1,3)]
      have "d_avail (accept n d) < d_avail d" "d_avail (accept n d) < 8" using b n(4) less.prems(2) by auto
      from less.hyps [OF this(1) accept_inv(1) [OF n(4)] this(2)] show ?thesis
        using acc decode_rest_steps(4) [OF n(1-3) b n(4)] by metis
    qed (use n in simp)
  next
    case True
    then have "decode_rest d = Inr d"
      using decode_rest_steps(1-3) [of d]
      by (cases "children (d_node d) (last_byte d)") (auto simp: not_le stuck_def)
    then show ?thesis using idle less.prems(2) True by blast
  qed
qed

section \<open>The decoder reads every encoding\<close>

lemma code_not_ones: "s < 256 \<Longrightarrow> code_bits s \<noteq> replicate n True"
proof
  assume s: "s < 256" and eq: "code_bits s = replicate n True"
  let ?l = "lengths ! s"
  have n: "n = ?l" using arg_cong [OF eq, of length] by simp
  have ones: "bit (codes ! s) i" if "i < ?l" for i
  proof -
    have "code_bits s ! (?l - Suc i)" using that by (simp add: eq n)
    then show ?thesis using that by (simp add: code_bits_def to_bits_nth)
  qed
  have "take_bit ?l (codes ! s) = mask ?l"
    by (rule bit_word_eqI) (use ones in \<open>auto simp: bit_take_bit_iff bit_mask_iff\<close>)
  then have "unat (take_bit ?l (codes ! s)) = mask ?l"
    by (intro bit_eqI) (use code_bounds(2) [OF s] in \<open>auto simp: bit_unsigned_iff bit_mask_iff\<close>)
  moreover have "unat (take_bit ?l (codes ! s)) = unat (codes ! s)"
    using code_bounds(3) [OF s] by (simp add: unsigned_take_bit_eq take_bit_nat_eq_self)
  ultimately show False using code_bounds(3) [OF s] by (simp add: mask_nat_def)
qed

lemma unique_split:
  assumes "string_bits r @ Y = string_bits cs @ replicate k True" and "k \<le> 7"
  shows "\<exists>cs'. cs = r @ cs' \<and> Y = string_bits cs' @ replicate k True"
  using assms(1)
proof (induction r arbitrary: cs)
  case (Cons c r)
  let ?s = "unat (byte_of_char c)"
  show ?case
  proof (cases cs)
    case Nil
    then have "prefix (code_bits ?s) (replicate k True)"
      using Cons.prems by (simp add: prefix_def) metis
    then have "\<exists>n. code_bits ?s = replicate n True"
      by (metis append_eq_conv_conj prefix_def take_replicate)
    then show ?thesis using code_not_ones by auto
  next
    case (Cons d ds)
    let ?t = "unat (byte_of_char d)"
    have eq: "code_bits ?s @ string_bits r @ Y = code_bits ?t @ string_bits ds @ replicate k True"
      using Cons.prems Cons by simp
    then have "prefix (code_bits ?s) (code_bits ?t) \<or> prefix (code_bits ?t) (code_bits ?s)"
      by (metis prefixI prefix_same_cases)
    then have "?s = ?t" using code_prefix_free by (metis byte_lt_256)
    then have "c = d" by (metis byte_of_char_eq_iff word_unat_eq_iff)
    then show ?thesis using Cons.IH eq Cons by auto
  qed
qed simp

lemma prefix_long: "prefix a b \<Longrightarrow> length b \<le> length a \<Longrightarrow> prefix b a"
  by (auto simp: prefix_def)

lemma child_exists:
  assumes "dec_inv d p" and "c < 256"
    and "prefix (code_bits c) (path_bits p @ to_bits 8 i) \<or> prefix (path_bits p @ to_bits 8 i) (code_bits c)"
  shows "8 * length p < lengths ! c"
    and "\<exists>n. children (d_node d) i = Some n \<and>
           (lengths ! c \<le> 8 * length p + 8 \<longrightarrow> leaf n \<and> bits n = lengths ! c - 8 * length p)"
proof -
  show lt: "8 * length p < lengths ! c"
  proof (rule ccontr)
    assume "\<not> 8 * length p < lengths ! c"
    then have le: "lengths ! c \<le> 8 * length p" by simp
    then have "p \<noteq> []" using code_bounds(1) [OF assms(2)] by auto
    then obtain s where s: "s < 256" "prefix (path_bits p) (code_bits s)" "8 * length p < lengths ! s"
      using assms(1) by (auto simp: dec_inv_def)
    have "prefix (code_bits c) (path_bits p @ to_bits 8 i)"
      using assms(3) le prefix_length_le [of "path_bits p @ to_bits 8 i" "code_bits c"] by auto
    then have "prefix (code_bits c) (path_bits p)"
      by (rule prefix_length_prefix [OF _ prefixI [OF refl]]) (use le in simp)
    then have "c = s" using code_prefix_free [OF assms(2) s(1)] prefix_order.trans s(2) by metis
    then show False using le s(3) by simp
  qed
  have "info_at buildTree (p @ [i]) =
    (if lengths ! c \<le> 8 * length p + 8 then Some (True, lengths ! c - 8 * length p, of_nat c) else Some (False, 0, 0))"
  proof (cases "lengths ! c \<le> 8 * length p + 8")
    case True
    then have "prefix (code_bits c) (path_bits (p @ [i]))"
      using assms(3) prefix_long [of "path_bits p @ to_bits 8 i" "code_bits c"] by auto
    then show ?thesis using tree_leaf [OF assms(2), of "p @ [i]"] True lt by simp
  next
    case False
    then have "prefix (path_bits (p @ [i])) (code_bits c)"
      using assms(3) prefix_length_le [of "code_bits c" "path_bits p @ to_bits 8 i"] by auto
    then show ?thesis using tree_inner [OF assms(2), of "p @ [i]"] False by simp
  qed
  then show "\<exists>n. children (d_node d) i = Some n \<and>
           (lengths ! c \<le> 8 * length p + 8 \<longrightarrow> leaf n \<and> bits n = lengths ! c - 8 * length p)"
    using dec_inv_child [OF assms(1), of i] by (auto split: if_splits)
qed

lemma decode_full_complete:
  assumes "dec_inv d p" and "path_bits p @ window d @ X = string_bits cs @ replicate k True" and "k \<le> 7"
  shows "\<exists>d'. decode_full d = Inr (True, d')"
  using assms(1,2)
proof (induction "d_avail d" arbitrary: d p cs rule: less_induct)
  case less
  show ?case
  proof (cases "d_avail d < 8")
    case False
    then have ge: "8 \<le> d_avail d" by simp
    let ?q = "path_bits p @ to_bits 8 (top_byte d)"
    have eq: "?q @ window (d\<lparr>d_avail := d_avail d - 8\<rparr>) @ X = string_bits cs @ replicate k True"
      using less.prems(2) by (simp add: window_top_byte [OF ge])
    have "length (string_bits cs @ replicate k True) \<ge> 8" using arg_cong [OF eq, of length] by simp
    then obtain c cs' where cs: "cs = c # cs'" using assms(3) by (cases cs) auto
    let ?c = "unat (byte_of_char c)"
    have "prefix ?q (string_bits cs @ replicate k True)" using eq by (metis prefixI)
    moreover have "prefix (code_bits ?c) (string_bits cs @ replicate k True)" by (simp add: cs prefix_def)
    ultimately have cmp: "prefix (code_bits ?c) ?q \<or> prefix ?q (code_bits ?c)"
      using prefix_same_cases by blast
    from child_exists [OF less.prems(1) byte_lt_256 cmp] obtain n where
      n: "children (d_node d) (top_byte d) = Some n" by blast
    from less.prems(1) n show ?thesis
    proof (cases rule: child_cases)
      case (1 s)
      have b: "0 < bits n" "bits n \<le> d_avail d" using 1 ge by auto
      have "prefix (code_bits s) (path_bits p @ window d)"
        using prefix_prefix [OF 1(5)] by (simp add: path_top_byte [OF ge])
      then have "path_bits p @ window d = code_bits s @ window (accept n d)"
        using accept_window 1 b by blast
      then have "string_bits [char_of_byte (of_nat s)] @ window (accept n d) @ X = string_bits cs @ replicate k True"
        using less.prems(2) byte_of_nat_symbol [OF 1(1)]
        by (metis append.assoc append_Nil2 string_bits_simps(1,2))
      from unique_split [OF this assms(3)] obtain cs1 where
        "path_bits [] @ window (accept n d) @ X = string_bits cs1 @ replicate k True" by auto
      moreover have "d_avail (accept n d) < d_avail d" using b by simp
      ultimately show ?thesis
        using less.hyps accept_inv(1) [OF b(2)] decode_full_steps(3) [OF ge n 1(2) b(1)] by metis
    next
      case 2
      let ?d = "d\<lparr>d_node := n, d_avail := d_avail d - 8\<rparr>"
      have "d_avail ?d < d_avail d" "dec_inv ?d (p @ [top_byte d])" using 2 ge by auto
      moreover have "path_bits (p @ [top_byte d]) @ window ?d @ X = string_bits cs @ replicate k True"
        using eq by (simp add: window_def)
      ultimately show ?thesis
        using less.hyps decode_full_steps(4) [OF ge n 2(1)] by metis
    qed
  qed (simp add: decode_full_steps(1))
qed

lemma decode_bytes_complete:
  assumes "dec_inv d p" and "d_avail d < 8"
    and "path_bits p @ window d @ path_bits bs = string_bits cs @ replicate k True" and "k \<le> 7"
  shows "\<exists>d'. decode_bytes bs d = Inr (True, d')"
  using assms(1-3)
proof (induction bs arbitrary: d p cs)
  case (Cons b bs)
  note inv = load_inv [OF Cons.prems(1,2), of b]
  have eq: "path_bits p @ window (load b d) @ path_bits bs = string_bits cs @ replicate k True"
    using Cons.prems(3) load_window [OF Cons.prems(2), of b] by simp
  obtain d1 where d1: "decode_full (load b d) = Inr (True, d1)"
    using decode_full_complete [OF inv eq assms(4)] by blast
  then obtain p1 r where p1: "d_avail d1 < 8" "decoded (load b d) p r d1 p1"
    using decode_full_sound [OF inv] by auto
  then have "string_bits r @ path_bits p1 @ window d1 @ path_bits bs = string_bits cs @ replicate k True"
    using eq unfolding decoded_def by (metis append.assoc)
  then obtain cs' where "path_bits p1 @ window d1 @ path_bits bs = string_bits cs' @ replicate k True"
    using unique_split assms(4) by blast
  moreover have "dec_inv d1 p1" using p1(2) by (simp add: decoded_def)
  ultimately show ?case using Cons.IH p1(1) d1 by simp
qed simp

lemma stuck_at_end:
  assumes "dec_inv d p" and "stuck d" and "d_avail d < 8"
    and "path_bits p @ window d = string_bits cs @ replicate k True" and "k \<le> 7"
  shows "cs = []"
proof (rule ccontr)
  assume "cs \<noteq> []"
  then obtain c cs' where cs: "cs = c # cs'" by (cases cs) auto
  let ?c = "unat (byte_of_char c)"
  have pre: "prefix (code_bits ?c) (path_bits p @ window d)" by (simp add: assms(4) cs prefix_def)
  then have len: "lengths ! ?c \<le> 8 * length p + d_avail d"
    using prefix_length_le by (fastforce simp: window_def)
  have "prefix (code_bits ?c) (path_bits p @ to_bits 8 (last_byte d))"
    using prefix_prefix [OF pre] assms(3) by (simp add: to_bits_last_byte)
  with child_exists [OF assms(1) byte_lt_256 disjI1 [OF this]] assms(2,3) len show False
    by (auto simp: stuck_def)
qed


lemma ones_mask:
  assumes "a < 32"
  shows "(v :: u32) AND (2 ^ a - 1) = 2 ^ a - 1 \<longleftrightarrow> to_bits a v = replicate a True"
proof -
  have "2 ^ a - 1 = (mask a :: u32)" by (simp add: mask_eq_exp_minus_1)
  moreover have "v AND mask a = mask a \<longleftrightarrow> (\<forall>i<a. bit v i)"
  proof
    assume eq: "v AND mask a = mask a"
    have "bit (mask a :: u32) i" if "i < a" for i using that assms by (simp add: bit_mask_iff)
    then show "\<forall>i<a. bit v i" using eq by (metis bit_and_iff)
  qed (auto intro!: bit_word_eqI simp: bit_and_iff bit_mask_iff)
  moreover have "to_bits a v = replicate a True \<longleftrightarrow> (\<forall>i<a. bit v i)"
  proof -
    have "to_bits a v = replicate a True \<longleftrightarrow> (\<forall>x\<in>set (to_bits a v). x)"
    proof
      assume "\<forall>x\<in>set (to_bits a v). x"
      then show "to_bits a v = replicate a True" by (intro replicate_eqI) auto
    qed auto
    then show ?thesis by (auto simp: to_bits_def)
  qed
  ultimately show ?thesis by simp
qed

abbreviation start_decoder :: Decoder where
  "start_decoder \<equiv> \<lparr>d_node = buildTree, d_buf = 0, d_avail = 0, d_pending = 0, d_result = []\<rparr>"

lemma start_inv: "dec_inv start_decoder []" "window start_decoder = []" "d_avail start_decoder < 8"
  by (simp_all add: dec_inv_def window_def to_bits_def)

lemma huffman_decode_sound:
  "\<exists>c s. huffman_decode data = Inr (c, s) \<and>
         (c = HR_OK \<longrightarrow> (\<exists>k\<le>7. path_bits data = string_bits s @ replicate k True))"
proof -
  obtain ok d where d: "decode_bytes data start_decoder = Inr (ok, d)"
    "ok \<longrightarrow> d_avail d < 8 \<and> (\<exists>p r. dec_inv d p \<and> d_result d = r \<and> path_bits data = string_bits r @ path_bits p @ window d)"
    using decode_bytes_sound [OF start_inv(1,3), of data] start_inv(2) by auto
  show ?thesis
  proof (cases ok)
    case False
    then have "huffman_decode data = Inr (HR_INVALID_CODE, d_result d)" using d(1) by (simp add: huffman_decode_def)
    then show ?thesis by blast
  next
    case True
    then obtain p where p: "d_avail d < 8" "dec_inv d p" "path_bits data = string_bits (d_result d) @ path_bits p @ window d"
      using d(2) by blast
    obtain d' p' r where d': "decode_rest d = Inr d'" "decoded d p r d' p'" "d_avail d' < 8"
      using decode_rest_sound [OF p(2,1)] by blast
    have bits: "path_bits data = string_bits (d_result d') @ path_bits p' @ window d'"
      using p(3) d'(2) by (simp add: decoded_def)
    let ?ok = "d_pending d' \<le> 7 \<and> to_bits (d_avail d') (d_buf d') = replicate (d_avail d') True"
    have "huffman_decode data = Inr (if ?ok then HR_OK else HR_INVALID_CODE, d_result d')"
      using d(1) True d'(1,3) by (simp add: huffman_decode_def Let_def ones_mask not_less)
    moreover have "?ok \<Longrightarrow> path_bits data = string_bits (d_result d') @ replicate (d_avail d') True"
      using bits d'(2) by (cases p') (auto simp: decoded_def dec_inv_def window_def)
    moreover have "d_avail d' \<le> 7" using d'(3) by simp
    ultimately show ?thesis by (cases ?ok) auto
  qed
qed

lemma huffman_decode_complete:
  assumes "path_bits data = string_bits s @ replicate k True" and "k \<le> 7"
  shows "huffman_decode data = Inr (HR_OK, s)"
proof -
  obtain d where d: "decode_bytes data start_decoder = Inr (True, d)"
    using decode_bytes_complete [OF start_inv(1,3), of data s k] assms start_inv(2) by auto
  then obtain p where p: "d_avail d < 8" "dec_inv d p" "path_bits data = string_bits (d_result d) @ path_bits p @ window d"
    using decode_bytes_sound [OF start_inv(1,3), of data] start_inv(2) by auto
  obtain d' p' r where d': "decode_rest d = Inr d'" "decoded d p r d' p'" "d_avail d' < 8" "stuck d'"
    using decode_rest_sound [OF p(2,1)] by blast
  have inv: "dec_inv d' p'" using d'(2) by (simp add: decoded_def)
  have "string_bits (d_result d') @ path_bits p' @ window d' = string_bits s @ replicate k True"
    using p(3) d'(2) assms(1) by (simp add: decoded_def)
  from unique_split [OF this assms(2)] obtain cs where
    cs: "s = d_result d' @ cs" "path_bits p' @ window d' = string_bits cs @ replicate k True" by blast
  then have "cs = []" using stuck_at_end [OF inv d'(4,3) _ assms(2)] by blast
  then have w: "path_bits p' @ window d' = replicate k True" and s: "d_result d' = s" using cs by simp_all
  have "p' = []" using arg_cong [OF w, of length] assms(2) by (cases p') auto
  then have "d_avail d' = k" "d_pending d' = k" using arg_cong [OF w, of length] inv by (auto simp: window_def dec_inv_def)
  then show ?thesis
    using d d'(1) s w \<open>p' = []\<close> assms(2) by (simp add: huffman_decode_def Let_def ones_mask window_def)
qed

section \<open>The encoder\<close>

definition enc_inv :: "string \<Rightarrow> u8 list \<times> u64 \<times> nat \<Rightarrow> bool" where
  "enc_inv s st \<longleftrightarrow> (case st of (out, buf, nbits) \<Rightarrow>
     nbits < 32 \<and> path_bits out @ to_bits nbits buf = string_bits s)"

lemma to_bits_ucast:
  fixes v :: "'a::len word"
  assumes "n \<le> LENGTH('b::len)"
  shows "to_bits n (ucast v :: 'b word) = to_bits n v"
  using assms by (intro to_bits_eqI) (auto simp: bit_simps)

lemma path_bits_word:
  "path_bits [ucast (drop_bit 24 w), ucast (drop_bit 16 w), ucast (drop_bit 8 w), ucast (w :: u32)] = to_bits 32 w"
proof -
  have "to_bits 32 w = to_bits 8 (drop_bit 24 w) @ to_bits 8 (drop_bit 16 w) @ to_bits 8 (drop_bit 8 w) @ to_bits 8 w"
    using to_bits_add [of 8 24 w] to_bits_add [of 8 16 w] to_bits_add [of 8 8 w] by simp
  then show ?thesis by (simp add: to_bits_byte)
qed

lemma code_fits: "bit (ucast (code_of c) :: u64) i \<Longrightarrow> i < length_of c"
proof -
  assume "bit (ucast (code_of c) :: u64) i"
  then have "bit (code_of c) i" by (simp add: bit_simps)
  moreover have "unat (code_of c) < 2 ^ length_of c"
    using code_bounds(3) [OF byte_lt_256, of "byte_of_char c"] by (simp add: code_of_def length_of_def)
  then have "take_bit (length_of c) (code_of c) = code_of c"
    by (simp add: word_unat_eq_iff unsigned_take_bit_eq take_bit_nat_eq_self)
  ultimately show ?thesis by (metis bit_take_bit_iff)
qed

lemma huffman_put_inv:
  assumes "enc_inv s st"
  shows "enc_inv (s @ [c]) (huffman_put c st)"
proof -
  obtain out buf nbits where st: "st = (out, buf, nbits)" by (cases st)
  let ?l = "length_of c" and ?buf = "push_bit (length_of c) buf OR ucast (code_of c)"
  have n: "nbits < 32" "path_bits out @ to_bits nbits buf = string_bits s" using assms st by (auto simp: enc_inv_def)
  have l: "?l \<le> 30" using code_bounds(2) [OF byte_lt_256] by (simp add: length_of_def)
  have "to_bits (nbits + ?l) ?buf = to_bits nbits buf @ to_bits ?l (ucast (code_of c) :: u64)"
    using n l by (intro to_bits_push code_fits) auto
  also have "to_bits ?l (ucast (code_of c) :: u64) = code_bits (unat (byte_of_char c))"
    using l by (simp add: to_bits_ucast code_bits_def code_of_def length_of_def)
  finally have bits: "path_bits out @ to_bits (nbits + ?l) ?buf = string_bits (s @ [c])"
    using n by simp
  show ?thesis
  proof (cases "32 \<le> nbits + ?l")
    case True
    let ?k = "nbits + ?l - 32"
    have "to_bits (nbits + ?l) ?buf = to_bits 32 (ucast (drop_bit ?k ?buf) :: u32) @ to_bits ?k ?buf"
      using True to_bits_add [of 32 ?k ?buf] by (simp add: to_bits_ucast)
    then show ?thesis
      using True bits n l path_bits_word [of "ucast (drop_bit ?k ?buf)"]
      by (simp add: st huffman_put_def Let_def enc_inv_def)
  next
    case False
    then show ?thesis using bits by (simp add: st huffman_put_def Let_def enc_inv_def)
  qed
qed

lemma huffman_fold_inv: "enc_inv s st \<Longrightarrow> enc_inv (s @ t) (fold huffman_put t st)"
proof (induction t arbitrary: s st)
  case (Cons c t)
  then show ?case using huffman_put_inv [of s st c] Cons.IH [of "s @ [c]"] by simp
qed simp

lemma huffman_flush_bits:
  assumes "nbits mod 8 = 0"
  shows "path_bits (huffman_flush out buf nbits) = path_bits out @ to_bits nbits buf"
  using assms
proof (induction out buf nbits rule: huffman_flush.induct)
  case (1 out buf nbits)
  show ?case
  proof (cases "8 \<le> nbits")
    case True
    then have "to_bits nbits buf = to_bits 8 (ucast (drop_bit (nbits - 8) buf) :: u8) @ to_bits (nbits - 8) buf"
      using to_bits_add [of 8 "nbits - 8" buf] by (simp add: to_bits_ucast)
    moreover have "(nbits - 8) mod 8 = 0" using 1(2) True by (metis le_mod_geq)
    ultimately show ?thesis using True 1(1) by (subst huffman_flush.simps) simp
  next
    case False
    then have "nbits = 0" using 1(2) by simp
    then show ?thesis by (subst huffman_flush.simps) (simp add: to_bits_def)
  qed
qed

lemma huffman_encode_bits:
  "\<exists>k\<le>7. path_bits (huffman_encode s) = string_bits s @ replicate k True"
proof -
  obtain out buf nbits where st: "fold huffman_put s ([], 0, 0) = (out, buf, nbits)" by (metis prod_cases3)
  have "enc_inv [] ([], 0, 0)" by (simp add: enc_inv_def to_bits_def)
  then have n: "nbits < 32" "path_bits out @ to_bits nbits buf = string_bits s"
    using huffman_fold_inv [of "[]" "([], 0, 0)" s] st by (auto simp: enc_inv_def)
  show ?thesis
  proof (cases "nbits mod 8 = 0")
    case True
    then have "path_bits (huffman_encode s) = string_bits s"
      using n huffman_flush_bits [OF True] by (simp add: huffman_encode_def st)
    then show ?thesis by (intro exI [of _ 0]) simp
  next
    case False
    define k where "k = 8 - nbits mod 8"
    have k: "k \<le> 7" "(nbits + k) mod 8 = 0" "nbits + k \<le> 64"
      using False n(1) unfolding k_def by presburger+
    have m: "push_bit k 1 - 1 = (mask k :: u64)" by (simp add: mask_eq_exp_minus_1)
    have "to_bits (nbits + k) (push_bit k buf OR (push_bit k 1 - 1)) = to_bits nbits buf @ to_bits k (mask k :: u64)"
      unfolding m using k(3) by (intro to_bits_push) (auto simp: bit_mask_iff)
    also have "to_bits k (mask k :: u64) = replicate k True"
      using k(1) by (intro nth_equalityI) (auto simp: to_bits_nth bit_mask_iff)
    finally have "path_bits (huffman_encode s) = string_bits s @ replicate k True"
      using False n(2) huffman_flush_bits [OF k(2)] by (simp add: huffman_encode_def st k_def Let_def)
    then show ?thesis using k(1) by blast
  qed
qed

lemma path_bits_inject: "path_bits p = path_bits q \<Longrightarrow> p = q"
proof (induction p arbitrary: q)
  case Nil
  then have "length (path_bits q) = 0" by (metis list.size(3) path_bits_simps(1))
  then show ?case by simp
next
  case (Cons i p)
  then have "length (path_bits q) = length (path_bits (i # p))" by simp
  then obtain j r where "q = j # r" by (cases q) auto
  then show ?case using Cons by auto
qed

lemma huffman_decode_iff:
  "huffman_decode data = Inr (HR_OK, s) \<longleftrightarrow> data = huffman_encode s"
proof
  assume "data = huffman_encode s"
  then show "huffman_decode data = Inr (HR_OK, s)"
    using huffman_encode_bits [of s] huffman_decode_complete by blast
next
  assume "huffman_decode data = Inr (HR_OK, s)"
  then obtain k where k: "k \<le> 7" "path_bits data = string_bits s @ replicate k True"
    using huffman_decode_sound [of data] by auto
  obtain j where j: "j \<le> 7" "path_bits (huffman_encode s) = string_bits s @ replicate j True"
    using huffman_encode_bits by blast
  have "8 * length data + j = 8 * length (huffman_encode s) + k"
    using arg_cong [OF k(2), of length] arg_cong [OF j(2), of length] by simp
  then have "j = k" using j(1) k(1) by presburger
  then show "data = huffman_encode s" using k(2) j(2) by (intro path_bits_inject) simp
qed

lemma length_huffman_encode: "length (huffman_encode s) = encodedLength s"
proof -
  obtain k where k: "k \<le> 7" "path_bits (huffman_encode s) = string_bits s @ replicate k True"
    using huffman_encode_bits by blast
  have "length (string_bits s) = sum_list (map length_of s)"
    by (induction s) (simp_all add: length_of_def)
  then have total: "8 * length (huffman_encode s) = sum_list (map length_of s) + k"
    using arg_cong [OF k(2), of length] by simp
  then have "length (huffman_encode s) = (8 * length (huffman_encode s) + (7 - k)) div 8" using k(1) by simp
  also have "8 * length (huffman_encode s) + (7 - k) = sum_list (map length_of s) + 7"
    using total k(1) by simp
  finally show ?thesis by (simp only: encodedLength_def)
qed

end
