(* ===== verification/Hpack.thy ===== *)
theory Hpack
  imports Huffman Hpack_Table
begin

text \<open>
  Header compression: include/chttp2/hpack/hpack.hpp and src/hpack/hpack.cpp.

  The encoder appends to a byte buffer (a list of bytes, see \<open>byte_sink\<close>) and sets flag bits
  afterwards (\<open>buf_or_at\<close>), as the source does; the decoder reads a \<open>ByteSpan\<close>. A parser that
  returns \<open>false\<close> yields \<open>None\<close> or \<open>False\<close> with the state it leaves. The lemmas give the
  bytes each encoder function appends, that each decoder function reads them back, and
  that encoder and decoder states stay in step (\<open>in_step\<close>) over any sequence of header blocks
  and size changes.
\<close>

section \<open>Integers\<close>

definition maxPrefix :: "nat \<Rightarrow> nat" where
  "maxPrefix p = (2 ^ p - 1) mod 256"

fun vint_tail :: "nat \<Rightarrow> u8 list" where
  "vint_tail v = (if 128 \<le> v then (0x80 OR of_nat (v mod 128)) # vint_tail (v div 128) else [of_nat v])"

declare vint_tail.simps [simp del]

definition encodeVInt :: "u8 list \<Rightarrow> nat \<Rightarrow> nat \<Rightarrow> u8 list" where
  "encodeVInt buffer p v =
     (if v < maxPrefix p then buffer @ [of_nat v]
      else buffer @ [of_nat (maxPrefix p)] @ vint_tail (v - maxPrefix p))"

function vint_loop :: "ByteSpan \<Rightarrow> nat \<Rightarrow> nat \<Rightarrow> (nat \<times> ByteSpan) option cpp" where
  "vint_loop view shift v =
     (if span_empty view then Inr None
      else case (span_readAs 1 view :: (u8 \<times> ByteSpan) cpp) of
        Inl e \<Rightarrow> Inl e
      | Inr (byte, view') \<Rightarrow>
          let v' = (v + unat (byte AND 0x7f) * 2 ^ shift) mod 2 ^ 64 in
          if byte AND 0x80 = 0 then Inr (Some (v', view'))
          else if 63 \<le> shift + 7 then Inr None
          else vint_loop view' (shift + 7) v')"
  by pat_completeness auto
termination
  by (relation "measure (\<lambda>(view, shift, v). 63 - shift)") auto

declare vint_loop.simps [simp del]

text \<open>\<open>None\<close> is \<open>false\<close>; the caller's span is then untouched.\<close>

definition decodeVInt :: "ByteSpan \<Rightarrow> nat \<Rightarrow> (nat \<times> ByteSpan) option cpp" where
  "decodeVInt buffer p =
     (if p < 1 \<or> 8 < p \<or> span_empty buffer then Inr None
      else cpp_bind (span_readAs 1 buffer :: (u8 \<times> ByteSpan) cpp) (\<lambda>(byte, view).
        let v = unat (byte AND of_nat (maxPrefix p)) in
        cpp_bind (if v < maxPrefix p then Inr (Some (v, view)) else vint_loop view 0 v) (\<lambda>r.
        case r of
          None \<Rightarrow> Inr None
        | Some (v', view') \<Rightarrow>
            cpp_bind (span_advance (span_size buffer - span_size view') buffer) (\<lambda>b. Inr (Some (v', b))))))"

section \<open>Strings\<close>

definition encodeString :: "u8 list \<Rightarrow> string \<Rightarrow> u8 list cpp" where
  "encodeString buffer str =
     (let huffmanLength = encodedLength str in
      if huffmanLength < length str
      then buf_or_at (length buffer) 0x80 (encodeVInt buffer 7 huffmanLength @ huffman_encode str)
      else Inr (encodeVInt buffer 7 (length str) @ bytes_of_string str))"

text \<open>The string, or \<open>None\<close> for \<open>false\<close>, and the span as it is left.\<close>

definition decodeString :: "ByteSpan \<Rightarrow> (string option \<times> ByteSpan) cpp" where
  "decodeString buffer =
     (if span_empty buffer then Inr (None, buffer)
      else cpp_bind (span_peek 1 buffer :: u8 cpp) (\<lambda>b.
        let isHuffman = (b AND 0x80 \<noteq> 0) in
        cpp_bind (decodeVInt buffer 7) (\<lambda>r. case r of
          None \<Rightarrow> Inr (None, buffer)
        | Some (len, buffer) \<Rightarrow>
            if span_size buffer < len then Inr (None, buffer)
            else cpp_bind
              (if isHuffman
               then cpp_bind (span_subspan 0 len buffer) (\<lambda>s.
                    cpp_bind (huffman_decode (span_rest s)) (\<lambda>(code, str).
                      Inr (if code = HR_OK then Some str else None)))
               else cpp_bind (span_prefix len buffer) (\<lambda>bs. Inr (Some (string_of_bytes bs))))
              (\<lambda>str. case str of
                 None \<Rightarrow> Inr (None, buffer)
               | Some _ \<Rightarrow> cpp_bind (span_advance len buffer) (\<lambda>b. Inr (str, b))))))"

section \<open>State\<close>

record Hpack =
  decodeBuffer :: ByteSpan
  firstField :: bool
  decodeTable :: HpackTable
  decodeTableLimit :: nat
  encodeTable :: HpackTable
  encodeTableDirty :: bool
  encodeMinSize :: nat

definition SIZE_MAX :: nat where
  "SIZE_MAX = 2 ^ 64 - 1"

definition Hpack_new :: Hpack where
  "Hpack_new =
     \<lparr>decodeBuffer = span_of [], firstField = True, decodeTable = HpackTable_new,
      decodeTableLimit = INIT_MAX_TABLE_SIZE, encodeTable = HpackTable_new,
      encodeTableDirty = False, encodeMinSize = SIZE_MAX\<rparr>"

definition Hpack_reset :: "Hpack \<Rightarrow> Hpack" where
  "Hpack_reset hp = Hpack_new"

definition setDecodeTableLimit :: "nat \<Rightarrow> Hpack \<Rightarrow> Hpack" where
  "setDecodeTableLimit limit hp =
     hp\<lparr>decodeTableLimit := limit, decodeTable := table_setMaxSize limit (decodeTable hp)\<rparr>"

definition setEncodeTableSize :: "nat \<Rightarrow> Hpack \<Rightarrow> Hpack" where
  "setEncodeTableSize sz hp =
     hp\<lparr>encodeMinSize := min sz (encodeMinSize hp), encodeTableDirty := True,
        encodeTable := table_setMaxSize sz (encodeTable hp)\<rparr>"

section \<open>Encoding header blocks\<close>

definition encodeIndexedHeader :: "u8 list \<Rightarrow> nat \<Rightarrow> u8 list cpp" where
  "encodeIndexedHeader buffer index = buf_or_at (length buffer) 0x80 (encodeVInt buffer 7 index)"

definition encodeIndexLiteralHeader :: "u8 list \<Rightarrow> nat \<Rightarrow> HeaderField \<Rightarrow> u8 list cpp" where
  "encodeIndexLiteralHeader buffer index h =
     (if sensitivity h then Inl (AssertionFailed ''header.sensitivity == false'')
      else cpp_bind
        (if 0 < index then buf_or_at (length buffer) 0x40 (encodeVInt buffer 6 index)
         else encodeString (buffer @ [0x40]) (hname h))
        (\<lambda>b. encodeString b (hvalue h)))"

definition encodeUnIndexLiteralHeader :: "u8 list \<Rightarrow> nat \<Rightarrow> HeaderField \<Rightarrow> u8 list cpp" where
  "encodeUnIndexLiteralHeader buffer index h =
     (if sensitivity h then Inl (AssertionFailed ''header.sensitivity == false'')
      else cpp_bind
        (if 0 < index then Inr (encodeVInt buffer 4 index)
         else encodeString (buffer @ [0]) (hname h))
        (\<lambda>b. encodeString b (hvalue h)))"

definition encodeNeverIndexLiteralHeader :: "u8 list \<Rightarrow> nat \<Rightarrow> HeaderField \<Rightarrow> u8 list cpp" where
  "encodeNeverIndexLiteralHeader buffer index h =
     (if \<not> sensitivity h then Inl (AssertionFailed ''header.sensitivity == true'')
      else cpp_bind
        (if 0 < index then buf_or_at (length buffer) 0x10 (encodeVInt buffer 4 index)
         else encodeString (buffer @ [0x10]) (hname h))
        (\<lambda>b. encodeString b (hvalue h)))"

definition encodeTableSizeUpdate :: "u8 list \<Rightarrow> nat \<Rightarrow> u8 list cpp" where
  "encodeTableSizeUpdate buffer sz = buf_or_at (length buffer) 0x20 (encodeVInt buffer 5 sz)"

definition couldIndex :: "HeaderField \<Rightarrow> HpackTable \<Rightarrow> bool" where
  "couldIndex h t \<longleftrightarrow> \<not> sensitivity h \<and> dynamicBytes t + field_size h \<le> maxSize t"

text \<open>The pending size updates at the start of a block.\<close>

definition encode_updates :: "Hpack \<Rightarrow> (u8 list \<times> Hpack) cpp" where
  "encode_updates hp =
     (if encodeTableDirty hp
      then cpp_bind
        (if encodeMinSize hp < maxSize (encodeTable hp)
         then encodeTableSizeUpdate [] (encodeMinSize hp) else Inr []) (\<lambda>buffer.
        cpp_bind (encodeTableSizeUpdate buffer (maxSize (encodeTable hp))) (\<lambda>buffer.
          Inr (buffer, hp\<lparr>encodeTableDirty := False, encodeMinSize := SIZE_MAX\<rparr>)))
      else Inr ([], hp))"

definition encode_header :: "HeaderField \<Rightarrow> u8 list \<times> Hpack \<Rightarrow> (u8 list \<times> Hpack) cpp" where
  "encode_header h st =
     (case st of (buffer, hp) \<Rightarrow>
        let (exactMatch, idx) = table_find h (encodeTable hp) in
        if sensitivity h
        then cpp_bind (encodeNeverIndexLiteralHeader buffer idx h) (\<lambda>b. Inr (b, hp))
        else if exactMatch
        then cpp_bind (encodeIndexedHeader buffer idx) (\<lambda>b. Inr (b, hp))
        else if couldIndex h (encodeTable hp)
        then cpp_bind (encodeIndexLiteralHeader buffer idx h) (\<lambda>b.
               Inr (b, hp\<lparr>encodeTable := table_insert h (encodeTable hp)\<rparr>))
        else cpp_bind (encodeUnIndexLiteralHeader buffer idx h) (\<lambda>b. Inr (b, hp)))"

fun encode_headers :: "HeaderField list \<Rightarrow> u8 list \<times> Hpack \<Rightarrow> (u8 list \<times> Hpack) cpp" where
  "encode_headers [] st = Inr st"
| "encode_headers (h # hs) st = cpp_bind (encode_header h st) (encode_headers hs)"

definition hpack_encode :: "HeaderField list \<Rightarrow> Hpack \<Rightarrow> (u8 list \<times> Hpack) cpp" where
  "hpack_encode hs hp = cpp_bind (encode_updates hp) (encode_headers hs)"

section \<open>Decoding header blocks\<close>

type_synonym decode_result = "(bool \<times> Hpack \<times> HeaderField list) cpp"

definition decodeIndexedHeader :: "Hpack \<Rightarrow> HeaderField list \<Rightarrow> decode_result" where
  "decodeIndexedHeader hp headers =
     cpp_bind (decodeVInt (decodeBuffer hp) 7) (\<lambda>r. case r of
       None \<Rightarrow> Inr (False, hp, headers)
     | Some (index, b) \<Rightarrow>
         let hp = hp\<lparr>decodeBuffer := b\<rparr> in
         (case table_at index (decodeTable hp) of
            None \<Rightarrow> Inr (False, hp, headers)
          | Some h \<Rightarrow> Inr (True, hp, headers @ [h])))"

definition decodeTableSizeUpdate :: "Hpack \<Rightarrow> HeaderField list \<Rightarrow> decode_result" where
  "decodeTableSizeUpdate hp headers =
     cpp_bind (decodeVInt (decodeBuffer hp) 5) (\<lambda>r. case r of
       None \<Rightarrow> Inr (False, hp, headers)
     | Some (sz, b) \<Rightarrow>
         let hp = hp\<lparr>decodeBuffer := b\<rparr> in
         if decodeTableLimit hp < sz then Inr (False, hp, headers)
         else Inr (True, hp\<lparr>decodeTable := table_setMaxSize sz (decodeTable hp)\<rparr>, headers))"

text \<open>The name: a literal, or the name of an indexed entry; \<open>None\<close> is a failed lookup or parse.\<close>

definition decode_name :: "nat \<Rightarrow> ByteSpan \<Rightarrow> HpackTable \<Rightarrow> (string option \<times> ByteSpan) cpp" where
  "decode_name index b t =
     (if index = 0 then decodeString b else Inr (map_option hname (table_at index t), b))"

definition decodeHeaderField :: "nat \<Rightarrow> bool \<Rightarrow> bool \<Rightarrow> Hpack \<Rightarrow> HeaderField list \<Rightarrow> decode_result" where
  "decodeHeaderField p indexed sensitive hp headers =
     cpp_bind (decodeVInt (decodeBuffer hp) p) (\<lambda>r. case r of
       None \<Rightarrow> Inr (False, hp, headers)
     | Some (index, b) \<Rightarrow>
         cpp_bind (decode_name index b (decodeTable hp)) (\<lambda>(name, b).
         case name of
           None \<Rightarrow> Inr (False, hp\<lparr>decodeBuffer := b\<rparr>, headers)
         | Some n \<Rightarrow> cpp_bind (decodeString b) (\<lambda>(val, b).
             let hp = hp\<lparr>decodeBuffer := b\<rparr> in
             case val of
               None \<Rightarrow> Inr (False, hp, headers)
             | Some v \<Rightarrow>
                 let h = \<lparr>hname = n, hvalue = v, sensitivity = sensitive\<rparr> in
                 Inr (True, if indexed then hp\<lparr>decodeTable := table_insert h (decodeTable hp)\<rparr> else hp,
                      headers @ [h]))))"

definition decodeHeader :: "Hpack \<Rightarrow> HeaderField list \<Rightarrow> decode_result" where
  "decodeHeader hp headers =
     cpp_bind (span_peek 1 (decodeBuffer hp) :: u8 cpp) (\<lambda>flag.
       if drop_bit 7 flag = 1 then decodeIndexedHeader hp headers
       else if drop_bit 6 flag = 1 then decodeHeaderField 6 True False hp headers
       else if drop_bit 5 flag = 1
       then if \<not> firstField hp then Inr (False, hp, headers) else decodeTableSizeUpdate hp headers
       else if drop_bit 4 flag = 1 then decodeHeaderField 4 False True hp headers
       else decodeHeaderField 4 False False hp headers)"

text \<open>
  The loop \<open>while (!decodeBuffer.empty())\<close>. It ends because every field consumes a byte
  (\<open>decodeHeader_consumes\<close>); a field that consumed none would repeat forever.
\<close>

function decode_loop :: "Hpack \<Rightarrow> HeaderField list \<Rightarrow> decode_result" where
  "decode_loop hp headers =
     (if span_empty (decodeBuffer hp) then Inr (True, hp, headers)
      else case decodeHeader hp headers of
        Inl e \<Rightarrow> Inl e
      | Inr (ok, hp', headers') \<Rightarrow>
          if \<not> ok then Inr (False, hp', headers')
          else let hp' = (if length headers < length headers' then hp'\<lparr>firstField := False\<rparr> else hp') in
            if length (span_rest (decodeBuffer hp')) < length (span_rest (decodeBuffer hp))
            then decode_loop hp' headers'
            else Inl (Diverges ''Hpack::decode''))"
  by pat_completeness auto
termination
  by (relation "measure (\<lambda>(hp, hs). length (span_rest (decodeBuffer hp)))") auto

declare decode_loop.simps [simp del]

definition hpack_decode :: "ByteSpan \<Rightarrow> HeaderField list \<Rightarrow> Hpack \<Rightarrow> decode_result" where
  "hpack_decode data headers hp =
     (let hp = hp\<lparr>firstField := True\<rparr> in
      if span_empty data then Inr (True, hp, headers)
      else decode_loop (hp\<lparr>decodeBuffer := data\<rparr>) headers)"

section \<open>Reading spans\<close>

declare span_rest_cur [simp del]

abbreviation adv :: "nat \<Rightarrow> ByteSpan \<Rightarrow> ByteSpan" where
  "adv n s \<equiv> s\<lparr>sp_cur := sp_cur s + n\<rparr>"

lemma adv_rest:
  assumes "span_wf s" and "span_rest s = bs @ rest" and "n = length bs"
  shows "span_wf (adv n s)" and "span_rest (adv n s) = rest"
proof -
  show "span_wf (adv n s)" using assms by (intro span_wf_advance) auto
  have "drop (sp_cur s + length bs) (sp_data s) = drop (length bs) (span_rest s)"
    by (simp add: span_rest_def add.commute)
  then show "span_rest (adv n s) = rest" using assms(2,3) by (simp add: span_rest_cur)
qed

lemma be_value_byte: "be_value [b] = (b :: u8)"
  by (simp add: be_value_def)

lemma span_read_byte:
  assumes "span_wf s" and "span_rest s = b # rest"
  shows "(span_readAs 1 s :: (u8 \<times> ByteSpan) cpp) = Inr (b, adv 1 s)" and "span_wf (adv 1 s)"
    and "span_rest (adv 1 s) = rest" and "\<not> span_empty s" and "(span_peek 1 s :: u8 cpp) = Inr b"
proof -
  have n: "1 \<le> length (span_rest s)" using assms(2) by simp
  show "(span_readAs 1 s :: (u8 \<times> ByteSpan) cpp) = Inr (b, adv 1 s)"
    using span_readAs_wf [OF assms(1) n, where 'a = 8] assms(2) by (simp add: be_value_byte)
  show "(span_peek 1 s :: u8 cpp) = Inr b"
    using span_peek_wf [OF assms(1) n, where 'a = 8] assms(2) by (simp add: be_value_byte)
  show "span_wf (adv 1 s)" "span_rest (adv 1 s) = rest"
    using adv_rest [OF assms(1), of "[b]"] assms(2) by simp_all
  show "\<not> span_empty s" using assms(2) by (simp add: span_empty_rest)
qed

lemma adv_size: "span_wf s \<Longrightarrow> n \<le> length (span_rest s) \<Longrightarrow> span_size s - span_size (adv n s) = n"
  using span_wf_advance [of s n] by (simp add: span_size_wf span_rest_def)

section \<open>Integers survive the wire\<close>

lemma bit_of_nat_u8: "k < 2 ^ n \<Longrightarrow> bit (of_nat k :: u8) i \<Longrightarrow> i < n"
  using bit_take_bit_iff [of n k i] by (auto simp: bit_simps take_bit_nat_eq_self)

lemma mask_127: "(0x7f :: u8) = mask 7" "(0x80 :: u8) = push_bit 7 1"
  by (simp_all add: mask_eq_exp_minus_1)

lemma bit_128: "bit (128 :: int) n \<longleftrightarrow> n = 7"
proof -
  have "(128 :: int) = push_bit 7 1" by simp
  then show ?thesis by (simp only: bit_push_bit_iff bit_1_iff) auto
qed

lemma low_byte:
  assumes "k < 128"
  shows "(of_nat k :: u8) AND 0x7f = of_nat k" and "(of_nat k :: u8) AND 0x80 = 0"
    and "unat (of_nat k :: u8) = k"
proof -
  note b = bit_of_nat_u8 [of k 7]
  show "(of_nat k :: u8) AND 0x7f = of_nat k"
    unfolding mask_127 by (rule bit_word_eqI) (use b assms in \<open>auto simp: bit_and_iff bit_mask_iff\<close>)
  show "(of_nat k :: u8) AND 0x80 = 0"
    by (rule bit_word_eqI) (use b assms in \<open>auto simp: bit_and_iff bit_128\<close>)
  show "unat (of_nat k :: u8) = k" using assms by (simp add: unat_of_nat)
qed

lemma high_byte:
  assumes "k < 128"
  shows "(0x80 OR of_nat k :: u8) AND 0x7f = of_nat k" and "(0x80 OR of_nat k :: u8) AND 0x80 \<noteq> 0"
proof -
  note b = bit_of_nat_u8 [of k 7]
  show "(0x80 OR of_nat k :: u8) AND 0x7f = of_nat k"
    unfolding mask_127(1)
    by (rule bit_word_eqI) (use b assms in \<open>auto simp: bit_and_iff bit_or_iff bit_mask_iff bit_128\<close>)
  have "bit ((0x80 OR of_nat k :: u8) AND 0x80) 7"
    by (simp add: bit_and_iff bit_or_iff bit_128)
  then show "(0x80 OR of_nat k :: u8) AND 0x80 \<noteq> 0" by (metis bit_0_eq bot_apply bot_bool_def)
qed

lemma vint_tail_ne [simp]: "vint_tail v \<noteq> []"
  by (subst vint_tail.simps) simp

lemma vint_loop_tail:
  assumes "span_wf s" and "span_rest s = vint_tail w @ rest"
    and "w * 2 ^ shift < 2 ^ 63" and "shift < 63" and "v + w * 2 ^ shift < 2 ^ 64"
  shows "vint_loop s shift v = Inr (Some (v + w * 2 ^ shift, adv (length (vint_tail w)) s))"
  using assms
proof (induction w arbitrary: s shift v rule: vint_tail.induct)
  case (1 w)
  show ?case
  proof (cases "128 \<le> w")
    case False
    then have rest: "span_rest s = of_nat w # rest" using 1(3) by (simp add: vint_tail.simps)
    have "vint_tail w = [of_nat w]" using False by (simp add: vint_tail.simps)
    then show ?thesis
      using span_read_byte [OF 1(2) rest] low_byte [of w] False 1(6)
      by (subst vint_loop.simps) (simp add: Let_def)
  next
    case True
    let ?k = "w mod 128"
    have t: "vint_tail w = (0x80 OR of_nat ?k) # vint_tail (w div 128)"
      using True by (subst vint_tail.simps) simp
    have rest: "span_rest s = (0x80 OR of_nat ?k) # vint_tail (w div 128) @ rest" using 1(3) t by simp
    have "k * 2 ^ shift + q * 2 ^ (shift + 7) = (k + 128 * q) * 2 ^ shift" for k q :: nat
      by (simp add: power_add algebra_simps)
    from this [of ?k "w div 128"] have val: "?k * 2 ^ shift + w div 128 * 2 ^ (shift + 7) = w * 2 ^ shift"
      by (simp only: mod_mult_div_eq)
    have "128 * 2 ^ shift \<le> w * 2 ^ shift" using True by (intro mult_right_mono) auto
    then have "128 * 2 ^ shift < (2::nat) ^ 63" using 1(4) by linarith
    moreover have "(2::nat) ^ (shift + 7) = 128 * 2 ^ shift" by (simp add: power_add)
    ultimately have "(2::nat) ^ (shift + 7) < 2 ^ 63" by linarith
    then have sh: "shift + 7 < 63" by (metis power_less_imp_less_exp one_less_numeral_iff semiring_norm(76))
    have "vint_loop (adv 1 s) (shift + 7) (v + ?k * 2 ^ shift) =
        Inr (Some (v + ?k * 2 ^ shift + w div 128 * 2 ^ (shift + 7), adv (length (vint_tail (w div 128))) (adv 1 s)))"
      using val 1(4,6) sh by (intro 1(1) [OF True span_read_byte(2,3) [OF 1(2) rest]]) auto
    moreover have "(v + ?k * 2 ^ shift) mod 2 ^ 64 = v + ?k * 2 ^ shift" using val 1(6) by simp
    ultimately show ?thesis
      using span_read_byte [OF 1(2) rest] high_byte [of ?k] low_byte(3) [of ?k] sh val t
      by (subst vint_loop.simps) (simp add: Let_def)
  qed
qed

text \<open>The bytes of an integer, with flag bits in its first byte.\<close>

definition vint_bytes :: "u8 \<Rightarrow> nat \<Rightarrow> nat \<Rightarrow> u8 list" where
  "vint_bytes flag p v =
     (if v < maxPrefix p then [of_nat v OR flag]
      else (of_nat (maxPrefix p) OR flag) # vint_tail (v - maxPrefix p))"

definition prefix_flag :: "u8 \<Rightarrow> nat \<Rightarrow> bool" where
  "prefix_flag flag p \<longleftrightarrow> 1 \<le> p \<and> p \<le> 7 \<and> (\<forall>n<p. \<not> bit flag n)"

lemma encodeVInt_bytes: "encodeVInt buffer p v = buffer @ vint_bytes 0 p v"
  by (simp add: encodeVInt_def vint_bytes_def)

lemma buf_or_at_vint: "buf_or_at (length buffer) flag (encodeVInt buffer p v @ bs) = Inr (buffer @ vint_bytes flag p v @ bs)"
  by (simp add: buf_or_at_def encodeVInt_def vint_bytes_def list_update_append nth_append)

lemma vint_bytes_ne [simp]: "vint_bytes flag p v \<noteq> []"
  by (simp add: vint_bytes_def)

lemma maxPrefix_mask: "1 \<le> p \<Longrightarrow> p \<le> 8 \<Longrightarrow> maxPrefix p = 2 ^ p - 1"
  using power_increasing [of p 8 "2::nat"] by (simp add: maxPrefix_def)

lemma prefix_byte:
  assumes "prefix_flag flag p" and "v \<le> maxPrefix p"
  shows "unat ((of_nat v OR flag :: u8) AND of_nat (maxPrefix p)) = v"
proof -
  have p: "1 \<le> p" "p \<le> 7" using assms(1) by (auto simp: prefix_flag_def)
  have m: "(of_nat (maxPrefix p) :: u8) = mask p"
    using p by (simp add: maxPrefix_mask mask_eq_exp_minus_1 of_nat_diff)
  have "maxPrefix p < 2 ^ p" using p maxPrefix_mask [of p] by simp
  then have lt: "v < 2 ^ p" using assms(2) by linarith
  have "(of_nat v OR flag :: u8) AND mask p = of_nat v"
    by (rule bit_word_eqI)
      (use assms(1) bit_of_nat_u8 [OF lt] in \<open>auto simp: bit_and_iff bit_or_iff bit_mask_iff prefix_flag_def\<close>)
  moreover have "v < 256" using lt p power_increasing [of p 7 "2::nat"] by simp
  ultimately show ?thesis unfolding m by (simp add: unat_of_nat)
qed

lemma decodeVInt_bytes:
  assumes "span_wf s" and "span_rest s = vint_bytes flag p v @ rest" and "prefix_flag flag p" and "v < 2 ^ 63"
  shows "decodeVInt s p = Inr (Some (v, adv (length (vint_bytes flag p v)) s))"
proof -
  have p: "1 \<le> p" "p \<le> 7" using assms(3) by (auto simp: prefix_flag_def)
  let ?n = "length (vint_bytes flag p v)"
  have adv: "span_advance (span_size s - span_size (adv ?n s)) s = Inr (adv ?n s)"
    using assms(1,2) by (simp add: adv_size span_advance_wf)
  show ?thesis
  proof (cases "v < maxPrefix p")
    case True
    then have rest: "span_rest s = (of_nat v OR flag) # rest" using assms(2) by (simp add: vint_bytes_def)
    show ?thesis
      using span_read_byte [OF assms(1) rest] prefix_byte [OF assms(3), of v] True p adv
      by (simp add: decodeVInt_def vint_bytes_def)
  next
    case False
    let ?w = "v - maxPrefix p"
    have rest: "span_rest s = (of_nat (maxPrefix p) OR flag) # vint_tail ?w @ rest"
      using False assms(2) by (simp add: vint_bytes_def)
    have "vint_loop (adv 1 s) 0 (maxPrefix p) = Inr (Some (v, adv (length (vint_tail ?w)) (adv 1 s)))"
      using vint_loop_tail [OF span_read_byte(2,3) [OF assms(1) rest], of 0 "maxPrefix p"] False assms(4) by simp
    then show ?thesis
      using span_read_byte [OF assms(1) rest] prefix_byte [OF assms(3), of "maxPrefix p"] False p adv
      by (simp add: decodeVInt_def vint_bytes_def)
  qed
qed

text \<open>Every integer that is read has consumed at least one byte and nothing but bytes of the span.\<close>

definition vint_read :: "ByteSpan \<Rightarrow> (nat \<times> ByteSpan) option \<Rightarrow> bool" where
  "vint_read s r \<longleftrightarrow> (case r of None \<Rightarrow> True
     | Some (v, s') \<Rightarrow> v < 2 ^ 64 \<and> (\<exists>n. 0 < n \<and> n \<le> length (span_rest s) \<and> s' = adv n s))"

lemma vint_read_step:
  assumes "span_rest s = b # span_rest (adv 1 s)" and "vint_read (adv 1 s) r"
  shows "vint_read s r"
proof -
  have "n \<le> length (span_rest (adv 1 s)) \<Longrightarrow> Suc n \<le> length (span_rest s) \<and> adv n (adv 1 s) = adv (Suc n) s" for n
    by (simp add: assms(1))
  then show ?thesis using assms(2) unfolding vint_read_def by (fastforce split: option.splits)
qed

lemma vint_read_one: "span_rest s = b # bs \<Longrightarrow> v < 2 ^ 64 \<Longrightarrow> vint_read s (Some (v, adv 1 s))"
  by (auto simp: vint_read_def intro: exI [of _ 1])

lemma vint_loop_adv:
  assumes "span_wf s"
  shows "\<exists>r. vint_loop s shift v = Inr r \<and> vint_read s r"
  using assms
proof (induction "63 - shift" arbitrary: s shift v rule: less_induct)
  case less
  show ?case
  proof (cases "span_rest s")
    case Nil
    then show ?thesis by (subst vint_loop.simps) (simp add: span_empty_rest vint_read_def)
  next
    case (Cons b bs)
    note r = span_read_byte [OF less.prems Cons]
    let ?v = "(v + unat (b AND 0x7f) * 2 ^ shift) mod 2 ^ 64"
    consider "b AND 0x80 = 0" | "b AND 0x80 \<noteq> 0" "63 \<le> shift + 7" | "b AND 0x80 \<noteq> 0" "shift + 7 < 63"
      by linarith
    then show ?thesis
    proof cases
      case 1
      then have "vint_loop s shift v = Inr (Some (?v, adv 1 s))"
        using r by (subst vint_loop.simps) (simp add: Let_def)
      then show ?thesis using vint_read_one [OF Cons, of ?v] by simp
    next
      case 2
      then show ?thesis using r by (subst vint_loop.simps) (simp add: Let_def vint_read_def)
    next
      case 3
      then have "63 - (shift + 7) < 63 - shift" by simp
      from less.hyps [OF this r(2), of ?v] obtain q where
        q: "vint_loop (adv 1 s) (shift + 7) ?v = Inr q" "vint_read (adv 1 s) q" by blast
      then have "vint_loop s shift v = Inr q"
        using 3 r by (subst vint_loop.simps) (simp add: Let_def)
      then show ?thesis using vint_read_step [OF _ q(2)] Cons r(3) by metis
    qed
  qed
qed

lemma decodeVInt_adv:
  assumes "span_wf s"
  shows "\<exists>r. decodeVInt s p = Inr r \<and> vint_read s r"
proof (cases "p < 1 \<or> 8 < p \<or> span_rest s = []")
  case True
  then have "decodeVInt s p = Inr None" by (auto simp: decodeVInt_def span_empty_rest)
  then show ?thesis by (simp add: vint_read_def)
next
  case False
  then obtain b bs where b: "span_rest s = b # bs" by (cases "span_rest s") auto
  note r = span_read_byte [OF assms b]
  let ?v = "unat (b AND of_nat (maxPrefix p))"
  have v: "?v < 2 ^ 64" by (rule less_trans [OF byte_lt_256]) simp
  obtain q where q: "(if ?v < maxPrefix p then Inr (Some (?v, adv 1 s)) else vint_loop (adv 1 s) 0 ?v) = Inr q"
    "vint_read s q"
    using vint_loop_adv [OF r(2), of 0 ?v] vint_read_step [of s b] vint_read_one [OF b v] b r(3)
    by (cases "?v < maxPrefix p") auto
  have dec: "decodeVInt s p = (case q of None \<Rightarrow> Inr None | Some (v', view') \<Rightarrow>
      cpp_bind (span_advance (span_size s - span_size view') s) (\<lambda>b. Inr (Some (v', b))))"
    using False r(1,4) q(1) by (cases "?v < maxPrefix p") (auto simp: decodeVInt_def Let_def)
  show ?thesis
  proof (cases q)
    case None
    then show ?thesis using dec by (simp add: vint_read_def)
  next
    case (Some w)
    then obtain v' n where w: "w = (v', adv n s)" "n \<le> length (span_rest s)"
      using q(2) by (auto simp: vint_read_def)
    then have "decodeVInt s p = Inr q" using dec Some assms by (simp add: adv_size span_advance_wf)
    then show ?thesis using q(2) by blast
  qed
qed

section \<open>Strings survive the wire\<close>

definition string_bytes :: "string \<Rightarrow> u8 list" where
  "string_bytes str =
     (if encodedLength str < length str
      then vint_bytes 0x80 7 (encodedLength str) @ huffman_encode str
      else vint_bytes 0 7 (length str) @ bytes_of_string str)"

lemma encodeString_bytes: "encodeString buffer str = Inr (buffer @ string_bytes str)"
proof (cases "encodedLength str < length str")
  case True
  then show ?thesis by (simp add: encodeString_def string_bytes_def buf_or_at_vint)
next
  case False
  then show ?thesis by (simp add: encodeString_def string_bytes_def encodeVInt_bytes)
qed

lemma prefix_flags [simp]:
  "prefix_flag 0x80 7" "prefix_flag 0 7" "prefix_flag 0x40 6" "prefix_flag 0x20 5" "prefix_flag 0x10 4" "prefix_flag 0 4"
proof -
  have "(0x80 :: u8) = push_bit 7 1" "(0x40 :: u8) = push_bit 6 1" "(0x20 :: u8) = push_bit 5 1"
    "(0x10 :: u8) = push_bit 4 1" by simp_all
  then show "prefix_flag 0x80 7" "prefix_flag 0 7" "prefix_flag 0x40 6" "prefix_flag 0x20 5" "prefix_flag 0x10 4" "prefix_flag 0 4"
    unfolding prefix_flag_def by (simp_all only: bit_push_bit_iff bit_1_iff) auto
qed

text \<open>The first byte of an integer is its low bits below the flag.\<close>

lemma vint_first_byte:
  assumes "prefix_flag flag p" and "vint_bytes flag p v = b # bs"
  shows "\<exists>k<2 ^ p. b = of_nat k OR flag"
proof -
  have "maxPrefix p < 2 ^ p" using assms(1) maxPrefix_mask [of p] by (simp add: prefix_flag_def)
  moreover have "b = of_nat (min v (maxPrefix p)) OR flag"
    using assms(2) by (auto simp: vint_bytes_def min_def split: if_splits)
  ultimately show ?thesis by (intro exI [of _ "min v (maxPrefix p)"]) auto
qed

lemma first_byte_7:
  "vint_bytes 0x80 7 v = b # bs \<Longrightarrow> b AND 0x80 \<noteq> 0"
  "vint_bytes 0 7 v = b # bs \<Longrightarrow> b AND 0x80 = 0"
  using vint_first_byte [of "0x80" 7 v b bs] vint_first_byte [of 0 7 v b bs] high_byte(2) low_byte(2)
  by (auto simp: or.commute)

lemma span_rest_lt: "span_wf s \<Longrightarrow> length (span_rest s) < 2 ^ 32"
  by (auto simp: span_wf_def span_rest_def)

lemma decodeString_bytes:
  assumes "span_wf s" and "span_rest s = string_bytes str @ rest"
  shows "decodeString s = Inr (Some str, adv (length (string_bytes str)) s)"
proof -
  let ?h = "encodedLength str < length str"
  define flag :: u8 where "flag = (if ?h then 0x80 else 0)"
  define body where "body = (if ?h then huffman_encode str else bytes_of_string str)"
  let ?v = "vint_bytes flag 7 (length body)" and ?s = "adv (length (vint_bytes flag 7 (length body))) s"
  have bytes: "string_bytes str = ?v @ body"
    by (simp add: string_bytes_def flag_def body_def length_huffman_encode)
  have rest: "span_rest s = ?v @ body @ rest" using assms(2) bytes by simp
  note s1 = adv_rest [OF assms(1) rest refl]
  have lt: "length body < 2 ^ 32"
    using span_rest_lt [OF assms(1)] rest by simp
  have vint: "decodeVInt s 7 = Inr (Some (length body, ?s))"
    using decodeVInt_bytes [OF assms(1) rest] lt by (simp add: flag_def split: if_splits)
  obtain b bs where v: "?v = b # bs" by (cases ?v) auto
  then have rest': "span_rest s = b # bs @ body @ rest" using rest by simp
  note r = span_read_byte(4,5) [OF assms(1) rest']
  have flagged: "b AND 0x80 \<noteq> 0 \<longleftrightarrow> ?h" using first_byte_7 v by (auto simp: flag_def split: if_splits)
  have "span_subspan 0 (length body) ?s = Inr (span_of body)" "span_prefix (length body) ?s = Inr body"
    using span_subspan_wf [OF s1(1), of "length body"] s1(2) by (simp_all add: span_prefix_def)
  moreover have "span_advance (length body) ?s = Inr (adv (length body) ?s)"
    using s1 by (intro span_advance_wf) auto
  moreover have "huffman_decode body = Inr (HR_OK, str)" if ?h
    using that huffman_decode_iff by (simp add: body_def)
  moreover have "string_of_bytes body = str" if "\<not> ?h" using that by (simp add: body_def)
  moreover have "\<not> span_size ?s < length body" using s1 by (simp add: span_size_wf)
  ultimately show ?thesis
    unfolding decodeString_def using r vint flagged bytes
    by (cases ?h) (simp_all add: Let_def add.assoc)
qed

text \<open>Reading any string ends, and consumes bytes of the span when it succeeds.\<close>

lemma decodeString_adv:
  assumes "span_wf s"
  shows "\<exists>str n. decodeString s = Inr (str, adv n s) \<and> n \<le> length (span_rest s) \<and> (str \<noteq> None \<longrightarrow> 0 < n)"
proof (cases "span_rest s")
  case Nil
  then have "decodeString s = Inr (None, adv 0 s)" by (simp add: decodeString_def span_empty_rest)
  then show ?thesis by blast
next
  case (Cons b bs)
  note r = span_read_byte(4,5) [OF assms Cons]
  obtain q where q: "decodeVInt s 7 = Inr q" "vint_read s q" using decodeVInt_adv [OF assms] by blast
  show ?thesis
  proof (cases q)
    case None
    then have "decodeString s = Inr (None, adv 0 s)" using q(1) r by (simp add: decodeString_def)
    then show ?thesis by blast
  next
    case (Some w)
    then obtain len n where w: "w = (len, adv n s)" "0 < n" "n \<le> length (span_rest s)"
      using q(2) by (auto simp: vint_read_def)
    let ?s = "adv n s"
    have wf: "span_wf ?s" using span_wf_advance [OF assms w(3)] .
    show ?thesis
    proof (cases "span_size ?s < len")
      case True
      then have "decodeString s = Inr (None, ?s)" using q(1) Some w(1) r by (simp add: decodeString_def)
      then show ?thesis using w(3) by blast
    next
      case False
      then have len: "len \<le> length (span_rest ?s)" using wf by (simp add: span_size_wf)
      have adv: "span_advance len ?s = Inr (adv len ?s)" by (rule span_advance_wf [OF wf len])
      have sub: "span_subspan 0 len ?s = Inr (span_of (take len (span_rest ?s)))" "span_prefix len ?s = Inr (take len (span_rest ?s))"
        using span_subspan_wf [OF wf len] len by (simp_all add: span_prefix_def)
      obtain c str where huff: "huffman_decode (take len (span_rest ?s)) = Inr (c, str)"
        using huffman_decode_sound by blast
      have le: "n + len \<le> length (span_rest s)" using len w(3) by (simp add: span_rest_def)
      have "decodeString s = Inr (None, ?s) \<or> (\<exists>str. decodeString s = Inr (Some str, adv (n + len) s))"
        unfolding decodeString_def using q(1) Some w(1) r False adv sub huff
        by (cases "b AND 0x80 = 0"; cases "c = HR_OK") (simp_all add: Let_def add.assoc)
      then show ?thesis using w(2,3) le by (metis add_gr_0)
    qed
  qed
qed

section \<open>Header fields survive the wire\<close>

definition literal_bytes :: "u8 \<Rightarrow> nat \<Rightarrow> nat \<Rightarrow> HeaderField \<Rightarrow> u8 list" where
  "literal_bytes flag p idx h =
     vint_bytes flag p idx @ (if idx = 0 then string_bytes (hname h) else []) @ string_bytes (hvalue h)"

lemma vint_bytes_0: "1 \<le> p \<Longrightarrow> p \<le> 8 \<Longrightarrow> vint_bytes flag p 0 = [flag]"
  using one_less_power [of "2::nat" p] by (simp add: vint_bytes_def maxPrefix_mask)

lemma buf_or_at_vint': "buf_or_at (length buffer) flag (encodeVInt buffer p v) = Inr (buffer @ vint_bytes flag p v)"
  using buf_or_at_vint [of buffer flag p v "[]"] by simp

lemma encode_fields_bytes:
  "encodeIndexedHeader buffer idx = Inr (buffer @ vint_bytes 0x80 7 idx)"
  "encodeTableSizeUpdate buffer sz = Inr (buffer @ vint_bytes 0x20 5 sz)"
  "\<not> sensitivity h \<Longrightarrow> encodeIndexLiteralHeader buffer idx h = Inr (buffer @ literal_bytes 0x40 6 idx h)"
  "\<not> sensitivity h \<Longrightarrow> encodeUnIndexLiteralHeader buffer idx h = Inr (buffer @ literal_bytes 0 4 idx h)"
  "sensitivity h \<Longrightarrow> encodeNeverIndexLiteralHeader buffer idx h = Inr (buffer @ literal_bytes 0x10 4 idx h)"
  by (simp_all add: encodeIndexedHeader_def encodeTableSizeUpdate_def encodeIndexLiteralHeader_def
      encodeUnIndexLiteralHeader_def encodeNeverIndexLiteralHeader_def buf_or_at_vint' encodeString_bytes
      literal_bytes_def vint_bytes_0) (simp_all add: encodeVInt_bytes)

lemma decodeHeaderField_bytes:
  assumes "span_wf (decodeBuffer hp)" and "span_rest (decodeBuffer hp) = literal_bytes flag p idx h @ rest"
    and "prefix_flag flag p" and "idx < 2 ^ 63"
    and "idx \<noteq> 0 \<Longrightarrow> \<exists>e. table_at idx (decodeTable hp) = Some e \<and> hname e = hname h"
  shows "decodeHeaderField p indexed sens hp headers =
    (let h' = \<lparr>hname = hname h, hvalue = hvalue h, sensitivity = sens\<rparr>;
         hp' = hp\<lparr>decodeBuffer := adv (length (literal_bytes flag p idx h)) (decodeBuffer hp)\<rparr>
     in Inr (True, if indexed then hp'\<lparr>decodeTable := table_insert h' (decodeTable hp)\<rparr> else hp', headers @ [h']))"
proof -
  let ?s = "decodeBuffer hp" and ?v = "vint_bytes flag p idx"
  let ?n = "if idx = 0 then string_bytes (hname h) else []"
  have rest: "span_rest ?s = ?v @ ?n @ string_bytes (hvalue h) @ rest"
    using assms(2) by (simp add: literal_bytes_def)
  note s1 = adv_rest [OF assms(1) rest refl]
  note s2 = adv_rest [OF s1 refl]
  have vint: "decodeVInt ?s p = Inr (Some (idx, adv (length ?v) ?s))"
    by (rule decodeVInt_bytes [OF assms(1) rest assms(3,4)])
  have name: "decode_name idx (adv (length ?v) ?s) (decodeTable hp) = Inr (Some (hname h), adv (length ?n) (adv (length ?v) ?s))"
    using decodeString_bytes [OF s1(1)] s1(2) assms(5) by (auto simp: decode_name_def)
  have val: "decodeString (adv (length ?n) (adv (length ?v) ?s)) =
      Inr (Some (hvalue h), adv (length (string_bytes (hvalue h))) (adv (length ?n) (adv (length ?v) ?s)))"
    by (rule decodeString_bytes [OF s2])
  show ?thesis
    unfolding decodeHeaderField_def using vint name val by (simp add: Let_def literal_bytes_def add.assoc)
qed

lemma decodeIndexedHeader_bytes:
  assumes "span_wf (decodeBuffer hp)" and "span_rest (decodeBuffer hp) = vint_bytes 0x80 7 idx @ rest"
    and "idx < 2 ^ 63" and "table_at idx (decodeTable hp) = Some e"
  shows "decodeIndexedHeader hp headers =
    Inr (True, hp\<lparr>decodeBuffer := adv (length (vint_bytes 0x80 7 idx)) (decodeBuffer hp)\<rparr>, headers @ [e])"
  using decodeVInt_bytes [OF assms(1,2) _ assms(3)] assms(4) by (simp add: decodeIndexedHeader_def Let_def)

lemma decodeTableSizeUpdate_bytes:
  assumes "span_wf (decodeBuffer hp)" and "span_rest (decodeBuffer hp) = vint_bytes 0x20 5 sz @ rest"
    and "sz < 2 ^ 63" and "sz \<le> decodeTableLimit hp"
  shows "decodeTableSizeUpdate hp headers =
    Inr (True, hp\<lparr>decodeBuffer := adv (length (vint_bytes 0x20 5 sz)) (decodeBuffer hp),
                  decodeTable := table_setMaxSize sz (decodeTable hp)\<rparr>, headers)"
  using decodeVInt_bytes [OF assms(1,2) _ assms(3)] assms(4) by (simp add: decodeTableSizeUpdate_def Let_def)

text \<open>The first byte selects the representation.\<close>

lemma drop_bit_first_byte:
  assumes "k < 2 ^ p" and "p \<le> q"
  shows "drop_bit q (of_nat k OR flag :: u8) = drop_bit q flag"
  by (rule bit_word_eqI) (use bit_of_nat_u8 [OF assms(1)] assms(2) in \<open>fastforce simp: bit_drop_bit_eq bit_or_iff\<close>)

lemma decodeHeader_dispatch:
  assumes "span_wf (decodeBuffer hp)" and "span_rest (decodeBuffer hp) = vint_bytes flag p idx @ rest"
    and "prefix_flag flag p"
  shows "\<exists>b. (span_peek 1 (decodeBuffer hp) :: u8 cpp) = Inr b \<and> (\<forall>q\<ge>p. drop_bit q b = drop_bit q flag)"
proof -
  obtain b bs where b: "vint_bytes flag p idx = b # bs" by (cases "vint_bytes flag p idx") auto
  then have "span_rest (decodeBuffer hp) = b # bs @ rest" using assms(2) by simp
  from span_read_byte(5) [OF assms(1) this] vint_first_byte [OF assms(3) b] show ?thesis
    using drop_bit_first_byte by blast
qed

lemma decodeHeader_cases:
  assumes "span_wf (decodeBuffer hp)"
  shows "span_rest (decodeBuffer hp) = vint_bytes 0x80 7 idx @ rest \<Longrightarrow> decodeHeader hp headers = decodeIndexedHeader hp headers"
    and "span_rest (decodeBuffer hp) = vint_bytes 0x40 6 idx @ rest \<Longrightarrow> decodeHeader hp headers = decodeHeaderField 6 True False hp headers"
    and "span_rest (decodeBuffer hp) = vint_bytes 0x20 5 idx @ rest \<Longrightarrow> firstField hp \<Longrightarrow>
           decodeHeader hp headers = decodeTableSizeUpdate hp headers"
    and "span_rest (decodeBuffer hp) = vint_bytes 0x10 4 idx @ rest \<Longrightarrow> decodeHeader hp headers = decodeHeaderField 4 False True hp headers"
    and "span_rest (decodeBuffer hp) = vint_bytes 0 4 idx @ rest \<Longrightarrow> decodeHeader hp headers = decodeHeaderField 4 False False hp headers"
  using decodeHeader_dispatch [OF assms, of "0x80" 7 idx rest] decodeHeader_dispatch [OF assms, of "0x40" 6 idx rest]
    decodeHeader_dispatch [OF assms, of "0x20" 5 idx rest] decodeHeader_dispatch [OF assms, of "0x10" 4 idx rest]
    decodeHeader_dispatch [OF assms, of 0 4 idx rest]
  by (auto simp: decodeHeader_def)

section \<open>Encoder and decoder stay in step\<close>

definition plain :: "HpackTable \<Rightarrow> bool" where
  "plain t \<longleftrightarrow> (\<forall>h\<in>set (dyn t). \<not> sensitivity h)"

text \<open>The tables hold the same entries; nothing secret is in them; sizes are 32-bit settings.\<close>

definition tables_agree :: "Hpack \<Rightarrow> Hpack \<Rightarrow> bool" where
  "tables_agree e d \<longleftrightarrow> htable.agree (encodeTable e) (decodeTable d) \<and> plain (encodeTable e) \<and>
     maxSize (encodeTable e) < 2 ^ 32"

lemma set_fit: "set (fit m hs) \<subseteq> set hs"
  by (induction hs arbitrary: m) (auto split: if_splits)

lemma tables_agree_insert:
  assumes "tables_agree e d" and "\<not> sensitivity h"
  shows "tables_agree (e\<lparr>encodeTable := table_insert h (encodeTable e)\<rparr>) (d'\<lparr>decodeTable := table_insert h (decodeTable d)\<rparr>)"
proof -
  have wf: "table_wf (encodeTable e)" using assms(1) by (simp add: tables_agree_def htable.agree_def)
  have "plain (table_insert h (encodeTable e))"
    using assms set_fit [of "maxSize (encodeTable e)" "h # dyn (encodeTable e)"]
    by (auto simp: tables_agree_def plain_def table_insert_spec [OF wf])
  then show ?thesis
    using assms htable.agree_put by (simp add: tables_agree_def table_insert_spec(3) [OF wf])
qed

lemma agree_index_bound:
  assumes "tables_agree e d"
  shows "snd (table_find h (encodeTable e)) < 2 ^ 63"
proof -
  have wf: "table_wf (encodeTable e)" and m: "maxSize (encodeTable e) < 2 ^ 32"
    using assms by (simp_all add: tables_agree_def htable.agree_def)
  show ?thesis using table_find_bound [OF wf, of h] length_dyn_bound [OF wf] m by simp
qed

lemma agree_exact_field:
  assumes "tables_agree e d" and "table_find h (encodeTable e) = (True, i)"
  shows "table_at i (decodeTable d) = Some h"
proof -
  have wf: "table_wf (encodeTable e)" and ag: "htable.agree (encodeTable e) (decodeTable d)"
    using assms(1) by (simp_all add: tables_agree_def htable.agree_def)
  obtain f where f: "table_at i (decodeTable d) = Some f" "field_key f = field_key h"
    using htable.agree_exact [OF ag assms(2)] by blast
  have "f \<in> holds (decodeTable d)" using table_at_holds f(1) by blast
  then have "\<not> sensitivity f"
    using assms(1) static_plain by (auto simp: holds_def tables_agree_def plain_def htable.agree_def)
  then show ?thesis using f table_find_exact(2) [OF wf assms(2)] by (simp add: HeaderField.equality)
qed

text \<open>One header field: the bytes it appends, and the step of the decoder on them.\<close>

definition decodes_to :: "u8 list \<Rightarrow> HeaderField \<Rightarrow> Hpack \<Rightarrow> Hpack \<Rightarrow> bool" where
  "decodes_to bs h e' d \<longleftrightarrow> (\<forall>rest headers. span_wf (decodeBuffer d) \<longrightarrow> span_rest (decodeBuffer d) = bs @ rest \<longrightarrow>
     (\<exists>d'. decodeHeader d headers = Inr (True, d', headers @ [h]) \<and> decodeBuffer d' = adv (length bs) (decodeBuffer d) \<and>
           decodeTableLimit d' = decodeTableLimit d \<and> tables_agree e' d'))"

lemma decodes_to_literal:
  assumes disp: "\<And>rest headers. span_wf (decodeBuffer d) \<Longrightarrow> span_rest (decodeBuffer d) = vint_bytes flag p idx @ rest \<Longrightarrow>
      decodeHeader d headers = decodeHeaderField p indexed (sensitivity h) d headers"
    and flag: "prefix_flag flag p" and idx: "idx < 2 ^ 63"
    and name: "idx \<noteq> 0 \<Longrightarrow> \<exists>f. table_at idx (decodeTable d) = Some f \<and> hname f = hname h"
    and post: "\<And>b. tables_agree e' (if indexed then d\<lparr>decodeBuffer := b, decodeTable := table_insert h (decodeTable d)\<rparr>
                               else d\<lparr>decodeBuffer := b\<rparr>)"
  shows "decodes_to (literal_bytes flag p idx h) h e' d"
  unfolding decodes_to_def
proof (intro allI impI)
  fix rest headers
  assume wf: "span_wf (decodeBuffer d)" and rest: "span_rest (decodeBuffer d) = literal_bytes flag p idx h @ rest"
  have h: "\<lparr>hname = hname h, hvalue = hvalue h, sensitivity = sensitivity h\<rparr> = h" by simp
  let ?b = "adv (length (literal_bytes flag p idx h)) (decodeBuffer d)"
  let ?d = "if indexed then d\<lparr>decodeBuffer := ?b, decodeTable := table_insert h (decodeTable d)\<rparr> else d\<lparr>decodeBuffer := ?b\<rparr>"
  have "decodeHeader d headers = decodeHeaderField p indexed (sensitivity h) d headers"
    using rest by (intro disp [OF wf]) (simp add: literal_bytes_def)
  also have "\<dots> = Inr (True, ?d, headers @ [h])"
    using decodeHeaderField_bytes [OF wf rest flag idx name] by (simp add: Let_def h)
  finally show "\<exists>d'. decodeHeader d headers = Inr (True, d', headers @ [h]) \<and> decodeBuffer d' = ?b \<and>
      decodeTableLimit d' = decodeTableLimit d \<and> tables_agree e' d'"
    using post by (intro exI [of _ ?d]) simp
qed

lemma decodes_to_indexed:
  assumes "idx < 2 ^ 63" and "table_at idx (decodeTable d) = Some h" and "tables_agree e d"
  shows "decodes_to (vint_bytes 0x80 7 idx) h e d"
  using decodeHeader_cases(1) decodeIndexedHeader_bytes assms by (auto simp: decodes_to_def tables_agree_def)

definition appends :: "(u8 list \<Rightarrow> (u8 list \<times> Hpack) cpp) \<Rightarrow> u8 list \<Rightarrow> Hpack \<Rightarrow> bool" where
  "appends f bs e' \<longleftrightarrow> (\<forall>buffer. f buffer = Inr (buffer @ bs, e'))"

lemma encode_header_step:
  assumes "tables_agree e d"
  shows "\<exists>bs e'. appends (\<lambda>buffer. encode_header h (buffer, e)) bs e' \<and> bs \<noteq> [] \<and>
           encodeTableDirty e' = encodeTableDirty e \<and> decodes_to bs h e' d"
proof -
  obtain b idx where find: "table_find h (encodeTable e) = (b, idx)" by fastforce
  have idx: "idx < 2 ^ 63" using agree_index_bound [OF assms, of h] find by simp
  have ag: "htable.agree (encodeTable e) (decodeTable d)" using assms by (simp add: tables_agree_def)
  have name: "idx \<noteq> 0 \<Longrightarrow> \<exists>f. table_at idx (decodeTable d) = Some f \<and> hname f = hname h" if "\<not> b"
    using htable.agree_name [OF ag, of h idx] that find by simp
  have same: "tables_agree e (if False then x else d\<lparr>decodeBuffer := y\<rparr>)" for x y
    using assms by (simp add: tables_agree_def)
  note disp = decodeHeader_cases [of d]
  note simps = appends_def encode_header_def find encode_fields_bytes literal_bytes_def
  consider "sensitivity h" "\<not> b" | "\<not> sensitivity h" "b" | "\<not> sensitivity h" "\<not> b" "couldIndex h (encodeTable e)"
    | "\<not> sensitivity h" "\<not> b" "\<not> couldIndex h (encodeTable e)"
    using table_find_exact(2) [of "encodeTable e" h idx] find ag by (auto simp: htable.agree_def)
  then show ?thesis
  proof cases
    case 1
    have "decodes_to (literal_bytes 0x10 4 idx h) h e d"
      by (rule decodes_to_literal [where indexed = False, OF _ _ idx name same]) (use 1 disp(4) in auto)
    then show ?thesis using 1 by (intro exI [of _ "literal_bytes 0x10 4 idx h"] exI [of _ e]) (simp add: simps)
  next
    case 2
    have "decodes_to (vint_bytes 0x80 7 idx) h e d"
      using decodes_to_indexed [OF idx _ assms] agree_exact_field [OF assms] find 2 by simp
    then show ?thesis using 2 by (intro exI [of _ "vint_bytes 0x80 7 idx"] exI [of _ e]) (simp add: simps)
  next
    case 3
    let ?e = "e\<lparr>encodeTable := table_insert h (encodeTable e)\<rparr>"
    have "decodes_to (literal_bytes 0x40 6 idx h) h ?e d"
      by (rule decodes_to_literal [where indexed = True, OF _ _ idx name])
        (use 3 disp(2) tables_agree_insert [OF assms, of h] in auto)
    then show ?thesis using 3 by (intro exI [of _ "literal_bytes 0x40 6 idx h"] exI [of _ ?e]) (simp add: simps)
  next
    case 4
    have "decodes_to (literal_bytes 0 4 idx h) h e d"
      by (rule decodes_to_literal [where indexed = False, OF _ _ idx name same]) (use 4 disp(5) in auto)
    then show ?thesis using 4 by (intro exI [of _ "literal_bytes 0 4 idx h"] exI [of _ e]) (simp add: simps)
  qed
qed

lemma encode_header_appends:
  "\<exists>bs e'. appends (\<lambda>buffer. encode_header h (buffer, e)) bs e' \<and> encodeTableDirty e' = encodeTableDirty e \<and> encodeMinSize e' = encodeMinSize e"
proof -
  obtain b idx where find: "table_find h (encodeTable e) = (b, idx)" by fastforce
  show ?thesis
    by (cases "sensitivity h"; cases b; cases "couldIndex h (encodeTable e)")
      (auto simp: appends_def encode_header_def find encode_fields_bytes)
qed

lemma encode_headers_appends:
  "\<exists>bs e'. appends (\<lambda>buffer. encode_headers hs (buffer, e)) bs e' \<and> encodeTableDirty e' = encodeTableDirty e \<and> encodeMinSize e' = encodeMinSize e"
proof (induction hs arbitrary: e)
  case Nil
  show ?case by (auto simp: appends_def intro: exI [of _ "[]"])
next
  case (Cons h hs)
  obtain bs1 e1 where 1: "appends (\<lambda>buffer. encode_header h (buffer, e)) bs1 e1" "encodeTableDirty e1 = encodeTableDirty e"
    "encodeMinSize e1 = encodeMinSize e"
    using encode_header_appends by blast
  obtain bs2 e2 where 2: "appends (\<lambda>buffer. encode_headers hs (buffer, e1)) bs2 e2" "encodeTableDirty e2 = encodeTableDirty e1"
    "encodeMinSize e2 = encodeMinSize e1"
    using Cons.IH by blast
  show ?case
    using 1 2 by (intro exI [of _ "bs1 @ bs2"] exI [of _ e2]) (simp add: appends_def)
qed

lemma appends_inject: "appends f bs e \<Longrightarrow> appends f bs' e' \<Longrightarrow> bs = bs' \<and> e = e'"
  unfolding appends_def by (metis append_Nil Inr_inject prod.inject)

lemma decode_loop_step:
  assumes "span_wf (decodeBuffer d)" and "span_rest (decodeBuffer d) = bs @ rest" and "bs \<noteq> []"
    and "decodeHeader d headers = Inr (True, d1, headers1)" and "decodeBuffer d1 = adv (length bs) (decodeBuffer d)"
  shows "decode_loop d headers = decode_loop (if length headers < length headers1 then d1\<lparr>firstField := False\<rparr> else d1) headers1"
    and "span_wf (decodeBuffer d1)" and "span_rest (decodeBuffer d1) = rest"
proof -
  show s: "span_wf (decodeBuffer d1)" "span_rest (decodeBuffer d1) = rest"
    using adv_rest [OF assms(1,2) refl] assms(5) by simp_all
  have "\<not> span_empty (decodeBuffer d)" using assms(2,3) by (simp add: span_empty_rest)
  moreover have "length rest < length (span_rest (decodeBuffer d))" using assms(2,3) by simp
  ultimately show "decode_loop d headers = decode_loop (if length headers < length headers1 then d1\<lparr>firstField := False\<rparr> else d1) headers1"
    using assms(4) s(2) by (subst decode_loop.simps) (simp add: Let_def)
qed

lemma decode_loop_end: "span_rest (decodeBuffer d) = [] \<Longrightarrow> decode_loop d headers = Inr (True, d, headers)"
  by (subst decode_loop.simps) (simp add: span_empty_rest)

lemma decode_loop_block:
  assumes "tables_agree e d" and "appends (\<lambda>buffer. encode_headers hs (buffer, e)) bs e'"
    and "span_wf (decodeBuffer d)" and "span_rest (decodeBuffer d) = bs"
  shows "\<exists>d'. decode_loop d headers = Inr (True, d', headers @ hs) \<and> tables_agree e' d' \<and>
              decodeTableLimit d' = decodeTableLimit d"
  using assms
proof (induction hs arbitrary: e d bs headers)
  case Nil
  have "bs = []" "e' = e" using Nil.prems(2) by (auto simp: appends_def)
  then show ?case using Nil.prems decode_loop_end by simp
next
  case (Cons h hs)
  obtain bs1 e1 where 1: "appends (\<lambda>buffer. encode_header h (buffer, e)) bs1 e1" "bs1 \<noteq> []" "decodes_to bs1 h e1 d"
    using encode_header_step [OF Cons.prems(1)] by blast
  obtain bs2 e2 where 2: "appends (\<lambda>buffer. encode_headers hs (buffer, e1)) bs2 e2"
    using encode_headers_appends by blast
  have "appends (\<lambda>buffer. encode_headers (h # hs) (buffer, e)) (bs1 @ bs2) e2"
    using 1(1) 2 by (simp add: appends_def)
  then have eq: "bs = bs1 @ bs2" "e2 = e'" using Cons.prems(2) appends_inject by blast+
  have rest: "span_rest (decodeBuffer d) = bs1 @ bs2" using Cons.prems(4) eq by simp
  obtain d1 where d1: "decodeHeader d headers = Inr (True, d1, headers @ [h])" "decodeBuffer d1 = adv (length bs1) (decodeBuffer d)"
    "decodeTableLimit d1 = decodeTableLimit d" "tables_agree e1 d1"
    using 1(3) Cons.prems(3) rest unfolding decodes_to_def by blast
  note step = decode_loop_step [OF Cons.prems(3) rest 1(2) d1(1,2)]
  let ?d = "d1\<lparr>firstField := False\<rparr>"
  have "tables_agree e1 ?d" using d1(4) by (simp add: tables_agree_def)
  from Cons.IH [OF this 2 [unfolded eq], where headers = "headers @ [h]"] step d1(3) show ?case by simp
qed

section \<open>Size updates\<close>

text \<open>
  The contract between an encoder and the peer's decoder between two header blocks. A size
  change is pending until the next block announces it.
\<close>

definition in_step :: "Hpack \<Rightarrow> Hpack \<Rightarrow> bool" where
  "in_step e d \<longleftrightarrow>
     table_wf (encodeTable e) \<and> table_wf (decodeTable d) \<and> plain (encodeTable e) \<and> plain (decodeTable d) \<and>
     maxSize (encodeTable e) < 2 ^ 32 \<and>
     (if encodeTableDirty e
      then encodeMinSize e \<le> maxSize (encodeTable e) \<and> maxSize (encodeTable e) \<le> decodeTableLimit d \<and>
           dyn (encodeTable e) = fit (encodeMinSize e) (dyn (decodeTable d))
      else encodeMinSize e = SIZE_MAX \<and> dyn (encodeTable e) = dyn (decodeTable d) \<and>
           maxSize (encodeTable e) = maxSize (decodeTable d))"

lemma fit_fit: "fit a (fit b hs) = fit (min a b) hs"
  by (induction hs arbitrary: a b) (auto simp: min_def)

lemma fit_min_total: "total_size hs \<le> b \<Longrightarrow> fit (min a b) hs = fit a hs"
  using fit_all [of hs b] fit_fit [of a b hs] by simp

lemma in_step_setEncodeTableSize:
  assumes "in_step e d" and "sz < 2 ^ 32" and "sz \<le> decodeTableLimit d"
  shows "in_step (setEncodeTableSize sz e) d"
proof -
  have wf: "table_wf (encodeTable e)" and wd: "table_wf (decodeTable d)" using assms(1) by (simp_all add: in_step_def)
  note spec = table_setMaxSize_spec [OF wf, of sz]
  have "plain (table_setMaxSize sz (encodeTable e))"
    using assms(1) set_fit [of sz "dyn (encodeTable e)"] by (auto simp: in_step_def plain_def spec)
  moreover have "min sz (encodeMinSize e) \<le> sz" by simp
  moreover have "fit sz (dyn (encodeTable e)) = fit (min sz (encodeMinSize e)) (dyn (decodeTable d))"
  proof (cases "encodeTableDirty e")
    case True
    then show ?thesis using assms(1) by (simp add: in_step_def fit_fit)
  next
    case False
    then have "min sz (encodeMinSize e) = sz" using assms(1,2) by (simp add: in_step_def SIZE_MAX_def)
    then show ?thesis using assms(1) False by (simp add: in_step_def)
  qed
  ultimately show ?thesis
    using assms spec wd by (simp add: in_step_def setEncodeTableSize_def)
qed

lemma in_step_new: "in_step Hpack_new Hpack_new"
  by (simp add: in_step_def Hpack_new_def HpackTable_new_wf plain_def)
    (simp add: HpackTable_new_def INIT_MAX_TABLE_SIZE_def)

lemma decode_loop_update:
  assumes "span_wf (decodeBuffer d)" and "span_rest (decodeBuffer d) = vint_bytes 0x20 5 sz @ rest"
    and "firstField d" and "sz < 2 ^ 63" and "sz \<le> decodeTableLimit d"
  shows "\<exists>d1. decode_loop d headers = decode_loop d1 headers \<and> span_wf (decodeBuffer d1) \<and>
    span_rest (decodeBuffer d1) = rest \<and> firstField d1 \<and> decodeTableLimit d1 = decodeTableLimit d \<and>
    decodeTable d1 = table_setMaxSize sz (decodeTable d)"
proof -
  let ?d = "d\<lparr>decodeBuffer := adv (length (vint_bytes 0x20 5 sz)) (decodeBuffer d),
              decodeTable := table_setMaxSize sz (decodeTable d)\<rparr>"
  have "decodeHeader d headers = Inr (True, ?d, headers)"
    using decodeHeader_cases(3) [OF assms(1,2,3)] decodeTableSizeUpdate_bytes [OF assms(1,2,4,5)] by simp
  from decode_loop_step [OF assms(1,2) vint_bytes_ne this] show ?thesis
    using assms(3) by (intro exI [of _ ?d]) simp
qed

lemma decode_loop_updates:
  assumes "in_step e d" and "encode_updates e = Inr (bs, e1)" and "firstField d"
    and "span_wf (decodeBuffer d)" and "span_rest (decodeBuffer d) = bs @ rest"
  shows "\<exists>d1. decode_loop d headers = decode_loop d1 headers \<and> span_wf (decodeBuffer d1) \<and>
    span_rest (decodeBuffer d1) = rest \<and> decodeTableLimit d1 = decodeTableLimit d \<and> tables_agree e1 d1 \<and>
    \<not> encodeTableDirty e1 \<and> encodeMinSize e1 = SIZE_MAX"
proof (cases "encodeTableDirty e")
  case False
  then have "bs = []" "e1 = e" using assms(2) by (auto simp: encode_updates_def)
  then show ?thesis
    using assms False by (intro exI [of _ d]) (simp add: in_step_def tables_agree_def htable.agree_def)
next
  case True
  let ?min = "encodeMinSize e" and ?max = "maxSize (encodeTable e)"
  define first where "first = (if ?min < ?max then vint_bytes 0x20 5 ?min else [])"
  have bs: "bs = first @ vint_bytes 0x20 5 ?max" and e1: "e1 = e\<lparr>encodeTableDirty := False, encodeMinSize := SIZE_MAX\<rparr>"
    using assms(2) True by (auto simp: encode_updates_def encode_fields_bytes first_def split: if_splits)
  have dirty: "?min \<le> ?max" "?max \<le> decodeTableLimit d" "?max < 2 ^ 32"
    "dyn (encodeTable e) = fit ?min (dyn (decodeTable d))" and wf: "table_wf (encodeTable e)" "table_wf (decodeTable d)"
    using assms(1) True by (simp_all add: in_step_def)
  obtain d0 where d0: "decode_loop d headers = decode_loop d0 headers" "span_wf (decodeBuffer d0)"
    "span_rest (decodeBuffer d0) = vint_bytes 0x20 5 ?max @ rest" "firstField d0" "decodeTableLimit d0 = decodeTableLimit d"
    "table_wf (decodeTable d0)" "fit ?max (dyn (decodeTable d0)) = fit ?min (dyn (decodeTable d))"
  proof (cases "?min < ?max")
    case True
    then show ?thesis
      using decode_loop_update [OF assms(4), of ?min "vint_bytes 0x20 5 ?max @ rest" headers] assms(3,5) bs dirty
        table_setMaxSize_spec [OF wf(2), of ?min] that by (auto simp: first_def fit_fit)
  next
    case False
    then show ?thesis using that [of d] assms(3-5) bs dirty wf(2) by (simp add: first_def)
  qed
  obtain d1 where d1: "decode_loop d0 headers = decode_loop d1 headers" "span_wf (decodeBuffer d1)"
    "span_rest (decodeBuffer d1) = rest" "decodeTableLimit d1 = decodeTableLimit d0"
    "decodeTable d1 = table_setMaxSize ?max (decodeTable d0)"
    using decode_loop_update [OF d0(2,3,4), of headers] dirty d0(5) by auto
  have "tables_agree e1 d1"
    using assms(1) d1(5) table_setMaxSize_spec [OF d0(6), of ?max] d0(7) dirty wf
    by (simp add: tables_agree_def htable.agree_def e1 in_step_def)
  then show ?thesis using d0 d1 e1 by (intro exI [of _ d1]) simp
qed

lemma encode_updates_total: "\<exists>bs e1. encode_updates e = Inr (bs, e1) \<and> encodeTable e1 = encodeTable e"
  by (simp add: encode_updates_def encode_fields_bytes)

lemma hpack_encode_total: "\<exists>bs e'. hpack_encode hs e = Inr (bs, e')"
proof -
  obtain bs e1 where "encode_updates e = Inr (bs, e1)" using encode_updates_total by blast
  then show ?thesis using encode_headers_appends [of hs e1] by (auto simp: hpack_encode_def appends_def)
qed

lemma hpack_round_trip:
  assumes "in_step e d" and "hpack_encode hs e = Inr (bs, e')" and "length bs < 2 ^ 32"
  shows "\<exists>d'. hpack_decode (span_of bs) headers d = Inr (True, d', headers @ hs) \<and> in_step e' d' \<and>
              decodeTableLimit d' = decodeTableLimit d"
proof -
  obtain bs0 e1 where up: "encode_updates e = Inr (bs0, e1)" using encode_updates_total by blast
  obtain bs1 e2 where enc: "appends (\<lambda>buffer. encode_headers hs (buffer, e1)) bs1 e2"
    "encodeTableDirty e2 = encodeTableDirty e1" and min: "encodeMinSize e2 = encodeMinSize e1"
    using encode_headers_appends by blast
  have bs: "bs = bs0 @ bs1" "e' = e2" using assms(2) up enc(1) by (simp_all add: hpack_encode_def appends_def)
  let ?d = "d\<lparr>firstField := True, decodeBuffer := span_of bs\<rparr>"
  have "in_step e ?d" using assms(1) by (simp add: in_step_def)
  from decode_loop_updates [OF this up] bs(1) assms(3) obtain d1 where
    d1: "decode_loop ?d headers = decode_loop d1 headers" "span_wf (decodeBuffer d1)" "span_rest (decodeBuffer d1) = bs1"
      "decodeTableLimit d1 = decodeTableLimit d" "tables_agree e1 d1" "\<not> encodeTableDirty e1" "encodeMinSize e1 = SIZE_MAX"
    by fastforce
  obtain d2 where d2: "decode_loop d1 headers = Inr (True, d2, headers @ hs)" "tables_agree e2 d2"
    "decodeTableLimit d2 = decodeTableLimit d1"
    using decode_loop_block [OF d1(5) enc(1) d1(2,3)] by blast
  have step: "in_step e2 d2"
    using d2(2) d1(6,7) enc(2) min by (auto simp: in_step_def tables_agree_def htable.agree_def plain_def)
  show ?thesis
  proof (cases "bs = []")
    case False
    then have "hpack_decode (span_of bs) headers d = decode_loop ?d headers"
      by (simp add: hpack_decode_def span_empty_rest)
    then show ?thesis using d1(1,4) d2(1,3) step bs(2) by auto
  next
    case True
    have "decode_loop ?d headers = Inr (True, ?d, headers)" using True by (intro decode_loop_end) simp
    then have "hs = []" "d2 = ?d" using d1(1) d2(1) by auto
    moreover have "hpack_decode (span_of bs) headers d = Inr (True, d\<lparr>firstField := True\<rparr>, headers)"
      using True by (simp add: hpack_decode_def span_empty_rest)
    moreover have "in_step e2 (d\<lparr>firstField := True\<rparr>)"
      using step \<open>d2 = ?d\<close> by (auto simp: in_step_def split: if_splits)
    ultimately show ?thesis using bs(2) by simp
  qed
qed

section \<open>Any input is decoded or refused\<close>

definition decoder_ok :: "Hpack \<Rightarrow> bool" where
  "decoder_ok d \<longleftrightarrow> table_wf (decodeTable d) \<and> plain (decodeTable d) \<and>
     maxSize (decodeTable d) \<le> decodeTableLimit d"

text \<open>How one field changes the decoder: the encoder's half stays, the span moves on.\<close>

definition decoded_from :: "Hpack \<Rightarrow> Hpack \<Rightarrow> bool" where
  "decoded_from d d' \<longleftrightarrow> decoder_ok d' \<and> decodeTableLimit d' = decodeTableLimit d \<and>
     encodeTable d' = encodeTable d \<and> encodeTableDirty d' = encodeTableDirty d \<and> encodeMinSize d' = encodeMinSize d"

lemma decoded_from_buffer: "decoder_ok d \<Longrightarrow> decoded_from d (d\<lparr>decodeBuffer := b\<rparr>)"
  by (simp add: decoded_from_def decoder_ok_def)

lemma decoder_ok_insert:
  assumes "decoder_ok d" and "\<not> sensitivity h"
  shows "decoded_from d (d\<lparr>decodeBuffer := b, decodeTable := table_insert h (decodeTable d)\<rparr>)"
proof -
  have wf: "table_wf (decodeTable d)" using assms(1) by (simp add: decoder_ok_def)
  show ?thesis
    using assms set_fit [of "maxSize (decodeTable d)" "h # dyn (decodeTable d)"]
    by (auto simp: decoded_from_def decoder_ok_def plain_def table_insert_spec [OF wf])
qed

lemma decoder_ok_resize:
  assumes "decoder_ok d" and "sz \<le> decodeTableLimit d"
  shows "decoded_from d (d\<lparr>decodeBuffer := b, decodeTable := table_setMaxSize sz (decodeTable d)\<rparr>)"
proof -
  have wf: "table_wf (decodeTable d)" using assms(1) by (simp add: decoder_ok_def)
  show ?thesis
    using assms set_fit [of sz "dyn (decodeTable d)"]
    by (auto simp: decoded_from_def decoder_ok_def plain_def table_setMaxSize_spec [OF wf])
qed

definition header_step :: "Hpack \<Rightarrow> HeaderField list \<Rightarrow> decode_result \<Rightarrow> bool" where
  "header_step d headers r \<longleftrightarrow> (\<exists>ok d' hs n. r = Inr (ok, d', headers @ hs) \<and> decoded_from d d' \<and>
     decodeBuffer d' = adv n (decodeBuffer d) \<and> n \<le> length (span_rest (decodeBuffer d)) \<and> (ok \<longrightarrow> 0 < n))"

lemma header_stepI:
  "decoded_from d d' \<Longrightarrow> decodeBuffer d' = adv n (decodeBuffer d) \<Longrightarrow> n \<le> length (span_rest (decodeBuffer d)) \<Longrightarrow>
   (ok \<Longrightarrow> 0 < n) \<Longrightarrow> header_step d headers (Inr (ok, d', headers @ hs))"
  unfolding header_step_def by blast

lemmas header_step_fail = header_stepI [where ok = False and hs = "[]", simplified]

lemma fail_here: "decoder_ok d \<Longrightarrow> header_step d headers (Inr (False, d, headers))"
  by (rule header_step_fail [where n = 0]) (simp_all add: decoded_from_def)

lemma decodeVInt_cases:
  assumes "span_wf s"
  obtains "decodeVInt s p = Inr None"
  | v n where "decodeVInt s p = Inr (Some (v, adv n s))" "0 < n" "n \<le> length (span_rest s)" "span_wf (adv n s)" "v < 2 ^ 64"
proof -
  obtain r where r: "decodeVInt s p = Inr r" "vint_read s r" using decodeVInt_adv [OF assms] by blast
  show thesis
  proof (cases r)
    case None
    then show thesis using that(1) r(1) by simp
  next
    case (Some w)
    then obtain v n where "w = (v, adv n s)" "0 < n" "n \<le> length (span_rest s)" "v < 2 ^ 64"
      using r(2) by (auto simp: vint_read_def)
    then show thesis using that(2) r(1) Some span_wf_advance [OF assms] by simp
  qed
qed

lemma decodeIndexedHeader_step:
  assumes "decoder_ok d" and "span_wf (decodeBuffer d)"
  shows "header_step d headers (decodeIndexedHeader d headers)"
  using assms(2)
proof (cases rule: decodeVInt_cases [where p = 7])
  case 1
  then show ?thesis using fail_here [OF assms(1)] by (simp add: decodeIndexedHeader_def)
next
  case (2 v n)
  then show ?thesis
    using header_stepI [OF decoded_from_buffer [OF assms(1)], of "adv n (decodeBuffer d)" n]
      header_step_fail [OF decoded_from_buffer [OF assms(1)], of "adv n (decodeBuffer d)" n]
    by (simp add: decodeIndexedHeader_def Let_def split: option.split)
qed

lemma decodeTableSizeUpdate_step:
  assumes "decoder_ok d" and "span_wf (decodeBuffer d)"
  shows "header_step d headers (decodeTableSizeUpdate d headers)"
  using assms(2)
proof (cases rule: decodeVInt_cases [where p = 5])
  case 1
  then show ?thesis using fail_here [OF assms(1)] by (simp add: decodeTableSizeUpdate_def)
next
  case (2 v n)
  then show ?thesis
    using header_stepI [OF decoder_ok_resize [OF assms(1)], of v "adv n (decodeBuffer d)" n True headers "[]"]
      header_step_fail [OF decoded_from_buffer [OF assms(1)], of "adv n (decodeBuffer d)" n]
    by (simp add: decodeTableSizeUpdate_def Let_def)
qed

lemma decode_name_adv:
  assumes "span_wf s"
  shows "\<exists>name n. decode_name idx s t = Inr (name, adv n s) \<and> n \<le> length (span_rest s)"
proof (cases "idx = 0")
  case True
  then show ?thesis using decodeString_adv [OF assms] by (auto simp: decode_name_def)
next
  case False
  then show ?thesis by (intro exI exI [of _ 0]) (simp add: decode_name_def)
qed

lemma decodeHeaderField_step:
  assumes "decoder_ok d" and "span_wf (decodeBuffer d)" and "indexed \<Longrightarrow> \<not> sens"
  shows "header_step d headers (decodeHeaderField p indexed sens d headers)"
  using assms(2)
proof (cases rule: decodeVInt_cases [where p = p])
  case 1
  then show ?thesis using fail_here [OF assms(1)] by (simp add: decodeHeaderField_def)
next
  case (2 idx n)
  let ?s = "decodeBuffer d"
  note fail = header_step_fail [OF decoded_from_buffer [OF assms(1)]]
  obtain name m where name: "decode_name idx (adv n ?s) (decodeTable d) = Inr (name, adv m (adv n ?s))" "m \<le> length (span_rest (adv n ?s))"
    using decode_name_adv [OF 2(4)] by blast
  have m: "n + m \<le> length (span_rest ?s)" using 2(3) name(2) by (simp add: span_rest_def)
  show ?thesis
  proof (cases name)
    case None
    then show ?thesis
      using 2(1) name(1) fail [of "adv (n + m) ?s" "n + m"] m by (simp add: decodeHeaderField_def add.assoc)
  next
    case (Some nm)
    have wf: "span_wf (adv (n + m) ?s)" using span_wf_advance [OF assms(2) m] .
    obtain val k where val: "decodeString (adv (n + m) ?s) = Inr (val, adv k (adv (n + m) ?s))" "k \<le> length (span_rest (adv (n + m) ?s))"
      using decodeString_adv [OF wf] by blast
    have k: "n + m + k \<le> length (span_rest ?s)" using m val(2) by (simp add: span_rest_def)
    let ?b = "adv (n + m + k) ?s"
    have base: "decodeHeaderField p indexed sens d headers = (case val of
        None \<Rightarrow> Inr (False, d\<lparr>decodeBuffer := ?b\<rparr>, headers)
      | Some v \<Rightarrow> let h = \<lparr>hname = nm, hvalue = v, sensitivity = sens\<rparr> in
          Inr (True, if indexed then d\<lparr>decodeBuffer := ?b, decodeTable := table_insert h (decodeTable d)\<rparr> else d\<lparr>decodeBuffer := ?b\<rparr>, headers @ [h]))"
      using 2(1) name(1) Some val(1) by (simp add: decodeHeaderField_def Let_def add.assoc split: option.split)
    show ?thesis
      using fail [of ?b "n + m + k"] k 2(2) assms(3)
        header_stepI [OF decoded_from_buffer [OF assms(1)], of ?b "n + m + k" True headers]
        header_stepI [OF decoder_ok_insert [OF assms(1)], of _ ?b "n + m + k" True headers]
      unfolding base by (cases val; cases indexed) (simp_all add: Let_def)
  qed
qed

lemma decodeHeader_step:
  assumes "decoder_ok d" and "span_wf (decodeBuffer d)" and "span_rest (decodeBuffer d) \<noteq> []"
  shows "header_step d headers (decodeHeader d headers)"
proof -
  obtain b bs where b: "span_rest (decodeBuffer d) = b # bs" using assms(3) by (cases "span_rest (decodeBuffer d)") auto
  show ?thesis
    using span_read_byte(5) [OF assms(2) b] decodeIndexedHeader_step [OF assms(1,2)] decodeTableSizeUpdate_step [OF assms(1,2)]
      decodeHeaderField_step [OF assms(1,2)] fail_here [OF assms(1)]
    by (simp add: decodeHeader_def)
qed

lemma decode_loop_total:
  assumes "decoder_ok d" and "span_wf (decodeBuffer d)"
  shows "\<exists>ok d' hs. decode_loop d headers = Inr (ok, d', headers @ hs) \<and> decoded_from d d'"
  using assms
proof (induction "length (span_rest (decodeBuffer d))" arbitrary: d headers rule: less_induct)
  case less
  show ?case
  proof (cases "span_rest (decodeBuffer d) = []")
    case True
    then have "decode_loop d headers = Inr (True, d, headers @ [])" by (simp add: decode_loop_end)
    moreover have "decoded_from d d" using less.prems by (simp add: decoded_from_def)
    ultimately show ?thesis by blast
  next
    case False
    obtain ok d1 hs n where d1: "decodeHeader d headers = Inr (ok, d1, headers @ hs)" "decoded_from d d1"
      "decodeBuffer d1 = adv n (decodeBuffer d)" "n \<le> length (span_rest (decodeBuffer d))" "ok \<longrightarrow> 0 < n"
      using decodeHeader_step [OF less.prems False, of headers] unfolding header_step_def by blast
    have ne: "\<not> span_empty (decodeBuffer d)" using False by (simp add: span_empty_rest)
    show ?thesis
    proof (cases ok)
      case False
      then have "decode_loop d headers = Inr (False, d1, headers @ hs)"
        using d1(1) ne by (subst decode_loop.simps) simp
      then show ?thesis using d1(2) by blast
    next
      case True
      define d2 where "d2 = (if 0 < length hs then d1\<lparr>firstField := False\<rparr> else d1)"
      have d2: "decoded_from d d2" "decodeBuffer d2 = adv n (decodeBuffer d)"
        using d1(2,3) by (auto simp: d2_def decoded_from_def decoder_ok_def)
      have "span_wf (decodeBuffer d2)" using span_wf_advance [OF less.prems(2) d1(4)] d2(2) by simp
      moreover have lt: "length (span_rest (decodeBuffer d2)) < length (span_rest (decodeBuffer d))"
        using d1(4,5) True d2(2) by (simp add: span_rest_def) linarith?
      moreover have "decoder_ok d2" using d2(1) by (simp add: decoded_from_def)
      ultimately obtain ok' d' hs' where "decode_loop d2 (headers @ hs) = Inr (ok', d', (headers @ hs) @ hs')" "decoded_from d2 d'"
        using less.hyps by blast
      moreover have "decode_loop d headers = decode_loop d2 (headers @ hs)"
        using d1(1) ne True lt by (subst decode_loop.simps) (auto simp: Let_def d2_def)
      ultimately show ?thesis using d2(1) by (auto simp: decoded_from_def)
    qed
  qed
qed

lemma hpack_decode_total:
  assumes "decoder_ok d" and "span_wf data"
  shows "\<exists>ok d' hs. hpack_decode data headers d = Inr (ok, d', headers @ hs) \<and> decoded_from d d'"
proof (cases "span_empty data")
  case True
  have "decoded_from d (d\<lparr>firstField := True\<rparr>)" using assms(1) by (simp add: decoded_from_def decoder_ok_def)
  moreover have "hpack_decode data headers d = Inr (True, d\<lparr>firstField := True\<rparr>, headers @ [])"
    using True by (simp add: hpack_decode_def)
  ultimately show ?thesis by blast
next
  case False
  let ?d = "d\<lparr>firstField := True, decodeBuffer := data\<rparr>"
  have "decoder_ok ?d" using assms(1) by (simp add: decoder_ok_def)
  then obtain ok d' hs where "decode_loop ?d headers = Inr (ok, d', headers @ hs)" "decoded_from ?d d'"
    using decode_loop_total [of ?d headers] assms(2) by auto
  then show ?thesis using False by (simp add: hpack_decode_def decoded_from_def)
qed

lemma decoder_ok_new: "decoder_ok Hpack_new"
  by (simp add: decoder_ok_def Hpack_new_def HpackTable_new_wf plain_def) (simp add: HpackTable_new_def)

end
