(* ===== verification/Protocol.thy ===== *)
theory Protocol
  imports Streams Hpack
begin

text \<open>
  The connection state machine: class \<open>Http2Protocol\<close> of include/chttp2/http2_protocol.hpp and
  src/http2_protocol.cpp.

  The object is the record \<open>Http2Protocol\<close>; every member function is a definition that takes
  the object and returns it changed together with the \<open>ProtocolStepResult\<close>. A \<open>Stream*\<close> is
  the id of an entry of \<open>streams\<close>; \<open>find_stream\<close>, \<open>put_stream\<close> and \<open>erase_stream\<close> follow
  it. \<open>streams\<close> is the list of entries of the \<open>unordered_map\<close> in traversal order; erasing
  keeps the order of the others, and inserting may change it, which \<open>submitRequest\<close> takes as
  its argument \<open>order\<close>.
\<close>

section \<open>State\<close>

record Http2Protocol =
  frameCodec :: FrameCodec
  streams :: "(StreamId \<times> Stream) list"
  maxConcurrentStreams :: u32
  encodeHeaderTableSize :: u32
  decodeHeaderTableSize :: u32
  maxFrameSize :: u32
  localMaxFrameSize :: u32
  initialWindowSize :: u32
  maxHeaderListSize :: u32
  enablePush :: bool
  nextStreamId :: StreamId
  lastPeerStreamId :: StreamId
  started :: bool
  closed :: bool
  sentConnectionPreface :: bool
  sentLocalSettings :: bool
  gotPeerSettings :: bool
  sentGoaway :: bool
  receivedGoaway :: bool
  transportClosed :: bool
  expectingContinuation :: bool
  continuationStreamId :: StreamId
  connectionErrorCode :: ErrorCode
  connectionDebugData :: string
  pingCounter :: u64
  connectionInflow :: InFlow
  connectionOutFlow :: OutFlow
  hpack :: Hpack
  ghostHeaderBlock :: "u8 list"

definition find_stream :: "StreamId \<Rightarrow> Http2Protocol \<Rightarrow> Stream option" where
  "find_stream sid p = map_of (streams p) sid"

definition put_stream :: "StreamId \<Rightarrow> Stream \<Rightarrow> Http2Protocol \<Rightarrow> Http2Protocol" where
  "put_stream sid s p = p\<lparr>streams := map (\<lambda>e. if fst e = sid then (sid, s) else e) (streams p)\<rparr>"

definition erase_stream :: "StreamId \<Rightarrow> Http2Protocol \<Rightarrow> Http2Protocol" where
  "erase_stream sid p = p\<lparr>streams := filter (\<lambda>e. fst e \<noteq> sid) (streams p)\<rparr>"

text \<open>\<open>streams[sid] = s\<close>\<close>

definition insert_stream ::
    "((StreamId \<times> Stream) list \<Rightarrow> (StreamId \<times> Stream) list) \<Rightarrow> StreamId \<Rightarrow> Stream \<Rightarrow>
     Http2Protocol \<Rightarrow> Http2Protocol" where
  "insert_stream order sid s p =
     (if find_stream sid p = None then p\<lparr>streams := order ((sid, s) # streams p)\<rparr>
      else put_stream sid s p)"

section \<open>Lifecycle\<close>

definition Http2Protocol_default :: Http2Protocol where
  "Http2Protocol_default =
     \<lparr>frameCodec = FrameCodec_clear [], streams = [],
      maxConcurrentStreams = defaultMaxConcurrentStreams,
      encodeHeaderTableSize = defaultHeaderTableSize,
      decodeHeaderTableSize = defaultHeaderTableSize,
      maxFrameSize = defaultMaxFrameSize, localMaxFrameSize = defaultMaxFrameSize,
      initialWindowSize = defaultInitialWindowSize,
      maxHeaderListSize = defaultMaxHeaderListSize, enablePush = defaultEnablePush,
      nextStreamId = 1, lastPeerStreamId = 0, started = False, closed = False,
      sentConnectionPreface = False, sentLocalSettings = False, gotPeerSettings = False,
      sentGoaway = False, receivedGoaway = False, transportClosed = False,
      expectingContinuation = False, continuationStreamId = 0,
      connectionErrorCode = EC_NO_ERROR, connectionDebugData = [], pingCounter = 0,
      connectionInflow = InFlow_init (sint defaultInitialWindowSize) InFlow_zero,
      connectionOutFlow = snd (OutFlow_add (sint defaultInitialWindowSize) OutFlow_zero),
      hpack = setEncodeTableSize (unat defaultHeaderTableSize)
                (setDecodeTableLimit (unat defaultHeaderTableSize) (Hpack_reset Hpack_new)),
      ghostHeaderBlock = []\<rparr>"

text \<open>\<open>reset()\<close> assigns every member but the ping counter and the ghost header block.\<close>

definition Http2Protocol_reset :: "Http2Protocol \<Rightarrow> Http2Protocol" where
  "Http2Protocol_reset p =
     Http2Protocol_default\<lparr>pingCounter := pingCounter p, ghostHeaderBlock := ghostHeaderBlock p\<rparr>"

definition Http2Protocol_new :: "ClientConfig \<Rightarrow> Http2Protocol" where
  "Http2Protocol_new config =
     (let p = Http2Protocol_default in
      p\<lparr>maxConcurrentStreams := cfg_maxConcurrentStreams config,
        decodeHeaderTableSize := cfg_headerTableSize config,
        localMaxFrameSize := cfg_maxFrameSize config,
        initialWindowSize := cfg_initialWindowSize config,
        maxHeaderListSize := cfg_maxHeaderListSize config,
        hpack := setDecodeTableLimit (unat (cfg_headerTableSize config)) (hpack p),
        connectionInflow := InFlow_init (sint (cfg_initialWindowSize config)) (connectionInflow p)\<rparr>)"

definition canSubmitRequests :: "Http2Protocol \<Rightarrow> bool" where
  "canSubmitRequests p \<longleftrightarrow> started p \<and> \<not> closed p \<and> \<not> sentGoaway p \<and> \<not> receivedGoaway p"

section \<open>Frame builders\<close>

definition buildLocalSettingsFrame :: "Http2Protocol \<Rightarrow> SettingFrame" where
  "buildLocalSettingsFrame p =
     (let settings =
        [(sp_value SP_MAX_CONCURRENT_STREAMS, maxConcurrentStreams p),
         (sp_value SP_HEADER_TABLE_SIZE, decodeHeaderTableSize p),
         (sp_value SP_ENABLE_PUSH, if enablePush p then 1 else 0),
         (sp_value SP_MAX_FRAME_SIZE, localMaxFrameSize p),
         (sp_value SP_INITIAL_WINDOW_SIZE, initialWindowSize p)]
        @ (if 0 < maxHeaderListSize p
           then [(sp_value SP_MAX_HEADER_LIST_SIZE, maxHeaderListSize p)] else [])
      in \<lparr>sf_header = (FrameHeader_new FT_SETTINGS 0)\<lparr>payloadLength := of_nat (length settings * 6)\<rparr>,
          sf_settings = settings\<rparr>)"

definition buildGoAwayFrame :: "ErrorCode \<Rightarrow> string \<Rightarrow> Http2Protocol \<Rightarrow> GoAwayFrame" where
  "buildGoAwayFrame errorCode debugData p =
     \<lparr>ga_header = (FrameHeader_new FT_GOAWAY 0)\<lparr>payloadLength := of_nat (8 + length debugData)\<rparr>,
      ga_lastStreamId = lastPeerStreamId p, ga_errorCode = ec_value errorCode,
      ga_data = bytes_of_string debugData\<rparr>"

definition buildRstStreamFrame :: "StreamId \<Rightarrow> ErrorCode \<Rightarrow> RstStreamFrame" where
  "buildRstStreamFrame sid errorCode =
     \<lparr>rst_header = (FrameHeader_new FT_RST_STREAM sid)\<lparr>payloadLength := 4\<rparr>,
      rst_errorCode = ec_value errorCode\<rparr>"

definition buildWindowUpdateFrame :: "StreamId \<Rightarrow> u32 \<Rightarrow> WindowUpdateFrame" where
  "buildWindowUpdateFrame sid increment =
     \<lparr>wu_header = (FrameHeader_new FT_WINDOW_UPDATE sid)\<lparr>payloadLength := 4\<rparr>,
      wu_windowSizeIncrement = increment\<rparr>"

section \<open>Connection and stream errors\<close>

definition failStream ::
    "StreamId \<Rightarrow> ErrorCode \<Rightarrow> bool \<Rightarrow> Http2Protocol \<Rightarrow> Http2Protocol \<times> ProtocolStepResult" where
  "failStream sid errorCode sendRst p =
     (case find_stream sid p of
        None \<Rightarrow> (p, no_result)
      | Some s \<Rightarrow>
          let r = (if sendRst \<and> \<not> closed p \<and> \<not> transportClosed p
                   then appendOutboundFrame (RstStreamFrame_toBytes (buildRstStreamFrame sid errorCode)) no_result
                   else no_result);
              p = (if waitingForContinuation s \<and> pendingHeaderBlock s \<noteq> []
                   then p\<lparr>ghostHeaderBlock := pendingHeaderBlock s\<rparr> else p);
              s = (markClosed errorCode s)\<lparr>responseComplete := True\<rparr>;
              r = push_event (EV_STREAM_CLOSED sid errorCode) r;
              r = push_event (EV_RESPONSE_FAILED sid errorCode) r
          in (erase_stream sid (put_stream sid s p), r))"

fun failStreams ::
    "StreamId list \<Rightarrow> ErrorCode \<Rightarrow> Http2Protocol \<times> ProtocolStepResult \<Rightarrow>
     Http2Protocol \<times> ProtocolStepResult" where
  "failStreams [] errorCode pr = pr"
| "failStreams (sid # ids) errorCode (p, r) =
     (let (p', r') = failStream sid errorCode False p
      in failStreams ids errorCode (p', mergeStepResult r r'))"

definition failAllStreams ::
    "ErrorCode \<Rightarrow> Http2Protocol \<times> ProtocolStepResult \<Rightarrow> Http2Protocol \<times> ProtocolStepResult" where
  "failAllStreams errorCode pr = failStreams (map fst (streams (fst pr))) errorCode pr"

definition failConnection ::
    "ErrorCode \<Rightarrow> string \<Rightarrow> Http2Protocol \<Rightarrow> Http2Protocol \<times> ProtocolStepResult" where
  "failConnection errorCode debugData p =
     (let goaway = buildGoAwayFrame errorCode debugData p;
          (p, r) = (if \<not> sentGoaway p \<and> \<not> transportClosed p
                    then (p\<lparr>sentGoaway := True\<rparr>,
                          push_event (EV_GOAWAY_SENT (ga_lastStreamId goaway) errorCode debugData)
                            (appendOutboundFrame (GoAwayFrame_toBytes goaway) no_result))
                    else (p, no_result));
          p = p\<lparr>connectionErrorCode := errorCode, connectionDebugData := debugData, closed := True,
                expectingContinuation := False, continuationStreamId := 0, ghostHeaderBlock := []\<rparr>;
          (p, r) = failAllStreams errorCode (p, r)
      in (p, push_event (EV_CONNECTION_CLOSED errorCode) (push_event (EV_CONNECTION_ERROR errorCode) r)))"

definition handleHeaderBlockError ::
    "StreamId \<Rightarrow> ErrorCode \<Rightarrow> Http2Protocol \<Rightarrow> Http2Protocol \<times> ProtocolStepResult" where
  "handleHeaderBlockError sid errorCode p =
     (if errorCode = EC_COMPRESSION_ERROR then failConnection errorCode ''HPACK decode error'' p
      else failStream sid errorCode True p)"

section \<open>Emitting a request\<close>

text \<open>
  The encoded header block is cut into one HEADERS frame and as many CONTINUATION frames as
  needed; a maximal frame size of zero would never shorten the rest.
\<close>

function continuation_loop :: "u32 \<Rightarrow> StreamId \<Rightarrow> u8 list \<Rightarrow> ProtocolStepResult \<Rightarrow> ProtocolStepResult cpp" where
  "continuation_loop mfs sid span r =
     (if span = [] then Inr r
      else let chunkSize = min (unat mfs) (length span) in
        if chunkSize = 0 then Inl (Diverges ''emitRequestHeaders'')
        else let h = (FrameHeader_new FT_CONTINUATION sid)\<lparr>payloadLength := of_nat chunkSize\<rparr>;
                 rest = drop chunkSize span;
                 h = (if rest = [] then setFlag FF_END_HEADERS h else h);
                 frame = \<lparr>cf_header = h, cf_data = take chunkSize span\<rparr>
             in continuation_loop mfs sid rest (appendOutboundFrame (ContinuationFrame_toBytes frame) r))"
  by pat_completeness auto
termination
  by (relation "measure (\<lambda>(mfs, sid, span, r). length span)") auto

declare continuation_loop.simps [simp del]

definition emitRequestHeaders ::
    "StreamId \<Rightarrow> u8 list \<Rightarrow> Http2Protocol \<Rightarrow> ProtocolStepResult \<Rightarrow> (Http2Protocol \<times> ProtocolStepResult) cpp" where
  "emitRequestHeaders sid encoded p r =
     (case find_stream sid p of
        None \<Rightarrow> Inl (UndefinedBehaviour ''null stream'')
      | Some s \<Rightarrow>
          let chunkSize = min (unat (maxFrameSize p)) (length encoded);
              frame = HeadersFrame_new sid;
              frame = (if 0 < chunkSize
                       then frame\<lparr>hf_data := take chunkSize encoded,
                                  hf_header := (hf_header frame)\<lparr>payloadLength := of_nat chunkSize\<rparr>\<rparr>
                       else frame);
              span = drop chunkSize encoded;
              (frame, s) =
                (if span = []
                 then let frame = frame\<lparr>hf_header := setFlag FF_END_HEADERS (hf_header frame)\<rparr> in
                      if \<not> hasBody s
                      then (frame\<lparr>hf_header := setFlag FF_END_STREAM (hf_header frame)\<rparr>,
                            s\<lparr>localEndStreamSent := True\<rparr>)
                      else (frame, s)
                 else (frame, s))
          in cpp_bind (continuation_loop (maxFrameSize p) sid span
                         (appendOutboundFrame (HeadersFrame_toBytes frame) r)) (\<lambda>r'.
             Inr (put_stream sid s p, r')))"

text \<open>
  The loop over the rest of the body: the stream, the connection's send window and the result
  change; the chunk is bounded by the peer's frame size and by both windows.
\<close>

definition body_chunk :: "u32 \<Rightarrow> Stream \<Rightarrow> OutFlow \<Rightarrow> u32" where
  "body_chunk mfs s conn =
     min (of_nat (min (unat mfs) (remainingBodySize s)))
         (word_of_int (max 0 (OutFlow_available (outflow s) (Some conn))))"

function emit_body_loop ::
    "u32 \<Rightarrow> Stream \<Rightarrow> OutFlow \<Rightarrow> ProtocolStepResult \<Rightarrow> (Stream \<times> OutFlow \<times> ProtocolStepResult) cpp" where
  "emit_body_loop mfs s conn r =
     (if remainingBodySize s = 0 then Inr (s, conn, r)
      else let chunkSize = body_chunk mfs s conn in
        if chunkSize = 0 then Inr (s, conn, r)
        else let beginOffset = requestBodyOffset s;
                 endOffset = beginOffset + unat chunkSize;
                 body = rq_body (rqst s) in
          if length body < endOffset then Inl (UndefinedBehaviour ''iterator past the end of the body'')
          else case OutFlow_take (sint chunkSize) (outflow s) (Some conn) of
            Inl e \<Rightarrow> Inl e
          | Inr (fl, c) \<Rightarrow>
              let s = s\<lparr>outflow := fl, requestBodyOffset := endOffset\<rparr>;
                  h = (FrameHeader_new FT_DATA (st_id s))\<lparr>payloadLength := chunkSize\<rparr>;
                  (h, s) = (if remainingBodySize s = 0
                            then (setFlag FF_END_STREAM h, s\<lparr>localEndStreamSent := True\<rparr>) else (h, s));
                  frame = (DataFrame_new (st_id s))\<lparr>df_header := h,
                            df_data := bytes_of_string (take (unat chunkSize) (drop beginOffset body))\<rparr>
              in emit_body_loop mfs s (case_option conn id c) (appendOutboundFrame (DataFrame_toBytes frame) r))"
  by pat_completeness auto
termination
  by (relation "measure (\<lambda>(mfs, s, conn, r). length (rq_body (rqst s)) - requestBodyOffset s)")
     (auto simp: word_neq_0_conv word_less_nat_alt split: if_splits)

declare emit_body_loop.simps [simp del]

definition emitPendingRequestBody ::
    "StreamId \<Rightarrow> Http2Protocol \<Rightarrow> ProtocolStepResult \<Rightarrow> (Http2Protocol \<times> ProtocolStepResult) cpp" where
  "emitPendingRequestBody sid p r =
     (case find_stream sid p of
        None \<Rightarrow> Inr (p, r)
      | Some s \<Rightarrow>
          if localEndStreamSent s \<or> Stream_isClosed s then Inr (p, r)
          else cpp_bind (emit_body_loop (maxFrameSize p) s (connectionOutFlow p) r) (\<lambda>(s, conn, r).
            let p = p\<lparr>connectionOutFlow := conn\<rparr> in
            if localEndStreamSent s
            then let s = s\<lparr>st_state := (if remoteEndStreamReceived s then SS_CLOSED else SS_HALF_CLOSED_LOCAL)\<rparr> in
                 if st_state s = SS_CLOSED
                 then Inr (erase_stream (st_id s) (put_stream sid s p),
                           push_event (EV_STREAM_CLOSED (st_id s) EC_NO_ERROR) r)
                 else Inr (put_stream sid s p, r)
            else Inr (put_stream sid s p, r)))"

section \<open>Response headers\<close>

text \<open>
  Moving a response out of a stream leaves empty containers behind; its two plain members keep
  their values.
\<close>

definition moved_response :: "Response \<Rightarrow> Response" where
  "moved_response r = r\<lparr>rs_headers := [], rs_trailers := [], rs_body := [], rs_errorMsg := [], rs_extraMsg := []\<rparr>"

definition finalizeRemoteStream ::
    "StreamId \<Rightarrow> Http2Protocol \<Rightarrow> ProtocolStepResult \<Rightarrow> (Http2Protocol \<times> ProtocolStepResult) cpp" where
  "finalizeRemoteStream sid p r =
     (case find_stream sid p of
        None \<Rightarrow> Inr (p, r)
      | Some s \<Rightarrow>
          let s = s\<lparr>remoteEndStreamReceived := True\<rparr>; p = put_stream sid s p in
          cpp_bind (if 0 \<le> expectedContentLength s then expectsNoBody s else Inr True) (\<lambda>noBody.
          if 0 \<le> expectedContentLength s \<and> \<not> noBody \<and> receivedContentLength s \<noteq> expectedContentLength s
          then let (p, fail) = failStream (st_id s) EC_PROTOCOL_ERROR True p in Inr (p, mergeStepResult r fail)
          else let r = push_event (EV_RESPONSE_COMPLETED (st_id s) (resp s)) r;
                   s = s\<lparr>responseComplete := True, resp := moved_response (resp s)\<rparr> in
            if localEndStreamSent s
            then Inr (erase_stream (st_id s) (put_stream sid (s\<lparr>st_state := SS_CLOSED\<rparr>) p),
                      push_event (EV_STREAM_CLOSED (st_id s) EC_NO_ERROR) r)
            else Inr (put_stream sid (s\<lparr>st_state := SS_HALF_CLOSED_REMOTE\<rparr>) p, r)))"

text \<open>
  The loop over the fields of a block: the stream as it is left behind, and \<open>None\<close> for
  \<open>PROTOCOL_ERROR\<close> or the flags \<open>sawRegularHeader\<close>, \<open>sawStatus\<close> and the status code.
\<close>

fun validate_loop ::
    "HeaderField list \<Rightarrow> Stream \<Rightarrow> bool \<Rightarrow> bool \<Rightarrow> int \<Rightarrow> Stream \<times> (bool \<times> bool \<times> int) option" where
  "validate_loop [] s sawRegularHeader sawStatus statusCode =
     (s, Some (sawRegularHeader, sawStatus, statusCode))"
| "validate_loop (header # headers) s sawRegularHeader sawStatus statusCode =
     (if hname header = [] \<or> hasInvalidFieldNameChar (hname header) then (s, None)
      else if hasInvalidFieldValue (hvalue header) then (s, None)
      else if isConnectionSpecificHeader header then (s, None)
      else if hd (hname header) = CHR '':''
      then if sawRegularHeader then (s, None)
           else if finalResponseHeadersReceived s then (s, None)
           else if hname header \<noteq> '':status'' then (s, None)
           else if sawStatus then (s, None)
           else case tryParseStatusCode (hvalue header) of
             None \<Rightarrow> (s, None)
           | Some code \<Rightarrow> validate_loop headers s sawRegularHeader True code
      else if CHR '':'' \<in> set (hname header) then (s, None)
      else if \<not> finalResponseHeadersReceived s \<and> equalsIgnoreCaseAscii (hname header) ''content-length''
      then case tryParseContentLength (hvalue header) of
             None \<Rightarrow> (s, None)
           | Some cl \<Rightarrow>
               if 0 \<le> expectedContentLength s \<and> expectedContentLength s \<noteq> cl then (s, None)
               else validate_loop headers (s\<lparr>expectedContentLength := cl\<rparr>) True sawStatus statusCode
      else validate_loop headers s True sawStatus statusCode)"

definition validateResponseHeaderBlock ::
    "Stream \<Rightarrow> HeaderField list \<Rightarrow> bool \<Rightarrow> ErrorCode \<times> Stream \<times> bool" where
  "validateResponseHeaderBlock s headers endStream =
     (if headers = [] then (EC_PROTOCOL_ERROR, s, False)
      else case validate_loop headers s False False 0 of
        (s, None) \<Rightarrow> (EC_PROTOCOL_ERROR, s, False)
      | (s, Some (_, sawStatus, statusCode)) \<Rightarrow>
          if \<not> finalResponseHeadersReceived s
          then if \<not> sawStatus then (EC_PROTOCOL_ERROR, s, False)
               else if statusCode div 100 = 1
               then if statusCode = 101 then (EC_PROTOCOL_ERROR, s, False)
                    else if endStream then (EC_PROTOCOL_ERROR, s, False)
                    else (EC_NO_ERROR, s, True)
               else (EC_NO_ERROR, s, False)
          else if sawStatus then (EC_PROTOCOL_ERROR, s, False)
          else if \<not> endStream then (EC_PROTOCOL_ERROR, s, False)
          else (EC_NO_ERROR, s, False))"

definition decodeResponseHeaders ::
    "StreamId \<Rightarrow> bool \<Rightarrow> Http2Protocol \<Rightarrow> ProtocolStepResult \<Rightarrow>
     (ErrorCode \<times> Http2Protocol \<times> ProtocolStepResult) cpp" where
  "decodeResponseHeaders sid endStream p r =
     (case find_stream sid p of
        None \<Rightarrow> Inr (EC_INTERNAL_ERROR, p, r)
      | Some s \<Rightarrow>
          cpp_bind (hpack_decode (span_of (pendingHeaderBlock s)) [] (hpack p)) (\<lambda>(ok, hp, headers).
          let p = p\<lparr>hpack := hp\<rparr> in
          if \<not> ok then Inr (EC_COMPRESSION_ERROR, p, r)
          else if 0 < maxHeaderListSize p \<and> unat (maxHeaderListSize p) < headerListSize headers
          then Inr (EC_ENHANCE_YOUR_CALM, p, r)
          else
          let s = s\<lparr>pendingHeaderBlock := [], waitingForContinuation := False, pendingHeaderEndStream := False\<rparr>;
              (validationCode, s, informationalHeaders) = validateResponseHeaderBlock s headers endStream;
              p = put_stream sid s p in
          if validationCode \<noteq> EC_NO_ERROR then Inr (validationCode, p, r)
          else if informationalHeaders
          then Inr (EC_NO_ERROR, p,
                    push_event (EV_STREAM_HEADERS_RECEIVED (st_id s) (Response_new\<lparr>rs_headers := headers\<rparr>)) r)
          else if finalResponseHeadersReceived s \<and> Request_find (rqst s) '':method'' = Some ''CONNECT''
          then Inr (EC_PROTOCOL_ERROR, p, r)
          else
          let s = (if \<not> finalResponseHeadersReceived s
                   then s\<lparr>resp := (resp s)\<lparr>rs_headers := rs_headers (resp s) @ headers\<rparr>,
                          finalResponseHeadersReceived := True\<rparr>
                   else s\<lparr>resp := (resp s)\<lparr>rs_trailers := rs_trailers (resp s) @ headers\<rparr>,
                          trailingHeadersReceived := True\<rparr>);
              p = put_stream sid s p;
              r = push_event (EV_STREAM_HEADERS_RECEIVED (st_id s) (resp s)) r in
          if endStream
          then cpp_bind (finalizeRemoteStream sid p r) (\<lambda>(p, r). Inr (EC_NO_ERROR, p, r))
          else Inr (EC_NO_ERROR, p, r)))"

section \<open>Peer settings\<close>

text \<open>The loop that shifts every send window stops at the first overflow; earlier shifts stay.\<close>

fun shift_windows :: "int \<Rightarrow> (StreamId \<times> Stream) list \<Rightarrow> bool \<times> (StreamId \<times> Stream) list" where
  "shift_windows delta [] = (True, [])"
| "shift_windows delta ((sid, s) # es) =
     (case OutFlow_add delta (outflow s) of
        (False, w) \<Rightarrow> (False, (sid, s\<lparr>outflow := w\<rparr>) # es)
      | (True, w) \<Rightarrow>
          (let (ok, es') = shift_windows delta es in (ok, (sid, s\<lparr>outflow := w\<rparr>) # es')))"

definition applyPeerSetting :: "u16 \<times> u32 \<Rightarrow> Http2Protocol \<Rightarrow> (ErrorCode \<times> Http2Protocol) cpp" where
  "applyPeerSetting setting p =
     (let value = snd setting in
      case sp_of (fst setting) of
        SP_MAX_CONCURRENT_STREAMS \<Rightarrow> Inr (EC_NO_ERROR, p\<lparr>maxConcurrentStreams := value\<rparr>)
      | SP_HEADER_TABLE_SIZE \<Rightarrow>
          Inr (EC_NO_ERROR, p\<lparr>encodeHeaderTableSize := value,
                              hpack := setEncodeTableSize (unat value) (hpack p)\<rparr>)
      | SP_ENABLE_PUSH \<Rightarrow>
          if value \<noteq> 0 then Inr (EC_PROTOCOL_ERROR, p) else Inr (EC_NO_ERROR, p\<lparr>enablePush := False\<rparr>)
      | SP_MAX_FRAME_SIZE \<Rightarrow>
          if value < minimumMaxFrameSize \<or> maximumMaxFrameSize < value then Inr (EC_PROTOCOL_ERROR, p)
          else Inr (EC_NO_ERROR, p\<lparr>maxFrameSize := value\<rparr>)
      | SP_INITIAL_WINDOW_SIZE \<Rightarrow>
          if maximumWindowSize < value then Inr (EC_FLOW_CONTROL_ERROR, p)
          else cpp_bind (i32 (sint value - sint (initialWindowSize p))) (\<lambda>delta.
            let (ok, es) = shift_windows delta (streams p);
                p = p\<lparr>initialWindowSize := value, streams := es\<rparr>
            in if ok then Inr (EC_NO_ERROR, p) else Inr (EC_FLOW_CONTROL_ERROR, p))
      | SP_MAX_HEADER_LIST_SIZE \<Rightarrow> Inr (EC_NO_ERROR, p\<lparr>maxHeaderListSize := value\<rparr>)
      | SP_OTHER _ \<Rightarrow> Inr (EC_NO_ERROR, p))"

fun applyPeerSettings :: "(u16 \<times> u32) list \<Rightarrow> Http2Protocol \<Rightarrow> (ErrorCode \<times> Http2Protocol) cpp" where
  "applyPeerSettings [] p = Inr (EC_NO_ERROR, p)"
| "applyPeerSettings (setting # settings) p =
     cpp_bind (applyPeerSetting setting p) (\<lambda>(code, p).
       if code \<noteq> EC_NO_ERROR then Inr (code, p) else applyPeerSettings settings p)"

section \<open>Frame handlers\<close>

type_synonym step = "(Http2Protocol \<times> ProtocolStepResult) cpp"

text \<open>
  \<open>append\<close> on a header block: beyond \<open>2^31\<close> bytes the capacity loop of the buffer does not end;
  \<open>header_append_buffer\<close> relates it to the \<open>ByteBuffer\<close> of the code.
\<close>

definition header_append :: "u8 list \<Rightarrow> u8 list \<Rightarrow> u8 list cpp" where
  "header_append block bs =
     (if bs \<noteq> [] \<and> 2 ^ 31 < length block + length bs then Inl (Diverges ''ByteBuffer::ensureCapacity'')
      else Inr (block @ bs))"

lemma header_append_buffer:
  assumes "bb_wf b" and "power_cap (bb_cap b)" and "length (bb_bytes b) + length bs < 2 ^ 32"
  shows "map_sum id bb_bytes (bb_append_range bs b) = header_append (bb_bytes b) bs"
  using append_range_exact [OF assms] by (auto simp: header_append_def split: if_splits)

text \<open>The refresh of a receive window after \<open>add\<close> returned \<open>refresh\<close>.\<close>

definition emit_refresh :: "StreamId \<Rightarrow> int \<Rightarrow> ProtocolStepResult \<Rightarrow> ProtocolStepResult" where
  "emit_refresh sid refresh r =
     (if 0 < refresh
      then appendOutboundFrame (WindowUpdateFrame_toBytes (buildWindowUpdateFrame sid (word_of_int refresh))) r
      else r)"

definition processDataOnUnknownStream :: "DataFrame \<Rightarrow> Http2Protocol \<Rightarrow> step" where
  "processDataOnUnknownStream dataFrame p =
     (let sid = streamId (df_header dataFrame) in
      if sid AND 1 = 0
      then Inr (failConnection EC_PROTOCOL_ERROR ''unexpected peer-initiated DATA stream'' p)
      else if nextStreamId p \<le> sid
      then Inr (failConnection EC_PROTOCOL_ERROR ''DATA for never-opened stream'' p)
      else let (ok, w) = InFlow_take (payloadLength (df_header dataFrame)) (connectionInflow p);
               p = p\<lparr>connectionInflow := w\<rparr> in
        if \<not> ok
        then Inr (failConnection EC_FLOW_CONTROL_ERROR ''old stream DATA exceeded connection window'' p)
        else cpp_bind (InFlow_add (sint (payloadLength (df_header dataFrame))) (connectionInflow p)) (\<lambda>(connRefresh, w).
          let p = p\<lparr>connectionInflow := w\<rparr> in
          if connRefresh < 0
          then Inr (failConnection EC_FLOW_CONTROL_ERROR ''connection inflow window overflow'' p)
          else Inr (p, emit_refresh 0 connRefresh no_result)))"

definition processDataFrame :: "RawFrame \<Rightarrow> Http2Protocol \<Rightarrow> step" where
  "processDataFrame frame p =
     (let sid = streamId (rf_header frame) in
      if sid = 0 then Inr (failConnection EC_PROTOCOL_ERROR ''DATA on stream 0'' p)
      else cpp_bind (validatePaddedPayload frame 0) (\<lambda>v. case v of
        Inl (validationError, validationDebug) \<Rightarrow> Inr (failConnection validationError validationDebug p)
      | Inr _ \<Rightarrow>
      cpp_bind (DataFrame_of_raw frame) (\<lambda>dataFrame.
      case find_stream sid p of
        None \<Rightarrow> processDataOnUnknownStream dataFrame p
      | Some s \<Rightarrow>
      if Stream_isClosed s \<or> remoteEndStreamReceived s
      then Inr (failStream (st_id s) EC_STREAM_CLOSED True p)
      else if \<not> finalResponseHeadersReceived s
      then Inr (failStream (st_id s) EC_PROTOCOL_ERROR True p)
      else
      let consumed = payloadLength (df_header dataFrame);
          (ok, cw, sw) = takeInflows (connectionInflow p) (inflow s) consumed;
          s = s\<lparr>inflow := sw\<rparr>;
          p = put_stream sid s (p\<lparr>connectionInflow := cw\<rparr>) in
      if \<not> ok then Inr (failConnection EC_FLOW_CONTROL_ERROR ''flow control exceeded'' p)
      else cpp_bind (if df_data dataFrame \<noteq> [] then expectsNoBody s else Inr False) (\<lambda>noBody.
      if noBody then Inr (failStream (st_id s) EC_PROTOCOL_ERROR True p)
      else
      let s = s\<lparr>resp := (resp s)\<lparr>rs_body := rs_body (resp s) @ string_of_bytes (df_data dataFrame)\<rparr>,
                receivedContentLength := receivedContentLength s + int (length (df_data dataFrame))\<rparr>;
          p = put_stream sid s p in
      cpp_bind (InFlow_add (sint consumed) (connectionInflow p)) (\<lambda>(connRefresh, cw).
      let p = p\<lparr>connectionInflow := cw\<rparr> in
      if connRefresh < 0
      then Inr (failConnection EC_FLOW_CONTROL_ERROR ''connection inflow window overflow'' p)
      else let r = emit_refresh 0 connRefresh no_result in
      cpp_bind (InFlow_add (sint consumed) (inflow s)) (\<lambda>(streamRefresh, sw).
      let s = s\<lparr>inflow := sw\<rparr>;
          p = put_stream sid s p in
      if streamRefresh < 0
      then Inr (failStream (st_id s) EC_FLOW_CONTROL_ERROR True p)
      else let r = emit_refresh (st_id s) streamRefresh r in
        if hasAnyFlag FF_END_STREAM (df_header dataFrame) then finalizeRemoteStream sid p r
        else Inr (p, r)))))))"

definition decode_discarded :: "u8 list \<Rightarrow> string \<Rightarrow> Http2Protocol \<Rightarrow> step" where
  "decode_discarded block debugData p =
     cpp_bind (hpack_decode (span_of block) [] (hpack p)) (\<lambda>(ok, hp, discarded).
       let p = p\<lparr>hpack := hp\<rparr> in
       if \<not> ok then Inr (failConnection EC_COMPRESSION_ERROR debugData p)
       else Inr (p, no_result))"

definition finish_header_block :: "StreamId \<Rightarrow> bool \<Rightarrow> Http2Protocol \<Rightarrow> step" where
  "finish_header_block sid endStream p =
     cpp_bind (decodeResponseHeaders sid endStream p no_result) (\<lambda>(errorCode, p, r).
       if errorCode \<noteq> EC_NO_ERROR then Inr (handleHeaderBlockError sid errorCode p) else Inr (p, r))"

definition processHeadersFrame :: "RawFrame \<Rightarrow> Http2Protocol \<Rightarrow> step" where
  "processHeadersFrame frame p =
     (let sid = streamId (rf_header frame) in
      if sid = 0 then Inr (failConnection EC_PROTOCOL_ERROR ''HEADERS on stream 0'' p)
      else let priorityPrefix = (if hasAnyFlag FF_PRIORITY (rf_header frame) then 5 else 0) in
      cpp_bind (validatePaddedPayload frame priorityPrefix) (\<lambda>v. case v of
        Inl (validationError, validationDebug) \<Rightarrow> Inr (failConnection validationError validationDebug p)
      | Inr _ \<Rightarrow>
      cpp_bind (HeadersFrame_of_raw frame) (\<lambda>headersFrame.
      case find_stream sid p of
        None \<Rightarrow>
          if sid AND 1 = 0
          then Inr (failConnection EC_PROTOCOL_ERROR ''unexpected peer-initiated HEADERS stream'' p)
          else if nextStreamId p \<le> sid
          then Inr (failConnection EC_PROTOCOL_ERROR ''HEADERS for never-opened stream'' p)
          else if hasAnyFlag FF_END_HEADERS (hf_header headersFrame)
          then decode_discarded (hf_data headersFrame) ''HPACK decode failed on closed-stream HEADERS'' p
          else cpp_bind (header_append [] (hf_data headersFrame)) (\<lambda>block.
            Inr (p\<lparr>ghostHeaderBlock := block, expectingContinuation := True, continuationStreamId := sid\<rparr>,
                 no_result))
      | Some s \<Rightarrow>
          if Stream_isClosed s \<or> remoteEndStreamReceived s
          then Inr (failStream (st_id s) EC_STREAM_CLOSED True p)
          else cpp_bind (header_append (pendingHeaderBlock s) (hf_data headersFrame)) (\<lambda>block.
          let s = s\<lparr>pendingHeaderBlock := block\<rparr>;
              p = put_stream sid s p in
          if 0 < maxHeaderListSize p \<and> unat (maxHeaderListSize p) < length (pendingHeaderBlock s)
          then Inr (failConnection EC_ENHANCE_YOUR_CALM ''header block too large'' p)
          else if \<not> hasAnyFlag FF_END_HEADERS (hf_header headersFrame)
          then let s = s\<lparr>waitingForContinuation := True,
                         pendingHeaderEndStream := hasAnyFlag FF_END_STREAM (hf_header headersFrame)\<rparr> in
               Inr ((put_stream sid s p)\<lparr>expectingContinuation := True, continuationStreamId := st_id s\<rparr>,
                    no_result)
          else finish_header_block sid (hasAnyFlag FF_END_STREAM (hf_header headersFrame)) p))))"

definition processPriorityFrame :: "RawFrame \<Rightarrow> Http2Protocol \<Rightarrow> step" where
  "processPriorityFrame frame p =
     (if streamId (rf_header frame) = 0
      then Inr (failConnection EC_PROTOCOL_ERROR ''PRIORITY on stream 0'' p)
      else if payloadLength (rf_header frame) \<noteq> 5
      then Inr (p, appendOutboundFrame (RstStreamFrame_toBytes
                     (buildRstStreamFrame (streamId (rf_header frame)) EC_FRAME_SIZE_ERROR)) no_result)
      else Inr (p, no_result))"

definition processRstStreamFrame :: "RawFrame \<Rightarrow> Http2Protocol \<Rightarrow> step" where
  "processRstStreamFrame frame p =
     (let sid = streamId (rf_header frame) in
      if sid = 0 then Inr (failConnection EC_PROTOCOL_ERROR ''RST_STREAM on stream 0'' p)
      else if payloadLength (rf_header frame) \<noteq> 4
      then Inr (failConnection EC_FRAME_SIZE_ERROR ''invalid RST_STREAM size'' p)
      else case find_stream sid p of
        None \<Rightarrow>
          if nextStreamId p \<le> sid
          then Inr (failConnection EC_PROTOCOL_ERROR ''RST_STREAM for idle stream'' p)
          else Inr (p, no_result)
      | Some s \<Rightarrow> cpp_bind (RstStreamFrame_of_raw frame) (\<lambda>rst.
          let errorCode = ec_of (rst_errorCode rst);
              r = push_event (EV_STREAM_RESET_RECEIVED sid errorCode) no_result;
              (p, fail) = failStream sid errorCode False p
          in Inr (p, mergeStepResult r fail)))"

text \<open>
  \<open>for (auto& entry : streams) emitPendingRequestBody(\<dots>)\<close>: when the call erases the entry the
  loop stands on, the next increment uses an invalid iterator.
\<close>

fun emit_each :: "StreamId list \<Rightarrow> Http2Protocol \<Rightarrow> ProtocolStepResult \<Rightarrow> step" where
  "emit_each [] p r = Inr (p, r)"
| "emit_each (sid # ids) p r =
     cpp_bind (emitPendingRequestBody sid p r) (\<lambda>(p, r).
       if find_stream sid p = None then Inl (UndefinedBehaviour ''increment of an erased iterator'')
       else emit_each ids p r)"

definition settings_ack :: SettingFrame where
  "settings_ack =
     \<lparr>sf_header = (setFlag FF_ACK (FrameHeader_new FT_SETTINGS 0))\<lparr>payloadLength := 0\<rparr>, sf_settings = []\<rparr>"

definition processSettingFrame :: "RawFrame \<Rightarrow> Http2Protocol \<Rightarrow> step" where
  "processSettingFrame frame p =
     (if streamId (rf_header frame) \<noteq> 0
      then Inr (failConnection EC_PROTOCOL_ERROR ''SETTINGS with non-zero stream id'' p)
      else if payloadLength (rf_header frame) mod 6 \<noteq> 0
      then Inr (failConnection EC_FRAME_SIZE_ERROR ''invalid SETTINGS size'' p)
      else if hasAnyFlag FF_ACK (rf_header frame)
      then if payloadLength (rf_header frame) \<noteq> 0
           then Inr (failConnection EC_FRAME_SIZE_ERROR ''SETTINGS ack must be empty'' p)
           else Inr (p, push_event EV_SETTINGS_ACK_RECEIVED no_result)
      else
      let p = p\<lparr>gotPeerSettings := True\<rparr> in
      cpp_bind (SettingFrame_of_raw frame) (\<lambda>settingsFrame.
      cpp_bind (applyPeerSettings (sf_settings settingsFrame) p) (\<lambda>(applyCode, p).
      if applyCode \<noteq> EC_NO_ERROR then Inr (failConnection applyCode ''invalid peer settings'' p)
      else cpp_bind (emit_each (map fst (streams p)) p no_result) (\<lambda>(p, r).
        Inr (p, appendOutboundFrame (SettingFrame_toBytes settings_ack)
                  (push_event EV_SETTINGS_RECEIVED r))))))"

definition processPushPromiseFrame :: "RawFrame \<Rightarrow> Http2Protocol \<Rightarrow> step" where
  "processPushPromiseFrame frame p =
     (let sid = streamId (rf_header frame) in
      if sid = 0 then Inr (failConnection EC_PROTOCOL_ERROR ''PUSH_PROMISE on stream 0'' p)
      else cpp_bind (validatePaddedPayload frame 4) (\<lambda>v. case v of
        Inl (validationError, validationDebug) \<Rightarrow> Inr (failConnection validationError validationDebug p)
      | Inr _ \<Rightarrow>
      cpp_bind (PushPromiseFrame_of_raw frame) (\<lambda>push.
      if pp_promisedStreamId push = 0 \<or> pp_promisedStreamId push AND 1 \<noteq> 0
      then Inr (failConnection EC_PROTOCOL_ERROR ''invalid promised stream id parity'' p)
      else if pp_promisedStreamId push \<le> lastPeerStreamId p
      then Inr (failConnection EC_PROTOCOL_ERROR ''promised stream id must be new'' p)
      else
      let r = push_event (EV_PUSH_PROMISE_RECEIVED sid (pp_promisedStreamId push)) no_result in
      if \<not> enablePush p
      then let (p, fail) = failConnection EC_PROTOCOL_ERROR ''server push disabled'' p
           in Inr (p, mergeStepResult r fail)
      else Inr (p, r))))"

definition processPingFrame :: "RawFrame \<Rightarrow> Http2Protocol \<Rightarrow> step" where
  "processPingFrame frame p =
     (if streamId (rf_header frame) \<noteq> 0
      then Inr (failConnection EC_PROTOCOL_ERROR ''PING with non-zero stream id'' p)
      else if payloadLength (rf_header frame) \<noteq> 8
      then Inr (failConnection EC_FRAME_SIZE_ERROR ''invalid PING size'' p)
      else let ping = PingFrame_of_raw frame in
      if hasAnyFlag FF_ACK (rf_header frame)
      then Inr (p, push_event (EV_PING_ACK_RECEIVED (string_of_bytes (ping_data ping))) no_result)
      else let r = push_event (EV_PING_RECEIVED (string_of_bytes (ping_data ping))) no_result;
               ack = \<lparr>ping_header = (setFlag FF_ACK (FrameHeader_new FT_PING 0))\<lparr>payloadLength := 8\<rparr>,
                      ping_data = ping_data ping\<rparr>
           in Inr (p, appendOutboundFrame (PingFrame_toBytes ack) r))"

definition processGoAwayFrame :: "RawFrame \<Rightarrow> Http2Protocol \<Rightarrow> step" where
  "processGoAwayFrame frame p =
     (if streamId (rf_header frame) \<noteq> 0
      then Inr (failConnection EC_PROTOCOL_ERROR ''GOAWAY with non-zero stream id'' p)
      else if payloadLength (rf_header frame) < 8
      then Inr (failConnection EC_FRAME_SIZE_ERROR ''invalid GOAWAY'' p)
      else cpp_bind (GoAwayFrame_of_raw frame) (\<lambda>goaway.
      let errorCode = ec_of (ga_errorCode goaway);
          p = p\<lparr>receivedGoaway := True\<rparr>;
          r = push_event (EV_GOAWAY_RECEIVED (ga_lastStreamId goaway) errorCode (string_of_bytes (ga_data goaway))) no_result;
          toFail = filter (\<lambda>sid. ga_lastStreamId goaway < sid) (map fst (streams p))
      in Inr (failStreams toFail errorCode (p, r))))"

text \<open>The loop over the collected pointers, each guarded by \<open>streams.count\<close>.\<close>

fun emit_pending :: "StreamId list \<Rightarrow> Http2Protocol \<Rightarrow> ProtocolStepResult \<Rightarrow> step" where
  "emit_pending [] p r = Inr (p, r)"
| "emit_pending (sid # ids) p r =
     (if find_stream sid p = None then emit_pending ids p r
      else cpp_bind (emitPendingRequestBody sid p r) (\<lambda>(p, r). emit_pending ids p r))"

definition processWindowUpdateFrame :: "RawFrame \<Rightarrow> Http2Protocol \<Rightarrow> step" where
  "processWindowUpdateFrame frame p =
     (let sid = streamId (rf_header frame) in
      if payloadLength (rf_header frame) \<noteq> 4
      then Inr (failConnection EC_FRAME_SIZE_ERROR ''invalid WINDOW_UPDATE size'' p)
      else cpp_bind (WindowUpdateFrame_of_raw frame) (\<lambda>wuf.
      let increment = wu_windowSizeIncrement wuf AND 0x7fffffff in
      if increment = 0
      then if sid = 0 then Inr (failConnection EC_PROTOCOL_ERROR ''zero connection window update'' p)
           else Inr (failStream sid EC_PROTOCOL_ERROR True p)
      else
      let r = push_event (EV_WINDOW_UPDATE_RECEIVED sid increment) no_result in
      if sid = 0
      then let (ok, w) = OutFlow_add (sint increment) (connectionOutFlow p);
               p = p\<lparr>connectionOutFlow := w\<rparr> in
           if \<not> ok then Inr (failConnection EC_FLOW_CONTROL_ERROR ''connection window overflow'' p)
           else emit_pending (map fst (streams p)) p r
      else case find_stream sid p of
        None \<Rightarrow>
          if nextStreamId p \<le> sid
          then Inr (failConnection EC_PROTOCOL_ERROR ''WINDOW_UPDATE for idle stream'' p)
          else Inr (p, r)
      | Some s \<Rightarrow>
          let (ok, w) = OutFlow_add (sint increment) (outflow s);
              p = put_stream sid (s\<lparr>outflow := w\<rparr>) p in
          if \<not> ok then Inr (failStream sid EC_FLOW_CONTROL_ERROR True p)
          else emitPendingRequestBody sid p r))"

definition processContinuationFrame :: "RawFrame \<Rightarrow> Http2Protocol \<Rightarrow> step" where
  "processContinuationFrame frame p =
     (let sid = streamId (rf_header frame) in
      if sid = 0 then Inr (failConnection EC_PROTOCOL_ERROR ''CONTINUATION on stream 0'' p)
      else if \<not> expectingContinuation p \<or> continuationStreamId p \<noteq> sid
      then Inr (failConnection EC_PROTOCOL_ERROR ''unexpected CONTINUATION'' p)
      else let continuation = ContinuationFrame_of_raw frame in
      case find_stream sid p of
        None \<Rightarrow>
          cpp_bind (header_append (ghostHeaderBlock p) (cf_data continuation)) (\<lambda>block.
          let p = p\<lparr>ghostHeaderBlock := block\<rparr> in
          if 0 < maxHeaderListSize p \<and> unat (maxHeaderListSize p) < length (ghostHeaderBlock p)
          then Inr (failConnection EC_ENHANCE_YOUR_CALM ''header block too large'' (p\<lparr>ghostHeaderBlock := []\<rparr>))
          else if \<not> hasAnyFlag FF_END_HEADERS (cf_header continuation) then Inr (p, no_result)
          else decode_discarded block ''HPACK decode failed on closed-stream CONTINUATION''
                 (p\<lparr>expectingContinuation := False, continuationStreamId := 0, ghostHeaderBlock := []\<rparr>))
      | Some s \<Rightarrow>
          cpp_bind (header_append (pendingHeaderBlock s) (cf_data continuation)) (\<lambda>block.
          let s = s\<lparr>pendingHeaderBlock := block\<rparr>;
              p = put_stream sid s p in
          if 0 < maxHeaderListSize p \<and> unat (maxHeaderListSize p) < length (pendingHeaderBlock s)
          then Inr (failConnection EC_ENHANCE_YOUR_CALM ''header block too large'' p)
          else if \<not> hasAnyFlag FF_END_HEADERS (cf_header continuation) then Inr (p, no_result)
          else let s = s\<lparr>waitingForContinuation := False\<rparr>;
                   p = (put_stream sid s p)\<lparr>expectingContinuation := False, continuationStreamId := 0\<rparr>
               in finish_header_block sid (pendingHeaderEndStream s) p))"

definition receiveFrame :: "RawFrame \<Rightarrow> Http2Protocol \<Rightarrow> step" where
  "receiveFrame frame p =
     (let t = ftype (rf_header frame) in
      if \<not> gotPeerSettings p \<and> t \<noteq> FT_SETTINGS
      then Inr (failConnection EC_PROTOCOL_ERROR ''first peer frame must be SETTINGS'' p)
      else if localMaxFrameSize p < payloadLength (rf_header frame)
      then Inr (failConnection EC_FRAME_SIZE_ERROR ''frame exceeds local max frame size'' p)
      else if expectingContinuation p \<and> t \<noteq> FT_CONTINUATION
      then Inr (failConnection EC_PROTOCOL_ERROR ''expected CONTINUATION'' p)
      else case t of
        FT_DATA \<Rightarrow> processDataFrame frame p
      | FT_HEADERS \<Rightarrow> processHeadersFrame frame p
      | FT_PRIORITY \<Rightarrow> processPriorityFrame frame p
      | FT_RST_STREAM \<Rightarrow> processRstStreamFrame frame p
      | FT_SETTINGS \<Rightarrow> processSettingFrame frame p
      | FT_PUSH_PROMISE \<Rightarrow> processPushPromiseFrame frame p
      | FT_PING \<Rightarrow> processPingFrame frame p
      | FT_GOAWAY \<Rightarrow> processGoAwayFrame frame p
      | FT_WINDOW_UPDATE \<Rightarrow> processWindowUpdateFrame frame p
      | FT_CONTINUATION \<Rightarrow> processContinuationFrame frame p
      | _ \<Rightarrow> Inr (p, push_event (EV_UNKNOWN_FRAME_RECEIVED t (streamId (rf_header frame))
                        (flags (rf_header frame)) (string_of_bytes (rf_data frame))) no_result))"

section \<open>Public operations\<close>

definition protocol_start :: "Http2Protocol \<Rightarrow> Http2Protocol \<times> ProtocolStepResult" where
  "protocol_start p =
     (if started p then (p, push_event (EV_CONNECTION_ERROR EC_PROTOCOL_ERROR) no_result)
      else let r = appendOutboundFrame (bytes_of_string HTTP2_CONNECTION_PREFACE) no_result;
               r = appendOutboundFrame (SettingFrame_toBytes (buildLocalSettingsFrame p)) r;
               r = push_event EV_CONNECTION_STARTED r
           in (p\<lparr>sentConnectionPreface := True, sentLocalSettings := True, started := True\<rparr>, r))"

definition refused :: "ErrorCode \<Rightarrow> Http2Protocol \<Rightarrow> step" where
  "refused e p = Inr (p, push_event (EV_RESPONSE_FAILED 0 e) no_result)"

definition submitRequest ::
    "((StreamId \<times> Stream) list \<Rightarrow> (StreamId \<times> Stream) list) \<Rightarrow> Request \<Rightarrow> Http2Protocol \<Rightarrow> step" where
  "submitRequest order request p =
     (if \<not> canSubmitRequests p then refused EC_REFUSED_STREAM p
      else if \<not> Request_isValid request then refused EC_PROTOCOL_ERROR p
      else if unat (maxConcurrentStreams p) \<le> length (streams p) then refused EC_REFUSED_STREAM p
      else if nextStreamId p = 0 \<or> 0x7fffffff - 1 < nextStreamId p then refused EC_REFUSED_STREAM p
      else
      let sid = nextStreamId p;
          p = p\<lparr>nextStreamId := nextStreamId p + 2\<rparr>;
          s = setRequest request (Stream_new sid);
          s = s\<lparr>inflow := InFlow_init (sint (initialWindowSize p)) (inflow s),
                outflow := snd (OutFlow_add (sint (initialWindowSize p)) (outflow s))\<rparr>;
          p = insert_stream order sid s p;
          r = push_event (EV_STREAM_OPENED sid) no_result in
      cpp_bind (hpack_encode (buildRequestHeaderFields request) (hpack p)) (\<lambda>(encoded, hp).
      let p = p\<lparr>hpack := hp\<rparr> in
      cpp_bind (emitRequestHeaders sid encoded p r) (\<lambda>(p, r).
      case find_stream sid p of
        None \<Rightarrow> Inl (UndefinedBehaviour ''null stream'')
      | Some s \<Rightarrow>
          let s = s\<lparr>requestStarted := True,
                    st_state := (if localEndStreamSent s then SS_HALF_CLOSED_LOCAL else SS_OPEN)\<rparr> in
          cpp_bind (emitPendingRequestBody sid (put_stream sid s p) r) (\<lambda>(p, r).
            Inr (p, r\<lparr>hasSubmittedStream := True, submittedStreamId := sid\<rparr>)))))"

lemma tryPop_shorter: "tryPop buffer = Inr (Some (frame, rest)) \<Longrightarrow> length rest < length buffer"
  using popped_SomeD(2) [of buffer frame rest] by (simp add: popped_def)

text \<open>
  The loop of \<open>receiveBytes\<close>. No handler touches the codec, so its buffer is an argument of
  its own.
\<close>

function receive_loop ::
    "FrameCodec \<Rightarrow> Http2Protocol \<Rightarrow> ProtocolStepResult \<Rightarrow>
     (FrameCodec \<times> Http2Protocol \<times> ProtocolStepResult) cpp" where
  "receive_loop buffer p r =
     (case tryPop buffer of
        Inl e \<Rightarrow> Inl e
      | Inr None \<Rightarrow> Inr (buffer, p, r)
      | Inr (Some (frame, rest)) \<Rightarrow> (case receiveFrame frame p of
          Inl e \<Rightarrow> Inl e
        | Inr (p', r') \<Rightarrow>
            if closed p' then Inr (rest, p', mergeStepResult r r')
            else receive_loop rest p' (mergeStepResult r r')))"
  by pat_completeness auto
termination
  by (relation "measure (\<lambda>(buffer, p, r). length buffer)") (auto simp: tryPop_shorter)

declare receive_loop.simps [simp del]

definition receiveBytes :: "u8 list \<Rightarrow> Http2Protocol \<Rightarrow> step" where
  "receiveBytes data p =
     (if closed p \<or> transportClosed p then Inr (p, no_result)
      else cpp_bind (receive_loop (FrameCodec_feed data (frameCodec p)) p no_result) (\<lambda>(buffer, p, r).
        Inr (p\<lparr>frameCodec := buffer\<rparr>, r)))"

definition cancelStream :: "StreamId \<Rightarrow> ErrorCode \<Rightarrow> Http2Protocol \<Rightarrow> Http2Protocol \<times> ProtocolStepResult" where
  "cancelStream sid errorCode p = (if closed p then (p, no_result) else failStream sid errorCode True p)"

definition sendPing :: "Http2Protocol \<Rightarrow> Http2Protocol \<times> ProtocolStepResult" where
  "sendPing p =
     (if closed p \<or> \<not> started p then (p, no_result)
      else let p = p\<lparr>pingCounter := pingCounter p + 1\<rparr>;
               frame = \<lparr>ping_header = (FrameHeader_new FT_PING 0)\<lparr>payloadLength := 8\<rparr>,
                        ping_data = be_bytes 8 (pingCounter p)\<rparr>
           in (p, appendOutboundFrame (PingFrame_toBytes frame) no_result))"

definition protocol_close :: "Http2Protocol \<Rightarrow> Http2Protocol \<times> ProtocolStepResult" where
  "protocol_close p =
     (if closed p then (p, no_result)
      else let goaway = buildGoAwayFrame EC_NO_ERROR [] p;
               (p, r) = (if \<not> sentGoaway p
                         then (p\<lparr>sentGoaway := True\<rparr>,
                               push_event (EV_GOAWAY_SENT (ga_lastStreamId goaway) EC_NO_ERROR [])
                                 (appendOutboundFrame (GoAwayFrame_toBytes goaway) no_result))
                         else (p, no_result));
               (p, r) = failAllStreams EC_CANCEL (p, r)
           in (p\<lparr>closed := True\<rparr>, push_event (EV_CONNECTION_CLOSED EC_NO_ERROR) r))"

definition onTransportClosed :: "Http2Protocol \<Rightarrow> Http2Protocol \<times> ProtocolStepResult" where
  "onTransportClosed p =
     (let p = p\<lparr>transportClosed := True\<rparr>;
          (p, r) = (if \<not> closed p then failAllStreams EC_CANCEL (p, no_result) else (p, no_result));
          p = p\<lparr>closed := True\<rparr>;
          r = push_event EV_TRANSPORT_CLOSED r
      in (p, push_event (EV_CONNECTION_CLOSED (connectionErrorCode p)) r))"

end
