(* ===== verification/Request_Context.thy ===== *)
theory Request_Context
  imports Messages
begin

text \<open>
  src/request_context.cpp: the state of one request that the client, the reactor and the
  connector thread share. A context lives in a store; a \<open>RequestContextPtr\<close> is its address, and
  \<open>None\<close> is the null pointer. Each operation is one atomic access or one critical section of
  the code, so a sequence of operations is an interleaving of the threads.
\<close>

record RequestContext =
  REQUEST_ID :: u64
  TIMEOUT_MS :: int
  completionHandler :: bool
  finished_flag :: bool
  canceled_flag :: bool
  ctx_streamId :: StreamId
  ctx_timerId :: u64
  cancelHandler :: bool

type_synonym ctx = nat
type_synonym store = "ctx \<Rightarrow> RequestContext"

definition RequestContext_new :: "u64 \<Rightarrow> int \<Rightarrow> bool \<Rightarrow> RequestContext" where
  "RequestContext_new requestId timeoutMs completion =
     \<lparr>REQUEST_ID = requestId, TIMEOUT_MS = timeoutMs, completionHandler = completion, finished_flag = False,
      canceled_flag = False, ctx_streamId = 0, ctx_timerId = 0, cancelHandler = False\<rparr>"

text \<open>\<open>compare_exchange_strong(false, true)\<close>: whether this call changed the flag.\<close>

definition tryFinish :: "RequestContext \<Rightarrow> bool \<times> RequestContext" where
  "tryFinish c = (\<not> finished_flag c, c\<lparr>finished_flag := True\<rparr>)"

definition markCanceled :: "RequestContext \<Rightarrow> bool \<times> RequestContext" where
  "markCanceled c = (\<not> canceled_flag c, c\<lparr>canceled_flag := True\<rparr>)"

definition setStreamId :: "StreamId \<Rightarrow> RequestContext \<Rightarrow> RequestContext" where
  "setStreamId sid c = c\<lparr>ctx_streamId := sid\<rparr>"

definition setTimerId :: "u64 \<Rightarrow> RequestContext \<Rightarrow> RequestContext" where
  "setTimerId tid c = c\<lparr>ctx_timerId := tid\<rparr>"

definition setCancelHandler :: "RequestContext \<Rightarrow> RequestContext" where
  "setCancelHandler c = c\<lparr>cancelHandler := True\<rparr>"

text \<open>The last component is the request id the cancel handler is called with, if it is called.\<close>

definition RequestContext_cancel :: "RequestContext \<Rightarrow> bool \<times> RequestContext \<times> u64 option" where
  "RequestContext_cancel c =
     (if finished_flag c then (False, c, None)
      else let (marked, c) = markCanceled c in
        if \<not> marked then (False, c, None)
        else (True, c, if cancelHandler c then Some (REQUEST_ID c) else None))"

text \<open>The calls of the completion callback.\<close>

definition invokeCompletion :: "Response \<Rightarrow> RequestContext \<Rightarrow> Response list" where
  "invokeCompletion response c = (if completionHandler c then [response] else [])"

section \<open>Racing threads\<close>

text \<open>The accesses that may race on one context, and what each of them returns.\<close>

datatype access = Try_Finish | Mark_Canceled | Cancel | Set_Stream StreamId | Set_Timer u64

fun perform :: "access \<Rightarrow> RequestContext \<Rightarrow> bool \<times> RequestContext" where
  "perform Try_Finish c = tryFinish c"
| "perform Mark_Canceled c = markCanceled c"
| "perform Cancel c = (case RequestContext_cancel c of (b, c', h) \<Rightarrow> (b, c'))"
| "perform (Set_Stream sid) c = (False, setStreamId sid c)"
| "perform (Set_Timer tid) c = (False, setTimerId tid c)"

fun perform_all :: "access list \<Rightarrow> RequestContext \<Rightarrow> (access \<times> bool) list \<times> RequestContext" where
  "perform_all [] c = ([], c)"
| "perform_all (a # as) c =
     (case perform a c of (b, c') \<Rightarrow> case perform_all as c' of (bs, c'') \<Rightarrow> ((a, b) # bs, c''))"

definition wins :: "(access \<Rightarrow> bool) \<Rightarrow> (access \<times> bool) list \<Rightarrow> nat" where
  "wins P bs = length (filter (\<lambda>(a, b). P a \<and> b) bs)"

abbreviation finishing :: "access \<Rightarrow> bool" where
  "finishing a \<equiv> a = Try_Finish"

abbreviation canceling :: "access \<Rightarrow> bool" where
  "canceling a \<equiv> a = Mark_Canceled \<or> a = Cancel"

lemmas access_defs = tryFinish_def markCanceled_def RequestContext_cancel_def setStreamId_def setTimerId_def

lemma finish_wins:
  assumes "perform_all as c = (bs, c')"
  shows "wins finishing bs = (if Try_Finish \<in> set as \<and> \<not> finished_flag c then 1 else 0) \<and>
    finished_flag c' = (finished_flag c \<or> Try_Finish \<in> set as)"
  using assms
proof (induction as arbitrary: c bs c')
  case (Cons a as)
  obtain b c1 where a: "perform a c = (b, c1)" by fastforce
  obtain bs1 c2 where rest: "perform_all as c1 = (bs1, c2)" by fastforce
  have out: "bs = (a, b) # bs1" "c' = c2" using Cons.prems a rest by auto
  have step: "finished_flag c1 = (finished_flag c \<or> a = Try_Finish)" "a = Try_Finish \<Longrightarrow> b = (\<not> finished_flag c)"
    using a by (cases a; auto simp: access_defs Let_def split: if_splits)+
  show ?case using Cons.IH [OF rest] step by (auto simp: out wins_def)
qed (auto simp: wins_def)

lemma cancel_wins:
  assumes "perform_all as c = (bs, c')"
  shows "wins canceling bs \<le> (if canceled_flag c then 0 else 1)"
  using assms
proof (induction as arbitrary: c bs c')
  case (Cons a as)
  obtain b c1 where a: "perform a c = (b, c1)" by fastforce
  obtain bs1 c2 where rest: "perform_all as c1 = (bs1, c2)" by fastforce
  have out: "bs = (a, b) # bs1" using Cons.prems a rest by auto
  have step: "canceled_flag c \<Longrightarrow> canceled_flag c1" "canceling a \<Longrightarrow> b \<Longrightarrow> \<not> canceled_flag c \<and> canceled_flag c1"
    using a by (cases a; auto simp: access_defs Let_def split: if_splits)+
  then show ?case using Cons.IH [OF rest] by (auto simp: out wins_def split: if_splits)
qed (auto simp: wins_def)

end
