(* ===== verification/Endpoint.thy ===== *)
theory Endpoint
  imports Messages
begin

text \<open>
  include/chttp2/endpoint.hpp: where a request goes, the equality that keys the connection pool
  and the hash that goes with it. \<open>std::hash\<close> is a parameter.
\<close>

datatype SocketType = TCP | UNIX

record Endpoint =
  ep_host :: string
  ep_port :: u16
  ep_useSSL :: bool
  ep_certFile :: string
  ep_ip :: string
  ep_sockFile :: string
  ep_type :: SocketType

definition Endpoint_new :: Endpoint where
  "Endpoint_new = \<lparr>ep_host = [], ep_port = 0, ep_useSSL = False, ep_certFile = [], ep_ip = [], ep_sockFile = [], ep_type = TCP\<rparr>"

definition ep_target :: "Endpoint \<Rightarrow> string" where
  "ep_target ep = (if ep_type ep = UNIX then ep_sockFile ep else if ep_host ep = [] then ep_ip ep else ep_host ep)"

definition ep_eq :: "Endpoint \<Rightarrow> Endpoint \<Rightarrow> bool" where
  "ep_eq a b =
     (if ep_type a \<noteq> ep_type b then False
      else if ep_type a = UNIX then ep_sockFile a = ep_sockFile b
      else ep_target a = ep_target b \<and> ep_port a = ep_port b \<and> ep_useSSL a = ep_useSSL b)"

definition hash_mix :: "u64 \<Rightarrow> u64 \<Rightarrow> u64" where
  "hash_mix h k = h XOR (k + 0x9e3779b9 + push_bit 6 h + drop_bit 2 h)"

definition EndpointHash ::
    "(string \<Rightarrow> u64) \<Rightarrow> (u16 \<Rightarrow> u64) \<Rightarrow> (bool \<Rightarrow> u64) \<Rightarrow> Endpoint \<Rightarrow> u64" where
  "EndpointHash hash_string hash_port hash_bool ep =
     (let h = hash_string (ep_target ep) in
      if ep_type ep = UNIX then h
      else hash_mix (hash_mix h (hash_port (ep_port ep))) (hash_bool (ep_useSSL ep)))"

text \<open>The equality is one, and the hash respects it, as \<open>std::unordered_map\<close> needs.\<close>

lemma ep_eq_equivalence: "ep_eq a a" "ep_eq a b \<Longrightarrow> ep_eq b a" "ep_eq a b \<Longrightarrow> ep_eq b c \<Longrightarrow> ep_eq a c"
  by (auto simp: ep_eq_def split: if_splits)

lemma EndpointHash_eq: "ep_eq a b \<Longrightarrow> EndpointHash hs hp hb a = EndpointHash hs hp hb b"
  by (auto simp: ep_eq_def EndpointHash_def ep_target_def Let_def split: if_splits)

end
