(* ===== verification/Transport.thy ===== *)
theory Transport
  imports Endpoint "HOL-Library.Multiset"
begin

text \<open>
  Sockets and byte streams: src/socket_fd.cpp, the classification of errors in
  include/chttp2/platform.hpp, src/connector.cpp and src/stream_transport.cpp. The operating
  system and OpenSSL are parameters: what a system call returned is an argument of
  the definition that makes the call, and the descriptors that are closed are part of its value.
\<close>

section \<open>Descriptors\<close>

type_synonym socket_t = int

definition INVALID_SOCKET :: socket_t where "INVALID_SOCKET = -1"

record SocketFd = rawFd :: socket_t

definition SocketFd_new :: SocketFd where "SocketFd_new = \<lparr>rawFd = INVALID_SOCKET\<rparr>"

definition SocketFd_valid :: "SocketFd \<Rightarrow> bool" where
  "SocketFd_valid s \<longleftrightarrow> rawFd s \<noteq> INVALID_SOCKET"

definition SocketFd_release :: "SocketFd \<Rightarrow> socket_t \<times> SocketFd" where
  "SocketFd_release s = (rawFd s, s\<lparr>rawFd := INVALID_SOCKET\<rparr>)"

text \<open>The first component lists the descriptors given to \<open>closeSocket\<close>.\<close>

definition SocketFd_reset :: "socket_t \<Rightarrow> SocketFd \<Rightarrow> socket_t list \<times> SocketFd" where
  "SocketFd_reset fd s = (if rawFd s \<noteq> INVALID_SOCKET then [rawFd s] else [], s\<lparr>rawFd := fd\<rparr>)"

definition SocketFd_move :: "SocketFd \<Rightarrow> SocketFd \<times> SocketFd" where
  "SocketFd_move other = (case SocketFd_release other of (fd, other) \<Rightarrow> (\<lparr>rawFd = fd\<rparr>, other))"

definition SocketFd_assign :: "SocketFd \<Rightarrow> SocketFd \<Rightarrow> socket_t list \<times> SocketFd \<times> SocketFd" where
  "SocketFd_assign s other =
     (case SocketFd_release other of (fd, other) \<Rightarrow>
      case SocketFd_reset fd s of (closing, s) \<Rightarrow> (closing, s, other))"

text \<open>A call that is not made on an invalid descriptor fails at once.\<close>

definition SocketFd_guard :: "bool \<Rightarrow> SocketFd \<Rightarrow> bool" where
  "SocketFd_guard result s = (if \<not> SocketFd_valid s then False else result)"

definition SocketFd_io :: "int \<Rightarrow> SocketFd \<Rightarrow> int" where
  "SocketFd_io result s = (if \<not> SocketFd_valid s then -1 else result)"

section \<open>Errors of the system\<close>

datatype sock_errno =
    EAGAIN | EWOULDBLOCK | EPIPE | ECONNRESET | EINPROGRESS | EINTR | ETIMEDOUT | E_OTHER int

definition isWouldBlock :: "sock_errno \<Rightarrow> bool" where
  "isWouldBlock err \<longleftrightarrow> err = EAGAIN \<or> err = EWOULDBLOCK"

definition isConnectionReset :: "sock_errno \<Rightarrow> bool" where
  "isConnectionReset err \<longleftrightarrow> err = EPIPE \<or> err = ECONNRESET"

definition isInProgress :: "sock_errno \<Rightarrow> bool" where
  "isInProgress err \<longleftrightarrow> err = EINPROGRESS"

definition isInterrupted :: "sock_errno \<Rightarrow> bool" where
  "isInterrupted err \<longleftrightarrow> err = EINTR"

definition isTimedOut :: "sock_errno \<Rightarrow> bool" where
  "isTimedOut err \<longleftrightarrow> err = ETIMEDOUT"

text \<open>
  \<open>poll\<close> is repeated while a signal interrupts it; the argument lists what the calls return.
  \<open>None\<close>: the signals never stop.
\<close>

fun pollForWrite :: "(int \<times> sock_errno) list \<Rightarrow> int option" where
  "pollForWrite [] = None"
| "pollForWrite ((ret, err) # calls) =
     (if ret < 0 then if isInterrupted err then pollForWrite calls else Some (-1)
      else Some ret)"

section \<open>Connecting\<close>

text \<open>
  What the system answers to one attempt: the descriptor of \<open>socket\<close>, the value and error
  of \<open>connect\<close>, the milliseconds left when the loop looks at the clock, the value of \<open>pollForWrite\<close> with the error it leaves,
  whether \<open>getsockopt\<close> works, and the error it stores (\<open>None\<close>: zero).
\<close>

record attempt =
  at_fd :: socket_t
  at_connect :: int
  at_connectErr :: sock_errno
  at_left :: int
  at_poll :: int
  at_pollErr :: sock_errno
  at_getsockopt :: bool
  at_sockErr :: "sock_errno option"

text \<open>Success, and the last error of the thread. Every path leaves the loop in its first iteration.\<close>

definition connectWithTimeout :: "attempt \<Rightarrow> int \<Rightarrow> bool \<times> sock_errno" where
  "connectWithTimeout a timeoutMs =
     (if at_connect a = 0 then (True, at_connectErr a)
      else if \<not> isInProgress (at_connectErr a) then (False, at_connectErr a)
      else if 0 < timeoutMs \<and> at_left a \<le> 0 then (False, ETIMEDOUT)
      else if at_poll a < 0 then (False, at_pollErr a)
      else if at_poll a = 0 then (False, ETIMEDOUT)
      else if \<not> at_getsockopt a then (False, at_pollErr a)
      else case at_sockErr a of Some err \<Rightarrow> (False, err) | None \<Rightarrow> (True, at_pollErr a))"

text \<open>
  The value: the descriptors that were opened and those that were closed on the way, and the
  exception or the connected socket.
\<close>

type_synonym connect_result = "socket_t list \<times> socket_t list \<times> SocketFd cpp"

definition connectIp :: "bool \<Rightarrow> attempt \<Rightarrow> int \<Rightarrow> connect_result" where
  "connectIp resolved a timeoutMs =
     (if \<not> resolved then ([], [], Inl (RuntimeError ''Invalid IP address''))
      else if at_fd a = INVALID_SOCKET then ([], [], Inl (RuntimeError ''Failed to create socket''))
      else case connectWithTimeout a timeoutMs of (ok, err) \<Rightarrow>
        if \<not> ok
        then ([at_fd a], [at_fd a], Inl (RuntimeError (if isTimedOut err then ''Connect timeout'' else ''Failed to connect'')))
        else ([at_fd a], [], Inr \<lparr>rawFd = at_fd a\<rparr>))"

text \<open>
  The loop over the addresses: before each, what is left of the time; an address without a
  socket is skipped. The text of the last error is left out of the exception.
\<close>

fun connect_each :: "(int \<times> attempt) list \<Rightarrow> int \<Rightarrow> connect_result" where
  "connect_each [] timeoutMs = ([], [], Inl (RuntimeError ''Failed to connect''))"
| "connect_each ((left, a) # as) timeoutMs =
     (if 0 < timeoutMs \<and> left \<le> 0 then ([], [], Inl (RuntimeError ''Failed to connect''))
      else let remaining = (if 0 < timeoutMs then left else -1) in
        if at_fd a = INVALID_SOCKET then connect_each as timeoutMs
        else if fst (connectWithTimeout a remaining) then ([at_fd a], [], Inr \<lparr>rawFd = at_fd a\<rparr>)
        else case connect_each as timeoutMs of (opening, closing, r) \<Rightarrow> (at_fd a # opening, at_fd a # closing, r))"

definition connectDomain :: "bool \<Rightarrow> (int \<times> attempt) list \<Rightarrow> int \<Rightarrow> connect_result" where
  "connectDomain resolved as timeoutMs =
     (if \<not> resolved then ([], [], Inl (RuntimeError ''Failed to resolve domain''))
      else connect_each as timeoutMs)"

definition connectUnix :: "attempt \<Rightarrow> int \<Rightarrow> connect_result" where
  "connectUnix a timeoutMs =
     (if at_fd a = INVALID_SOCKET then ([], [], Inl (RuntimeError ''Failed to create unix socket''))
      else case connectWithTimeout a timeoutMs of (ok, err) \<Rightarrow>
        if \<not> ok
        then ([at_fd a], [at_fd a],
              Inl (RuntimeError (if isTimedOut err then ''Connect timeout'' else ''Failed to connect unix socket'')))
        else ([at_fd a], [], Inr \<lparr>rawFd = at_fd a\<rparr>))"

text \<open>Every descriptor that was opened is closed again or handed out, once.\<close>

definition balanced :: "connect_result \<Rightarrow> bool" where
  "balanced res \<longleftrightarrow> (case res of (opening, closing, r) \<Rightarrow>
     mset opening = mset closing + (case r of Inl _ \<Rightarrow> {#} | Inr s \<Rightarrow> {#rawFd s#}) \<and>
     (case r of Inl _ \<Rightarrow> True | Inr s \<Rightarrow> SocketFd_valid s))"

lemma connect_each_balanced: "balanced (connect_each as timeoutMs)"
  by (induction as timeoutMs rule: connect_each.induct)
     (auto simp: balanced_def Let_def SocketFd_valid_def split: prod.splits sum.splits)

lemma connect_balanced:
  "balanced (connectIp resolved a timeoutMs)" "balanced (connectDomain resolved as timeoutMs)" "balanced (connectUnix a timeoutMs)"
  using connect_each_balanced [of as timeoutMs]
  by (auto simp: connectIp_def connectDomain_def connectUnix_def balanced_def SocketFd_valid_def split: prod.splits)

section \<open>Plain transport\<close>

datatype IOState = IO_OK | IO_WOULD_BLOCK | IO_CLOSED | IO_ERR

record IOResult =
  io_state :: IOState
  io_bytes :: nat

definition io :: "IOState \<Rightarrow> nat \<Rightarrow> IOResult" where
  "io st n = \<lparr>io_state = st, io_bytes = n\<rparr>"

record TcpStreamTransport =
  tcp_socket :: SocketFd
  tcp_ready :: bool

definition TcpStreamTransport_new :: "SocketFd \<Rightarrow> TcpStreamTransport" where
  "TcpStreamTransport_new s = \<lparr>tcp_socket = s, tcp_ready = False\<rparr>"

text \<open>The keep-alive parameters (idle, interval, count) that are set, if they are.\<close>

definition keepAliveParams :: "int \<Rightarrow> (int \<times> int \<times> int) option" where
  "keepAliveParams keepAlive =
     (if 0 < keepAlive then Some (keepAlive, max (keepAlive div 6) 1, 3) else None)"

definition Tcp_init :: "bool \<Rightarrow> int \<Rightarrow> TcpStreamTransport \<Rightarrow> bool \<times> (int \<times> int \<times> int) option \<times> TcpStreamTransport" where
  "Tcp_init nonBlocking keepAlive t =
     (if \<not> SocketFd_valid (tcp_socket t) then (False, None, t\<lparr>tcp_ready := False\<rparr>)
      else if \<not> SocketFd_guard nonBlocking (tcp_socket t) then (False, None, t\<lparr>tcp_ready := False\<rparr>)
      else (True, keepAliveParams keepAlive, t\<lparr>tcp_ready := True\<rparr>))"

text \<open>\<open>ret\<close> and \<open>err\<close> are the value of \<open>send\<close> or \<open>recv\<close> and the error it leaves; both methods classify them alike.\<close>

definition Tcp_io :: "int \<Rightarrow> sock_errno \<Rightarrow> nat \<Rightarrow> TcpStreamTransport \<Rightarrow> IOResult" where
  "Tcp_io ret err len t =
     (if \<not> tcp_ready t then io IO_ERR 0
      else if len = 0 then io IO_OK 0
      else let ret = SocketFd_io ret (tcp_socket t) in
        if 0 < ret then io IO_OK (nat ret)
        else if ret = 0 then io IO_CLOSED 0
        else if isWouldBlock err then io IO_WOULD_BLOCK 0
        else if isConnectionReset err then io IO_CLOSED 0
        else io IO_ERR 0)"

abbreviation Tcp_writeSome :: "int \<Rightarrow> sock_errno \<Rightarrow> nat \<Rightarrow> TcpStreamTransport \<Rightarrow> IOResult" where
  "Tcp_writeSome \<equiv> Tcp_io"

abbreviation Tcp_readSome :: "int \<Rightarrow> sock_errno \<Rightarrow> nat \<Rightarrow> TcpStreamTransport \<Rightarrow> IOResult" where
  "Tcp_readSome \<equiv> Tcp_io"

text \<open>The descriptors closed by \<open>close\<close>, each shut down first.\<close>

definition Tcp_close :: "TcpStreamTransport \<Rightarrow> socket_t list \<times> TcpStreamTransport" where
  "Tcp_close t =
     (let t = t\<lparr>tcp_ready := False\<rparr> in
      if \<not> SocketFd_valid (tcp_socket t) then ([], t)
      else case SocketFd_reset INVALID_SOCKET (tcp_socket t) of (closing, s) \<Rightarrow> (closing, t\<lparr>tcp_socket := s\<rparr>))"

section \<open>Transport over TLS\<close>

datatype ssl_error = SSL_ERROR_WANT_READ | SSL_ERROR_WANT_WRITE | SSL_ERROR_ZERO_RETURN | SSL_ERROR_OTHER int

record TlsStreamTransport =
  tls_socket :: SocketFd
  tls_domain :: string
  tls_certFile :: string
  tls_customCert :: bool
  tls_ready :: bool
  tls_ssl :: bool
  tls_ctx :: bool

definition TlsStreamTransport_new :: "SocketFd \<Rightarrow> string \<Rightarrow> string \<Rightarrow> TlsStreamTransport" where
  "TlsStreamTransport_new s domain cert =
     \<lparr>tls_socket = s, tls_domain = domain, tls_certFile = cert, tls_customCert = (cert \<noteq> []), tls_ready = False,
      tls_ssl = False, tls_ctx = False\<rparr>"

text \<open>
  What OpenSSL answers during \<open>init\<close>; \<open>ssl_handshake\<close> lists the errors of the handshake calls
  before the first that succeeds.
\<close>

record ssl_answers =
  ssl_nonBlocking :: bool
  ssl_ctx_new :: bool
  ssl_load_verify :: bool
  ssl_default_paths :: bool
  ssl_min_version :: bool
  ssl_set_alpn :: bool
  ssl_new :: bool
  ssl_bio :: bool
  ssl_host_name :: bool
  ssl_set_host :: bool
  ssl_handshake :: "ssl_error list"
  ssl_verified :: bool
  ssl_alpn :: string

fun handshake_ok :: "ssl_error list \<Rightarrow> bool" where
  "handshake_ok [] = True"
| "handshake_ok (err # errs) =
     (if err = SSL_ERROR_WANT_READ \<or> err = SSL_ERROR_WANT_WRITE then handshake_ok errs else False)"

definition Tls_init :: "ssl_answers \<Rightarrow> int \<Rightarrow> TlsStreamTransport \<Rightarrow> bool \<times> (int \<times> int \<times> int) option \<times> TlsStreamTransport" where
  "Tls_init w keepAlive t =
     (let failed = (\<lambda>params t. (False, params, t\<lparr>tls_ready := False\<rparr>)) in
      if \<not> SocketFd_valid (tls_socket t) then failed None t
      else if \<not> SocketFd_guard (ssl_nonBlocking w) (tls_socket t) then failed None t
      else let params = keepAliveParams keepAlive in
        if \<not> ssl_ctx_new w then failed params (t\<lparr>tls_ctx := False\<rparr>)
        else let t = t\<lparr>tls_ctx := True\<rparr> in
          if (if tls_customCert t then \<not> ssl_load_verify w else \<not> ssl_default_paths w) then failed params t
          else if \<not> ssl_min_version w then failed params t
          else if \<not> ssl_set_alpn w then failed params t
          else if \<not> ssl_new w then failed params (t\<lparr>tls_ssl := False\<rparr>)
          else let t = t\<lparr>tls_ssl := True\<rparr> in
            if \<not> ssl_bio w then failed params t
            else if tls_domain t \<noteq> [] \<and> (\<not> ssl_host_name w \<or> \<not> ssl_set_host w) then failed params t
            else if \<not> handshake_ok (ssl_handshake w) then failed params t
            else if \<not> ssl_verified w then failed params t
            else if ssl_alpn w \<noteq> ''h2'' then failed params t
            else (True, params, t\<lparr>tls_ready := True\<rparr>))"

definition Tls_io :: "int \<Rightarrow> ssl_error \<Rightarrow> nat \<Rightarrow> TlsStreamTransport \<Rightarrow> IOResult" where
  "Tls_io ret err len t =
     (if \<not> tls_ready t \<or> \<not> tls_ssl t then io IO_ERR 0
      else if len = 0 then io IO_OK 0
      else if 0 < ret then io IO_OK (nat ret)
      else if err = SSL_ERROR_WANT_READ \<or> err = SSL_ERROR_WANT_WRITE then io IO_WOULD_BLOCK 0
      else if err = SSL_ERROR_ZERO_RETURN then io IO_CLOSED 0
      else io IO_ERR 0)"

abbreviation Tls_writeSome :: "int \<Rightarrow> ssl_error \<Rightarrow> nat \<Rightarrow> TlsStreamTransport \<Rightarrow> IOResult" where
  "Tls_writeSome \<equiv> Tls_io"

abbreviation Tls_readSome :: "int \<Rightarrow> ssl_error \<Rightarrow> nat \<Rightarrow> TlsStreamTransport \<Rightarrow> IOResult" where
  "Tls_readSome \<equiv> Tls_io"

text \<open>What \<open>close\<close> frees (the connection, the context) and the descriptors it closes.\<close>

definition Tls_close :: "TlsStreamTransport \<Rightarrow> (bool \<times> bool \<times> socket_t list) \<times> TlsStreamTransport" where
  "Tls_close t =
     (let freed_ssl = tls_ssl t; freed_ctx = tls_ctx t;
          t = t\<lparr>tls_ready := False, tls_ssl := False, tls_ctx := False\<rparr> in
      if \<not> SocketFd_valid (tls_socket t) then ((freed_ssl, freed_ctx, []), t)
      else case SocketFd_reset INVALID_SOCKET (tls_socket t) of (closing, s) \<Rightarrow>
        ((freed_ssl, freed_ctx, closing), t\<lparr>tls_socket := s\<rparr>))"

section \<open>Choosing a transport\<close>

datatype connect_call = Connect_Unix string | Connect_Ip string u16 | Connect_Domain string u16

definition connect_of :: "Endpoint \<Rightarrow> connect_call cpp" where
  "connect_of ep =
     (if ep_type ep = UNIX then Inr (Connect_Unix (ep_sockFile ep))
      else if ep_ip ep \<noteq> [] then Inr (Connect_Ip (ep_ip ep) (ep_port ep))
      else if ep_host ep \<noteq> [] then Inr (Connect_Domain (ep_host ep) (ep_port ep))
      else Inl (InvalidArgument ''Missing endpoint for stream transport''))"

datatype IStreamTransport = Tcp_Transport TcpStreamTransport | Tls_Transport TlsStreamTransport

text \<open>The connector's answer to the call is the argument.\<close>

definition StreamTransportFactory_create :: "(connect_call \<Rightarrow> SocketFd cpp) \<Rightarrow> Endpoint \<Rightarrow> IStreamTransport cpp" where
  "StreamTransportFactory_create connector ep =
     cpp_bind (connect_of ep) (\<lambda>call. cpp_bind (connector call) (\<lambda>s.
       if ep_useSSL ep then Inr (Tls_Transport (TlsStreamTransport_new s (ep_host ep) (ep_certFile ep)))
       else Inr (Tcp_Transport (TcpStreamTransport_new s))))"

definition transport_fd :: "IStreamTransport \<Rightarrow> socket_t" where
  "transport_fd t = (case t of Tcp_Transport t \<Rightarrow> rawFd (tcp_socket t) | Tls_Transport t \<Rightarrow> rawFd (tls_socket t))"

definition transport_close :: "IStreamTransport \<Rightarrow> IStreamTransport" where
  "transport_close t = (case t of Tcp_Transport t \<Rightarrow> Tcp_Transport (snd (Tcp_close t)) | Tls_Transport t \<Rightarrow> Tls_Transport (snd (Tls_close t)))"

definition transport_ready :: "IStreamTransport \<Rightarrow> bool" where
  "transport_ready t = (case t of Tcp_Transport t \<Rightarrow> tcp_ready t | Tls_Transport t \<Rightarrow> tls_ready t)"

text \<open>What the system answers to one read or write, for either transport, and the bytes read.\<close>

record sys_answer =
  sa_ret :: int
  sa_errno :: sock_errno
  sa_ssl :: ssl_error

definition transport_io :: "sys_answer \<Rightarrow> nat \<Rightarrow> IStreamTransport \<Rightarrow> IOResult" where
  "transport_io a len t = (case t of
     Tcp_Transport t \<Rightarrow> Tcp_io (sa_ret a) (sa_errno a) len t
   | Tls_Transport t \<Rightarrow> Tls_io (sa_ret a) (sa_ssl a) len t)"

definition transport_init :: "ssl_answers \<Rightarrow> int \<Rightarrow> IStreamTransport \<Rightarrow> bool \<times> IStreamTransport" where
  "transport_init w keepAlive t = (case t of
     Tcp_Transport t \<Rightarrow> (case Tcp_init (ssl_nonBlocking w) keepAlive t of (ok, _, t) \<Rightarrow> (ok, Tcp_Transport t))
   | Tls_Transport t \<Rightarrow> (case Tls_init w keepAlive t of (ok, _, t) \<Rightarrow> (ok, Tls_Transport t)))"

lemma transport_io_bounds:
  assumes "sa_ret a \<le> int len"
  shows "io_bytes (transport_io a len t) \<le> len"
    and "0 < len \<Longrightarrow> io_state (transport_io a len t) = IO_OK \<longleftrightarrow> 0 < io_bytes (transport_io a len t)"
  using assms
  by (auto simp: transport_io_def Tcp_io_def Tls_io_def io_def Let_def SocketFd_io_def split: IStreamTransport.splits)

text \<open>A closed transport has no descriptor, and no byte moves on it any more.\<close>

lemma close_closes:
  "rawFd (tcp_socket (snd (Tcp_close t))) = INVALID_SOCKET" "\<not> tcp_ready (snd (Tcp_close t))"
  "rawFd (tls_socket (snd (Tls_close u))) = INVALID_SOCKET" "\<not> tls_ready (snd (Tls_close u))"
  by (simp_all add: Tcp_close_def Tls_close_def Let_def SocketFd_valid_def SocketFd_reset_def)

lemma transport_close_closes:
  "transport_fd (transport_close t) = INVALID_SOCKET" "\<not> transport_ready (transport_close t)"
  "transport_io a len (transport_close t) = io IO_ERR 0"
  by (cases t; simp add: transport_fd_def transport_ready_def transport_io_def transport_close_def close_closes Tcp_io_def Tls_io_def)+

end
