(* ===== verification/Session.thy ===== *)
theory Session
  imports Protocol Request_Context Transport
begin

text \<open>
  src/http2_session.cpp: a session owns the protocol state and the transport, queues the bytes to
  send, and maps streams to the requests waiting for them. Each method takes the object and returns it changed together with the
  \<open>SessionEvent\<close>s. What the system answers to the reads and writes of one call is a list: once
  it is used up, the next call would block. \<open>streamContexts\<close> is the list of its entries in the
  table's order; where a new entry goes is the parameter \<open>corder\<close>. The read of a context's flags in
  \<open>submit\<close> uses the store the call is given: nothing before it depends on them, so a flag that another
  thread sets during the call is one set before it.
\<close>

datatype SessionEvent = REQUEST_DONE ctx Response | SESSION_CLOSING | SESSION_DEAD | PING_ACK

record OutboundChunk =
  ch_data :: "u8 list"
  ch_offset :: nat

record Http2Session =
  ss_endpoint :: Endpoint
  ss_config :: ClientConfig
  ss_protocol :: Http2Protocol
  ss_transport :: "IStreamTransport option"
  ss_outbound :: "OutboundChunk list"
  ss_started :: bool
  ss_healthy :: bool
  ss_goingAway :: bool
  streamContexts :: "(StreamId \<times> ctx) list"

definition Http2Session_new :: "Endpoint \<Rightarrow> ClientConfig \<Rightarrow> Http2Session" where
  "Http2Session_new ep cfg =
     \<lparr>ss_endpoint = ep, ss_config = cfg, ss_protocol = Http2Protocol_new cfg, ss_transport = None, ss_outbound = [],
      ss_started = False, ss_healthy = False, ss_goingAway = False, streamContexts = []\<rparr>"

section \<open>Helpers\<close>

definition enqueueOutbound :: "u8 list \<Rightarrow> Http2Session \<Rightarrow> Http2Session" where
  "enqueueOutbound data s = s\<lparr>ss_outbound := ss_outbound s @ [\<lparr>ch_data = data, ch_offset = 0\<rparr>]\<rparr>"

definition consumeStepResult :: "ProtocolStepResult \<Rightarrow> Http2Session \<Rightarrow> ProtocolEvent list \<times> Http2Session" where
  "consumeStepResult result s = (events result, fold enqueueOutbound (outbound result) s)"

definition Session_failAllStreams :: "Response \<Rightarrow> Http2Session \<Rightarrow> SessionEvent list \<times> Http2Session" where
  "Session_failAllStreams response s =
     (map (\<lambda>(sid, c). REQUEST_DONE c response) (streamContexts s), s\<lparr>streamContexts := []\<rparr>)"

definition context_at :: "StreamId \<Rightarrow> Http2Session \<Rightarrow> ctx option" where
  "context_at sid s = map_of (streamContexts s) sid"

definition erase_context :: "StreamId \<Rightarrow> Http2Session \<Rightarrow> Http2Session" where
  "erase_context sid s = s\<lparr>streamContexts := filter (\<lambda>(k, c). k \<noteq> sid) (streamContexts s)\<rparr>"

definition put_context ::
    "((StreamId \<times> ctx) list \<Rightarrow> (StreamId \<times> ctx) list) \<Rightarrow> StreamId \<Rightarrow> ctx \<Rightarrow> Http2Session \<Rightarrow> Http2Session" where
  "put_context corder sid c s =
     s\<lparr>streamContexts :=
         (if context_at sid s = None then corder ((sid, c) # streamContexts s)
          else map (\<lambda>(k, d). if k = sid then (k, c) else (k, d)) (streamContexts s))\<rparr>"

text \<open>The entry found for the stream is answered and erased.\<close>

definition answer_context :: "StreamId \<Rightarrow> Response \<Rightarrow> Http2Session \<Rightarrow> SessionEvent list \<times> Http2Session" where
  "answer_context sid response s =
     (case context_at sid s of
        None \<Rightarrow> ([], s)
      | Some c \<Rightarrow> ([REQUEST_DONE c response], erase_context sid s))"

definition translateEvent :: "ProtocolEvent \<Rightarrow> Http2Session \<Rightarrow> SessionEvent list \<times> Http2Session" where
  "translateEvent pe s =
     (case pe of
        EV_RESPONSE_COMPLETED sid response \<Rightarrow> answer_context sid response s
      | EV_RESPONSE_FAILED sid e \<Rightarrow>
          answer_context sid (protocolError e (''errorCode='' @ to_string (unat (ec_value e)))) s
      | EV_GOAWAY_RECEIVED lastStreamId e debug \<Rightarrow> ([SESSION_CLOSING], s\<lparr>ss_goingAway := True\<rparr>)
      | EV_PING_ACK_RECEIVED data \<Rightarrow> ([PING_ACK], s)
      | _ \<Rightarrow>
          if (case pe of EV_CONNECTION_ERROR _ \<Rightarrow> True | EV_CONNECTION_CLOSED _ \<Rightarrow> True | EV_TRANSPORT_CLOSED \<Rightarrow> True | _ \<Rightarrow> False)
          then let (failEvents, s) = Session_failAllStreams (failConnectionError ''Connection lost'') (s\<lparr>ss_healthy := False\<rparr>)
               in (failEvents @ [SESSION_DEAD], s)
          else ([], s))"

fun translateEvents :: "ProtocolEvent list \<Rightarrow> Http2Session \<Rightarrow> SessionEvent list \<times> Http2Session" where
  "translateEvents [] s = ([], s)"
| "translateEvents (pe # pes) s =
     (case translateEvent pe s of (es, s) \<Rightarrow> case translateEvents pes s of (es', s) \<Rightarrow> (es @ es', s))"

definition Session_isHealthy :: "Http2Session \<Rightarrow> bool" where
  "Session_isHealthy s \<longleftrightarrow> ss_started s \<and> ss_healthy s \<and> \<not> closed (ss_protocol s)"

definition Session_isGoingAway :: "Http2Session \<Rightarrow> bool" where
  "Session_isGoingAway s \<longleftrightarrow> ss_goingAway s"

definition Session_activeStreamCount :: "Http2Session \<Rightarrow> nat" where
  "Session_activeStreamCount s = length (streams (ss_protocol s))"

definition Session_hasStreamCapacity :: "Http2Session \<Rightarrow> bool" where
  "Session_hasStreamCapacity s \<longleftrightarrow> Session_activeStreamCount s < unat (maxConcurrentStreams (ss_protocol s))"

definition Session_pollFd :: "Http2Session \<Rightarrow> socket_t" where
  "Session_pollFd s = (case ss_transport s of None \<Rightarrow> INVALID_SOCKET | Some t \<Rightarrow> transport_fd t)"

definition Session_wantsWrite :: "Http2Session \<Rightarrow> bool" where
  "Session_wantsWrite s \<longleftrightarrow> ss_outbound s \<noteq> []"

definition handleTransportFailure :: "Http2Session \<Rightarrow> SessionEvent list \<times> Http2Session" where
  "handleTransportFailure s =
     (if \<not> ss_healthy s then ([], s)
      else let s = s\<lparr>ss_healthy := False\<rparr>;
               (p, result) = onTransportClosed (ss_protocol s);
               (discarded, s) = consumeStepResult result (s\<lparr>ss_protocol := p\<rparr>);
               s = s\<lparr>ss_outbound := [], ss_transport := map_option transport_close (ss_transport s)\<rparr>;
               (es, s) = Session_failAllStreams (failConnectionError ''Connection lost'') s
           in (es @ [SESSION_DEAD], s))"

section \<open>The life of a session\<close>

definition Session_start ::
    "(connect_call \<Rightarrow> SocketFd cpp) \<Rightarrow> ssl_answers \<Rightarrow> Http2Session \<Rightarrow> bool \<times> Http2Session" where
  "Session_start connector w s =
     (if ss_started s then (True, s)
      else case StreamTransportFactory_create connector (ss_endpoint s) of
        Inl e \<Rightarrow> (False, s)
      | Inr t \<Rightarrow> (case transport_init w (keepAliveSec (ss_config s)) t of (ok, t) \<Rightarrow>
          let s = s\<lparr>ss_transport := Some t\<rparr> in
          if \<not> ok then (False, s)
          else let (p, result) = protocol_start (ss_protocol s);
                   (discarded, s) = consumeStepResult result (s\<lparr>ss_protocol := p\<rparr>)
               in (True, s\<lparr>ss_started := True, ss_healthy := True\<rparr>)))"

definition Session_close :: "Http2Session \<Rightarrow> SessionEvent list \<times> Http2Session" where
  "Session_close s =
     (if \<not> ss_started s then ([], s)
      else let s = s\<lparr>ss_started := False, ss_healthy := False, ss_goingAway := False\<rparr>;
               (p, result) = protocol_close (ss_protocol s);
               (discarded, s) = consumeStepResult result (s\<lparr>ss_protocol := p\<rparr>);
               s = s\<lparr>ss_outbound := [], ss_transport := None\<rparr>
           in Session_failAllStreams (failConnectionError ''Connection closed'') s)"

section \<open>Requests\<close>

text \<open>The answer to a request that is canceled while it is in flight; \<open>cancelStream\<close> is called first.\<close>

definition cancel_stream_of :: "StreamId \<Rightarrow> Http2Session \<Rightarrow> SessionEvent list \<times> Http2Session" where
  "cancel_stream_of sid s =
     (let (p, result) = cancelStream sid EC_CANCEL (ss_protocol s);
          (pes, s) = consumeStepResult result (s\<lparr>ss_protocol := p\<rparr>);
          (es, s) = translateEvents pes s;
          (es', s) = answer_context sid (customError ''Request canceled'') s
      in (es @ es', s))"

definition Session_submit ::
    "((StreamId \<times> Stream) list \<Rightarrow> (StreamId \<times> Stream) list) \<Rightarrow> ((StreamId \<times> ctx) list \<Rightarrow> (StreamId \<times> ctx) list) \<Rightarrow>
     Request \<Rightarrow> ctx \<Rightarrow> store \<Rightarrow> Http2Session \<Rightarrow> (SessionEvent list \<times> store \<times> Http2Session) cpp" where
  "Session_submit order corder request context h s =
     (if \<not> Session_isHealthy s
      then Inr ([REQUEST_DONE context (protocolError EC_REFUSED_STREAM ''Session not healthy'')], h, s)
      else cpp_bind (submitRequest order request (ss_protocol s)) (\<lambda>(p, result).
        let s = s\<lparr>ss_protocol := p\<rparr>;
            (sid, h, s) =
              (if hasSubmittedStream result
               then let sid = submittedStreamId result
                    in (sid, h(context := setStreamId sid (h context)), put_context corder sid context s)
               else (0, h, s));
            (pes, s) = consumeStepResult result s;
            (es, s) = translateEvents pes s
        in if sid \<noteq> 0 \<and> canceled_flag (h context) \<and> \<not> finished_flag (h context)
           then let (es', s) = cancel_stream_of sid s in Inr (es @ es', h, s)
           else Inr (es, h, s)))"

definition Session_cancelRequest :: "ctx option \<Rightarrow> store \<Rightarrow> Http2Session \<Rightarrow> SessionEvent list \<times> Http2Session" where
  "Session_cancelRequest context h s =
     (case context of
        None \<Rightarrow> ([], s)
      | Some c \<Rightarrow>
          let sid = ctx_streamId (h c) in
          if sid = 0 \<or> \<not> Session_isHealthy s then ([], s)
          else if context_at sid s = None then ([], s)
          else cancel_stream_of sid s)"

definition Session_sendPing :: "Http2Session \<Rightarrow> SessionEvent list \<times> Http2Session" where
  "Session_sendPing s =
     (if \<not> Session_isHealthy s then ([], s)
      else let (p, result) = sendPing (ss_protocol s)
           in ([], fold enqueueOutbound (outbound result) (s\<lparr>ss_protocol := p\<rparr>)))"

section \<open>Input and output\<close>

text \<open>
  The loop of \<open>onReadable\<close>: \<open>acc\<close> is \<open>sessionEvents\<close>. One answer of the system comes with the
  contents of the buffer.
\<close>

fun read_loop ::
    "(sys_answer \<times> u8 list) list \<Rightarrow> Http2Session \<Rightarrow> SessionEvent list \<Rightarrow> (SessionEvent list \<times> Http2Session) cpp" where
  "read_loop [] s acc = Inr (acc, s)"
| "read_loop ((a, buffer) # reads) s acc =
     (case ss_transport s of
        None \<Rightarrow> Inl (UndefinedBehaviour ''null transport'')
      | Some t \<Rightarrow>
          let result = transport_io a 8192 t in
          if io_state result = IO_WOULD_BLOCK then Inr (acc, s)
          else if io_state result = IO_CLOSED then Inr (handleTransportFailure s)
          else if io_state result = IO_ERR then Inr (handleTransportFailure s)
          else if io_bytes result = 0 then Inr (acc, s)
          else cpp_bind (receiveBytes (take (io_bytes result) buffer) (ss_protocol s)) (\<lambda>(p, r).
            let s = fold enqueueOutbound (outbound r) (s\<lparr>ss_protocol := p\<rparr>);
                (es, s) = translateEvents (events r) s
            in read_loop reads s (acc @ es)))"

definition Session_onReadable :: "(sys_answer \<times> u8 list) list \<Rightarrow> Http2Session \<Rightarrow> (SessionEvent list \<times> Http2Session) cpp" where
  "Session_onReadable reads s = (if \<not> Session_isHealthy s then Inr ([], s) else read_loop reads s [])"

text \<open>The loop of \<open>onWritable\<close>: the first component is what reached the transport.\<close>

function write_loop :: "sys_answer list \<Rightarrow> Http2Session \<Rightarrow> (u8 list \<times> Http2Session) cpp" where
  "write_loop writes s =
     (case ss_outbound s of
        [] \<Rightarrow> Inr ([], s)
      | chunk # chunks \<Rightarrow>
          let total = length (ch_data chunk) in
          if total \<le> ch_offset chunk then write_loop writes (s\<lparr>ss_outbound := chunks\<rparr>)
          else case ss_transport s of
            None \<Rightarrow> Inl (UndefinedBehaviour ''null transport'')
          | Some t \<Rightarrow> (case writes of
              [] \<Rightarrow> Inr ([], s)
            | a # writes \<Rightarrow>
                let result = transport_io a (total - ch_offset chunk) t in
                if io_state result = IO_WOULD_BLOCK then Inr ([], s)
                else if io_state result = IO_CLOSED \<or> io_state result = IO_ERR
                then Inr ([], snd (handleTransportFailure s))
                else let sent = take (io_bytes result) (drop (ch_offset chunk) (ch_data chunk));
                         chunk = chunk\<lparr>ch_offset := ch_offset chunk + io_bytes result\<rparr>;
                         s = s\<lparr>ss_outbound := (if total \<le> ch_offset chunk then chunks else chunk # chunks)\<rparr>
                     in cpp_bind (write_loop writes s) (\<lambda>(out, s). Inr (sent @ out, s))))"
  by pat_completeness auto
termination
  by (relation "measure (\<lambda>(writes, s). length writes + length (ss_outbound s))") auto

declare write_loop.simps [simp del]

definition Session_onWritable :: "sys_answer list \<Rightarrow> Http2Session \<Rightarrow> (u8 list \<times> Http2Session) cpp" where
  "Session_onWritable writes s = (if \<not> Session_isHealthy s then Inr ([], s) else write_loop writes s)"

end
