(* ===== verification/Protocol_Emit.thy ===== *)
theory Protocol_Emit
  imports Protocol
begin

text \<open>
  What a request looks like on the wire. \<open>header_frames\<close> and \<open>data_frames\<close> say which frames
  \<open>emitRequestHeaders\<close> and \<open>emitPendingRequestBody\<close> owe the peer: the block or body cut into
  chunks of the peer's maximal frame size, with the closing flag on the last one. The loops of
  the program produce exactly these frames, spend exactly their bytes from both send windows
  and stop where a window is used up.
\<close>

section \<open>Cutting bytes into frames\<close>

function chunks :: "nat \<Rightarrow> 'a list \<Rightarrow> 'a list list" where
  "chunks m bs = (if bs = [] \<or> m = 0 then [] else take m bs # chunks m (drop m bs))"
  by pat_completeness auto
termination
  by (relation "measure (\<lambda>(m, bs). length bs)") auto

declare chunks.simps [simp del]

fun mark_last :: "(bool \<Rightarrow> 'a \<Rightarrow> 'b) \<Rightarrow> bool \<Rightarrow> 'a list \<Rightarrow> 'b list" where
  "mark_last f fin [] = []"
| "mark_last f fin (x # xs) = f (fin \<and> xs = []) x # mark_last f fin xs"

definition plain_raw :: "FrameType \<Rightarrow> u8 \<Rightarrow> StreamId \<Rightarrow> u8 list \<Rightarrow> RawFrame" where
  "plain_raw t fl sid bs =
     \<lparr>rf_header = \<lparr>payloadLength = of_nat (length bs), ftype = t, flags = fl, streamId = sid\<rparr>, rf_data = bs\<rparr>"

definition data_frames :: "StreamId \<Rightarrow> nat \<Rightarrow> u8 list \<Rightarrow> bool \<Rightarrow> RawFrame list" where
  "data_frames sid m bs fin =
     mark_last (\<lambda>l. plain_raw FT_DATA (if l then ff_value FF_END_STREAM else 0) sid) fin (chunks m bs)"

definition continuation_frames :: "StreamId \<Rightarrow> nat \<Rightarrow> u8 list \<Rightarrow> RawFrame list" where
  "continuation_frames sid m bs =
     mark_last (\<lambda>l. plain_raw FT_CONTINUATION (if l then ff_value FF_END_HEADERS else 0) sid) True (chunks m bs)"

definition header_frames :: "StreamId \<Rightarrow> nat \<Rightarrow> u8 list \<Rightarrow> bool \<Rightarrow> RawFrame list" where
  "header_frames sid m bs noBody =
     plain_raw FT_HEADERS
       (if length bs \<le> m
        then ff_value FF_END_HEADERS OR (if noBody then ff_value FF_END_STREAM else 0) else 0)
       sid (take m bs)
     # continuation_frames sid m (drop m bs)"

lemma chunks_Nil [simp]: "chunks m [] = []"
  by (simp add: chunks.simps)

lemma chunks_step: "bs \<noteq> [] \<Longrightarrow> 0 < m \<Longrightarrow> chunks m bs = take m bs # chunks m (drop m bs)"
  by (subst chunks.simps) simp

lemma chunks_eq_Nil: "0 < m \<Longrightarrow> chunks m bs = [] \<longleftrightarrow> bs = []"
  by (subst chunks.simps) simp

lemma concat_chunks: "0 < m \<Longrightarrow> concat (chunks m bs) = bs"
  by (induction m bs rule: chunks.induct) (subst chunks.simps, simp)

lemma chunks_bounds: "c \<in> set (chunks m bs) \<Longrightarrow> 0 < length c \<and> length c \<le> m"
proof (induction m bs rule: chunks.induct)
  case (1 m bs)
  then show ?case by (subst (asm) (2) chunks.simps) (auto split: if_splits)
qed

lemma length_mark_last [simp]: "length (mark_last f fin xs) = length xs"
  by (induction xs) auto

lemma map_mark_last: "(\<And>l x. g (f l x) = h x) \<Longrightarrow> map g (mark_last f fin xs) = map h xs"
  by (induction xs) auto

lemma nth_mark_last: "i < length xs \<Longrightarrow> mark_last f fin xs ! i = f (fin \<and> Suc i = length xs) (xs ! i)"
  by (induction xs arbitrary: i) (auto simp: nth_Cons split: nat.split)

lemma set_mark_last: "x \<in> set (mark_last f fin xs) \<Longrightarrow> \<exists>l y. x = f l y \<and> y \<in> set xs"
  by (induction xs) auto

section \<open>The body\<close>

lemma OutFlow_available_bound: "OutFlow_wf f \<Longrightarrow> OutFlow_available f c \<le> INT32_MAX"
  using OutFlow_available_le(1) [of f c] by (simp add: OutFlow_wf_def)

lemma unat_min: "unat (min a b) = min (unat a) (unat b)" for a b :: "'a::len word"
  by (simp add: min_def word_le_nat_alt)

lemma body_chunk_value:
  assumes "OutFlow_wf (outflow s)"
  shows "unat (body_chunk mfs s conn) =
    min (min (unat mfs) (remainingBodySize s)) (nat (OutFlow_available (outflow s) (Some conn)))"
proof -
  let ?a = "OutFlow_available (outflow s) (Some conn)"
  have "min (unat mfs) (remainingBodySize s) < 2 ^ 32"
    using unsigned_less [of mfs, where 'a = nat] by (simp add: min_def)
  then have 1: "unat (of_nat (min (unat mfs) (remainingBodySize s)) :: u32) = min (unat mfs) (remainingBodySize s)"
    by (simp add: unat_of_nat take_bit_nat_eq_self)
  have "unat (word_of_int (max 0 ?a) :: u32) = nat (max 0 ?a)"
    using OutFlow_available_bound [OF assms, of "Some conn"] unfolding i32_bounds
    by (simp add: unat_eq_nat_uint uint_word_of_int)
  also have "nat (max 0 ?a) = nat ?a" by simp
  finally show ?thesis using 1 by (simp add: body_chunk_def unat_min)
qed

definition sent_body :: "nat \<Rightarrow> Stream \<Rightarrow> Stream" where
  "sent_body n s =
     (let s' = s\<lparr>outflow := (outflow s)\<lparr>of_window := of_window (outflow s) - int n\<rparr>,
                 requestBodyOffset := requestBodyOffset s + n\<rparr>
      in if 0 < n \<and> requestBodyOffset s + n = length (rq_body (rqst s))
         then s'\<lparr>localEndStreamSent := True\<rparr> else s')"

lemma sent_body_simps [simp]:
  "st_id (sent_body n s) = st_id s" "rqst (sent_body n s) = rqst s" "resp (sent_body n s) = resp s"
  "requestBodyOffset (sent_body n s) = requestBodyOffset s + n"
  "of_window (outflow (sent_body n s)) = of_window (outflow s) - int n"
  "inflow (sent_body n s) = inflow s" "st_state (sent_body n s) = st_state s"
  "remoteEndStreamReceived (sent_body n s) = remoteEndStreamReceived s"
  "finalResponseHeadersReceived (sent_body n s) = finalResponseHeadersReceived s"
  "responseComplete (sent_body n s) = responseComplete s"
  "receivedContentLength (sent_body n s) = receivedContentLength s"
  "pendingHeaderBlock (sent_body n s) = pendingHeaderBlock s"
  "waitingForContinuation (sent_body n s) = waitingForContinuation s"
  "localEndStreamSent (sent_body n s) =
     (localEndStreamSent s \<or> (0 < n \<and> requestBodyOffset s + n = length (rq_body (rqst s))))"
  by (simp_all add: sent_body_def Let_def)

definition spend :: "nat \<Rightarrow> OutFlow \<Rightarrow> OutFlow" where
  "spend n w = w\<lparr>of_window := of_window w - int n\<rparr>"

definition sendable :: "Stream \<Rightarrow> OutFlow \<Rightarrow> nat" where
  "sendable s conn =
     min (length (rq_body (rqst s)) - requestBodyOffset s)
         (nat (OutFlow_available (outflow s) (Some conn)))"

definition body_ok :: "Stream \<Rightarrow> bool" where
  "body_ok s \<longleftrightarrow> requestBodyOffset s \<le> length (rq_body (rqst s)) \<and> length (rq_body (rqst s)) < 2 ^ 64 \<and>
     OutFlow_wf (outflow s)"

lemma sendable_0: "sendable s conn = 0 \<Longrightarrow> sent_body 0 s = s \<and> spend 0 conn = conn"
  by (simp add: sent_body_def spend_def)

lemma DataFrame_plain:
  "DataFrame_toBytes ((DataFrame_new sid)\<lparr>df_header := h, df_data := d\<rparr>) = raw_bytes \<lparr>rf_header = h, rf_data = d\<rparr>"
  if "\<not> hasAnyFlag FF_PADDED h"
  using that by (simp add: DataFrame_toBytes_def raw_bytes_def)

lemma emit_body_loop_step:
  fixes mfs :: u32
  assumes "body_ok s" and "OutFlow_wf conn"
  defines "k \<equiv> min (unat mfs) (sendable s conn)"
  assumes "0 < k"
  shows "emit_body_loop mfs s conn r =
     emit_body_loop mfs (sent_body k s) (spend k conn)
       (appendOutboundFrame (raw_bytes (plain_raw FT_DATA
          (if requestBodyOffset s + k = length (rq_body (rqst s)) then ff_value FF_END_STREAM else 0) (st_id s)
          (bytes_of_string (take k (drop (requestBodyOffset s) (rq_body (rqst s))))))) r)"
proof -
  let ?b = "rq_body (rqst s)" and ?o = "requestBodyOffset s" and ?c = "body_chunk mfs s conn"
  have len: "?o \<le> length ?b" "length ?b < 2 ^ 64" using assms(1) by (simp_all add: body_ok_def)
  have rem: "remainingBodySize s = length ?b - ?o" using remainingBodySize_le [of s] len by simp
  have c: "unat ?c = k"
    using body_chunk_value [of s mfs conn] assms(1) by (simp add: k_def rem sendable_def body_ok_def min.assoc)
  then have "?c \<noteq> 0" using assms(4) by auto
  have kle: "k \<le> length ?b - ?o" "int k \<le> OutFlow_available (outflow s) (Some conn)"
    using assms(4) by (auto simp: k_def sendable_def)
  have avail: "OutFlow_available (outflow s) (Some conn) \<le> INT32_MAX"
    using OutFlow_available_bound assms(1) by (simp add: body_ok_def)
  then have "sint ?c = int k"
    using sint_u32_small [of ?c] c kle(2) by (simp add: uint_nat)
  then have tk: "OutFlow_take (sint ?c) (outflow s) (Some conn) =
      Inr ((outflow s)\<lparr>of_window := of_window (outflow s) - int k\<rparr>, Some (spend k conn))"
    using OutFlow_take_wf [of "outflow s" conn "int k"] assms(1,2) kle by (simp add: body_ok_def spend_def)
  let ?s = "s\<lparr>outflow := (outflow s)\<lparr>of_window := of_window (outflow s) - int k\<rparr>, requestBodyOffset := ?o + k\<rparr>"
  have rem': "remainingBodySize ?s = 0 \<longleftrightarrow> ?o + k = length ?b"
    using remainingBodySize_le [of ?s] kle len by auto
  have pl: "(of_nat k :: u32) = ?c" using c by auto
  have lk: "length (take k (drop ?o ?b)) = k" using kle by simp
  show ?thesis
    using \<open>?c \<noteq> 0\<close> assms(4) kle
    by (subst emit_body_loop.simps)
       (auto simp: Let_def rem c tk rem' sent_body_def setFlag_def FrameHeader_new_def DataFrame_plain
         hasAnyFlag_def plain_raw_def bytes_of_string_def pl)
qed


lemma sent_body_ok:
  assumes "body_ok s" and "OutFlow_wf conn" and "k \<le> sendable s conn"
  shows "body_ok (sent_body k s)" and "OutFlow_wf (spend k conn)"
    and "sendable (sent_body k s) (spend k conn) = sendable s conn - k"
    and "sent_body (sendable s conn - k) (sent_body k s) = sent_body (sendable s conn) s"
    and "spend (sendable s conn - k) (spend k conn) = spend (sendable s conn) conn"
proof -
  have le: "int k \<le> of_window (outflow s) \<or> k = 0" "int k \<le> of_window conn \<or> k = 0"
    using assms(3) OutFlow_available_le(1) [of "outflow s" "Some conn"] OutFlow_available_le(2) [of "outflow s" conn]
    by (auto simp: sendable_def)
  have kle: "k \<le> length (rq_body (rqst s)) - requestBodyOffset s" using assms(3) by (simp add: sendable_def)
  have len: "requestBodyOffset s \<le> length (rq_body (rqst s))" using assms(1) by (simp add: body_ok_def)
  show "body_ok (sent_body k s)" using assms(1) le(1) kle len by (auto simp: body_ok_def OutFlow_wf_def i32_bounds)
  show "OutFlow_wf (spend k conn)" using assms(2) le(2) by (auto simp: spend_def OutFlow_wf_def i32_bounds)
  have av: "OutFlow_available (outflow (sent_body k s)) (Some (spend k conn)) = OutFlow_available (outflow s) (Some conn) - int k"
    by (simp add: OutFlow_available_def spend_def)
  then have "nat (OutFlow_available (outflow (sent_body k s)) (Some (spend k conn))) = nat (OutFlow_available (outflow s) (Some conn)) - k"
    by linarith
  then show "sendable (sent_body k s) (spend k conn) = sendable s conn - k"
    by (simp add: sendable_def flip: min_diff)
  let ?n = "sendable s conn"
  have n: "k \<le> ?n" "?n \<le> length (rq_body (rqst s)) - requestBodyOffset s" using assms(3) by (simp_all add: sendable_def)
  then show "sent_body (?n - k) (sent_body k s) = sent_body ?n s"
    using len by (auto simp: sent_body_def Let_def)
  show "spend (?n - k) (spend k conn) = spend ?n conn" using n by (simp add: spend_def)
qed

lemma emit_body_loop_frames:
  assumes "0 < unat mfs" and "body_ok s" and "OutFlow_wf conn"
  shows "emit_body_loop mfs s conn r =
     Inr (sent_body (sendable s conn) s, spend (sendable s conn) conn,
          r\<lparr>outbound := outbound r @ map raw_bytes
             (data_frames (st_id s) (unat mfs)
                (bytes_of_string (take (sendable s conn) (drop (requestBodyOffset s) (rq_body (rqst s)))))
                (requestBodyOffset s + sendable s conn = length (rq_body (rqst s))))\<rparr>)"
  using assms
proof (induction "sendable s conn" arbitrary: s conn r rule: less_induct)
  case less
  let ?b = "rq_body (rqst s)" and ?o = "requestBodyOffset s" and ?n = "sendable s conn" and ?m = "unat mfs"
  define k where "k = min ?m ?n"
  show ?case
  proof (cases "?n = 0")
    case True
    have "unat (body_chunk mfs s conn) = 0"
      using body_chunk_value [of s mfs conn] True less(3) remainingBodySize_le [of s]
      by (simp add: sendable_def body_ok_def min.assoc)
    then have "emit_body_loop mfs s conn r = Inr (s, conn, r)"
      by (subst emit_body_loop.simps) (simp add: Let_def unat_eq_zero)
    then show ?thesis using sendable_0 [OF True] True by (simp add: data_frames_def bytes_of_string_def)
  next
    case False
    then have k: "0 < k" "k \<le> ?n" "k \<le> ?m" using less(2) by (auto simp: k_def)
    note ok = sent_body_ok [OF less(3,4) k(2)]
    let ?bs = "bytes_of_string (take ?n (drop ?o ?b))"
    have n: "?n \<le> length ?b - ?o" by (simp add: sendable_def)
    have tk: "take ?m ?bs = bytes_of_string (take k (drop ?o ?b))"
      by (simp add: bytes_of_string_def take_map k_def min.commute)
    have dk: "drop ?m ?bs = bytes_of_string (take (?n - k) (drop (?o + k) ?b))"
      using n by (auto simp: bytes_of_string_def drop_map drop_take k_def min_def add.commute)
    have "?bs \<noteq> []" using False n by (auto simp: bytes_of_string_def)
    then have ch: "chunks ?m ?bs = bytes_of_string (take k (drop ?o ?b)) # chunks ?m (bytes_of_string (take (?n - k) (drop (?o + k) ?b)))"
      using chunks_step [of ?bs ?m] less(2) tk dk by simp
    have last: "chunks ?m (bytes_of_string (take (?n - k) (drop (?o + k) ?b))) = [] \<longleftrightarrow> k = ?n"
      using less(2) k n by (auto simp: chunks_eq_Nil bytes_of_string_def)
    have fl: "(?o + ?n = length ?b \<and> k = ?n) \<longleftrightarrow> ?o + k = length ?b" using k n by auto
    have IH: "emit_body_loop mfs (sent_body k s) (spend k conn) r' =
       Inr (sent_body (?n - k) (sent_body k s), spend (?n - k) (spend k conn),
         r'\<lparr>outbound := outbound r' @ map raw_bytes (data_frames (st_id s) ?m
              (bytes_of_string (take (?n - k) (drop (?o + k) ?b))) (?o + ?n = length ?b))\<rparr>)" for r'
      using less(1) [of "sent_body k s" "spend k conn" r'] ok(1-3) less(2) k
      by simp
    have "emit_body_loop mfs s conn r = emit_body_loop mfs (sent_body k s) (spend k conn)
       (appendOutboundFrame (raw_bytes (plain_raw FT_DATA
          (if ?o + k = length ?b then ff_value FF_END_STREAM else 0) (st_id s) (bytes_of_string (take k (drop ?o ?b))))) r)"
      using emit_body_loop_step [OF less(3,4), of mfs r] k by (simp add: k_def)
    then show ?thesis
      unfolding IH ok(4,5) by (simp add: data_frames_def ch last fl appendOutboundFrame_def)
  qed
qed


section \<open>The header block\<close>

lemma ContinuationFrame_plain: "ContinuationFrame_toBytes \<lparr>cf_header = h, cf_data = d\<rparr> = raw_bytes \<lparr>rf_header = h, rf_data = d\<rparr>"
  by (simp add: ContinuationFrame_toBytes_def raw_bytes_def)

lemma continuation_loop_frames:
  assumes "0 < unat mfs"
  shows "continuation_loop mfs sid span r =
     Inr (r\<lparr>outbound := outbound r @ map raw_bytes (continuation_frames sid (unat mfs) span)\<rparr>)"
  using assms
proof (induction "length span" arbitrary: span r rule: less_induct)
  case less
  let ?m = "unat mfs"
  show ?case
  proof (cases "span = []")
    case True
    then show ?thesis by (subst continuation_loop.simps) (simp add: continuation_frames_def)
  next
    case False
    let ?f = "plain_raw FT_CONTINUATION (if drop ?m span = [] then ff_value FF_END_HEADERS else 0) sid (take ?m span)"
    have cut: "take (min ?m (length span)) span = take ?m span" "drop (min ?m (length span)) span = drop ?m span"
      by (simp_all add: min_def)
    have "continuation_loop mfs sid span r = continuation_loop mfs sid (drop ?m span) (appendOutboundFrame (raw_bytes ?f) r)"
      using False less(2)
      by (subst continuation_loop.simps)
         (auto simp: Let_def cut ContinuationFrame_plain plain_raw_def FrameHeader_new_def setFlag_def min.commute)
    also have "\<dots> = Inr ((appendOutboundFrame (raw_bytes ?f) r)\<lparr>outbound := outbound (appendOutboundFrame (raw_bytes ?f) r)
        @ map raw_bytes (continuation_frames sid ?m (drop ?m span))\<rparr>)"
      using less(1) [of "drop ?m span"] less(2) False by simp
    finally show ?thesis
      using False less(2) chunks_step [of span ?m] chunks_eq_Nil [of ?m "drop ?m span"]
      by (simp add: continuation_frames_def appendOutboundFrame_def)
  qed
qed

definition headers_sent :: "nat \<Rightarrow> u8 list \<Rightarrow> Stream \<Rightarrow> Stream" where
  "headers_sent m encoded s =
     (if length encoded \<le> m \<and> \<not> hasBody s then s\<lparr>localEndStreamSent := True\<rparr> else s)"

lemma emitRequestHeaders_frames:
  assumes "find_stream sid p = Some s" and "0 < unat (maxFrameSize p)"
  shows "emitRequestHeaders sid encoded p r =
     Inr (put_stream sid (headers_sent (unat (maxFrameSize p)) encoded s) p,
          r\<lparr>outbound := outbound r @ map raw_bytes (header_frames sid (unat (maxFrameSize p)) encoded (\<not> hasBody s))\<rparr>)"
proof -
  let ?m = "unat (maxFrameSize p)"
  have cut: "take (min ?m (length encoded)) encoded = take ?m encoded" "drop (min ?m (length encoded)) encoded = drop ?m encoded"
    by (simp_all add: min_def)
  show ?thesis
  proof (cases "encoded = []")
    case True
    then show ?thesis
      using assms
      by (auto simp: emitRequestHeaders_def Let_def continuation_loop_frames header_frames_def headers_sent_def
          HeadersFrame_toBytes_def HeadersFrame_new_def FrameHeader_new_def setFlag_def hasAnyFlag_def raw_bytes_def
          plain_raw_def appendOutboundFrame_def continuation_frames_def)
  next
    case False
    then show ?thesis
      using assms
      by (auto simp: emitRequestHeaders_def Let_def cut continuation_loop_frames header_frames_def headers_sent_def
          HeadersFrame_toBytes_def HeadersFrame_new_def FrameHeader_new_def setFlag_def hasAnyFlag_def raw_bytes_def
          plain_raw_def appendOutboundFrame_def continuation_frames_def min.commute)
  qed
qed

section \<open>What the peer reads\<close>

lemma plain_raw_ok:
  assumes "length bs < 2 ^ 24" and "unat sid < 2 ^ 31" and "ft_named t"
  shows "raw_ok (plain_raw t fl sid bs)"
  using assms by (simp add: raw_ok_def plain_raw_def unat_of_nat take_bit_nat_eq_self)

lemma data_frames_ok:
  assumes "m < 2 ^ 24" and "unat sid < 2 ^ 31"
  shows "list_all raw_ok (data_frames sid m bs fin)"
  using assms chunks_bounds [of _ m bs]
  by (force simp: list_all_iff data_frames_def dest!: set_mark_last intro!: plain_raw_ok)

lemma header_frames_ok:
  assumes "m < 2 ^ 24" and "unat sid < 2 ^ 31"
  shows "list_all raw_ok (header_frames sid m bs noBody)"
  using assms chunks_bounds [of _ m "drop m bs"]
  by (force simp: list_all_iff header_frames_def continuation_frames_def dest!: set_mark_last intro!: plain_raw_ok)

lemma data_frames_payload: "0 < m \<Longrightarrow> concat (map rf_data (data_frames sid m bs fin)) = bs"
  by (simp add: data_frames_def map_mark_last [where h = id] plain_raw_def concat_chunks)

lemma header_frames_payload: "0 < m \<Longrightarrow> concat (map rf_data (header_frames sid m bs noBody)) = bs"
  by (simp add: header_frames_def continuation_frames_def map_mark_last [where h = id] plain_raw_def concat_chunks)

lemma data_frames_header:
  assumes "f \<in> set (data_frames sid m bs fin)"
  shows "ftype (rf_header f) = FT_DATA \<and> streamId (rf_header f) = sid \<and> 0 < length (rf_data f) \<and> length (rf_data f) \<le> m"
  using assms chunks_bounds [of _ m bs] by (auto simp: data_frames_def plain_raw_def dest!: set_mark_last)

lemma data_frames_END_STREAM:
  assumes "i < length (data_frames sid m bs fin)"
  shows "hasAnyFlag FF_END_STREAM (rf_header (data_frames sid m bs fin ! i)) \<longleftrightarrow>
         fin \<and> Suc i = length (data_frames sid m bs fin)"
  using assms by (simp add: data_frames_def nth_mark_last plain_raw_def hasAnyFlag_def)

lemma header_frames_END_HEADERS:
  assumes "i < length (header_frames sid m bs noBody)" and "0 < m"
  shows "hasAnyFlag FF_END_HEADERS (rf_header (header_frames sid m bs noBody ! i)) \<longleftrightarrow>
         Suc i = length (header_frames sid m bs noBody)"
proof (cases i)
  case 0
  then show ?thesis
    using assms chunks_eq_Nil [of m "drop m bs"] by (auto simp: header_frames_def continuation_frames_def plain_raw_def hasAnyFlag_def)
next
  case (Suc j)
  then show ?thesis
    using assms by (simp add: header_frames_def continuation_frames_def nth_mark_last plain_raw_def hasAnyFlag_def)
qed

end
