(* ===== verification/Protocol_Inv.thy ===== *)
theory Protocol_Inv
  imports Protocol_Emit
begin

text \<open>
  The invariant of the connection (\<open>proto_ok\<close>) and what a transition reports (\<open>reports\<close>):
  the streams that leave the table are exactly those with a STREAM_CLOSED event, once each,
  and a request stops being pending exactly when its response is reported as completed or
  failed. \<open>evolves\<close> combines the two; every operation of the machine is shown to evolve the
  connection it started from.
\<close>

section \<open>The table of streams\<close>

definition keys :: "Http2Protocol \<Rightarrow> StreamId list" where
  "keys p = map fst (streams p)"

lemma keys_put [simp]: "keys (put_stream sid s p) = keys p"
  by (simp add: keys_def put_stream_def comp_def if_distrib [of fst] cong: if_cong)

lemma keys_erase [simp]: "keys (erase_stream sid p) = filter (\<lambda>k. k \<noteq> sid) (keys p)"
  by (simp add: keys_def erase_stream_def filter_map comp_def)

lemma find_None: "find_stream sid p = None \<longleftrightarrow> sid \<notin> set (keys p)"
  by (simp add: find_stream_def keys_def map_of_eq_None_iff)

lemma find_put:
  "find_stream k (put_stream sid s p) = (if k = sid \<and> find_stream sid p \<noteq> None then Some s else find_stream k p)"
proof -
  have "map_of (map (\<lambda>e. if fst e = sid then (sid, s) else e) es) k =
      (if k = sid \<and> map_of es sid \<noteq> None then Some s else map_of es k)" for es :: "(StreamId \<times> Stream) list"
    by (induction es) auto
  then show ?thesis by (simp add: find_stream_def put_stream_def)
qed

lemma find_erase: "find_stream k (erase_stream sid p) = (if k = sid then None else find_stream k p)"
proof -
  have "map_of (filter (\<lambda>e. fst e \<noteq> sid) es) k = (if k = sid then None else map_of es k)"
    for es :: "(StreamId \<times> Stream) list"
    by (induction es) auto
  then show ?thesis by (simp add: find_stream_def erase_stream_def)
qed

lemma put_put [simp]: "put_stream sid s (put_stream sid s' p) = put_stream sid s p"
  by (simp add: put_stream_def comp_def)

lemma erase_put [simp]: "erase_stream sid (put_stream sid s p) = erase_stream sid p"
proof -
  have "filter (\<lambda>e. fst e \<noteq> sid) (map (\<lambda>e. if fst e = sid then (sid, s) else e) es) = filter (\<lambda>e. fst e \<noteq> sid) es"
    for es :: "(StreamId \<times> Stream) list"
    by (induction es) auto
  then show ?thesis by (simp add: erase_stream_def put_stream_def)
qed

lemma find_congs [simp]:
  "find_stream k (p\<lparr>connectionInflow := a\<rparr>) = find_stream k p"
  "find_stream k (p\<lparr>connectionOutFlow := b\<rparr>) = find_stream k p"
  "find_stream k (p\<lparr>hpack := c\<rparr>) = find_stream k p"
  "find_stream k (p\<lparr>ghostHeaderBlock := d\<rparr>) = find_stream k p"
  "find_stream k (p\<lparr>expectingContinuation := e\<rparr>) = find_stream k p"
  "find_stream k (p\<lparr>continuationStreamId := f\<rparr>) = find_stream k p"
  "find_stream k (p\<lparr>nextStreamId := g\<rparr>) = find_stream k p"
  "find_stream k (p\<lparr>gotPeerSettings := h\<rparr>) = find_stream k p"
  "find_stream k (p\<lparr>receivedGoaway := h\<rparr>) = find_stream k p"
  "find_stream k (p\<lparr>sentGoaway := h\<rparr>) = find_stream k p"
  "find_stream k (p\<lparr>closed := h\<rparr>) = find_stream k p"
  "find_stream k (p\<lparr>maxConcurrentStreams := i\<rparr>) = find_stream k p"
  "find_stream k (p\<lparr>maxFrameSize := i\<rparr>) = find_stream k p"
  "find_stream k (p\<lparr>maxHeaderListSize := i\<rparr>) = find_stream k p"
  "find_stream k (p\<lparr>encodeHeaderTableSize := i\<rparr>) = find_stream k p"
  "find_stream k (p\<lparr>enablePush := h\<rparr>) = find_stream k p"
  by (simp_all add: find_stream_def)

lemma keys_congs [simp]:
  "keys (p\<lparr>connectionInflow := a\<rparr>) = keys p"
  "keys (p\<lparr>connectionOutFlow := b\<rparr>) = keys p"
  "keys (p\<lparr>hpack := c\<rparr>) = keys p"
  "keys (p\<lparr>ghostHeaderBlock := d\<rparr>) = keys p"
  "keys (p\<lparr>expectingContinuation := e\<rparr>) = keys p"
  "keys (p\<lparr>continuationStreamId := f\<rparr>) = keys p"
  "keys (p\<lparr>nextStreamId := g\<rparr>) = keys p"
  "keys (p\<lparr>gotPeerSettings := h\<rparr>) = keys p"
  "keys (p\<lparr>receivedGoaway := h\<rparr>) = keys p"
  "keys (p\<lparr>sentGoaway := h\<rparr>) = keys p"
  "keys (p\<lparr>closed := h\<rparr>) = keys p"
  "keys (p\<lparr>maxConcurrentStreams := i\<rparr>) = keys p"
  "keys (p\<lparr>maxFrameSize := i\<rparr>) = keys p"
  "keys (p\<lparr>maxHeaderListSize := i\<rparr>) = keys p"
  "keys (p\<lparr>encodeHeaderTableSize := i\<rparr>) = keys p"
  "keys (p\<lparr>enablePush := h\<rparr>) = keys p"
  by (simp_all add: keys_def)

text \<open>Everything but the table.\<close>

lemma put_more [simp]:
  "frameCodec (put_stream sid s p) = frameCodec p" "maxFrameSize (put_stream sid s p) = maxFrameSize p"
  "localMaxFrameSize (put_stream sid s p) = localMaxFrameSize p"
  "initialWindowSize (put_stream sid s p) = initialWindowSize p"
  "maxHeaderListSize (put_stream sid s p) = maxHeaderListSize p"
  "nextStreamId (put_stream sid s p) = nextStreamId p" "lastPeerStreamId (put_stream sid s p) = lastPeerStreamId p"
  "started (put_stream sid s p) = started p" "closed (put_stream sid s p) = closed p"
  "transportClosed (put_stream sid s p) = transportClosed p" "pingCounter (put_stream sid s p) = pingCounter p"
  "connectionInflow (put_stream sid s p) = connectionInflow p"
  "connectionOutFlow (put_stream sid s p) = connectionOutFlow p"
  "hpack (put_stream sid s p) = hpack p" "ghostHeaderBlock (put_stream sid s p) = ghostHeaderBlock p"
  "sentGoaway (put_stream sid s p) = sentGoaway p"
  "expectingContinuation (put_stream sid s p) = expectingContinuation p"
  "continuationStreamId (put_stream sid s p) = continuationStreamId p"
  by (simp_all add: put_stream_def)

lemma erase_more [simp]:
  "frameCodec (erase_stream sid p) = frameCodec p" "maxFrameSize (erase_stream sid p) = maxFrameSize p"
  "localMaxFrameSize (erase_stream sid p) = localMaxFrameSize p"
  "initialWindowSize (erase_stream sid p) = initialWindowSize p"
  "maxHeaderListSize (erase_stream sid p) = maxHeaderListSize p"
  "nextStreamId (erase_stream sid p) = nextStreamId p" "lastPeerStreamId (erase_stream sid p) = lastPeerStreamId p"
  "started (erase_stream sid p) = started p" "closed (erase_stream sid p) = closed p"
  "transportClosed (erase_stream sid p) = transportClosed p" "pingCounter (erase_stream sid p) = pingCounter p"
  "connectionInflow (erase_stream sid p) = connectionInflow p"
  "connectionOutFlow (erase_stream sid p) = connectionOutFlow p"
  "hpack (erase_stream sid p) = hpack p" "ghostHeaderBlock (erase_stream sid p) = ghostHeaderBlock p"
  "sentGoaway (erase_stream sid p) = sentGoaway p"
  "expectingContinuation (erase_stream sid p) = expectingContinuation p"
  "continuationStreamId (erase_stream sid p) = continuationStreamId p"
  by (simp_all add: erase_stream_def)

section \<open>The invariant\<close>

definition InFlow_ok :: "InFlow \<Rightarrow> bool" where
  "InFlow_ok f \<longleftrightarrow> InFlow_wf f \<and> 0 \<le> avail f"

definition stream_ok :: "Stream \<Rightarrow> bool" where
  "stream_ok s \<longleftrightarrow>
     body_ok s \<and> InFlow_ok (inflow s) \<and> length (pendingHeaderBlock s) \<le> 2 ^ 31 \<and>
     (localEndStreamSent s \<longrightarrow> requestBodyOffset s = length (rq_body (rqst s))) \<and>
     \<not> (localEndStreamSent s \<and> remoteEndStreamReceived s) \<and>
     st_state s = (if localEndStreamSent s then SS_HALF_CLOSED_LOCAL
                   else if remoteEndStreamReceived s then SS_HALF_CLOSED_REMOTE else SS_OPEN) \<and>
     responseComplete s = remoteEndStreamReceived s \<and>
     (\<not> finalResponseHeadersReceived s \<longrightarrow> rs_headers (resp s) = []) \<and>
     (\<not> remoteEndStreamReceived s \<longrightarrow>
        receivedContentLength s = int (length (rs_body (resp s))) \<and>
        (finalResponseHeadersReceived s \<longrightarrow> (\<exists>c. getStatusCode (resp s) = Inr c)))"

definition proto_ok :: "Http2Protocol \<Rightarrow> bool" where
  "proto_ok p \<longleftrightarrow>
     distinct (keys p) \<and>
     (\<forall>k s. find_stream k p = Some s \<longrightarrow>
        st_id s = k \<and> odd (unat k) \<and> k < nextStreamId p \<and> stream_ok s) \<and>
     odd (unat (nextStreamId p)) \<and> unat (nextStreamId p) < 2 ^ 31 \<and> unat (lastPeerStreamId p) < 2 ^ 31 \<and>
     InFlow_ok (connectionInflow p) \<and> OutFlow_wf (connectionOutFlow p) \<and> decoder_ok (hpack p) \<and>
     16384 \<le> unat (maxFrameSize p) \<and> unat (maxFrameSize p) < 2 ^ 24 \<and>
     unat (initialWindowSize p) < 2 ^ 31 \<and> length (ghostHeaderBlock p) \<le> 2 ^ 31 \<and>
     (expectingContinuation p \<longrightarrow>
        (\<forall>s. find_stream (continuationStreamId p) p = Some s \<longrightarrow> \<not> remoteEndStreamReceived s))"

section \<open>What a transition reports\<close>

fun closes :: "ProtocolEvent \<Rightarrow> StreamId list" where
  "closes (EV_STREAM_CLOSED sid e) = [sid]"
| "closes _ = []"

fun answers :: "ProtocolEvent \<Rightarrow> StreamId list" where
  "answers (EV_RESPONSE_COMPLETED sid r) = [sid]"
| "answers (EV_RESPONSE_FAILED sid e) = [sid]"
| "answers _ = []"

fun opens :: "ProtocolEvent \<Rightarrow> StreamId list" where
  "opens (EV_STREAM_OPENED sid) = [sid]"
| "opens _ = []"

definition opened_ids :: "ProtocolEvent list \<Rightarrow> StreamId list" where
  "opened_ids es = concat (map opens es)"

definition closed_ids :: "ProtocolEvent list \<Rightarrow> StreamId list" where
  "closed_ids es = concat (map closes es)"

definition answered_ids :: "ProtocolEvent list \<Rightarrow> StreamId set" where
  "answered_ids es = set (concat (map answers es))"

definition pending :: "Http2Protocol \<Rightarrow> StreamId set" where
  "pending p = {sid. \<exists>s. find_stream sid p = Some s \<and> \<not> responseComplete s}"

definition reports :: "Http2Protocol \<Rightarrow> ProtocolEvent list \<Rightarrow> Http2Protocol \<Rightarrow> bool" where
  "reports p es p' \<longleftrightarrow>
     keys p' = filter (\<lambda>k. k \<notin> set (closed_ids es)) (keys p) \<and>
     distinct (closed_ids es) \<and> set (closed_ids es) \<subseteq> set (keys p) \<and>
     pending p' = pending p - answered_ids es \<and> answered_ids es \<subseteq> set (keys p) \<and> opened_ids es = []"

definition continues :: "Http2Protocol \<Rightarrow> Http2Protocol \<Rightarrow> bool" where
  "continues p p' \<longleftrightarrow>
     nextStreamId p' = nextStreamId p \<and> localMaxFrameSize p' = localMaxFrameSize p \<and>
     lastPeerStreamId p' = lastPeerStreamId p \<and> started p' = started p \<and>
     transportClosed p' = transportClosed p \<and> frameCodec p' = frameCodec p \<and>
     pingCounter p' = pingCounter p \<and> (closed p \<longrightarrow> closed p')"

definition evolves :: "Http2Protocol \<Rightarrow> ProtocolEvent list \<Rightarrow> Http2Protocol \<Rightarrow> bool" where
  "evolves p es p' \<longleftrightarrow> proto_ok p' \<and> continues p p' \<and> reports p es p'"

lemma id_lists [simp]:
  "closed_ids [] = []" "closed_ids (e # es) = closes e @ closed_ids es" "closed_ids (es @ es') = closed_ids es @ closed_ids es'"
  "answered_ids [] = {}" "answered_ids (e # es) = set (answers e) \<union> answered_ids es"
  "answered_ids (es @ es') = answered_ids es \<union> answered_ids es'"
  "opened_ids [] = []" "opened_ids (e # es) = opens e @ opened_ids es" "opened_ids (es @ es') = opened_ids es @ opened_ids es'"
  by (simp_all add: closed_ids_def answered_ids_def opened_ids_def)

lemma evolves_refl: "proto_ok p \<Longrightarrow> evolves p [] p"
  by (simp add: evolves_def continues_def reports_def)

lemma evolves_trans:
  assumes "evolves p es p1" and "evolves p1 es' p2"
  shows "evolves p (es @ es') p2"
proof -
  have "distinct (closed_ids es @ closed_ids es')"
    using assms by (auto simp: evolves_def reports_def)
  then show ?thesis
    using assms by (auto simp: evolves_def reports_def continues_def intro: filter_cong)
qed

lemma evolves_quiet: "evolves p [] p1 \<Longrightarrow> evolves p1 es p2 \<Longrightarrow> evolves p es p2"
  using evolves_trans [of p "[]" p1 es p2] by simp

lemma evolves_silent: "evolves p es p' \<Longrightarrow> closes e = [] \<Longrightarrow> answers e = [] \<Longrightarrow> opens e = [] \<Longrightarrow> evolves p (es @ [e]) p'"
  by (simp add: evolves_def reports_def)

lemma evolves_silent_first: "evolves p es p' \<Longrightarrow> closes e = [] \<Longrightarrow> answers e = [] \<Longrightarrow> opens e = [] \<Longrightarrow> evolves p (e # es) p'"
  by (simp add: evolves_def reports_def)

lemma evolves_ok: "evolves p es p' \<Longrightarrow> proto_ok p'"
  by (simp add: evolves_def)

lemma proto_ok_find:
  "proto_ok p \<Longrightarrow> find_stream k p = Some s \<Longrightarrow> st_id s = k \<and> odd (unat k) \<and> k < nextStreamId p \<and> stream_ok s"
  by (simp add: proto_ok_def)

lemma evolves_put:
  assumes "proto_ok p" and "find_stream sid p = Some s" and "st_id s' = sid" and "stream_ok s'"
    and "responseComplete s' = responseComplete s"
  shows "evolves p [] (put_stream sid s' p)"
proof -
  have "remoteEndStreamReceived s' = remoteEndStreamReceived s"
    using assms proto_ok_find [OF assms(1,2)] by (simp add: stream_ok_def)
  then have "proto_ok (put_stream sid s' p)"
    using assms by (auto simp: proto_ok_def find_put)
  moreover have "pending (put_stream sid s' p) = pending p"
    using assms by (auto simp: pending_def find_put)
  ultimately show ?thesis by (simp add: evolves_def continues_def reports_def)
qed

text \<open>Changes outside the table.\<close>

lemma evolves_other:
  assumes "proto_ok p" and "streams p' = streams p" and "continues p p'"
    and "InFlow_ok (connectionInflow p')" and "OutFlow_wf (connectionOutFlow p')" and "decoder_ok (hpack p')"
    and "16384 \<le> unat (maxFrameSize p')" and "unat (maxFrameSize p') < 2 ^ 24"
    and "initialWindowSize p' = initialWindowSize p" and "length (ghostHeaderBlock p') \<le> 2 ^ 31"
    and "\<And>s. expectingContinuation p' \<Longrightarrow> find_stream (continuationStreamId p') p = Some s \<Longrightarrow> \<not> remoteEndStreamReceived s"
  shows "evolves p [] p'"
  using assms unfolding evolves_def reports_def proto_ok_def pending_def keys_def find_stream_def continues_def
  by simp


section \<open>Failing streams and the connection\<close>

definition fail_events :: "ErrorCode \<Rightarrow> StreamId \<Rightarrow> ProtocolEvent list" where
  "fail_events e sid = [EV_STREAM_CLOSED sid e, EV_RESPONSE_FAILED sid e]"

definition ghosted :: "Stream \<Rightarrow> Http2Protocol \<Rightarrow> Http2Protocol" where
  "ghosted s p = (if waitingForContinuation s \<and> pendingHeaderBlock s \<noteq> []
     then p\<lparr>ghostHeaderBlock := pendingHeaderBlock s\<rparr> else p)"

lemma failStream_Some:
  assumes "find_stream sid p = Some s"
  shows "failStream sid e rst p =
    (erase_stream sid (ghosted s p),
     \<lparr>outbound = (if rst \<and> \<not> closed p \<and> \<not> transportClosed p
                  then [RstStreamFrame_toBytes (buildRstStreamFrame sid e)] else []),
      events = fail_events e sid, hasSubmittedStream = False, submittedStreamId = 0\<rparr>)"
  using assms
  by (simp add: failStream_def Let_def ghosted_def push_event_def appendOutboundFrame_def no_result_def fail_events_def)

lemma failStream_None: "find_stream sid p = None \<Longrightarrow> failStream sid e rst p = (p, no_result)"
  by (simp add: failStream_def)

lemma ghosted_evolves:
  assumes "proto_ok p" and "stream_ok s"
  shows "evolves p [] (ghosted s p)"
proof (cases "waitingForContinuation s \<and> pendingHeaderBlock s \<noteq> []")
  case True
  have "evolves p [] (p\<lparr>ghostHeaderBlock := pendingHeaderBlock s\<rparr>)"
    by (rule evolves_other) (use assms in \<open>simp_all add: stream_ok_def proto_ok_def continues_def\<close>)
  then show ?thesis using True by (simp add: ghosted_def)
qed (auto simp: ghosted_def evolves_refl [OF assms(1)])

lemma erase_evolves:
  assumes "proto_ok p" and "find_stream sid p = Some s"
    and "closed_ids es = [sid]" and "answered_ids es = {sid} \<or> (answered_ids es = {} \<and> responseComplete s)"
    and "opened_ids es = []"
  shows "evolves p es (erase_stream sid p)"
proof -
  have "proto_ok (erase_stream sid p)" using assms(1) by (auto simp: proto_ok_def find_erase)
  moreover have "pending (erase_stream sid p) = pending p - answered_ids es"
    using assms(2,4) by (auto simp: pending_def find_erase)
  moreover have "sid \<in> set (keys p)" using assms(2) find_None [of sid p] by fastforce
  ultimately show ?thesis using assms(3-5) by (auto simp: evolves_def continues_def reports_def)
qed

lemma failStream_evolves:
  assumes "proto_ok p"
  shows "evolves p (events (snd (failStream sid e rst p))) (fst (failStream sid e rst p))"
proof (cases "find_stream sid p")
  case None
  then show ?thesis using evolves_refl [OF assms] by (simp add: failStream_None)
next
  case (Some s)
  have g: "evolves p [] (ghosted s p)" using ghosted_evolves [OF assms] proto_ok_find [OF assms Some] by blast
  moreover have "find_stream sid (ghosted s p) = Some s" using Some by (simp add: ghosted_def)
  ultimately have "evolves (ghosted s p) (fail_events e sid) (erase_stream sid (ghosted s p))"
    by (intro erase_evolves) (auto simp: evolves_def fail_events_def)
  then show ?thesis using evolves_quiet [OF g] Some by (simp add: failStream_Some)
qed

lemma failStreams_spec:
  assumes "distinct ids" and "set ids \<subseteq> set (keys p)"
  shows "\<exists>g. failStreams ids e (p, r) =
    (p\<lparr>streams := filter (\<lambda>en. fst en \<notin> set ids) (streams p), ghostHeaderBlock := g\<rparr>,
     r\<lparr>events := events r @ concat (map (fail_events e) ids)\<rparr>)"
  using assms
proof (induction ids arbitrary: p r)
  case (Cons sid ids)
  then obtain s where s: "find_stream sid p = Some s" using find_None [of sid p] by fastforce
  let ?p = "erase_stream sid (ghosted s p)"
  let ?r = "r\<lparr>events := events r @ fail_events e sid\<rparr>"
  have "keys ?p = filter (\<lambda>k. k \<noteq> sid) (keys p)" by (simp add: ghosted_def)
  then have "set ids \<subseteq> set (keys ?p)" using Cons.prems by auto
  then obtain g where "failStreams ids e (?p, ?r) =
      (?p\<lparr>streams := filter (\<lambda>en. fst en \<notin> set ids) (streams ?p), ghostHeaderBlock := g\<rparr>,
       ?r\<lparr>events := events ?r @ concat (map (fail_events e) ids)\<rparr>)"
    using Cons.IH [of ?p ?r] Cons.prems(1) by auto
  moreover have "failStreams (sid # ids) e (p, r) = failStreams ids e (?p, ?r)"
    by (simp add: failStream_Some [OF s] mergeStepResult_def)
  moreover have "filter (\<lambda>en. fst en \<notin> set ids) (streams ?p) = filter (\<lambda>en. fst en \<notin> set (sid # ids)) (streams p)"
    by (auto simp: erase_stream_def ghosted_def intro: filter_cong)
  moreover have "?p\<lparr>streams := x, ghostHeaderBlock := g\<rparr> = p\<lparr>streams := x, ghostHeaderBlock := g\<rparr>" for x
    by (simp add: erase_stream_def ghosted_def)
  ultimately show ?case by auto
next
  case Nil
  show ?case by (rule exI [of _ "ghostHeaderBlock p"]) simp
qed

lemma failStreams_evolves:
  assumes "proto_ok p"
  shows "\<exists>es. events (snd (failStreams ids e (p, r))) = events r @ es \<and> evolves p es (fst (failStreams ids e (p, r)))"
  using assms
proof (induction ids arbitrary: p r)
  case (Cons sid ids)
  obtain p1 r1 where f: "failStream sid e False p = (p1, r1)" by fastforce
  then have ev: "evolves p (events r1) p1" using failStream_evolves [OF Cons.prems, of sid e False] by simp
  then have "proto_ok p1" by (simp add: evolves_def)
  with Cons.IH [of p1 "mergeStepResult r r1"] obtain es where
    "events (snd (failStreams ids e (p1, mergeStepResult r r1))) = events r @ events r1 @ es"
    "evolves p1 es (fst (failStreams ids e (p1, mergeStepResult r r1)))" by auto
  then show ?case using evolves_trans [OF ev] f by auto
qed (simp add: evolves_refl)

definition goaway_part :: "ErrorCode \<Rightarrow> string \<Rightarrow> Http2Protocol \<Rightarrow> u8 list list \<times> ProtocolEvent list" where
  "goaway_part e debug p =
     (if sentGoaway p \<or> transportClosed p then ([], [])
      else ([GoAwayFrame_toBytes (buildGoAwayFrame e debug p)], [EV_GOAWAY_SENT (lastPeerStreamId p) e debug]))"

definition shut :: "ErrorCode \<Rightarrow> string \<Rightarrow> Http2Protocol \<Rightarrow> Http2Protocol" where
  "shut e debug p = p\<lparr>sentGoaway := (sentGoaway p \<or> \<not> transportClosed p), connectionErrorCode := e,
    connectionDebugData := debug, closed := True, expectingContinuation := False, continuationStreamId := 0,
    ghostHeaderBlock := []\<rparr>"

definition result_of :: "u8 list list \<times> ProtocolEvent list \<Rightarrow> ProtocolStepResult" where
  "result_of oe = \<lparr>outbound = fst oe, events = snd oe, hasSubmittedStream = False, submittedStreamId = 0\<rparr>"

lemma result_of_simps [simp]: "outbound (result_of oe) = fst oe" "events (result_of oe) = snd oe"
  by (simp_all add: result_of_def)

lemma failConnection_eq:
  "failConnection e debug p =
    (let (p, r) = failAllStreams e (shut e debug p, result_of (goaway_part e debug p))
     in (p, push_event (EV_CONNECTION_CLOSED e) (push_event (EV_CONNECTION_ERROR e) r)))"
proof -
  have noop: "p\<lparr>sentGoaway := b\<rparr> = p" if "sentGoaway p = b" for b
    using that by (cases p) simp
  show ?thesis
    by (auto simp: failConnection_def goaway_part_def Let_def no_result_def push_event_def appendOutboundFrame_def
        buildGoAwayFrame_def noop shut_def result_of_def)
qed

text \<open>Failing the connection: GOAWAY once, every stream fails in turn, nothing stays open.\<close>

lemma failConnection_spec:
  assumes "distinct (keys p)"
  shows "\<exists>g. failConnection e debug p =
    ((shut e debug p)\<lparr>streams := [], ghostHeaderBlock := g\<rparr>,
     result_of (fst (goaway_part e debug p),
       snd (goaway_part e debug p) @ concat (map (fail_events e) (keys p))
         @ [EV_CONNECTION_ERROR e, EV_CONNECTION_CLOSED e]))"
proof -
  let ?q = "shut e debug p" and ?r = "result_of (goaway_part e debug p)"
  have k: "keys ?q = keys p" by (simp add: shut_def keys_def)
  from failStreams_spec [of "keys ?q" ?q e ?r] assms obtain g where g: "failAllStreams e (?q, ?r) =
      (?q\<lparr>streams := [], ghostHeaderBlock := g\<rparr>, ?r\<lparr>events := events ?r @ concat (map (fail_events e) (keys p))\<rparr>)"
    unfolding k by (force simp: failAllStreams_def keys_def shut_def)
  show ?thesis unfolding failConnection_eq g by (auto simp: push_event_def result_of_def)
qed

lemma failConnection_evolves:
  assumes "proto_ok p"
  shows "evolves p (events (snd (failConnection e debug p))) (fst (failConnection e debug p))"
proof -
  have q: "evolves p [] (shut e debug p)"
    using assms by (intro evolves_other) (auto simp: shut_def continues_def proto_ok_def)
  obtain p1 r1 where f: "failAllStreams e (shut e debug p, result_of (goaway_part e debug p)) = (p1, r1)" by fastforce
  with failStreams_evolves [OF evolves_ok [OF q], of "keys (shut e debug p)" e "result_of (goaway_part e debug p)"] obtain es where
    es: "events r1 = snd (goaway_part e debug p) @ es" "evolves (shut e debug p) es p1"
    by (auto simp: failAllStreams_def keys_def)
  have "evolves p (snd (goaway_part e debug p) @ es) p1"
    using evolves_quiet [OF q es(2)] by (auto simp: goaway_part_def intro: evolves_silent_first)
  then have "evolves p ((snd (goaway_part e debug p) @ es) @ [EV_CONNECTION_ERROR e]) p1" by (rule evolves_silent) auto
  then have "evolves p (((snd (goaway_part e debug p) @ es) @ [EV_CONNECTION_ERROR e]) @ [EV_CONNECTION_CLOSED e]) p1"
    by (rule evolves_silent) auto
  then show ?thesis by (simp add: failConnection_eq f es(1))
qed

section \<open>The outcome of a handler\<close>

text \<open>
  Besides a result there are two outcomes: the capacity loop of a header block that grew past
  \<open>2^31\<close> bytes, and the range-for over \<open>streams\<close> whose body erased its entry.
\<close>

definition hang :: "cpp_error \<Rightarrow> bool" where
  "hang e \<longleftrightarrow> e = Diverges ''ByteBuffer::ensureCapacity'' \<or> e = UndefinedBehaviour ''increment of an erased iterator''"

definition step_ok :: "Http2Protocol \<Rightarrow> ProtocolEvent list \<Rightarrow> step \<Rightarrow> bool" where
  "step_ok p es res \<longleftrightarrow> (case res of Inl e \<Rightarrow> hang e
     | Inr (p', r) \<Rightarrow> \<exists>es'. events r = es @ es' \<and> evolves p es' p')"

lemma step_ok_Inr: "evolves p es' p' \<Longrightarrow> events r = es @ es' \<Longrightarrow> step_ok p es (Inr (p', r))"
  by (auto simp: step_ok_def)

lemma step_ok_pair: "evolves p (events (snd pr)) (fst pr) \<Longrightarrow> step_ok p [] (Inr pr)"
  by (cases pr) (auto simp: step_ok_def)

lemma step_ok_quiet: "evolves p [] p1 \<Longrightarrow> step_ok p1 es res \<Longrightarrow> step_ok p es res"
  using evolves_quiet [of p p1] by (fastforce simp: step_ok_def split: sum.splits)

lemma step_ok_trans:
  assumes "evolves p es1 p1" and "step_ok p1 (es @ es1) res"
  shows "step_ok p es res"
  using assms evolves_trans [OF assms(1)] by (fastforce simp: step_ok_def split: sum.splits)

lemma step_ok_failConnection: "proto_ok p \<Longrightarrow> step_ok p [] (Inr (failConnection e debug p))"
  by (rule step_ok_pair) (rule failConnection_evolves)

lemma step_ok_failStream: "proto_ok p \<Longrightarrow> step_ok p [] (Inr (failStream sid e rst p))"
  by (rule step_ok_pair) (rule failStream_evolves)

lemma step_ok_same: "proto_ok p \<Longrightarrow> events r = es \<Longrightarrow> step_ok p es (Inr (p, r))"
  by (rule step_ok_Inr [OF evolves_refl]) auto

lemma step_ok_bind:
  assumes "step_ok p es m" and "\<And>p' r. proto_ok p' \<Longrightarrow> step_ok p' (events r) (f (p', r))"
  shows "step_ok p es (cpp_bind m f)"
proof (cases m)
  case (Inl e)
  then show ?thesis using assms(1) by (simp add: step_ok_def)
next
  case (Inr pr)
  then obtain p' r es' where "pr = (p', r)" "events r = es @ es'" "evolves p es' p'"
    using assms(1) by (auto simp: step_ok_def)
  then show ?thesis using assms(2) [OF evolves_ok, of p es' p' r] step_ok_trans Inr by auto
qed

section \<open>Sending and finishing\<close>

lemma stream_ok_open: "stream_ok s \<Longrightarrow> \<not> Stream_isClosed s"
  by (simp add: stream_ok_def Stream_isClosed_def split: if_splits)

definition body_frames :: "Http2Protocol \<Rightarrow> Stream \<Rightarrow> u8 list list" where
  "body_frames p s = (let n = sendable s (connectionOutFlow p) in
     map raw_bytes (data_frames (st_id s) (unat (maxFrameSize p))
       (bytes_of_string (take n (drop (requestBodyOffset s) (rq_body (rqst s)))))
       (requestBodyOffset s + n = length (rq_body (rqst s)))))"

lemma emitPending_eq:
  fixes r :: ProtocolStepResult
  assumes "proto_ok p" and "find_stream sid p = Some s" and "\<not> localEndStreamSent s"
  defines "n \<equiv> sendable s (connectionOutFlow p)"
  defines "p' \<equiv> p\<lparr>connectionOutFlow := spend n (connectionOutFlow p)\<rparr>"
  defines "r' \<equiv> r\<lparr>outbound := outbound r @ body_frames p s\<rparr>"
  shows "emitPendingRequestBody sid p r =
    (if localEndStreamSent (sent_body n s)
     then if remoteEndStreamReceived s
          then Inr (erase_stream sid p', push_event (EV_STREAM_CLOSED sid EC_NO_ERROR) r')
          else Inr (put_stream sid ((sent_body n s)\<lparr>st_state := SS_HALF_CLOSED_LOCAL\<rparr>) p', r')
     else Inr (put_stream sid (sent_body n s) p', r'))"
proof -
  have s: "st_id s = sid" "stream_ok s" using proto_ok_find [OF assms(1,2)] by auto
  then have "body_ok s" by (simp add: stream_ok_def)
  moreover have "OutFlow_wf (connectionOutFlow p)" "0 < unat (maxFrameSize p)" using assms(1) by (auto simp: proto_ok_def)
  ultimately show ?thesis
    using assms(2,3) stream_ok_open [OF s(2)] s(1)
    by (auto simp: emitPendingRequestBody_def emit_body_loop_frames Let_def n_def p'_def r'_def body_frames_def)
qed

lemma spend_evolves:
  assumes "proto_ok p" and "find_stream sid p = Some s"
  shows "evolves p [] (p\<lparr>connectionOutFlow := spend (sendable s (connectionOutFlow p)) (connectionOutFlow p)\<rparr>)"
proof -
  have "OutFlow_wf (spend (sendable s (connectionOutFlow p)) (connectionOutFlow p))"
    using sent_body_ok(2) [of s "connectionOutFlow p"] proto_ok_find [OF assms] assms(1)
    by (auto simp: proto_ok_def stream_ok_def)
  then show ?thesis
    using assms(1) by (intro evolves_other) (auto simp: continues_def proto_ok_def)
qed

lemma sent_body_stream_ok:
  assumes "stream_ok s" and "OutFlow_wf conn" and "\<not> localEndStreamSent s"
  shows "localEndStreamSent (sent_body (sendable s conn) s) \<Longrightarrow> \<not> remoteEndStreamReceived s \<Longrightarrow>
      stream_ok ((sent_body (sendable s conn) s)\<lparr>st_state := SS_HALF_CLOSED_LOCAL\<rparr>)"
    and "\<not> localEndStreamSent (sent_body (sendable s conn) s) \<Longrightarrow> stream_ok (sent_body (sendable s conn) s)"
proof -
  have "body_ok (sent_body (sendable s conn) s)"
    using sent_body_ok(1) [of s conn] assms by (simp add: stream_ok_def)
  then show "localEndStreamSent (sent_body (sendable s conn) s) \<Longrightarrow> \<not> remoteEndStreamReceived s \<Longrightarrow>
      stream_ok ((sent_body (sendable s conn) s)\<lparr>st_state := SS_HALF_CLOSED_LOCAL\<rparr>)"
    "\<not> localEndStreamSent (sent_body (sendable s conn) s) \<Longrightarrow> stream_ok (sent_body (sendable s conn) s)"
    using assms by (auto simp: stream_ok_def body_ok_def)
qed

lemma emitPending_ok:
  assumes "proto_ok p"
  shows "\<exists>p' r' es. emitPendingRequestBody sid p r = Inr (p', r') \<and> events r' = events r @ es \<and> evolves p es p'"
proof (cases "\<exists>s. find_stream sid p = Some s \<and> \<not> localEndStreamSent s")
  case False
  then have "emitPendingRequestBody sid p r = Inr (p, r)"
    by (auto simp: emitPendingRequestBody_def split: option.splits)
  then show ?thesis using evolves_refl [OF assms] by auto
next
  case True
  then obtain s where s: "find_stream sid p = Some s" "\<not> localEndStreamSent s" by auto
  note ok = proto_ok_find [OF assms s(1)]
  let ?n = "sendable s (connectionOutFlow p)" and ?p = "p\<lparr>connectionOutFlow := spend (sendable s (connectionOutFlow p)) (connectionOutFlow p)\<rparr>"
  note sp = spend_evolves [OF assms s(1)]
  have w: "OutFlow_wf (connectionOutFlow p)" using assms by (simp add: proto_ok_def)
  note so = sent_body_stream_ok [OF _ w s(2)]
  have fp: "find_stream sid ?p = Some s" using s(1) by simp
  have put: "evolves p [] (put_stream sid s' ?p)"
    if "stream_ok s'" "st_id s' = sid" "responseComplete s' = responseComplete s" for s'
    using evolves_quiet [OF sp evolves_put [OF evolves_ok [OF sp] fp that(2,1,3)]] .
  have er: "evolves p [EV_STREAM_CLOSED sid EC_NO_ERROR] (erase_stream sid ?p)" if "remoteEndStreamReceived s"
    using evolves_quiet [OF sp erase_evolves [OF evolves_ok [OF sp] fp]] that ok by (simp add: stream_ok_def)
  show ?thesis
    unfolding emitPending_eq [OF assms s]
    using put [of "(sent_body ?n s)\<lparr>st_state := SS_HALF_CLOSED_LOCAL\<rparr>"] put [of "sent_body ?n s"] er so ok
    by (auto simp: push_event_def)
qed

lemma step_ok_emit: "proto_ok p \<Longrightarrow> step_ok p (events r) (emitPendingRequestBody sid p r)"
  using emitPending_ok [of p sid r] by (auto simp: step_ok_def)

lemma step_ok_emit_pending: "proto_ok p \<Longrightarrow> step_ok p (events r) (emit_pending ids p r)"
proof (induction ids arbitrary: p r)
  case (Cons sid ids)
  then show ?case
    by (cases "find_stream sid p") (auto intro!: step_ok_bind [OF step_ok_emit] Cons.IH)
qed (simp add: step_ok_same)

lemma step_ok_emit_each: "proto_ok p \<Longrightarrow> step_ok p (events r) (emit_each ids p r)"
proof (induction ids arbitrary: p r)
  case (Cons sid ids)
  then show ?case
    by (auto intro!: step_ok_bind [OF step_ok_emit] Cons.IH) (simp add: step_ok_def hang_def)
qed (simp add: step_ok_same)

end
