(* ===== verification/Protocol_Steps.thy ===== *)
theory Protocol_Steps
  imports Protocol_Inv
begin

text \<open>
  Every frame handler of src/http2_protocol.cpp evolves the connection: it keeps \<open>proto_ok\<close>
  and reports the streams it closes and the requests it answers, whatever the peer sends. The
  theory goes handler by handler; the parsers of \<open>Frames\<close> never fail on a frame that passed
  the checks before them, so no handler throws.
\<close>

section \<open>Validated frames can be taken apart\<close>

lemma validated_pad:
  assumes "raw_ok fr" and "unat k \<le> 5" and "validatePaddedPayload fr k = Inr (Inr ())"
  shows "\<exists>pad s. read_pad (rf_header fr) (span_of (rf_data fr)) = Inr (pad, s) \<and> span_wf s \<and>
           unat k + unat pad \<le> length (span_rest s) \<and> length (span_rest s) \<le> length (rf_data fr)"
proof -
  have len: "length (rf_data fr) < 2 ^ 32" using assms(1) by (simp add: raw_ok_def)
  show ?thesis
  proof (cases "hasAnyFlag FF_PADDED (rf_header fr)")
    case True
    then obtain p ps where d: "rf_data fr = p # ps" "unat k + unat p < length ps"
      using validatePaddedPayload_ok(2) [OF assms] by blast
    then show ?thesis
      using read_pad_padded [OF True, of p ps] len by (auto simp: span_wf_def span_rest_def)
  next
    case False
    then show ?thesis using validatePaddedPayload_ok(1) [OF assms] len by (simp add: read_pad_plain)
  qed
qed

lemma split_padding_total:
  assumes "span_wf s" and "unat pad \<le> length (span_rest s)"
  shows "\<exists>d p. split_padding pad s = Inr (d, p) \<and> span_rest s = d @ p"
proof -
  let ?n = "length (span_rest s) - unat pad"
  have "span_rest s = take ?n (span_rest s) @ drop ?n (span_rest s)" by simp
  moreover have "length (drop ?n (span_rest s)) = unat pad" using assms(2) by simp
  ultimately show ?thesis using split_padding_wf [OF assms(1)] by blast
qed

lemma span_read_total:
  assumes "span_wf s" and "n \<le> length (span_rest s)"
  shows "\<exists>(v :: 'a::len word) s'. span_readAs n s = Inr (v, s') \<and> span_wf s' \<and> length (span_rest s') = length (span_rest s) - n"
  using span_readAs_wf [OF assms, where 'a = 'a] span_wf_advance [OF assms] by (auto simp: span_rest_def)

lemma DataFrame_total:
  assumes "raw_ok fr" and "validatePaddedPayload fr 0 = Inr (Inr ())"
  shows "\<exists>df. DataFrame_of_raw fr = Inr df \<and> df_header df = rf_header fr \<and> length (df_data df) \<le> length (rf_data fr)"
proof -
  obtain pad s where s: "read_pad (rf_header fr) (span_of (rf_data fr)) = Inr (pad, s)" "span_wf s"
    "unat pad \<le> length (span_rest s)" "length (span_rest s) \<le> length (rf_data fr)"
    using validated_pad [OF assms(1) _ assms(2)] by auto
  then show ?thesis using split_padding_total [of s pad] by (auto simp: DataFrame_of_raw_def)
qed

lemma HeadersFrame_total:
  assumes "raw_ok fr" and "validatePaddedPayload fr (if hasAnyFlag FF_PRIORITY (rf_header fr) then 5 else 0) = Inr (Inr ())"
  shows "\<exists>hf. HeadersFrame_of_raw fr = Inr hf \<and> hf_header hf = rf_header fr \<and> length (hf_data hf) \<le> length (rf_data fr)"
proof -
  let ?k = "if hasAnyFlag FF_PRIORITY (rf_header fr) then 5 else 0 :: u32"
  have "unat ?k \<le> 5" by simp
  then obtain pad s where s: "read_pad (rf_header fr) (span_of (rf_data fr)) = Inr (pad, s)" "span_wf s"
    "unat ?k + unat pad \<le> length (span_rest s)" "length (span_rest s) \<le> length (rf_data fr)"
    using validated_pad [OF assms(1) _ assms(2)] by blast
  have "\<exists>dep w s'. read_priority (rf_header fr) s = Inr (dep, w, s') \<and> span_wf s' \<and>
      unat pad \<le> length (span_rest s') \<and> length (span_rest s') \<le> length (span_rest s)"
  proof (cases "hasAnyFlag FF_PRIORITY (rf_header fr)")
    case True
    then have le: "5 + unat pad \<le> length (span_rest s)" using s(3) by simp
    then obtain dep :: u32 and s1 where s1: "span_readAs 4 s = Inr (dep, s1)" "span_wf s1" "length (span_rest s1) = length (span_rest s) - 4"
      using span_read_total [OF s(2), of 4, where 'a = 32] by auto
    have "1 \<le> length (span_rest s1)" using s1(3) le by linarith
    then obtain w :: u8 and s2 where "span_readAs 1 s1 = Inr (w, s2)" "span_wf s2" "length (span_rest s2) = length (span_rest s1) - 1"
      using span_read_total [OF s1(2), of 1, where 'a = 8] by blast
    then show ?thesis using True le s1 by (auto simp: read_priority_def)
  qed (use s in \<open>simp add: read_priority_def\<close>)
  then obtain dep w s' where p: "read_priority (rf_header fr) s = Inr (dep, w, s')" "span_wf s'"
      "unat pad \<le> length (span_rest s')" "length (span_rest s') \<le> length (span_rest s)" by blast
  then show ?thesis using split_padding_total [OF p(2,3)] s by (auto simp: HeadersFrame_of_raw_def)
qed

lemma PushPromiseFrame_total:
  assumes "raw_ok fr" and "validatePaddedPayload fr 4 = Inr (Inr ())"
  shows "\<exists>pf. PushPromiseFrame_of_raw fr = Inr pf"
proof -
  obtain pad s where s: "read_pad (rf_header fr) (span_of (rf_data fr)) = Inr (pad, s)" "span_wf s"
    "4 + unat pad \<le> length (span_rest s)"
    using validated_pad [OF assms(1) _ assms(2)] by auto
  then obtain v :: u32 and s1 where s1: "span_readAs 4 s = Inr (v, s1)" "span_wf s1" "length (span_rest s1) = length (span_rest s) - 4"
    using span_read_total [OF s(2), of 4, where 'a = 32] by auto
  moreover have "unat pad \<le> length (span_rest s1)" using s1(3) s(3) by simp
  ultimately show ?thesis using split_padding_total [OF s1(2), of pad] s(1) by (auto simp: PushPromiseFrame_of_raw_def)
qed

lemma raw_word_total:
  assumes "raw_ok fr" and "payloadLength (rf_header fr) = 4"
  shows "\<exists>rf. RstStreamFrame_of_raw fr = Inr rf" and "\<exists>wf. WindowUpdateFrame_of_raw fr = Inr wf"
proof -
  have "length (rf_data fr) = 4" using assms by (simp add: raw_ok_def)
  then obtain v :: u32 and s where "span_readAs 4 (span_of (rf_data fr)) = Inr (v, s)"
    using span_read_total [of "span_of (rf_data fr)" 4, where 'a = 32] by auto
  then show "\<exists>rf. RstStreamFrame_of_raw fr = Inr rf" "\<exists>wf. WindowUpdateFrame_of_raw fr = Inr wf"
    by (simp_all add: RstStreamFrame_of_raw_def WindowUpdateFrame_of_raw_def)
qed

lemma GoAwayFrame_total:
  assumes "raw_ok fr" and "\<not> payloadLength (rf_header fr) < 8"
  shows "\<exists>gf. GoAwayFrame_of_raw fr = Inr gf"
proof -
  have len: "8 \<le> length (rf_data fr)" "length (rf_data fr) < 2 ^ 32"
    using assms by (simp_all add: raw_ok_def word_less_nat_alt)
  then obtain v :: u32 and s where s: "span_readAs 4 (span_of (rf_data fr)) = Inr (v, s)" "span_wf s"
      "length (span_rest s) = length (rf_data fr) - 4"
    using span_read_total [of "span_of (rf_data fr)" 4, where 'a = 32] by auto
  moreover have "4 \<le> length (span_rest s)" using s(3) len by linarith
  ultimately show ?thesis using span_read_total [OF s(2), of 4, where 'a = 32] by (auto simp: GoAwayFrame_of_raw_def)
qed

lemma read_settings_total:
  assumes "span_wf s" and "length (span_rest s) mod 6 = 0"
  shows "\<exists>ss. read_settings s acc = Inr ss"
  using assms
proof (induction "length (span_rest s)" arbitrary: s acc rule: less_induct)
  case less
  show ?case
  proof (cases "span_rest s = []")
    case True
    then show ?thesis by (subst read_settings.simps) (simp add: span_empty_rest)
  next
    case False
    then have six: "6 \<le> length (span_rest s)" using less(3) by (cases "length (span_rest s) < 6") auto
    then obtain i :: u16 and s1 where s1: "span_readAs 2 s = Inr (i, s1)" "span_wf s1" "length (span_rest s1) = length (span_rest s) - 2"
      using span_read_total [OF less(2), of 2, where 'a = 16] by auto
    have "4 \<le> length (span_rest s1)" using s1(3) six by linarith
    then obtain v :: u32 and s2 where s2: "span_readAs 4 s1 = Inr (v, s2)" "span_wf s2" "length (span_rest s2) = length (span_rest s1) - 4"
      using span_read_total [OF s1(2), of 4, where 'a = 32] by blast
    have lt: "length (span_rest s2) < length (span_rest s)" and m: "length (span_rest s2) mod 6 = 0"
      using s1(3) s2(3) six less(3) by (auto simp: le_mod_geq)
    then show ?thesis
      using less(1) [OF lt s2(2) m, of "acc @ [(i, v)]"] False s1(1) s2(1)
      by (subst read_settings.simps) (simp add: span_empty_rest)
  qed
qed

lemma SettingFrame_total:
  assumes "raw_ok fr"
  shows "\<exists>sf. SettingFrame_of_raw fr = Inr sf"
proof -
  have "length (rf_data fr) < 2 ^ 32" using assms by (simp add: raw_ok_def)
  then show ?thesis
    using read_settings_total [of "span_of (rf_data fr)" "[]"]
    by (auto simp: SettingFrame_of_raw_def Let_def span_size_wf)
qed

section \<open>The end of a response\<close>

definition length_mismatch :: "int \<Rightarrow> Stream \<Rightarrow> bool" where
  "length_mismatch status s \<longleftrightarrow>
     0 \<le> expectedContentLength s \<and> \<not> (isHeadRequest s \<or> status = 204 \<or> status = 304) \<and>
     receivedContentLength s \<noteq> expectedContentLength s"

definition finished :: "Stream \<Rightarrow> Stream" where
  "finished s = s\<lparr>remoteEndStreamReceived := True, responseComplete := True, resp := moved_response (resp s),
                 st_state := SS_HALF_CLOSED_REMOTE\<rparr>"

lemma failStream_put:
  assumes "find_stream sid p = Some s" and "waitingForContinuation s' = waitingForContinuation s"
    and "pendingHeaderBlock s' = pendingHeaderBlock s"
  shows "failStream sid e rst (put_stream sid s' p) = failStream sid e rst p"
proof -
  have "find_stream sid (put_stream sid s' p) = Some s'" using assms(1) by (simp add: find_put)
  moreover have "erase_stream sid (ghosted s' (put_stream sid s' p)) = erase_stream sid (ghosted s p)"
    using assms(2,3) arg_cong [OF erase_put [of sid s' p], of streams] by (simp add: ghosted_def erase_stream_def put_stream_def)
  ultimately show ?thesis using assms(1) by (simp add: failStream_Some)
qed

lemma finalize_eq:
  assumes "find_stream sid p = Some s" and "st_id s = sid" and "getStatusCode (resp s) = Inr status"
  shows "finalizeRemoteStream sid p r =
    (if length_mismatch status s
     then Inr (fst (failStream sid EC_PROTOCOL_ERROR True p),
               mergeStepResult r (snd (failStream sid EC_PROTOCOL_ERROR True p)))
     else if localEndStreamSent s
     then Inr (erase_stream sid p, push_event (EV_STREAM_CLOSED sid EC_NO_ERROR)
                                     (push_event (EV_RESPONSE_COMPLETED sid (resp s)) r))
     else Inr (put_stream sid (finished s) p, push_event (EV_RESPONSE_COMPLETED sid (resp s)) r))"
proof -
  let ?s = "s\<lparr>remoteEndStreamReceived := True\<rparr>"
  have fail: "failStream sid EC_PROTOCOL_ERROR True (put_stream sid ?s p) = failStream sid EC_PROTOCOL_ERROR True p"
    using failStream_put [OF assms(1), of ?s] by simp
  show ?thesis
    using assms
    by (auto simp: finalizeRemoteStream_def Let_def expectsNoBody_def fail length_mismatch_def finished_def split: prod.split)
qed

lemma step_ok_finalize:
  assumes "proto_ok p" and "find_stream sid p = Some s" and "\<not> remoteEndStreamReceived s"
    and "finalResponseHeadersReceived s" and "\<not> expectingContinuation p"
  shows "step_ok p (events r) (finalizeRemoteStream sid p r)"
proof -
  have s: "st_id s = sid" "stream_ok s" using proto_ok_find [OF assms(1,2)] by auto
  then obtain status where st: "getStatusCode (resp s) = Inr status" using assms(3,4) by (auto simp: stream_ok_def)
  have "stream_ok (finished s)" if "\<not> localEndStreamSent s"
    using s(2) that assms(4) by (auto simp: stream_ok_def finished_def body_ok_def)
  then have fin: "evolves p [EV_RESPONSE_COMPLETED sid (resp s)] (put_stream sid (finished s) p)" if "\<not> localEndStreamSent s"
    using that s(1) assms(1,2,5) find_None [of sid p]
    by (auto simp: evolves_def continues_def reports_def proto_ok_def find_put pending_def finished_def)
  show ?thesis
    unfolding finalize_eq [OF assms(2) s(1) st]
    using fin failStream_evolves [OF assms(1), of sid EC_PROTOCOL_ERROR True]
      erase_evolves [OF assms(1,2), of "[EV_RESPONSE_COMPLETED sid (resp s), EV_STREAM_CLOSED sid EC_NO_ERROR]"]
    by (auto intro!: step_ok_Inr)
qed

section \<open>DATA\<close>

lemma take_credit:
  assumes "InFlow_ok f" and "uint n \<le> avail f"
  shows "InFlow_ok (f\<lparr>avail := avail f - uint n\<rparr>)"
    and "InFlow_credit (f\<lparr>avail := avail f - uint n\<rparr>) = InFlow_credit f - uint n"
  using assms by (auto simp: InFlow_ok_def InFlow_wf_def InFlow_credit_def i32_bounds) (use uint_ge_0 [of n] in linarith)+

lemma give_back:
  assumes "InFlow_ok f" and "uint n \<le> avail f"
  shows "\<exists>k f'. InFlow_add (uint n) (f\<lparr>avail := avail f - uint n\<rparr>) = Inr (k, f') \<and> 0 \<le> k \<and> InFlow_ok f' \<and>
    InFlow_credit f' = InFlow_credit f"
proof -
  let ?f = "f\<lparr>avail := avail f - uint n\<rparr>"
  have "InFlow_wf ?f" "InFlow_credit ?f + uint n \<le> INT32_MAX" "unsnt ?f + uint n \<le> INT32_MAX"
    using take_credit [OF assms] assms by (auto simp: InFlow_ok_def InFlow_wf_def InFlow_credit_def)
  then obtain k f' where "InFlow_add (uint n) ?f = Inr (k, f')" "0 \<le> k" "InFlow_wf f'"
      "InFlow_credit f' = InFlow_credit ?f + uint n" "avail f' = avail ?f + k"
    using InFlow_add_wf [of ?f "uint n"] by auto
  then show ?thesis using assms(2) take_credit(2) [OF assms] by (auto simp: InFlow_ok_def)
qed

lemma takeInflows_ok:
  assumes "InFlow_ok f" and "InFlow_ok g" and "takeInflows f g n = (True, f', g')"
  shows "uint n \<le> avail f \<and> uint n \<le> avail g \<and> f' = f\<lparr>avail := avail f - uint n\<rparr> \<and> g' = g\<lparr>avail := avail g - uint n\<rparr>"
  using assms by (auto simp: takeInflows_iff InFlow_ok_def split: if_splits)

lemma takeInflows_refused:
  assumes "InFlow_ok f" and "InFlow_ok g" and "takeInflows f g n = (False, f', g')"
  shows "f' = f \<and> g' = g"
  using assms by (auto simp: takeInflows_iff InFlow_ok_def split: if_splits)

lemma raw_ok_small:
  assumes "raw_ok fr"
  shows "sint (payloadLength (rf_header fr)) = uint (payloadLength (rf_header fr))"
proof -
  have "unat (payloadLength (rf_header fr)) < 2 ^ 24" using assms by (simp add: raw_ok_def)
  then have "uint (payloadLength (rf_header fr)) < 2 ^ 24" by (metis (mono_tags) of_nat_less_iff of_nat_numeral of_nat_power uint_nat)
  then show ?thesis by (intro sint_u32_small) (simp add: i32_bounds)
qed

lemma evolves_inflow:
  assumes "proto_ok p" and "InFlow_ok w"
  shows "evolves p [] (p\<lparr>connectionInflow := w\<rparr>)"
  using assms by (intro evolves_other) (auto simp: continues_def proto_ok_def)

lemma events_emit_refresh [simp]: "events (emit_refresh sid k r) = events r"
  by (simp add: emit_refresh_def)

lemma step_ok_DataUnknown:
  assumes "proto_ok p" and "sint (payloadLength (df_header df)) = uint (payloadLength (df_header df))"
  shows "step_ok p [] (processDataOnUnknownStream df p)"
proof -
  let ?f = "connectionInflow p" and ?n = "payloadLength (df_header df)"
  have ok: "InFlow_ok ?f" using assms(1) by (simp add: proto_ok_def)
  show ?thesis
  proof (cases "0 < avail ?f \<and> uint ?n \<le> avail ?f")
    case True
    then obtain k f' where g: "InFlow_add (uint ?n) (?f\<lparr>avail := avail ?f - uint ?n\<rparr>) = Inr (k, f')" "0 \<le> k" "InFlow_ok f'"
      using give_back [OF ok, of ?n] by blast
    moreover have "InFlow_take ?n ?f = (True, ?f\<lparr>avail := avail ?f - uint ?n\<rparr>)"
      using True ok by (simp add: InFlow_take_iff InFlow_ok_def)
    ultimately show ?thesis
      using assms evolves_inflow [OF assms(1) g(3)]
      by (auto simp: processDataOnUnknownStream_def Let_def intro!: step_ok_failConnection step_ok_Inr)
  next
    case False
    then have "InFlow_take ?n ?f = (False, ?f)" using ok by (auto simp: InFlow_take_iff InFlow_ok_def)
    then show ?thesis
      using assms(1) by (auto simp: processDataOnUnknownStream_def Let_def intro!: step_ok_failConnection)
  qed
qed

lemma put_inflow [simp]: "(put_stream sid s p)\<lparr>connectionInflow := w\<rparr> = put_stream sid s (p\<lparr>connectionInflow := w\<rparr>)"
  by (simp add: put_stream_def)

definition with_data :: "u8 list \<Rightarrow> InFlow \<Rightarrow> Stream \<Rightarrow> Stream" where
  "with_data bs w s =
     s\<lparr>resp := (resp s)\<lparr>rs_body := rs_body (resp s) @ string_of_bytes bs\<rparr>,
       receivedContentLength := receivedContentLength s + int (length bs), inflow := w\<rparr>"

text \<open>DATA on an open response: the body grows, both windows are handed back in full.\<close>

lemma processData_accepted:
  assumes "proto_ok p" and "raw_ok fr" and "find_stream (streamId (rf_header fr)) p = Some s"
    and "streamId (rf_header fr) \<noteq> 0" and "\<not> remoteEndStreamReceived s" and "finalResponseHeadersReceived s"
    and "validatePaddedPayload fr 0 = Inr (Inr ())" and "DataFrame_of_raw fr = Inr df"
    and "uint (payloadLength (rf_header fr)) \<le> avail (connectionInflow p)"
    and "uint (payloadLength (rf_header fr)) \<le> avail (inflow s)"
    and "expectsNoBody s = Inr noBody" and "noBody \<longrightarrow> df_data df = []"
  shows "\<exists>k cw m sw. InFlow_ok cw \<and> InFlow_credit cw = InFlow_credit (connectionInflow p) \<and>
     InFlow_ok sw \<and> InFlow_credit sw = InFlow_credit (inflow s) \<and>
     processDataFrame fr p =
       (let sid = streamId (rf_header fr);
            p' = put_stream sid (with_data (df_data df) sw s) (p\<lparr>connectionInflow := cw\<rparr>);
            r' = emit_refresh sid m (emit_refresh 0 k no_result)
        in if hasAnyFlag FF_END_STREAM (rf_header fr) then finalizeRemoteStream sid p' r' else Inr (p', r'))"
proof -
  let ?sid = "streamId (rf_header fr)" and ?n = "payloadLength (rf_header fr)"
  let ?f = "connectionInflow p" and ?g = "inflow s"
  have s: "st_id s = ?sid" "stream_ok s" using proto_ok_find [OF assms(1,3)] by auto
  have ok: "InFlow_ok ?f" "InFlow_ok ?g" using assms(1) s(2) by (simp_all add: proto_ok_def stream_ok_def)
  have "\<exists>nb. df_header df = rf_header fr"
    using DataFrame_total [OF assms(2,7)] assms(8) by auto
  then have h: "df_header df = rf_header fr" by simp
  let ?f1 = "?f\<lparr>avail := avail ?f - uint ?n\<rparr>" and ?g1 = "?g\<lparr>avail := avail ?g - uint ?n\<rparr>"
  have "takeInflows ?f ?g ?n = (True, ?f1, ?g1)"
  proof (cases "?n = 0")
    case False
    then have "0 < uint ?n" using uint_ge_0 [of ?n] by (metis less_le uint_0_iff)
    then show ?thesis using assms(9,10) ok by (auto simp: takeInflows_iff InFlow_ok_def)
  qed (simp add: takeInflows_def)
  moreover obtain k cw where cw: "InFlow_add (uint ?n) ?f1 = Inr (k, cw)" "0 \<le> k" "InFlow_ok cw" "InFlow_credit cw = InFlow_credit ?f"
    using give_back [OF ok(1) assms(9)] by blast
  moreover obtain m sw where sw: "InFlow_add (uint ?n) ?g1 = Inr (m, sw)" "0 \<le> m" "InFlow_ok sw" "InFlow_credit sw = InFlow_credit ?g"
    using give_back [OF ok(2) assms(10)] by blast
  moreover have "expectsNoBody (s\<lparr>inflow := ?g1\<rparr>) = Inr noBody" using assms(11) by (simp add: expectsNoBody_def)
  ultimately have "processDataFrame fr p =
       (let p' = put_stream ?sid (with_data (df_data df) sw s) (p\<lparr>connectionInflow := cw\<rparr>);
            r' = emit_refresh ?sid m (emit_refresh 0 k no_result)
        in if hasAnyFlag FF_END_STREAM (rf_header fr) then finalizeRemoteStream ?sid p' r' else Inr (p', r'))"
    using assms(3-8,12) stream_ok_open [OF s(2)] s(1) raw_ok_small [OF assms(2)]
    by (simp add: processDataFrame_def Let_def h with_data_def)
  then show ?thesis using cw sw by (auto simp: Let_def)
qed

lemma with_data_stream_ok:
  assumes "stream_ok s" and "InFlow_ok w" and "finalResponseHeadersReceived s"
  shows "stream_ok (with_data bs w s)"
  using assms by (auto simp: stream_ok_def with_data_def body_ok_def getStatusCode_def string_of_bytes_def)

lemma step_ok_DataFrame:
  assumes "proto_ok p" and "raw_ok fr" and "\<not> expectingContinuation p"
  shows "step_ok p [] (processDataFrame fr p)"
proof -
  let ?sid = "streamId (rf_header fr)" and ?n = "payloadLength (rf_header fr)"
  obtain v where v: "validatePaddedPayload fr 0 = Inr v" using validatePaddedPayload_total [OF assms(2)] by blast
  consider (bad) "?sid = 0 \<or> v \<noteq> Inr ()" | (unknown) "?sid \<noteq> 0" "v = Inr ()" "find_stream ?sid p = None"
    | (known) s where "?sid \<noteq> 0" "v = Inr ()" "find_stream ?sid p = Some s" by (cases "find_stream ?sid p") auto
  then show ?thesis
  proof cases
    case bad
    then show ?thesis
      using v assms(1) by (auto simp: processDataFrame_def Let_def intro!: step_ok_failConnection split: sum.split)
  next
    case unknown
    then obtain df where "DataFrame_of_raw fr = Inr df" "df_header df = rf_header fr"
      using DataFrame_total assms(2) v by blast
    then show ?thesis
      using unknown v step_ok_DataUnknown [OF assms(1), of df] raw_ok_small [OF assms(2)]
      by (simp add: processDataFrame_def Let_def)
  next
    case known
    then obtain df where df: "DataFrame_of_raw fr = Inr df" "df_header df = rf_header fr"
      using DataFrame_total assms(2) v by blast
    have s: "st_id s = ?sid" "stream_ok s" using proto_ok_find [OF assms(1) known(3)] by auto
    show ?thesis
    proof (cases "remoteEndStreamReceived s \<or> \<not> finalResponseHeadersReceived s")
      case True
      then show ?thesis
        using True known v df s stream_ok_open [OF s(2)] step_ok_failStream [OF assms(1)]
        by (cases "remoteEndStreamReceived s") (simp_all add: processDataFrame_def Let_def)
    next
      case False
      then obtain noBody where nb: "expectsNoBody s = Inr noBody"
        using s(2) by (auto simp: stream_ok_def expectsNoBody_def)
      have ok: "InFlow_ok (connectionInflow p)" "InFlow_ok (inflow s)" using assms(1) s(2) by (simp_all add: proto_ok_def stream_ok_def)
      obtain b cw sw where t: "takeInflows (connectionInflow p) (inflow s) ?n = (b, cw, sw)" by (metis prod_cases3)
      show ?thesis
      proof (cases "b \<and> (noBody \<longrightarrow> df_data df = [])")
        case True
        then have le: "uint ?n \<le> avail (connectionInflow p)" "uint ?n \<le> avail (inflow s)" "noBody \<longrightarrow> df_data df = []"
          using takeInflows_ok [OF ok] t by auto
        obtain k cw m sw where c: "InFlow_ok cw" "InFlow_ok sw" and eq: "processDataFrame fr p =
         (let p' = put_stream ?sid (with_data (df_data df) sw s) (p\<lparr>connectionInflow := cw\<rparr>);
              r' = emit_refresh ?sid m (emit_refresh 0 k no_result)
          in if hasAnyFlag FF_END_STREAM (rf_header fr) then finalizeRemoteStream ?sid p' r' else Inr (p', r'))"
          using processData_accepted [OF assms(1,2) known(3,1) _ _ _ df(1) le(1,2) nb le(3)] False v known(2) by (auto simp: Let_def)
        let ?p = "put_stream ?sid (with_data (df_data df) sw s) (p\<lparr>connectionInflow := cw\<rparr>)"
        have e1: "evolves p [] (p\<lparr>connectionInflow := cw\<rparr>)" using evolves_inflow [OF assms(1) c(1)] .
        have "evolves (p\<lparr>connectionInflow := cw\<rparr>) [] ?p"
          using known(3) s with_data_stream_ok [OF s(2) c(2)] False
          by (intro evolves_put [OF evolves_ok [OF e1]]) (auto simp: with_data_def)
        then have ev: "evolves p [] ?p" using evolves_quiet [OF e1] by blast
        have "step_ok ?p (events r) (finalizeRemoteStream ?sid ?p r)" for r
          using known(3) False assms(3) by (intro step_ok_finalize [OF evolves_ok [OF ev]]) (auto simp: find_put with_data_def)
        from this [of "emit_refresh ?sid m (emit_refresh 0 k no_result)"] show ?thesis
          unfolding eq using ev by (auto simp: Let_def intro: step_ok_quiet intro!: step_ok_Inr)
      next
        case no: False
        let ?s = "s\<lparr>inflow := sw\<rparr>"
        let ?p = "put_stream ?sid ?s (p\<lparr>connectionInflow := cw\<rparr>)"
        have c: "InFlow_ok cw" "InFlow_ok sw"
          using takeInflows_ok [OF ok, of ?n] takeInflows_refused [OF ok, of ?n] take_credit(1) ok t by (cases b; auto)+
        have e1: "evolves p [] (p\<lparr>connectionInflow := cw\<rparr>)" using evolves_inflow [OF assms(1) c(1)] .
        have "stream_ok ?s" using s(2) c(2) by (auto simp: stream_ok_def body_ok_def)
        then have "evolves (p\<lparr>connectionInflow := cw\<rparr>) [] ?p"
          using known(3) s by (intro evolves_put [OF evolves_ok [OF e1]]) auto
        then have ev: "evolves p [] ?p" using evolves_quiet [OF e1] by blast
        have nb': "expectsNoBody ?s = Inr noBody" using nb by (simp add: expectsNoBody_def)
        show ?thesis
          using known v df s stream_ok_open [OF s(2)] False no t nb'
            step_ok_quiet [OF ev step_ok_failStream [OF evolves_ok [OF ev]]]
            step_ok_quiet [OF ev step_ok_failConnection [OF evolves_ok [OF ev]]]
          by (auto simp: processDataFrame_def Let_def)
      qed
    qed
  qed
qed

section \<open>Header blocks\<close>

lemma expected_noop: "\<exists>cl. s = s\<lparr>expectedContentLength := cl\<rparr>" for s :: Stream
  by (rule exI [of _ "expectedContentLength s"]) simp

lemma validate_loop_fst: "\<exists>cl. fst (validate_loop hs s a b c) = s\<lparr>expectedContentLength := cl\<rparr>"
proof (induction hs arbitrary: s a b c)
  case (Cons h hs)
  have upd: "\<exists>cl. fst (validate_loop hs (s\<lparr>expectedContentLength := k\<rparr>) True b c) = s\<lparr>expectedContentLength := cl\<rparr>" for k
    using Cons.IH [of "s\<lparr>expectedContentLength := k\<rparr>" True b c] by simp
  show ?case
    unfolding validate_loop.simps
    by (auto simp only: fst_conv intro!: expected_noop upd Cons.IH split: if_split option.split)
qed (simp add: expected_noop)

lemma validate_loop_stream:
  "validate_loop hs s a b c = (s', r) \<Longrightarrow> \<exists>cl. s' = s\<lparr>expectedContentLength := cl\<rparr>"
  using validate_loop_fst [of hs s a b c] by simp

lemma validate_loop_seen:
  "validate_loop hs s a True c = (s', Some (x, b, c')) \<Longrightarrow> b \<and> c' = c"
  by (induction hs arbitrary: s a) (auto split: if_splits option.splits)

lemma validate_loop_status:
  "validate_loop hs s a False c = (s', Some (x, True, c')) \<Longrightarrow>
   \<exists>v. first_value '':status'' hs = Some v \<and> tryParseStatusCode v = Some c'"
proof (induction hs arbitrary: s a)
  case (Cons h hs)
  show ?case
  proof (cases "hname h = '':status''")
    case True
    then show ?thesis
      using Cons.prems by (auto simp: first_value_def split: if_splits option.splits dest: validate_loop_seen)
  next
    case False
    then have "first_value '':status'' (h # hs) = first_value '':status'' hs" by (simp add: first_value_def)
    then show ?thesis using Cons False by (auto split: if_splits option.splits)
  qed
qed simp

lemma validate_block_stream:
  assumes "validateResponseHeaderBlock s hs es = (code, s', info)"
  shows "\<exists>cl. s' = s\<lparr>expectedContentLength := cl\<rparr>"
proof (cases "hs = []")
  case True
  then show ?thesis using assms by (auto simp: validateResponseHeaderBlock_def intro: exI [of _ "expectedContentLength s"])
next
  case False
  obtain s1 r where v: "validate_loop hs s False False 0 = (s1, r)" by fastforce
  then have "s' = s1"
    using assms False by (auto simp: validateResponseHeaderBlock_def split: option.splits if_splits)
  then show ?thesis using validate_loop_stream [OF v] by simp
qed

lemma validate_block_status:
  assumes "validateResponseHeaderBlock s hs es = (EC_NO_ERROR, s', info)" and "\<not> finalResponseHeadersReceived s"
  shows "\<exists>v c. first_value '':status'' hs = Some v \<and> tryParseStatusCode v = Some c \<and> (info \<longleftrightarrow> c div 100 = 1)"
proof -
  obtain s1 r where v: "validate_loop hs s False False 0 = (s1, r)" by fastforce
  moreover have "finalResponseHeadersReceived s1 = finalResponseHeadersReceived s"
    using validate_loop_stream [OF v] by auto
  ultimately show ?thesis
    using assms validate_loop_status
    by (fastforce simp: validateResponseHeaderBlock_def split: option.splits if_splits)
qed

lemma validate_block_trailers:
  assumes "validateResponseHeaderBlock s hs es = (EC_NO_ERROR, s', info)" and "finalResponseHeadersReceived s"
  shows "\<not> info \<and> es"
proof -
  obtain s1 r where v: "validate_loop hs s False False 0 = (s1, r)" by fastforce
  moreover have "finalResponseHeadersReceived s1 = finalResponseHeadersReceived s"
    using validate_loop_stream [OF v] by auto
  ultimately show ?thesis
    using assms by (auto simp: validateResponseHeaderBlock_def split: option.splits if_splits)
qed

lemma evolves_hpack:
  assumes "proto_ok p" and "decoded_from (hpack p) hp"
  shows "evolves p [] (p\<lparr>hpack := hp\<rparr>)"
  using assms by (intro evolves_other) (auto simp: continues_def proto_ok_def decoded_from_def)

definition headers_stored :: "HeaderField list \<Rightarrow> Stream \<Rightarrow> Stream" where
  "headers_stored headers s =
     (if \<not> finalResponseHeadersReceived s
      then s\<lparr>resp := (resp s)\<lparr>rs_headers := rs_headers (resp s) @ headers\<rparr>, finalResponseHeadersReceived := True\<rparr>
      else s\<lparr>resp := (resp s)\<lparr>rs_trailers := rs_trailers (resp s) @ headers\<rparr>, trailingHeadersReceived := True\<rparr>)"

lemma headers_stored_simps [simp]:
  "st_id (headers_stored hs s) = st_id s" "responseComplete (headers_stored hs s) = responseComplete s"
  "remoteEndStreamReceived (headers_stored hs s) = remoteEndStreamReceived s"
  by (simp_all add: headers_stored_def)

lemma headers_stored_ok:
  assumes "stream_ok s" and "\<not> remoteEndStreamReceived s"
    and "\<not> finalResponseHeadersReceived s \<Longrightarrow> \<exists>v c. first_value '':status'' hs = Some v \<and> tryParseStatusCode v = Some c"
  shows "stream_ok (headers_stored hs s)"
    and "finalResponseHeadersReceived (headers_stored hs s)"
proof -
  show "finalResponseHeadersReceived (headers_stored hs s)" by (simp add: headers_stored_def)
  show "stream_ok (headers_stored hs s)"
  proof (cases "finalResponseHeadersReceived s")
    case True
    then show ?thesis using assms(1) by (auto simp: stream_ok_def headers_stored_def body_ok_def getStatusCode_def)
  next
    case False
    then obtain v c where "first_value '':status'' hs = Some v" "tryParseStatusCode v = Some c" using assms(3) by blast
    then have "getStatusCode (Response_new\<lparr>rs_headers := hs\<rparr>) = Inr c" by (simp add: getStatusCode_def status_code_stoi)
    then show ?thesis using False assms(1,2) by (auto simp: stream_ok_def headers_stored_def body_ok_def getStatusCode_def)
  qed
qed

lemma finalize_total:
  assumes "proto_ok p" and "find_stream sid p = Some s" and "\<not> remoteEndStreamReceived s" and "finalResponseHeadersReceived s"
    and "\<not> expectingContinuation p"
  shows "\<exists>p' r' es. finalizeRemoteStream sid p r = Inr (p', r') \<and> events r' = events r @ es \<and> evolves p es p'"
proof -
  have s: "st_id s = sid" "stream_ok s" using proto_ok_find [OF assms(1,2)] by auto
  then obtain status where "getStatusCode (resp s) = Inr status" using assms(3,4) by (auto simp: stream_ok_def)
  from finalize_eq [OF assms(2) s(1) this, of r] have "\<exists>x. finalizeRemoteStream sid p r = Inr x" by auto
  then show ?thesis using step_ok_finalize [OF assms, of r] by (auto simp: step_ok_def)
qed


lemma decodeResponseHeaders_ok:
  assumes "proto_ok p" and "find_stream sid p = Some s" and "\<not> remoteEndStreamReceived s"
    and "\<not> expectingContinuation p"
  shows "\<exists>code p' r'. decodeResponseHeaders sid fin p r = Inr (code, p', r') \<and>
     (if code = EC_NO_ERROR then \<exists>es. events r' = events r @ es \<and> evolves p es p' else evolves p [] p')"
proof -
  have s: "st_id s = sid" "stream_ok s" using proto_ok_find [OF assms(1,2)] by auto
  have "span_wf (span_of (pendingHeaderBlock s))" using s(2) by (simp add: stream_ok_def)
  moreover have "decoder_ok (hpack p)" using assms(1) by (simp add: proto_ok_def)
  ultimately obtain ok hp headers where dec: "hpack_decode (span_of (pendingHeaderBlock s)) [] (hpack p) = Inr (ok, hp, headers)"
      "decoded_from (hpack p) hp"
    using hpack_decode_total [of "hpack p" "span_of (pendingHeaderBlock s)" "[]"] by auto
  let ?p = "p\<lparr>hpack := hp\<rparr>"
  have e1: "evolves p [] ?p" using evolves_hpack [OF assms(1) dec(2)] .
  let ?s = "s\<lparr>pendingHeaderBlock := [], waitingForContinuation := False, pendingHeaderEndStream := False\<rparr>"
  obtain code s1 info where v: "validateResponseHeaderBlock ?s headers fin = (code, s1, info)" by (metis prod_cases3)
  then obtain cl where s1: "s1 = ?s\<lparr>expectedContentLength := cl\<rparr>" using validate_block_stream by blast
  have ok1: "stream_ok s1" using s(2) by (auto simp: s1 stream_ok_def body_ok_def)
  have put: "evolves p [] (put_stream sid s' ?p)" if "stream_ok s'" "st_id s' = sid" "responseComplete s' = responseComplete s" for s'
    using evolves_quiet [OF e1 evolves_put [OF evolves_ok [OF e1], of sid s s']] assms(2) that by simp
  have e2: "evolves p [] (put_stream sid s1 ?p)" using put [OF ok1] s(1) by (simp add: s1)
  consider (fail) "\<not> ok \<or> (0 < maxHeaderListSize p \<and> unat (maxHeaderListSize p) < headerListSize headers)"
    | (bad) "ok" "\<not> (0 < maxHeaderListSize p \<and> unat (maxHeaderListSize p) < headerListSize headers)" "code \<noteq> EC_NO_ERROR"
    | (good) "ok" "\<not> (0 < maxHeaderListSize p \<and> unat (maxHeaderListSize p) < headerListSize headers)" "code = EC_NO_ERROR"
    by blast
  then show ?thesis
  proof cases
    case fail
    then show ?thesis using assms(2) dec e1 by (auto simp: decodeResponseHeaders_def Let_def)
  next
    case bad
    then show ?thesis using assms(2) dec v e2 by (auto simp: decodeResponseHeaders_def Let_def)
  next
    case good
    show ?thesis
    proof (cases "info \<or> (finalResponseHeadersReceived s1 \<and> Request_find (rqst s1) '':method'' = Some ''CONNECT'')")
      case True
      then show ?thesis
        using assms(2) dec v e2 good by (auto simp: decodeResponseHeaders_def Let_def intro!: evolves_silent_first)
    next
      case False
      let ?s2 = "headers_stored headers s1" and ?p2 = "put_stream sid (headers_stored headers s1) ?p"
      let ?r = "push_event (EV_STREAM_HEADERS_RECEIVED (st_id s1) (resp (headers_stored headers s1))) r"
      have "\<exists>v c. first_value '':status'' headers = Some v \<and> tryParseStatusCode v = Some c" if "\<not> finalResponseHeadersReceived s1"
        using validate_block_status [of ?s headers fin s1 info] v good(3) that by (auto simp: s1)
      then have s2: "stream_ok ?s2" "finalResponseHeadersReceived ?s2"
        using headers_stored_ok [OF ok1] assms(3) by (auto simp: s1)
      have e3: "evolves p [] ?p2" using put [OF s2(1)] s(1) by (simp add: s1)
      have eq: "decodeResponseHeaders sid fin p r =
          (if fin then cpp_bind (finalizeRemoteStream sid ?p2 ?r) (\<lambda>(p, r). Inr (EC_NO_ERROR, p, r))
           else Inr (EC_NO_ERROR, ?p2, ?r))"
        using assms(2) dec v good False
        by (cases "finalResponseHeadersReceived s1") (auto simp: decodeResponseHeaders_def Let_def headers_stored_def)
      have "find_stream sid ?p2 = Some ?s2" using assms(2) by (simp add: find_put)
      then obtain p3 r3 es where "finalizeRemoteStream sid ?p2 ?r = Inr (p3, r3)" "events r3 = events ?r @ es" "evolves ?p2 es p3"
        using finalize_total [OF evolves_ok [OF e3], of sid ?s2 ?r] s2(2) assms(3,4) by (auto simp: s1)
      then show ?thesis
        unfolding eq using e3 evolves_quiet [OF e3] by (auto intro!: evolves_silent_first)
    qed
  qed
qed

lemma step_ok_finish_header_block:
  assumes "proto_ok p" and "find_stream sid p = Some s" and "\<not> remoteEndStreamReceived s"
    and "\<not> expectingContinuation p"
  shows "step_ok p [] (finish_header_block sid fin p)"
proof -
  obtain code p' r' where "decodeResponseHeaders sid fin p no_result = Inr (code, p', r')"
      "if code = EC_NO_ERROR then \<exists>es. events r' = events no_result @ es \<and> evolves p es p' else evolves p [] p'"
    using decodeResponseHeaders_ok [OF assms] by blast
  then show ?thesis
    by (auto simp: finish_header_block_def handleHeaderBlockError_def step_ok_def [of p "[]" "Inr (p', r')"] split: if_splits
        intro: step_ok_quiet [OF _ step_ok_failConnection] step_ok_quiet [OF _ step_ok_failStream] dest: evolves_ok)
qed

lemma step_ok_decode_discarded:
  assumes "proto_ok p" and "length block < 2 ^ 32"
  shows "step_ok p [] (decode_discarded block debug p)"
proof -
  have "decoder_ok (hpack p)" using assms(1) by (simp add: proto_ok_def)
  then obtain ok hp hs where dec: "hpack_decode (span_of block) [] (hpack p) = Inr (ok, hp, hs)" "decoded_from (hpack p) hp"
    using hpack_decode_total [of "hpack p" "span_of block" "[]"] assms(2) by auto
  note ev = evolves_hpack [OF assms(1) dec(2)]
  show ?thesis
    using dec(1) ev step_ok_quiet [OF ev step_ok_failConnection [OF evolves_ok [OF ev]]]
    by (auto simp: decode_discarded_def Let_def intro!: step_ok_Inr)
qed

lemma header_append_cases:
  "(\<exists>b. header_append xs ys = Inr b \<and> b = xs @ ys \<and> (length xs \<le> 2 ^ 31 \<longrightarrow> length b \<le> 2 ^ 31)) \<or>
   header_append xs ys = Inl (Diverges ''ByteBuffer::ensureCapacity'')"
  by (auto simp: header_append_def)

lemma evolves_ghost:
  assumes "proto_ok p" and "length g \<le> 2 ^ 31" and "e \<Longrightarrow> find_stream c p = None"
  shows "evolves p [] (p\<lparr>ghostHeaderBlock := g, expectingContinuation := e, continuationStreamId := c\<rparr>)"
    and "evolves p [] (p\<lparr>expectingContinuation := e, continuationStreamId := c, ghostHeaderBlock := g\<rparr>)"
    and "evolves p [] (p\<lparr>ghostHeaderBlock := g\<rparr>)"
  using assms by (auto intro!: evolves_other simp: continues_def proto_ok_def)

lemma evolves_expecting:
  assumes "proto_ok p" and "e \<Longrightarrow> find_stream c p = Some s \<and> \<not> remoteEndStreamReceived s"
  shows "evolves p [] (p\<lparr>expectingContinuation := e, continuationStreamId := c\<rparr>)"
  using assms by (intro evolves_other) (auto simp: continues_def proto_ok_def)

lemma step_ok_hang: "step_ok p es (Inl (Diverges ''ByteBuffer::ensureCapacity''))"
  by (simp add: step_ok_def hang_def)

lemma step_ok_HeadersFrame:
  assumes "proto_ok p" and "raw_ok fr" and "\<not> expectingContinuation p"
  shows "step_ok p [] (processHeadersFrame fr p)"
proof -
  let ?sid = "streamId (rf_header fr)" and ?k = "if hasAnyFlag FF_PRIORITY (rf_header fr) then 5 else 0 :: u32"
  obtain v where v: "validatePaddedPayload fr ?k = Inr v" using validatePaddedPayload_total [OF assms(2)] by blast
  consider (bad) "?sid = 0 \<or> v \<noteq> Inr ()" | (unknown) "?sid \<noteq> 0" "v = Inr ()" "find_stream ?sid p = None"
    | (known) s where "?sid \<noteq> 0" "v = Inr ()" "find_stream ?sid p = Some s" by (cases "find_stream ?sid p") auto
  then show ?thesis
  proof cases
    case bad
    then show ?thesis
      using v assms(1) by (auto simp: processHeadersFrame_def Let_def intro!: step_ok_failConnection split: sum.split)
  next
    case unknown
    then obtain hf where hf: "HeadersFrame_of_raw fr = Inr hf" "hf_header hf = rf_header fr" "length (hf_data hf) \<le> length (rf_data fr)"
      using HeadersFrame_total assms(2) v by blast
    have len: "length (hf_data hf) < 2 ^ 24" using hf(3) assms(2) by (simp add: raw_ok_def)
    then have "header_append [] (hf_data hf) = Inr (hf_data hf)" by (simp add: header_append_def)
    then show ?thesis
      using unknown v hf assms(1) len evolves_ghost(1) [OF assms(1), of "hf_data hf" True ?sid]
      by (auto simp: processHeadersFrame_def Let_def intro!: step_ok_failConnection step_ok_decode_discarded step_ok_Inr)
  next
    case known
    then obtain hf where hf: "HeadersFrame_of_raw fr = Inr hf" "hf_header hf = rf_header fr" using HeadersFrame_total assms(2) v by blast
    have s: "st_id s = ?sid" "stream_ok s" using proto_ok_find [OF assms(1) known(3)] by auto
    show ?thesis
    proof (cases "remoteEndStreamReceived s")
      case True
      then show ?thesis using known v hf s step_ok_failStream [OF assms(1)] by (simp add: processHeadersFrame_def Let_def)
    next
      case False
      let ?a = "header_append (pendingHeaderBlock s) (hf_data hf)"
      show ?thesis
      proof (cases "\<exists>b. ?a = Inr b")
        case True
        then obtain b where b: "?a = Inr b" "length b \<le> 2 ^ 31"
          using header_append_cases [of "pendingHeaderBlock s" "hf_data hf"] s(2) by (auto simp: stream_ok_def)
        let ?s = "s\<lparr>pendingHeaderBlock := b\<rparr>" and ?p = "put_stream ?sid (s\<lparr>pendingHeaderBlock := b\<rparr>) p"
        let ?sw = "s\<lparr>pendingHeaderBlock := b, waitingForContinuation := True,
              pendingHeaderEndStream := hasAnyFlag FF_END_STREAM (rf_header fr)\<rparr>"
        have ok: "stream_ok ?s" "stream_ok ?sw" using s(2) b(2) by (auto simp: stream_ok_def body_ok_def)
        have ev: "evolves p [] ?p" using evolves_put [OF assms(1) known(3) _ ok(1)] s(1) by simp
        have ev2: "evolves p [] (put_stream ?sid ?sw p)" using evolves_put [OF assms(1) known(3) _ ok(2)] s(1) by simp
        have "find_stream ?sid (put_stream ?sid ?sw p) = Some ?sw" using known(3) by (simp add: find_put)
        then have ev3: "evolves p [] ((put_stream ?sid ?sw p)\<lparr>expectingContinuation := True, continuationStreamId := ?sid\<rparr>)"
          using evolves_quiet [OF ev2 evolves_expecting [OF evolves_ok [OF ev2], of True ?sid ?sw]] False by simp
        have "find_stream ?sid ?p = Some ?s" using known(3) by (simp add: find_put)
        then have fin: "step_ok p [] (finish_header_block ?sid f ?p)" for f
          using step_ok_quiet [OF ev step_ok_finish_header_block [OF evolves_ok [OF ev]]] False assms(3) by simp
        show ?thesis
          using known v hf s False b stream_ok_open [OF s(2)] fin ev3
            step_ok_quiet [OF ev step_ok_failConnection [OF evolves_ok [OF ev]]]
          by (auto simp: processHeadersFrame_def Let_def intro!: step_ok_Inr)
      next
        case no: False
        then have "?a = Inl (Diverges ''ByteBuffer::ensureCapacity'')" using header_append_cases by blast
        then show ?thesis
          using known v hf s False stream_ok_open [OF s(2)] step_ok_hang by (simp add: processHeadersFrame_def Let_def)
      qed
    qed
  qed
qed

lemma step_ok_ContinuationFrame:
  assumes "proto_ok p" and "raw_ok fr"
  shows "step_ok p [] (processContinuationFrame fr p)"
proof -
  let ?sid = "streamId (rf_header fr)" and ?d = "cf_data (ContinuationFrame_of_raw fr)"
  have h: "cf_header (ContinuationFrame_of_raw fr) = rf_header fr" by (simp add: ContinuationFrame_of_raw_def)
  consider (bad) "?sid = 0 \<or> \<not> expectingContinuation p \<or> continuationStreamId p \<noteq> ?sid"
    | (unknown) "?sid \<noteq> 0" "expectingContinuation p" "continuationStreamId p = ?sid" "find_stream ?sid p = None"
    | (known) s where "?sid \<noteq> 0" "expectingContinuation p" "continuationStreamId p = ?sid" "find_stream ?sid p = Some s"
    by (cases "find_stream ?sid p") auto
  then show ?thesis
  proof cases
    case bad
    then show ?thesis using assms(1) by (auto simp: processContinuationFrame_def Let_def intro!: step_ok_failConnection)
  next
    case unknown
    have g: "length (ghostHeaderBlock p) \<le> 2 ^ 31" using assms(1) by (simp add: proto_ok_def)
    show ?thesis
    proof (cases "\<exists>b. header_append (ghostHeaderBlock p) ?d = Inr b")
      case True
      then obtain b where b: "header_append (ghostHeaderBlock p) ?d = Inr b" "length b \<le> 2 ^ 31"
        using header_append_cases [of "ghostHeaderBlock p" ?d] g by auto
      have e0: "evolves p [] (p\<lparr>ghostHeaderBlock := []\<rparr>)" using evolves_ghost(3) [OF assms(1), of "[]" False] by simp
      have e1: "evolves p [] (p\<lparr>expectingContinuation := False, continuationStreamId := 0, ghostHeaderBlock := []\<rparr>)"
        using evolves_ghost(2) [OF assms(1), of "[]" False] by simp
      show ?thesis
        using unknown b evolves_ghost(3) [OF assms(1) b(2), of False] h
          step_ok_quiet [OF e0 step_ok_failConnection [OF evolves_ok [OF e0]]]
          step_ok_quiet [OF e1 step_ok_decode_discarded [OF evolves_ok [OF e1], of b]]
        by (auto simp: processContinuationFrame_def Let_def intro!: step_ok_Inr)
    next
      case False
      then have "header_append (ghostHeaderBlock p) ?d = Inl (Diverges ''ByteBuffer::ensureCapacity'')"
        using header_append_cases by blast
      then show ?thesis using unknown step_ok_hang by (simp add: processContinuationFrame_def Let_def)
    qed
  next
    case known
    have s: "st_id s = ?sid" "stream_ok s" using proto_ok_find [OF assms(1) known(4)] by auto
    have re: "\<not> remoteEndStreamReceived s" using assms(1) known by (simp add: proto_ok_def)
    show ?thesis
    proof (cases "\<exists>b. header_append (pendingHeaderBlock s) ?d = Inr b")
      case True
      then obtain b where b: "header_append (pendingHeaderBlock s) ?d = Inr b" "length b \<le> 2 ^ 31"
        using header_append_cases [of "pendingHeaderBlock s" ?d] s(2) by (auto simp: stream_ok_def)
      let ?s = "s\<lparr>pendingHeaderBlock := b\<rparr>" and ?p = "put_stream ?sid (s\<lparr>pendingHeaderBlock := b\<rparr>) p"
      let ?sw = "s\<lparr>pendingHeaderBlock := b, waitingForContinuation := False\<rparr>"
      let ?q = "(put_stream ?sid ?sw p)\<lparr>expectingContinuation := False, continuationStreamId := 0\<rparr>"
      have ok: "stream_ok ?s" "stream_ok ?sw" using s(2) b(2) by (auto simp: stream_ok_def body_ok_def)
      have ev: "evolves p [] ?p" using evolves_put [OF assms(1) known(4) _ ok(1)] s(1) by simp
      have ev2: "evolves p [] (put_stream ?sid ?sw p)" using evolves_put [OF assms(1) known(4) _ ok(2)] s(1) by simp
      have ev3: "evolves p [] ?q" using evolves_quiet [OF ev2 evolves_expecting [OF evolves_ok [OF ev2], of False 0]] by simp
      have "find_stream ?sid ?q = Some ?sw" using known(4) by (simp add: find_put)
      then have fin: "step_ok p [] (finish_header_block ?sid f ?q)" for f
        using step_ok_quiet [OF ev3 step_ok_finish_header_block [OF evolves_ok [OF ev3]]] re by simp
      show ?thesis
        using known b s fin ev h step_ok_quiet [OF ev step_ok_failConnection [OF evolves_ok [OF ev]]]
        by (auto simp: processContinuationFrame_def Let_def intro!: step_ok_Inr)
    next
      case False
      then have "header_append (pendingHeaderBlock s) ?d = Inl (Diverges ''ByteBuffer::ensureCapacity'')"
        using header_append_cases by blast
      then show ?thesis using known step_ok_hang by (simp add: processContinuationFrame_def Let_def)
    qed
  qed
qed

lemma step_ok_event:
  "proto_ok p \<Longrightarrow> closes e = [] \<Longrightarrow> answers e = [] \<Longrightarrow> opens e = [] \<Longrightarrow> events r = es @ [e] \<Longrightarrow> step_ok p es (Inr (p, r))"
  by (rule step_ok_Inr [OF evolves_silent_first [OF evolves_refl]])

section \<open>SETTINGS\<close>

lemma shift_windows_keys: "map fst (snd (shift_windows d es)) = map fst es"
  by (induction d es rule: shift_windows.induct) (auto split: prod.split bool.split)

lemma shift_windows_find:
  assumes "map_of (snd (shift_windows d es)) k = Some s'"
  shows "\<exists>s w. map_of es k = Some s \<and> s' = s\<lparr>outflow := w\<rparr> \<and> (OutFlow_wf (outflow s) \<longrightarrow> OutFlow_wf w)"
  using assms
proof (induction d es rule: shift_windows.induct)
  case (2 d sid s es)
  obtain b w where w: "OutFlow_add d (outflow s) = (b, w)" by fastforce
  have wf: "OutFlow_wf (outflow s) \<Longrightarrow> OutFlow_wf w" using OutFlow_add_wf [of "outflow s" d] w by simp
  have noop: "\<exists>w. s' = s'\<lparr>outflow := w\<rparr> \<and> (OutFlow_wf (outflow s') \<longrightarrow> OutFlow_wf w)"
    by (rule exI [of _ "outflow s'"]) simp
  show ?case
  proof (cases "k = sid")
    case True
    then show ?thesis using 2(2) w wf by (cases b) (auto split: prod.splits)
  next
    case False
    show ?thesis
    proof (cases b)
      case True
      then show ?thesis using 2 w False by (auto split: prod.splits)
    next
      case no: False
      then have "map_of es k = Some s'" using 2(2) w False by simp
      then show ?thesis using noop False by simp
    qed
  qed
qed simp

lemma shift_windows_evolves:
  assumes "proto_ok p" and "unat v < 2 ^ 31"
  shows "evolves p [] (p\<lparr>initialWindowSize := v, streams := snd (shift_windows d (streams p))\<rparr>)"
proof -
  let ?p = "p\<lparr>initialWindowSize := v, streams := snd (shift_windows d (streams p))\<rparr>"
  have keys: "keys ?p = keys p" by (simp add: keys_def shift_windows_keys)
  have old: "\<exists>s w. find_stream k p = Some s \<and> s' = s\<lparr>outflow := w\<rparr> \<and> (OutFlow_wf (outflow s) \<longrightarrow> OutFlow_wf w)"
    if "find_stream k ?p = Some s'" for k s'
    using shift_windows_find [of d "streams p" k s'] that by (simp add: find_stream_def)
  have "st_id s' = k \<and> odd (unat k) \<and> k < nextStreamId p \<and> stream_ok s'" if f: "find_stream k ?p = Some s'" for k s'
  proof -
    obtain s w where s: "find_stream k p = Some s" "s' = s\<lparr>outflow := w\<rparr>" "OutFlow_wf (outflow s) \<longrightarrow> OutFlow_wf w"
      using old [OF f] by blast
    then show ?thesis using proto_ok_find [OF assms(1) s(1)] by (auto simp: stream_ok_def body_ok_def)
  qed
  moreover have "\<not> remoteEndStreamReceived s'" if "expectingContinuation p" "find_stream (continuationStreamId p) ?p = Some s'" for s'
    using old [OF that(2)] assms(1) that(1) by (auto simp: proto_ok_def)
  ultimately have "proto_ok ?p" using assms unfolding proto_ok_def keys by simp
  moreover have "pending ?p = pending p"
  proof (rule set_eqI)
    fix k
    show "k \<in> pending ?p \<longleftrightarrow> k \<in> pending p"
    proof (cases "find_stream k ?p")
      case None
      then have "find_stream k p = None" unfolding find_None keys .
      then show ?thesis using None by (simp add: pending_def)
    next
      case (Some s')
      then show ?thesis using old [OF Some] by (auto simp: pending_def)
    qed
  qed
  ultimately show ?thesis using keys by (simp add: evolves_def continues_def reports_def)
qed

lemma uint_window: "unat (v :: u32) < 2 ^ 31 \<Longrightarrow> uint v < 2 ^ 31"
  using of_nat_less_iff [where 'a = int, of "unat v" "2 ^ 31"] by simp

lemma sint_window: "unat (v :: u32) < 2 ^ 31 \<Longrightarrow> sint v = uint v"
  using sint_u32_small [of v] uint_window [of v] by (simp add: i32_bounds)

lemma applyPeerSetting_ok:
  assumes "proto_ok p"
  shows "\<exists>code p'. applyPeerSetting st p = Inr (code, p') \<and> evolves p [] p'"
proof (cases "sp_of (fst st) = SP_INITIAL_WINDOW_SIZE \<and> \<not> maximumWindowSize < snd st")
  case True
  have v: "unat (snd st) < 2 ^ 31" using True by (auto simp: maximumWindowSize_def word_less_nat_alt not_less)
  have i: "unat (initialWindowSize p) < 2 ^ 31" using assms by (simp add: proto_ok_def)
  have "i32 (sint (snd st) - sint (initialWindowSize p)) = Inr (sint (snd st) - sint (initialWindowSize p))"
    unfolding sint_window [OF v] sint_window [OF i] using uint_window [OF v] uint_window [OF i] 
    by (intro i32_Inr; simp add: i32_bounds) (use uint_ge_0 [of "snd st"] uint_ge_0 [of "initialWindowSize p"] in linarith)+
  then show ?thesis
    using True shift_windows_evolves [OF assms v, of "sint (snd st) - sint (initialWindowSize p)"]
    by (auto simp: applyPeerSetting_def Let_def split: prod.split)
next
  case False
  have mfs: "evolves p [] (p\<lparr>maxFrameSize := v\<rparr>)" if "\<not> v < minimumMaxFrameSize" "\<not> maximumMaxFrameSize < v" for v
  proof -
    have "16384 \<le> unat v" "unat v < 2 ^ 24"
      using that by (simp_all add: minimumMaxFrameSize_def maximumMaxFrameSize_def word_less_nat_alt not_less)
    then show ?thesis using assms by (intro evolves_other) (auto simp: continues_def proto_ok_def)
  qed
  have enc: "evolves p [] (p\<lparr>encodeHeaderTableSize := v, hpack := setEncodeTableSize n (hpack p)\<rparr>)" for v n
    using assms by (intro evolves_other) (auto simp: continues_def proto_ok_def decoder_ok_def setEncodeTableSize_def)
  have other: "evolves p [] (p\<lparr>maxConcurrentStreams := v\<rparr>)" "evolves p [] (p\<lparr>enablePush := b\<rparr>)"
      "evolves p [] (p\<lparr>maxHeaderListSize := v\<rparr>)" for v b
    using assms by (auto intro!: evolves_other simp: continues_def proto_ok_def)
  show ?thesis
    using False mfs [of "snd st"] enc other evolves_refl [OF assms]
    by (auto simp: applyPeerSetting_def Let_def split: Http2SettingParameter.split)
qed

lemma applyPeerSettings_ok:
  assumes "proto_ok p"
  shows "\<exists>code p'. applyPeerSettings ss p = Inr (code, p') \<and> evolves p [] p'"
  using assms
proof (induction ss arbitrary: p)
  case (Cons st ss)
  obtain code p1 where 1: "applyPeerSetting st p = Inr (code, p1)" "evolves p [] p1" using applyPeerSetting_ok [OF Cons.prems] by blast
  moreover obtain code' p2 where "applyPeerSettings ss p1 = Inr (code', p2)" "evolves p1 [] p2"
    using Cons.IH [OF evolves_ok [OF 1(2)]] by blast
  ultimately show ?case using evolves_quiet [OF 1(2)] by auto
qed (simp add: evolves_refl)

lemma step_ok_SettingFrame:
  assumes "proto_ok p" and "raw_ok fr"
  shows "step_ok p [] (processSettingFrame fr p)"
proof -
  obtain sf where sf: "SettingFrame_of_raw fr = Inr sf" using SettingFrame_total [OF assms(2)] by blast
  let ?p = "p\<lparr>gotPeerSettings := True\<rparr>"
  have e0: "evolves p [] ?p" using assms(1) by (intro evolves_other) (auto simp: continues_def proto_ok_def)
  obtain code p1 where ap: "applyPeerSettings (sf_settings sf) ?p = Inr (code, p1)" "evolves ?p [] p1"
    using applyPeerSettings_ok [OF evolves_ok [OF e0]] by blast
  have e1: "evolves p [] p1" using evolves_quiet [OF e0 ap(2)] .
  have ok1: "proto_ok p1" using evolves_ok [OF e1] .
  have "step_ok p1 (events no_result) (cpp_bind (emit_each (map fst (streams p1)) p1 no_result) (\<lambda>(p, r).
        Inr (p, appendOutboundFrame (SettingFrame_toBytes settings_ack) (push_event EV_SETTINGS_RECEIVED r))))"
    by (rule step_ok_bind [OF step_ok_emit_each [OF ok1]])
       (auto intro: step_ok_event [where e = EV_SETTINGS_RECEIVED])
  then show ?thesis
    using sf ap(1) assms(1) step_ok_quiet [OF e1] step_ok_quiet [OF e1 step_ok_failConnection [OF ok1]]
    by (auto simp: processSettingFrame_def Let_def intro!: step_ok_failConnection step_ok_event [where e = EV_SETTINGS_ACK_RECEIVED])
qed

section \<open>The other frames\<close>

lemma step_ok_PriorityFrame: "proto_ok p \<Longrightarrow> step_ok p [] (processPriorityFrame fr p)"
  by (auto simp: processPriorityFrame_def intro!: step_ok_failConnection step_ok_same)

lemma step_ok_RstStreamFrame:
  assumes "proto_ok p" and "raw_ok fr"
  shows "step_ok p [] (processRstStreamFrame fr p)"
proof -
  let ?sid = "streamId (rf_header fr)"
  show ?thesis
  proof (cases "payloadLength (rf_header fr) = 4 \<and> ?sid \<noteq> 0 \<and> find_stream ?sid p \<noteq> None")
    case True
    then obtain rst where rst: "RstStreamFrame_of_raw fr = Inr rst" using raw_word_total(1) [OF assms(2)] by blast
    let ?e = "ec_of (rst_errorCode rst)"
    have "evolves p (EV_STREAM_RESET_RECEIVED ?sid ?e # events (snd (failStream ?sid ?e False p))) (fst (failStream ?sid ?e False p))"
      by (rule evolves_silent_first [OF failStream_evolves [OF assms(1)]]) auto
    then show ?thesis
      using True rst by (auto simp: processRstStreamFrame_def Let_def intro!: step_ok_Inr split: prod.split)
  next
    case False
    then show ?thesis
      using assms(1) by (auto simp: processRstStreamFrame_def Let_def intro!: step_ok_failConnection step_ok_same)
  qed
qed

lemma step_ok_PushPromiseFrame:
  assumes "proto_ok p" and "raw_ok fr"
  shows "step_ok p [] (processPushPromiseFrame fr p)"
proof -
  obtain v where v: "validatePaddedPayload fr 4 = Inr v" using validatePaddedPayload_total [OF assms(2)] by blast
  show ?thesis
  proof (cases "v = Inr ()")
    case True
    then obtain push where push: "PushPromiseFrame_of_raw fr = Inr push" using PushPromiseFrame_total [OF assms(2)] v by auto
    have "step_ok p [] (let (q, f) = failConnection e d p in Inr (q, mergeStepResult (push_event (EV_PUSH_PROMISE_RECEIVED a b) no_result) f))"
      for e d a b
      using evolves_silent_first [OF failConnection_evolves [OF assms(1), of e d], of "EV_PUSH_PROMISE_RECEIVED a b"]
      by (auto intro!: step_ok_Inr split: prod.split)
    then show ?thesis
      using v True push assms(1)
      by (auto simp: processPushPromiseFrame_def Let_def
          intro!: step_ok_failConnection step_ok_event [where e = "EV_PUSH_PROMISE_RECEIVED a b" for a b])
  next
    case False
    then show ?thesis
      using v assms(1) by (auto simp: processPushPromiseFrame_def Let_def intro!: step_ok_failConnection split: sum.split)
  qed
qed

lemma step_ok_PingFrame: "proto_ok p \<Longrightarrow> step_ok p [] (processPingFrame fr p)"
  by (auto simp: processPingFrame_def Let_def intro!: step_ok_failConnection
      intro: step_ok_event [where e = "EV_PING_ACK_RECEIVED a" for a] step_ok_event [where e = "EV_PING_RECEIVED a" for a])

lemma step_ok_GoAwayFrame:
  assumes "proto_ok p" and "raw_ok fr"
  shows "step_ok p [] (processGoAwayFrame fr p)"
proof (cases "streamId (rf_header fr) = 0 \<and> \<not> payloadLength (rf_header fr) < 8")
  case True
  then obtain gf where gf: "GoAwayFrame_of_raw fr = Inr gf" using GoAwayFrame_total [OF assms(2)] by blast
  let ?p = "p\<lparr>receivedGoaway := True\<rparr>" and ?e = "ec_of (ga_errorCode gf)"
  let ?ev = "EV_GOAWAY_RECEIVED (ga_lastStreamId gf) ?e (string_of_bytes (ga_data gf))"
  let ?ids = "filter (\<lambda>sid. ga_lastStreamId gf < sid) (map fst (streams ?p))"
  have e0: "evolves p [] ?p" using assms(1) by (intro evolves_other) (auto simp: continues_def proto_ok_def)
  obtain es where es: "events (snd (failStreams ?ids ?e (?p, push_event ?ev no_result))) = ?ev # es"
      "evolves ?p es (fst (failStreams ?ids ?e (?p, push_event ?ev no_result)))"
    using failStreams_evolves [OF evolves_ok [OF e0], of ?ids ?e "push_event ?ev no_result"] by auto
  have "evolves p (?ev # es) (fst (failStreams ?ids ?e (?p, push_event ?ev no_result)))"
    by (rule evolves_silent_first [OF evolves_quiet [OF e0 es(2)]]) auto
  then have "step_ok p [] (Inr (failStreams ?ids ?e (?p, push_event ?ev no_result)))"
    using es(1) by (intro step_ok_pair) simp
  then show ?thesis using True gf by (simp add: processGoAwayFrame_def Let_def)
next
  case False
  then show ?thesis using assms(1) by (auto simp: processGoAwayFrame_def intro!: step_ok_failConnection)
qed

lemma step_ok_WindowUpdateFrame:
  assumes "proto_ok p" and "raw_ok fr"
  shows "step_ok p [] (processWindowUpdateFrame fr p)"
proof (cases "payloadLength (rf_header fr) = 4")
  case True
  then obtain wf where wf: "WindowUpdateFrame_of_raw fr = Inr wf" using raw_word_total(2) [OF assms(2)] by blast
  let ?sid = "streamId (rf_header fr)" and ?i = "wu_windowSizeIncrement wf AND 0x7fffffff"
  let ?r = "push_event (EV_WINDOW_UPDATE_RECEIVED ?sid ?i) no_result"
  have seen: "evolves q [EV_WINDOW_UPDATE_RECEIVED ?sid ?i] q" if "proto_ok q" for q
    using evolves_silent_first [OF evolves_refl [OF that]] by simp
  have cont: "step_ok q [] res" if "proto_ok q" "step_ok q (events ?r) res" for q res
    by (rule step_ok_trans [OF seen [OF that(1)]]) (use that(2) in simp)
  consider (zero) "?i = 0" | (conn) "?i \<noteq> 0" "?sid = 0" | (gone) "?i \<noteq> 0" "?sid \<noteq> 0" "find_stream ?sid p = None"
    | (stream) s where "?i \<noteq> 0" "?sid \<noteq> 0" "find_stream ?sid p = Some s" by (cases "find_stream ?sid p") auto
  then show ?thesis
  proof cases
    case zero
    then show ?thesis
      using True wf assms(1) by (auto simp: processWindowUpdateFrame_def Let_def intro!: step_ok_failConnection step_ok_failStream)
  next
    case conn
    obtain ok w where w: "OutFlow_add (sint ?i) (connectionOutFlow p) = (ok, w)" by fastforce
    have "OutFlow_wf w" using OutFlow_add_wf [of "connectionOutFlow p" "sint ?i"] w assms(1) by (simp add: proto_ok_def)
    then have ev: "evolves p [] (p\<lparr>connectionOutFlow := w\<rparr>)"
      using assms(1) by (intro evolves_other) (auto simp: continues_def proto_ok_def)
    note ok = evolves_ok [OF ev]
    show ?thesis
      using True wf conn w step_ok_quiet [OF ev step_ok_failConnection [OF ok]] step_ok_quiet [OF ev cont [OF ok step_ok_emit_pending [OF ok]]]
      by (auto simp: processWindowUpdateFrame_def Let_def)
  next
    case gone
    then show ?thesis
      using True wf assms(1)
      by (auto simp: processWindowUpdateFrame_def Let_def intro!: step_ok_failConnection
          step_ok_event [where e = "EV_WINDOW_UPDATE_RECEIVED a b" for a b])
  next
    case stream
    have s: "st_id s = ?sid" "stream_ok s" using proto_ok_find [OF assms(1) stream(3)] by auto
    obtain ok w where w: "OutFlow_add (sint ?i) (outflow s) = (ok, w)" by fastforce
    have "OutFlow_wf w" using OutFlow_add_wf [of "outflow s" "sint ?i"] w s(2) by (simp add: stream_ok_def body_ok_def)
    then have "stream_ok (s\<lparr>outflow := w\<rparr>)" using s(2) by (auto simp: stream_ok_def body_ok_def)
    then have ev: "evolves p [] (put_stream ?sid (s\<lparr>outflow := w\<rparr>) p)" using evolves_put [OF assms(1) stream(3)] s(1) by simp
    note ok = evolves_ok [OF ev]
    show ?thesis
      using True wf stream w step_ok_quiet [OF ev step_ok_failStream [OF ok]] step_ok_quiet [OF ev cont [OF ok step_ok_emit [OF ok]]]
      by (auto simp: processWindowUpdateFrame_def Let_def)
  qed
next
  case False
  then show ?thesis using assms(1) by (auto simp: processWindowUpdateFrame_def Let_def intro!: step_ok_failConnection)
qed

section \<open>Receiving\<close>

lemma receiveFrame_ok:
  assumes "proto_ok p" and "raw_ok fr"
  shows "step_ok p [] (receiveFrame fr p)"
proof (cases "expectingContinuation p \<and> ftype (rf_header fr) \<noteq> FT_CONTINUATION")
  case True
  then show ?thesis using assms(1) by (auto simp: receiveFrame_def Let_def intro!: step_ok_failConnection)
next
  case False
  show ?thesis
  proof (cases "ftype (rf_header fr) = FT_CONTINUATION")
    case True
    then show ?thesis
      using assms by (auto simp: receiveFrame_def Let_def intro!: step_ok_failConnection step_ok_ContinuationFrame)
  next
    case no: False
    then have "\<not> expectingContinuation p" using False by simp
    then show ?thesis
      using assms no
      by (auto simp: receiveFrame_def Let_def split: FrameType.split
          intro!: step_ok_failConnection step_ok_DataFrame step_ok_HeadersFrame step_ok_PriorityFrame step_ok_RstStreamFrame
            step_ok_SettingFrame step_ok_PushPromiseFrame step_ok_PingFrame step_ok_GoAwayFrame step_ok_WindowUpdateFrame
          intro: step_ok_event [where e = "EV_UNKNOWN_FRAME_RECEIVED a b c d" for a b c d])
  qed
qed

lemma receive_loop_ok:
  assumes "proto_ok p"
  shows "case receive_loop buffer p r of Inl e \<Rightarrow> hang e
     | Inr (buffer', p', r') \<Rightarrow> \<exists>es. events r' = events r @ es \<and> evolves p es p'"
  using assms
proof (induction buffer p r rule: receive_loop.induct)
  case (1 buffer p r)
  show ?case
  proof (cases "popped buffer")
    case None
    then show ?thesis using evolves_refl [OF 1(2)] by (subst receive_loop.simps) (simp add: tryPop_popped)
  next
    case (Some fr_rest)
    then obtain fr rest where pop: "popped buffer = Some (fr, rest)" by (cases fr_rest) auto
    have st: "step_ok p [] (receiveFrame fr p)" using receiveFrame_ok [OF 1(2) popped_SomeD(1) [OF pop]] .
    show ?thesis
    proof (cases "receiveFrame fr p")
      case (Inl e)
      then show ?thesis using st pop by (subst receive_loop.simps) (simp add: tryPop_popped step_ok_def)
    next
      case (Inr pr)
      then obtain p1 r1 where r1: "receiveFrame fr p = Inr (p1, r1)" by (cases pr) auto
      then have ev: "evolves p (events r1) p1" using st by (simp add: step_ok_def)
      show ?thesis
      proof (cases "closed p1")
        case True
        then show ?thesis using ev r1 pop by (subst receive_loop.simps) (simp add: tryPop_popped)
      next
        case False
        have eq: "receive_loop buffer p r = receive_loop rest p1 (mergeStepResult r r1)"
          using False r1 pop by (subst receive_loop.simps) (simp add: tryPop_popped)
        have "case receive_loop rest p1 (mergeStepResult r r1) of Inl e \<Rightarrow> hang e
            | Inr (buffer', p', r') \<Rightarrow> \<exists>es. events r' = events (mergeStepResult r r1) @ es \<and> evolves p1 es p'"
          using 1(1) [of "Some (fr, rest)" "(fr, rest)" fr rest "(p1, r1)" p1 r1] False r1 pop evolves_ok [OF ev] by (simp add: tryPop_popped)
        then show ?thesis
          unfolding eq using evolves_trans [OF ev] by (fastforce split: sum.splits)
      qed
    qed
  qed
qed

end
