(* ===== verification/Machine.thy ===== *)
theory Machine
  imports Main
begin

text \<open>
  Machines with labelled transitions: \<open>runs\<close> are their finite executions with the labels in
  order. The locale \<open>invariant_machine\<close> is what a component shows of its transitions once,
  one lemma per operation, to have its invariant after every execution.
\<close>

inductive runs :: "('s \<Rightarrow> 'l \<Rightarrow> 's \<Rightarrow> bool) \<Rightarrow> 's \<Rightarrow> 'l list \<Rightarrow> 's \<Rightarrow> bool" for step s where
  runs_Nil: "runs step s [] s"
| runs_snoc: "runs step s ls t \<Longrightarrow> step t l u \<Longrightarrow> runs step s (ls @ [l]) u"

declare runs_Nil [intro]

lemma runs_append:
  assumes "runs step t ls' u" and "runs step s ls t"
  shows "runs step s (ls @ ls') u"
  using assms
proof (induction rule: runs.induct)
  case (runs_snoc ls' u l v)
  then have "runs step s ((ls @ ls') @ [l]) v" by (blast intro: runs.runs_snoc)
  then show ?case by simp
qed simp

lemma runs_single: "step s l t \<Longrightarrow> runs step s [l] t"
  using runs_snoc [OF runs_Nil] by fastforce

locale invariant_machine =
  fixes step :: "'s \<Rightarrow> 'l \<Rightarrow> 's \<Rightarrow> bool"
    and inv :: "'s \<Rightarrow> bool"
  assumes step_inv: "inv s \<Longrightarrow> step s l t \<Longrightarrow> inv t"
begin

lemma runs_inv: "runs step s ls t \<Longrightarrow> inv s \<Longrightarrow> inv t"
  by (induction rule: runs.induct) (auto intro: step_inv)

text \<open>A property of the history, carried along with the invariant.\<close>

lemma runs_history:
  assumes "runs step s ls t" and "inv s" and "R s [] s"
    and "\<And>ls t l u. inv t \<Longrightarrow> R s ls t \<Longrightarrow> step t l u \<Longrightarrow> R s (ls @ [l]) u"
  shows "R s ls t"
proof -
  from assms(1) have "inv t \<and> R s ls t"
  proof (induction rule: runs.induct)
    case runs_Nil
    show ?case using assms(2,3) by blast
  next
    case (runs_snoc ls t l u)
    then show ?case using assms(4) step_inv by blast
  qed
  then show ?thesis ..
qed

end

end
