(* ===== verification/Protocol_Machine.thy ===== *)
theory Protocol_Machine
  imports Protocol_Steps Machine "HOL-Library.Multiset"
begin

text \<open>
  The public operations of \<open>Http2Protocol\<close> and its executions. \<open>protocol_step\<close> has one rule
  per member function the session calls; \<open>accounted\<close> says how the history of events determines
  the streams that are open and the requests that still wait for an answer. The interpretation
  \<open>protocol\<close> carries the invariant over all executions.
\<close>

section \<open>Submitting a request\<close>

definition permutes_entries :: "('a list \<Rightarrow> 'a list) \<Rightarrow> bool" where
  "permutes_entries order \<longleftrightarrow> (\<forall>es. mset (order es) = mset es)"

lemma encode_header_decoder:
  assumes "encode_header h (b, hp) = Inr (b', hp')"
  shows "decodeTable hp' = decodeTable hp \<and> decodeTableLimit hp' = decodeTableLimit hp"
  using assms by (auto simp: encode_header_def Let_def cpp_simps split: prod.splits if_splits)

lemma encode_headers_decoder:
  "encode_headers hs (b, hp) = Inr (b', hp') \<Longrightarrow> decodeTable hp' = decodeTable hp \<and> decodeTableLimit hp' = decodeTableLimit hp"
proof (induction hs arbitrary: b hp)
  case (Cons h hs)
  then obtain b1 hp1 where "encode_header h (b, hp) = Inr (b1, hp1)" "encode_headers hs (b1, hp1) = Inr (b', hp')"
    by (auto simp: cpp_simps)
  then show ?case using Cons.IH encode_header_decoder by fastforce
qed simp

lemma hpack_encode_decoder:
  assumes "hpack_encode hs hp = Inr (bs, hp')"
  shows "decoder_ok hp' = decoder_ok hp"
proof -
  obtain b hp1 where u: "encode_updates hp = Inr (b, hp1)" "encode_headers hs (b, hp1) = Inr (bs, hp')"
    using assms by (auto simp: hpack_encode_def cpp_simps)
  have "decodeTable hp1 = decodeTable hp \<and> decodeTableLimit hp1 = decodeTableLimit hp"
    using u(1) by (auto simp: encode_updates_def cpp_simps split: if_splits)
  then show ?thesis using encode_headers_decoder [OF u(2)] by (simp add: decoder_ok_def)
qed

definition new_stream :: "Request \<Rightarrow> Http2Protocol \<Rightarrow> Stream" where
  "new_stream request p =
     (setRequest request (Stream_new (nextStreamId p)))
       \<lparr>inflow := InFlow_init (sint (initialWindowSize p)) InFlow_zero,
        outflow := snd (OutFlow_add (sint (initialWindowSize p)) OutFlow_zero)\<rparr>"

definition opened_stream :: "Request \<Rightarrow> u8 list \<Rightarrow> Http2Protocol \<Rightarrow> Stream" where
  "opened_stream request encoded p =
     (let s = headers_sent (unat (maxFrameSize p)) encoded (new_stream request p)
      in s\<lparr>requestStarted := True, st_state := (if localEndStreamSent s then SS_HALF_CLOSED_LOCAL else SS_OPEN)\<rparr>)"

definition opened ::
    "((StreamId \<times> Stream) list \<Rightarrow> (StreamId \<times> Stream) list) \<Rightarrow> Request \<Rightarrow> u8 list \<Rightarrow> Hpack \<Rightarrow> Http2Protocol \<Rightarrow> Http2Protocol" where
  "opened order request encoded hp p =
     put_stream (nextStreamId p) (opened_stream request encoded p)
       (p\<lparr>nextStreamId := nextStreamId p + 2,
          streams := order ((nextStreamId p, new_stream request p) # streams p), hpack := hp\<rparr>)"

lemma perm_find:
  assumes "permutes_entries order" and "distinct (map fst es)"
  shows "map_of (order es) = map_of es" and "mset (map fst (order es)) = mset (map fst es)"
proof -
  have m: "mset (order es) = mset es" using assms(1) by (simp add: permutes_entries_def)
  then show k: "mset (map fst (order es)) = mset (map fst es)" by (simp only: mset_map)
  then have "distinct (map fst (order es))" using assms(2) mset_eq_imp_distinct_iff by blast
  moreover have "set (order es) = set es" using m mset_eq_setD by blast
  ultimately show "map_of (order es) = map_of es" using assms(2) map_of_inject_set by blast
qed

lemma window_new:
  assumes "unat (v :: u32) < 2 ^ 31"
  shows "InFlow_ok (InFlow_init (sint v) InFlow_zero)" and "OutFlow_wf (snd (OutFlow_add (sint v) OutFlow_zero))"
    and "of_window (snd (OutFlow_add (sint v) OutFlow_zero)) = uint v"
proof -
  have "- 2147483648 \<le> uint v" by (rule order_trans [OF _ uint_ge_0]) simp
  then show "InFlow_ok (InFlow_init (sint v) InFlow_zero)" "OutFlow_wf (snd (OutFlow_add (sint v) OutFlow_zero))"
    "of_window (snd (OutFlow_add (sint v) OutFlow_zero)) = uint v"
    using sint_window [OF assms] uint_window [OF assms]
    by (simp_all add: InFlow_ok_def InFlow_wf_def InFlow_init_def InFlow_zero_def InFlow_credit_def OutFlow_add_def
        OutFlow_zero_def OutFlow_wf_def i32_bounds Let_def)
qed

lemma opened_stream_simps [simp]:
  "st_id (opened_stream request encoded p) = nextStreamId p" "rqst (opened_stream request encoded p) = request"
  "\<not> remoteEndStreamReceived (opened_stream request encoded p)" "\<not> responseComplete (opened_stream request encoded p)"
  "requestBodyOffset (opened_stream request encoded p) = 0"
  "localEndStreamSent (opened_stream request encoded p) =
     (length encoded \<le> unat (maxFrameSize p) \<and> rq_body request = [])"
  by (simp_all add: opened_stream_def Let_def headers_sent_def new_stream_def setRequest_def Stream_new_def hasBody_def)

lemma opened_stream_ok:
  assumes "proto_ok p" and "length (rq_body request) < 2 ^ 64"
  shows "stream_ok (opened_stream request encoded p)"
proof -
  have "unat (initialWindowSize p) < 2 ^ 31" using assms(1) by (simp add: proto_ok_def)
  note w = window_new [OF this]
  show ?thesis
    using assms(2) w(1,2)
    by (auto simp: stream_ok_def body_ok_def opened_stream_def Let_def headers_sent_def new_stream_def setRequest_def
        Stream_new_def hasBody_def Response_new_def)
qed

lemma opened_ok:
  assumes "proto_ok p" and "permutes_entries order" and "length (rq_body request) < 2 ^ 64" and "decoder_ok hp"
    and "\<not> 0x7fffffff - 1 < nextStreamId p"
  shows "find_stream k (opened order request encoded hp p) =
      (if k = nextStreamId p then Some (opened_stream request encoded p) else find_stream k p)"
    and "mset (keys (opened order request encoded hp p)) = mset (nextStreamId p # keys p)"
    and "proto_ok (opened order request encoded hp p)"
    and "pending (opened order request encoded hp p) = insert (nextStreamId p) (pending p)"
proof -
  let ?sid = "nextStreamId p" and ?q = "opened order request encoded hp p"
  have new: "?sid \<notin> set (keys p)"
    using assms(1) find_None [of ?sid p] by (cases "find_stream ?sid p") (auto simp: proto_ok_def)
  then have d: "distinct (map fst ((?sid, new_stream request p) # streams p))" using assms(1) by (simp add: proto_ok_def keys_def)
  note perm = perm_find [OF assms(2) d]
  show find: "find_stream k ?q = (if k = ?sid then Some (opened_stream request encoded p) else find_stream k p)" for k
    unfolding opened_def find_put by (simp add: find_stream_def perm(1))
  show ks: "mset (keys ?q) = mset (?sid # keys p)"
    using perm(2) by (simp add: opened_def) (simp add: keys_def)
  show "pending ?q = insert ?sid (pending p)" by (auto simp: pending_def find)
  have "unat ?sid \<le> 2147483646" using assms(5) by (simp add: word_less_nat_alt)
  moreover have odd: "odd (unat ?sid)" using assms(1) by (simp add: proto_ok_def)
  ultimately have le: "unat ?sid \<le> 2147483645" by presburger
  then have n: "unat (?sid + 2) = unat ?sid + 2" by (simp add: unat_word_ariths)
  then have lt: "?sid < ?sid + 2" by (simp add: word_less_nat_alt)
  have ids: "st_id s = k \<and> odd (unat k) \<and> k < ?sid + 2 \<and> stream_ok s" if "find_stream k ?q = Some s" for k s
    using that proto_ok_find [OF assms(1), of k s] opened_stream_ok [OF assms(1,3), of encoded] odd lt
    by (auto simp: find split: if_splits)
  have dq: "distinct (keys ?q)" using ks new assms(1) mset_eq_imp_distinct_iff [OF ks] by (simp add: proto_ok_def)
  have cont: "\<not> remoteEndStreamReceived s" if "expectingContinuation p" "find_stream (continuationStreamId p) ?q = Some s" for s
    using that assms(1) by (auto simp: find proto_ok_def split: if_splits)
  show "proto_ok ?q"
    using assms(1,4) dq ids cont odd le n unfolding proto_ok_def by (simp add: opened_def)
qed

lemma submitRequest_opens:
  assumes "proto_ok p" and "permutes_entries order" and "length (rq_body request) < 2 ^ 64"
    and "canSubmitRequests p" and "Request_isValid request" and "length (streams p) < unat (maxConcurrentStreams p)"
    and "\<not> 0x7fffffff - 1 < nextStreamId p" and "hpack_encode (buildRequestHeaderFields request) (hpack p) = Inr (encoded, hp)"
  defines "q \<equiv> opened order request encoded hp p"
  shows "submitRequest order request p =
    cpp_bind (emitPendingRequestBody (nextStreamId p) q
       \<lparr>outbound = map raw_bytes (header_frames (nextStreamId p) (unat (maxFrameSize p)) encoded (rq_body request = [])),
        events = [EV_STREAM_OPENED (nextStreamId p)], hasSubmittedStream = False, submittedStreamId = 0\<rparr>)
     (\<lambda>(p', r). Inr (p', r\<lparr>hasSubmittedStream := True, submittedStreamId := nextStreamId p\<rparr>))"
proof -
  let ?sid = "nextStreamId p"
  let ?p1 = "p\<lparr>nextStreamId := ?sid + 2, streams := order ((?sid, new_stream request p) # streams p), hpack := hp\<rparr>"
  have new: "find_stream ?sid p = None"
    using assms(1) by (cases "find_stream ?sid p") (auto simp: proto_ok_def)
  have "find_stream ?sid p \<noteq> None \<or> ?sid \<notin> set (keys p)" using find_None by auto
  then have d: "distinct (map fst ((?sid, new_stream request p) # streams p))"
    using assms(1) new find_None [of ?sid p] by (simp add: proto_ok_def keys_def)
  have find1: "find_stream ?sid ?p1 = Some (new_stream request p)"
    by (simp add: find_stream_def perm_find(1) [OF assms(2) d])
  have mfs: "0 < unat (maxFrameSize p)" using assms(1) by (simp add: proto_ok_def)
  have nz: "?sid \<noteq> 0" using assms(1) by (auto simp: proto_ok_def)
  have body: "hasBody (new_stream request p) = (rq_body request \<noteq> [])" by (simp add: new_stream_def setRequest_def hasBody_def)
  note emit = emitRequestHeaders_frames [OF find1, of encoded]
  have ins: "insert_stream order ?sid s (p\<lparr>nextStreamId := ?sid + 2\<rparr>) =
      p\<lparr>nextStreamId := ?sid + 2, streams := order ((?sid, s) # streams p)\<rparr>" for s
    using new by (simp add: insert_stream_def)
  have findq: "find_stream ?sid (put_stream ?sid s ?p1) = Some s" for s using find1 by (simp add: find_put)
  have zero: "inflow (setRequest request (Stream_new ?sid)) = InFlow_zero" "outflow (setRequest request (Stream_new ?sid)) = OutFlow_zero"
    by (simp_all add: setRequest_def Stream_new_def)
  show ?thesis
    using assms(4-8) nz mfs
    by (simp add: submitRequest_def Let_def ins zero new_stream_def [symmetric] emit findq body push_event_def no_result_def
        q_def opened_def opened_stream_def)
qed

text \<open>What the result of a successful submission is.\<close>

lemma emit_opened:
  assumes "proto_ok q" and "find_stream sid q = Some s" and "\<not> remoteEndStreamReceived s"
  shows "\<exists>q'. emitPendingRequestBody sid q r =
      Inr (q', r\<lparr>outbound := outbound r @ (if localEndStreamSent s then [] else body_frames q s)\<rparr>) \<and> evolves q [] q'"
proof (cases "localEndStreamSent s")
  case True
  then have "emitPendingRequestBody sid q r = Inr (q, r)" using assms(2) by (simp add: emitPendingRequestBody_def)
  then show ?thesis using evolves_refl [OF assms(1)] True by simp
next
  case False
  obtain q' r' es where e: "emitPendingRequestBody sid q r = Inr (q', r')" "events r' = events r @ es" "evolves q es q'"
    using emitPending_ok [OF assms(1)] by blast
  have "r' = r\<lparr>outbound := outbound r @ body_frames q s\<rparr>"
    using e(1) assms(3) unfolding emitPending_eq [OF assms(1,2) False] by (auto split: if_splits)
  then show ?thesis using e False by auto
qed

lemma submitRequest_result:
  assumes "proto_ok p" and "permutes_entries order" and "length (rq_body request) < 2 ^ 64"
    and "canSubmitRequests p" and "Request_isValid request" and "length (streams p) < unat (maxConcurrentStreams p)"
    and "\<not> 0x7fffffff - 1 < nextStreamId p" and "hpack_encode (buildRequestHeaderFields request) (hpack p) = Inr (encoded, hp)"
  shows "\<exists>p'. submitRequest order request p =
    Inr (p', \<lparr>outbound = map raw_bytes (header_frames (nextStreamId p) (unat (maxFrameSize p)) encoded (rq_body request = []))
                @ body_frames (opened order request encoded hp p) (opened_stream request encoded p),
              events = [EV_STREAM_OPENED (nextStreamId p)], hasSubmittedStream = True, submittedStreamId = nextStreamId p\<rparr>) \<and>
    evolves (opened order request encoded hp p) [] p'"
proof -
  let ?q = "opened order request encoded hp p" and ?s = "opened_stream request encoded p" and ?sid = "nextStreamId p"
  have hp: "decoder_ok hp" using hpack_encode_decoder [OF assms(8)] assms(1) by (simp add: proto_ok_def)
  note ok = opened_ok [OF assms(1,2,3) hp assms(7)]
  have f: "find_stream ?sid ?q = Some ?s" using ok(1) by simp
  let ?r = "\<lparr>outbound = map raw_bytes (header_frames ?sid (unat (maxFrameSize p)) encoded (rq_body request = [])),
        events = [EV_STREAM_OPENED ?sid], hasSubmittedStream = False, submittedStreamId = 0\<rparr>"
  obtain q' where q': "emitPendingRequestBody ?sid ?q ?r =
      Inr (q', ?r\<lparr>outbound := outbound ?r @ (if localEndStreamSent ?s then [] else body_frames ?q ?s)\<rparr>)" "evolves ?q [] q'"
    using emit_opened [OF ok(3) f _, of ?r] opened_stream_simps(3) by blast
  have none: "body_frames ?q ?s = []" if "localEndStreamSent ?s"
    using that by (simp add: body_frames_def Let_def sendable_def data_frames_def bytes_of_string_def)
  show ?thesis
    unfolding submitRequest_opens [OF assms] q'(1) using q'(2) none by auto
qed

definition refusal :: "Request \<Rightarrow> Http2Protocol \<Rightarrow> ErrorCode option" where
  "refusal request p =
     (if \<not> canSubmitRequests p then Some EC_REFUSED_STREAM
      else if \<not> Request_isValid request then Some EC_PROTOCOL_ERROR
      else if unat (maxConcurrentStreams p) \<le> length (streams p) \<or> 0x7fffffff - 1 < nextStreamId p then Some EC_REFUSED_STREAM
      else None)"

lemma submitRequest_refused:
  assumes "proto_ok p"
  shows "refusal request p = Some e \<Longrightarrow>
    submitRequest order request p = Inr (p, push_event (EV_RESPONSE_FAILED 0 e) no_result)"
  using assms by (auto simp: refusal_def submitRequest_def refused_def Let_def split: if_splits)

section \<open>Executions\<close>

inductive protocol_step :: "Http2Protocol \<Rightarrow> ProtocolStepResult \<Rightarrow> Http2Protocol \<Rightarrow> bool" where
  step_start: "protocol_start p = (p', r) \<Longrightarrow> protocol_step p r p'"
| step_submit: "permutes_entries order \<Longrightarrow> length (rq_body request) < 2 ^ 64 \<Longrightarrow>
     submitRequest order request p = Inr (p', r) \<Longrightarrow> protocol_step p r p'"
| step_receive: "receiveBytes data p = Inr (p', r) \<Longrightarrow> protocol_step p r p'"
| step_cancel: "cancelStream sid e p = (p', r) \<Longrightarrow> protocol_step p r p'"
| step_ping: "sendPing p = (p', r) \<Longrightarrow> protocol_step p r p'"
| step_close: "protocol_close p = (p', r) \<Longrightarrow> protocol_step p r p'"
| step_transport: "onTransportClosed p = (p', r) \<Longrightarrow> protocol_step p r p'"

definition tracks :: "Http2Protocol \<Rightarrow> ProtocolEvent list \<Rightarrow> Http2Protocol \<Rightarrow> bool" where
  "tracks p es p' \<longleftrightarrow>
     set (keys p') = set (keys p) \<union> set (opened_ids es) - set (closed_ids es) \<and>
     set (closed_ids es) \<subseteq> set (keys p) \<union> set (opened_ids es) \<and> distinct (closed_ids es) \<and>
     pending p' = pending p \<union> set (opened_ids es) - answered_ids es \<and>
     answered_ids es \<subseteq> insert 0 (set (keys p) \<union> set (opened_ids es)) \<and>
     sorted_wrt (<) (opened_ids es) \<and> (\<forall>k\<in>set (opened_ids es). nextStreamId p \<le> k \<and> k < nextStreamId p') \<and>
     nextStreamId p \<le> nextStreamId p'"

lemma evolves_tracks: "evolves p es p' \<Longrightarrow> tracks p es p'"
  by (auto simp: evolves_def reports_def continues_def tracks_def)

lemma zero_not_pending: "proto_ok p \<Longrightarrow> 0 \<notin> pending p"
  using proto_ok_find [of p 0] by (auto simp: pending_def)

lemma submit_tracks:
  assumes "proto_ok p" and "permutes_entries order" and "length (rq_body request) < 2 ^ 64"
  shows "\<exists>p' r. submitRequest order request p = Inr (p', r) \<and> proto_ok p' \<and> tracks p (events r) p'"
proof (cases "refusal request p")
  case (Some e)
  have "tracks p [EV_RESPONSE_FAILED 0 e] p" using zero_not_pending [OF assms(1)] by (auto simp: tracks_def)
  then show ?thesis using submitRequest_refused [OF assms(1) Some, of order] assms(1) by auto
next
  case None
  then have c: "canSubmitRequests p" "Request_isValid request" "length (streams p) < unat (maxConcurrentStreams p)"
      "\<not> 0x7fffffff - 1 < nextStreamId p"
    by (auto simp: refusal_def not_le split: if_splits)
  obtain encoded hp where enc: "hpack_encode (buildRequestHeaderFields request) (hpack p) = Inr (encoded, hp)"
    using hpack_encode_total by blast
  have hp: "decoder_ok hp" using hpack_encode_decoder [OF enc] assms(1) by (simp add: proto_ok_def)
  note ok = opened_ok [OF assms hp c(4), where encoded = encoded]
  let ?q = "opened order request encoded hp p" and ?sid = "nextStreamId p"
  obtain p' r where r: "submitRequest order request p = Inr (p', r)" "events r = [EV_STREAM_OPENED ?sid]" "evolves ?q [] p'"
    using submitRequest_result [OF assms c enc] by fastforce
  have "?sid < ?sid + 2"
  proof -
    have "unat ?sid \<le> 2147483646" using c(4) by (simp add: word_less_nat_alt)
    then show ?thesis by (simp add: word_less_nat_alt unat_word_ariths)
  qed
  moreover have "nextStreamId ?q = ?sid + 2" by (simp add: opened_def)
  moreover have "set (keys ?q) = insert ?sid (set (keys p))" using mset_eq_setD [OF ok(2)] by simp
  moreover have "?sid \<notin> pending p" using assms(1) by (auto simp: pending_def proto_ok_def)
  ultimately have "tracks p [EV_STREAM_OPENED ?sid] p'"
    using r(3) ok(4) by (auto simp: tracks_def evolves_def reports_def continues_def)
  then show ?thesis using r evolves_ok [OF r(3)] by auto
qed

lemma receive_tracks:
  assumes "proto_ok p"
  shows "case receiveBytes data p of Inl e \<Rightarrow> hang e | Inr (p', r) \<Rightarrow> proto_ok p' \<and> tracks p (events r) p'"
proof -
  have cong: "keys (p'\<lparr>frameCodec := b\<rparr>) = keys p'" "pending (p'\<lparr>frameCodec := b\<rparr>) = pending p'"
      "find_stream k (p'\<lparr>frameCodec := b\<rparr>) = find_stream k p'" for p' b k
    by (simp_all add: keys_def pending_def find_stream_def)
  have ok: "proto_ok (p'\<lparr>frameCodec := b\<rparr>) = proto_ok p'" and tr: "tracks q es (p'\<lparr>frameCodec := b\<rparr>) = tracks q es p'" for p' b q es
    by (simp_all add: proto_ok_def tracks_def cong)
  have "case receive_loop (FrameCodec_feed data (frameCodec p)) p no_result of Inl e \<Rightarrow> hang e
      | Inr (b, p', r) \<Rightarrow> evolves p (events r) p'"
    using receive_loop_ok [OF assms, where buffer = "FrameCodec_feed data (frameCodec p)" and r = no_result] by (simp split: sum.splits prod.splits)
  then show ?thesis
    using assms evolves_tracks [OF evolves_refl [OF assms]]
    by (auto simp: receiveBytes_def ok tr split: sum.splits dest: evolves_tracks evolves_ok)
qed

lemma start_tracks:
  assumes "proto_ok p"
  shows "proto_ok (fst (protocol_start p)) \<and> tracks p (events (snd (protocol_start p))) (fst (protocol_start p))"
proof -
  have "keys (p\<lparr>sentConnectionPreface := a, sentLocalSettings := b, started := c\<rparr>) = keys p"
      "find_stream k (p\<lparr>sentConnectionPreface := a, sentLocalSettings := b, started := c\<rparr>) = find_stream k p" for a b c k
    by (simp_all add: keys_def find_stream_def)
  then show ?thesis
    using assms by (auto simp: protocol_start_def Let_def tracks_def proto_ok_def pending_def)
qed


lemma close_tracks:
  assumes "proto_ok p"
  shows "proto_ok (fst (protocol_close p)) \<and> tracks p (events (snd (protocol_close p))) (fst (protocol_close p))"
    and "proto_ok (fst (onTransportClosed p)) \<and> tracks p (events (snd (onTransportClosed p))) (fst (onTransportClosed p))"
proof -
  have cong: "keys (q\<lparr>closed := b\<rparr>) = keys q" "pending (q\<lparr>closed := b\<rparr>) = pending q"
      "find_stream k (q\<lparr>closed := b\<rparr>) = find_stream k q" "keys (q\<lparr>transportClosed := b\<rparr>) = keys q"
      "pending (q\<lparr>transportClosed := b\<rparr>) = pending q" "find_stream k (q\<lparr>transportClosed := b\<rparr>) = find_stream k q" for q b k
    by (simp_all add: keys_def pending_def find_stream_def)
  have upd: "proto_ok (q\<lparr>closed := b\<rparr>) = proto_ok q" "tracks p es (q\<lparr>closed := b\<rparr>) = tracks p es q"
      "proto_ok (q\<lparr>transportClosed := b\<rparr>) = proto_ok q" "tracks (p\<lparr>transportClosed := b\<rparr>) es q = tracks p es q"
      "tracks p es (q\<lparr>transportClosed := b\<rparr>) = tracks p es q" for q b es p
    by (simp_all add: proto_ok_def tracks_def cong)
  have fail: "proto_ok (fst (failAllStreams e (q, r))) \<and>
      (\<exists>es. events (snd (failAllStreams e (q, r))) = events r @ es \<and> tracks q es (fst (failAllStreams e (q, r))))"
    if "proto_ok q" for e q r
    using failStreams_evolves [OF that, where r = r and e = e] evolves_ok evolves_tracks unfolding failAllStreams_def by blast
  have quiet: "tracks q (a @ es @ b) q'" if "tracks q es q'" "closed_ids a = []" "closed_ids b = []" "opened_ids a = []"
     "opened_ids b = []" "answered_ids a = {}" "answered_ids b = {}" for q es q' a b
    using that by (simp add: tracks_def)
  have ga: "evolves p [] (p\<lparr>sentGoaway := True\<rparr>)" using assms by (intro evolves_other) (auto simp: continues_def proto_ok_def)
  have gt: "tracks (p\<lparr>sentGoaway := b\<rparr>) es q = tracks p es q" for b es q
    by (simp add: tracks_def pending_def)
  show "proto_ok (fst (protocol_close p)) \<and> tracks p (events (snd (protocol_close p))) (fst (protocol_close p))"
  proof (cases "closed p")
    case True
    then show ?thesis using assms evolves_tracks [OF evolves_refl [OF assms]] by (simp add: protocol_close_def)
  next
    case False
    let ?q = "if sentGoaway p then p else p\<lparr>sentGoaway := True\<rparr>"
    let ?r = "if sentGoaway p then no_result else push_event (EV_GOAWAY_SENT (lastPeerStreamId p) EC_NO_ERROR [])
       (appendOutboundFrame (GoAwayFrame_toBytes (buildGoAwayFrame EC_NO_ERROR [] p)) no_result)"
    have q: "proto_ok ?q" using assms evolves_ok [OF ga] by simp
    obtain p1 r1 es where f: "failAllStreams EC_CANCEL (?q, ?r) = (p1, r1)" "proto_ok p1" "events r1 = events ?r @ es" "tracks ?q es p1"
      using fail [OF q, of EC_CANCEL ?r] by (metis prod.collapse)
    have t: "tracks p es p1" using f(4) by (auto simp: gt split: if_splits)
    have "protocol_close p = (p1\<lparr>closed := True\<rparr>, push_event (EV_CONNECTION_CLOSED EC_NO_ERROR) r1)"
      using False f(1) by (auto simp: protocol_close_def Let_def buildGoAwayFrame_def)
    then show ?thesis using f(2,3) quiet [OF t, of "events ?r" "[EV_CONNECTION_CLOSED EC_NO_ERROR]"] by (auto simp: upd split: if_splits)
  qed
  show "proto_ok (fst (onTransportClosed p)) \<and> tracks p (events (snd (onTransportClosed p))) (fst (onTransportClosed p))"
  proof (cases "closed p")
    case True
    then show ?thesis
      using assms quiet [OF evolves_tracks [OF evolves_refl [OF assms]], of "[]" "[EV_TRANSPORT_CLOSED, EV_CONNECTION_CLOSED (connectionErrorCode p)]"]
      by (simp add: onTransportClosed_def Let_def upd)
  next
    case False
    let ?q = "p\<lparr>transportClosed := True\<rparr>"
    obtain p1 r1 es where f: "failAllStreams EC_CANCEL (?q, no_result) = (p1, r1)" "proto_ok p1" "events r1 = es" "tracks ?q es p1"
      using fail [of ?q EC_CANCEL no_result] assms by (auto simp: upd) (metis prod.collapse)
    have t: "tracks p es p1" using f(4) by (simp add: upd)
    show ?thesis
      using False f quiet [OF t, of "[]" "[EV_TRANSPORT_CLOSED, EV_CONNECTION_CLOSED (connectionErrorCode p1)]"]
      by (simp add: onTransportClosed_def Let_def upd)
  qed
qed

lemma ping_tracks:
  assumes "proto_ok p"
  shows "proto_ok (fst (sendPing p)) \<and> tracks p (events (snd (sendPing p))) (fst (sendPing p))"
proof -
  have "keys (p\<lparr>pingCounter := c\<rparr>) = keys p" "find_stream k (p\<lparr>pingCounter := c\<rparr>) = find_stream k p" for c k
    by (simp_all add: keys_def find_stream_def)
  then show ?thesis using assms by (auto simp: sendPing_def Let_def tracks_def proto_ok_def pending_def)
qed

lemma cancel_tracks:
  assumes "proto_ok p"
  shows "proto_ok (fst (cancelStream sid e p)) \<and> tracks p (events (snd (cancelStream sid e p))) (fst (cancelStream sid e p))"
  using failStream_evolves [OF assms, of sid e True] evolves_refl [OF assms] evolves_tracks evolves_ok
  by (simp add: cancelStream_def)

lemma step_tracks:
  assumes "proto_ok p" and "protocol_step p r p'"
  shows "proto_ok p' \<and> tracks p (events r) p'"
  using assms(2)
proof (cases rule: protocol_step.cases)
  case step_start
  then show ?thesis using start_tracks [OF assms(1)] by simp
next
  case (step_submit order request)
  then show ?thesis using submit_tracks [OF assms(1)] by fastforce
next
  case (step_receive data)
  then show ?thesis using receive_tracks [OF assms(1), of data] by simp
next
  case (step_cancel sid e)
  then show ?thesis using cancel_tracks [OF assms(1), of sid e] by simp
next
  case step_ping
  then show ?thesis using ping_tracks [OF assms(1)] by simp
next
  case step_close
  then show ?thesis using close_tracks(1) [OF assms(1)] by simp
next
  case step_transport
  then show ?thesis using close_tracks(2) [OF assms(1)] by simp
qed

interpretation protocol: invariant_machine protocol_step proto_ok
  by unfold_locales (use step_tracks in blast)

text \<open>A connection as the client creates it; the configured window must be a legal one.\<close>

definition config_ok :: "ClientConfig \<Rightarrow> bool" where
  "config_ok config \<longleftrightarrow> unat (cfg_initialWindowSize config) < 2 ^ 31"

lemma decoder_ok_limit:
  assumes "decoder_ok hp"
  shows "decoder_ok (setDecodeTableLimit n hp)"
proof -
  have wf: "table_wf (decodeTable hp)" using assms by (simp add: decoder_ok_def)
  show ?thesis
    using assms set_fit [of n "dyn (decodeTable hp)"]
    by (auto simp: decoder_ok_def setDecodeTableLimit_def plain_def table_setMaxSize_spec [OF wf])
qed

lemma proto_ok_new:
  assumes "config_ok config"
  shows "proto_ok (Http2Protocol_new config)"
proof -
  have "unat (cfg_initialWindowSize config) < 2 ^ 31" using assms by (simp add: config_ok_def)
  moreover have "unat defaultInitialWindowSize < 2 ^ 31" by (simp add: defaultInitialWindowSize_def)
  moreover have "decoder_ok (hpack Http2Protocol_default)"
    using decoder_ok_limit [OF decoder_ok_new]
    by (simp add: Http2Protocol_default_def Hpack_reset_def setEncodeTableSize_def decoder_ok_def)
  ultimately show ?thesis
    using window_new decoder_ok_limit
    by (auto simp: proto_ok_def Http2Protocol_new_def Http2Protocol_default_def Let_def keys_def find_stream_def
        InFlow_init_def InFlow_zero_def InFlow_ok_def InFlow_wf_def InFlow_credit_def defaultMaxFrameSize_def)
qed


text \<open>
  The history of a connection: the events of all results in order. What is in the table and
  what is pending is determined by them.
\<close>

definition history :: "ProtocolStepResult list \<Rightarrow> ProtocolEvent list" where
  "history rs = concat (map events rs)"

definition accounted :: "ProtocolEvent list \<Rightarrow> Http2Protocol \<Rightarrow> bool" where
  "accounted es p \<longleftrightarrow>
     sorted_wrt (<) (opened_ids es) \<and> distinct (closed_ids es) \<and> set (closed_ids es) \<subseteq> set (opened_ids es) \<and>
     set (keys p) = set (opened_ids es) - set (closed_ids es) \<and>
     answered_ids es \<subseteq> insert 0 (set (opened_ids es)) \<and>
     pending p = set (opened_ids es) - answered_ids es \<and> 
     (\<forall>k\<in>set (opened_ids es). k \<noteq> 0 \<and> k < nextStreamId p)"

lemma accounted_step:
  assumes "accounted es p" and "tracks p es' p'" and "nextStreamId p \<noteq> 0"
  shows "accounted (es @ es') p'"
proof -
  have old: "k < nextStreamId p" if "k \<in> set (opened_ids es)" for k using assms(1) that by (simp add: accounted_def)
  have new: "nextStreamId p \<le> k" "k < nextStreamId p'" if "k \<in> set (opened_ids es')" for k using assms(2) that by (simp_all add: tracks_def)
  have disj: "set (opened_ids es) \<inter> set (opened_ids es') = {}" using old new(1) by fastforce
  have nz: "k \<noteq> 0" if "k \<in> set (opened_ids es')" for k using new(1) [OF that] assms(3) by auto
  have le: "nextStreamId p \<le> nextStreamId p'" using assms(2) by (simp add: tracks_def)
  have "sorted_wrt (<) (opened_ids es @ opened_ids es')"
    using assms(1,2) old new(1) by (fastforce simp: sorted_wrt_append accounted_def tracks_def)
  moreover have "distinct (closed_ids es @ closed_ids es')"
    using assms(1,2) disj by (auto simp: accounted_def tracks_def)
  moreover have "k < nextStreamId p'" if "k \<in> set (opened_ids es)" for k using old [OF that] le by simp
  moreover have "set (keys p') = set (opened_ids es) \<union> set (opened_ids es') - (set (closed_ids es) \<union> set (closed_ids es'))"
  proof -
    have "set (keys p') = set (keys p) \<union> set (opened_ids es') - set (closed_ids es')" using assms(2) by (simp add: tracks_def)
    moreover have "set (keys p) = set (opened_ids es) - set (closed_ids es)" "set (closed_ids es) \<subseteq> set (opened_ids es)"
      using assms(1) by (simp_all add: accounted_def)
    ultimately show ?thesis using disj by blast
  qed
  moreover have "pending p' = set (opened_ids es) \<union> set (opened_ids es') - (answered_ids es \<union> answered_ids es')"
  proof -
    have "pending p' = pending p \<union> set (opened_ids es') - answered_ids es'" using assms(2) by (simp add: tracks_def)
    moreover have "pending p = set (opened_ids es) - answered_ids es" "answered_ids es \<subseteq> insert 0 (set (opened_ids es))"
      using assms(1) by (simp_all add: accounted_def)
    ultimately show ?thesis using disj nz by blast
  qed
  moreover have "set (closed_ids es) \<union> set (closed_ids es') \<subseteq> set (opened_ids es) \<union> set (opened_ids es')"
    using assms(1,2) by (auto simp: accounted_def tracks_def)
  moreover have "answered_ids es \<union> answered_ids es' \<subseteq> insert 0 (set (opened_ids es) \<union> set (opened_ids es'))"
    using assms(1,2) by (auto simp: accounted_def tracks_def)
  moreover have "0 \<notin> set (opened_ids es)" "0 \<notin> set (opened_ids es')" using assms(1) nz by (auto simp: accounted_def)
  ultimately show ?thesis using new(2) unfolding accounted_def by auto
qed

lemma accounted_runs:
  assumes "runs protocol_step p0 rs p" and "proto_ok p0" and "streams p0 = []"
  shows "accounted (history rs) p"
proof (rule protocol.runs_history [OF assms(1,2)])
  show "accounted (history []) p0" using assms(3) by (simp add: accounted_def history_def keys_def pending_def find_stream_def)
  fix ls t l u
  assume t: "proto_ok t" "accounted (history ls) t" "protocol_step t l u"
  then have "nextStreamId t \<noteq> 0" by (auto simp: proto_ok_def)
  then show "accounted (history (ls @ [l])) u"
    using accounted_step [OF t(2)] step_tracks [OF t(1,3)] by (simp add: history_def)
qed

end
