(* ===== verification/Session_Inv.thy ===== *)
theory Session_Inv
  imports Session Protocol_Machine
begin

text \<open>
  What a session keeps true and what it answers: while it is healthy the table of contexts has
  exactly the streams whose requests are unanswered; every context that is held is handed back
  in a \<open>REQUEST_DONE\<close> event once. The exceptions are stated as they are: a request that the
  protocol refuses, and the events that are dropped when the transport fails.
\<close>

section \<open>Held and answered contexts\<close>

definition held :: "Http2Session \<Rightarrow> ctx multiset" where
  "held s = mset (map snd (streamContexts s))"

fun answered_by :: "SessionEvent \<Rightarrow> ctx list" where
  "answered_by (REQUEST_DONE c response) = [c]"
| "answered_by _ = []"

definition done_by :: "SessionEvent list \<Rightarrow> ctx multiset" where
  "done_by es = mset (concat (map answered_by es))"

abbreviation waiting :: "Http2Session \<Rightarrow> StreamId list" where
  "waiting s \<equiv> map fst (streamContexts s)"

definition session_ok :: "Http2Session \<Rightarrow> bool" where
  "session_ok s \<longleftrightarrow> proto_ok (ss_protocol s) \<and> distinct (waiting s) \<and>
     (if ss_healthy s
      then set (waiting s) = pending (ss_protocol s) \<and> ss_started s \<and> ss_transport s \<noteq> None
      else streamContexts s = [])"

lemma done_by_simps [simp]:
  "done_by [] = {#}" "done_by (e # es) = mset (answered_by e) + done_by es" "done_by (es @ es') = done_by es + done_by es'"
  by (simp_all add: done_by_def)

lemma enqueue_fields [simp]:
  "ss_protocol (fold enqueueOutbound bs s) = ss_protocol s" "ss_transport (fold enqueueOutbound bs s) = ss_transport s"
  "ss_started (fold enqueueOutbound bs s) = ss_started s" "ss_healthy (fold enqueueOutbound bs s) = ss_healthy s"
  "streamContexts (fold enqueueOutbound bs s) = streamContexts s" "ss_goingAway (fold enqueueOutbound bs s) = ss_goingAway s"
  by (induction bs arbitrary: s) (simp_all add: enqueueOutbound_def)

lemma fail_spec:
  "Session_failAllStreams response s = (es, s') \<Longrightarrow>
     s' = s\<lparr>streamContexts := []\<rparr> \<and> done_by es = held s \<and> held s' = {#}"
  by (auto simp: Session_failAllStreams_def held_def done_by_def comp_def case_prod_beta concat_map_singleton)

text \<open>What a translation leaves alone, and what it does to the table.\<close>

definition settles :: "Http2Session \<Rightarrow> SessionEvent list \<Rightarrow> StreamId set \<Rightarrow> Http2Session \<Rightarrow> bool" where
  "settles s es answered s' \<longleftrightarrow>
     held s = done_by es + held s' \<and> ss_protocol s' = ss_protocol s \<and> ss_transport s' = ss_transport s \<and>
     ss_started s' = ss_started s \<and> (distinct (waiting s) \<longrightarrow> distinct (waiting s')) \<and>
     (if ss_healthy s' then ss_healthy s \<and> set (waiting s') = set (waiting s) - answered
      else ss_healthy s \<or> streamContexts s = [] \<longrightarrow> streamContexts s' = [])"

lemma settles_refl: "settles s [] {} s"
  by (simp add: settles_def)

lemma settles_trans:
  assumes "settles s es A s1" and "settles s1 es' B s2"
  shows "settles s (es @ es') (A \<union> B) s2"
  using assms by (auto simp: settles_def split: if_splits)

lemma answer_held:
  assumes "distinct (waiting s)" and "answer_context sid response s = (es, s')"
  shows "held s = done_by es + held s'" and "streamContexts s' = filter (\<lambda>(k, c). k \<noteq> sid) (streamContexts s)"
    and "context_at sid s = None \<Longrightarrow> es = [] \<and> s' = s"
proof -
  have "mset (map snd cs) = mset (map snd (filter (\<lambda>(k, c). k \<noteq> sid) cs)) + (case map_of cs sid of None \<Rightarrow> {#} | Some c \<Rightarrow> {#c#})"
    "map_of cs sid = None \<Longrightarrow> filter (\<lambda>(k, c). k \<noteq> sid) cs = cs" if "distinct (map fst cs)" for cs :: "(StreamId \<times> ctx) list"
    using that
  proof (induction cs)
    case (Cons kc cs)
    { case 1 then show ?case using Cons by (cases kc) (auto split: option.splits dest: map_of_SomeD, force dest: map_of_SomeD) }
    { case 2 then show ?case using Cons by (cases kc) (auto split: if_splits) }
  qed simp_all
  note split = this [OF assms(1)]
  show "held s = done_by es + held s'" "streamContexts s' = filter (\<lambda>(k, c). k \<noteq> sid) (streamContexts s)"
    "context_at sid s = None \<Longrightarrow> es = [] \<and> s' = s"
    using assms(2) split by (auto simp: answer_context_def held_def context_at_def erase_context_def split: option.splits)
qed

lemma answer_settles:
  assumes "distinct (waiting s)" and "answer_context sid response s = (es, s')"
  shows "settles s es {sid} s'"
proof -
  note h = answer_held [OF assms]
  have fields: "ss_protocol s' = ss_protocol s" "ss_transport s' = ss_transport s" "ss_started s' = ss_started s" "ss_healthy s' = ss_healthy s"
    using assms(2) by (auto simp: answer_context_def erase_context_def split: option.splits)
  have "waiting s' = filter (\<lambda>k. k \<noteq> sid) (waiting s)"
    by (simp add: h(2) filter_map comp_def case_prod_unfold)
  then show ?thesis using h(1,2) fields assms(1) by (auto simp: settles_def)
qed

lemma dead_settles: "settles s (fst (Session_failAllStreams response (s\<lparr>ss_healthy := False\<rparr>)) @ [SESSION_DEAD]) A
    (snd (Session_failAllStreams response (s\<lparr>ss_healthy := False\<rparr>)))"
  using fail_spec [of response "s\<lparr>ss_healthy := False\<rparr>"]
  by (cases "Session_failAllStreams response (s\<lparr>ss_healthy := False\<rparr>)") (auto simp: settles_def held_def)

lemma translateEvent_settles:
  assumes "distinct (waiting s)" and "translateEvent pe s = (es, s')"
  shows "settles s es (set (answers pe)) s'"
proof -
  have quiet: "settles s es {} (s\<lparr>ss_goingAway := b\<rparr>)" if "done_by es = {#}" for es b
    using that by (simp add: settles_def held_def)
  have "settles s [PING_ACK] {} s" using settles_refl [of s] by (simp add: settles_def)
  then show ?thesis
    using assms(2) answer_settles [OF assms(1)] dead_settles [of s "failConnectionError ''Connection lost''" "{}"] quiet [of "[SESSION_CLOSING]" True] settles_refl [of s]
    by (cases pe) (auto simp: translateEvent_def split: prod.splits)
qed

lemma translateEvents_settles:
  assumes "distinct (waiting s)" and "translateEvents pes s = (es, s')"
  shows "settles s es (answered_ids pes) s'"
  using assms
proof (induction pes arbitrary: s es s')
  case (Cons pe pes)
  obtain es1 s1 where e: "translateEvent pe s = (es1, s1)" by fastforce
  obtain es2 s2 where r: "translateEvents pes s1 = (es2, s2)" by fastforce
  have one: "settles s es1 (set (answers pe)) s1" using translateEvent_settles [OF Cons.prems(1) e] .
  then have "distinct (waiting s1)" using Cons.prems(1) by (simp add: settles_def)
  from settles_trans [OF one Cons.IH [OF this r]] show ?case using Cons.prems(2) e r by simp
qed (simp add: settles_refl)

text \<open>A step of the protocol followed by the translation of its events.\<close>

lemma settles_ok:
  assumes "session_ok s" and "proto_ok p" and "settles (fold enqueueOutbound bs (s\<lparr>ss_protocol := p\<rparr>)) es A s'"
    and "pending p = pending (ss_protocol s) - A"
  shows "session_ok s'" and "held s = done_by es + held s'"
  using assms by (auto simp: session_ok_def settles_def held_def split: if_splits)

lemma translate_ok:
  assumes "session_ok s" and "proto_ok p" and "pending p = pending (ss_protocol s) - answered_ids pes"
    and "translateEvents pes (fold enqueueOutbound bs (s\<lparr>ss_protocol := p\<rparr>)) = (es, s')"
  shows "session_ok s'" and "held s = done_by es + held s'" and "ss_protocol s' = p"
proof -
  have "distinct (waiting (fold enqueueOutbound bs (s\<lparr>ss_protocol := p\<rparr>)))" using assms(1) by (simp add: session_ok_def)
  note settled = translateEvents_settles [OF this assms(4)]
  show "session_ok s'" "held s = done_by es + held s'"
    using settles_ok [OF assms(1,2) settled assms(3)] by blast+
  show "ss_protocol s' = p" using settled by (simp add: settles_def)
qed

section \<open>The operations\<close>

lemma receive_reports:
  assumes "proto_ok p" and "receiveBytes data p = Inr (p', r)"
  shows "proto_ok p'" and "pending p' = pending p - answered_ids (events r)"
proof -
  have "proto_ok p' \<and> pending p' = pending p - answered_ids (events r)"
  proof (cases "closed p \<or> transportClosed p")
    case True
    then show ?thesis using assms by (auto simp: receiveBytes_def)
  next
    case False
    then obtain b q where loop: "receive_loop (FrameCodec_feed data (frameCodec p)) p no_result = Inr (b, q, r)" "p' = q\<lparr>frameCodec := b\<rparr>"
      using assms(2) by (auto simp: receiveBytes_def cpp_simps)
    then have "evolves p (events r) q"
      using receive_loop_ok [OF assms(1), where buffer = "FrameCodec_feed data (frameCodec p)" and r = no_result] by simp
    moreover have "proto_ok (q\<lparr>frameCodec := b\<rparr>) = proto_ok q" "pending (q\<lparr>frameCodec := b\<rparr>) = pending q"
      by (simp_all add: proto_ok_def keys_def find_stream_def pending_def)
    ultimately show ?thesis using loop(2) by (simp add: evolves_def reports_def)
  qed
  then show "proto_ok p'" "pending p' = pending p - answered_ids (events r)" by blast+
qed

lemma cancel_reports:
  assumes "proto_ok p" and "cancelStream sid e p = (p', r)"
  shows "proto_ok p'" and "pending p' = pending p - answered_ids (events r)"
    and "\<not> closed p \<Longrightarrow> find_stream sid p \<noteq> None \<Longrightarrow> sid \<in> answered_ids (events r)"
proof -
  have "evolves p (events r) p'"
    using failStream_evolves [OF assms(1), of sid e True] evolves_refl [OF assms(1)] assms(2)
    by (auto simp: cancelStream_def split: if_splits)
  then show "proto_ok p'" "pending p' = pending p - answered_ids (events r)" by (simp_all add: evolves_def reports_def)
  show "\<not> closed p \<Longrightarrow> find_stream sid p \<noteq> None \<Longrightarrow> sid \<in> answered_ids (events r)"
    using assms(2) by (auto simp: cancelStream_def failStream_Some fail_events_def)
qed

text \<open>
  Canceling a stream that has a context: the protocol's failure event answers it, so the second answer
  of the code (\<open>Request canceled\<close>) is never given.
\<close>

lemma cancel_stream_ok:
  assumes "session_ok s" and "Session_isHealthy s" and "context_at sid s = Some c" and "cancel_stream_of sid s = (es, s')"
  shows "session_ok s'" and "held s = done_by es + held s'"
    and "es = [REQUEST_DONE c (protocolError EC_CANCEL ''errorCode=8'')]"
proof -
  let ?p = "ss_protocol s"
  have healthy: "ss_healthy s" "\<not> closed ?p" using assms(2) by (simp_all add: Session_isHealthy_def)
  have "sid \<in> set (waiting s)" using assms(3) by (force simp: context_at_def dest: map_of_SomeD)
  then have "sid \<in> pending ?p" using assms(1) healthy by (simp add: session_ok_def)
  then obtain st where st: "find_stream sid ?p = Some st" by (auto simp: pending_def)
  obtain p r where c: "cancelStream sid EC_CANCEL ?p = (p, r)" by fastforce
  have ev: "events r = fail_events EC_CANCEL sid" using c st healthy by (auto simp: cancelStream_def failStream_Some)
  have ok: "proto_ok ?p" "distinct (waiting s)" using assms(1) by (simp_all add: session_ok_def)
  let ?s1 = "fold enqueueOutbound (outbound r) (s\<lparr>ss_protocol := p\<rparr>)"
  have at: "context_at sid ?s1 = Some c" using assms(3) by (simp add: context_at_def)
  let ?e = "REQUEST_DONE c (protocolError EC_CANCEL ''errorCode=8'')"
  have code: "to_string 8 = ''8''" by code_simp
  have tr: "translateEvents (events r) ?s1 = ([?e], erase_context sid ?s1)"
    using at code by (simp add: ev fail_events_def translateEvent_def answer_context_def)
  have "context_at sid (erase_context sid ?s1) = None"
    by (auto simp: context_at_def erase_context_def map_of_eq_None_iff)
  then have out: "es = [?e]" "s' = erase_context sid ?s1"
    using assms(4) c tr by (auto simp: cancel_stream_of_def consumeStepResult_def answer_context_def)
  note translate_ok [OF assms(1) cancel_reports(1,2) [OF ok(1) c] tr]
  with out show "session_ok s'" "held s = done_by es + held s'" "es = [?e]" by simp_all
qed


section \<open>Submitting\<close>

lemma submit_accepted:
  assumes "proto_ok p" and "permutes_entries order" and "length (rq_body request) < 2 ^ 64" and "refusal request p = None"
  shows "\<exists>p' r. submitRequest order request p = Inr (p', r) \<and> proto_ok p' \<and> events r = [EV_STREAM_OPENED (nextStreamId p)] \<and>
    hasSubmittedStream r \<and> submittedStreamId r = nextStreamId p \<and> pending p' = insert (nextStreamId p) (pending p) \<and>
    nextStreamId p \<noteq> 0 \<and> nextStreamId p \<notin> pending p"
proof -
  have c: "canSubmitRequests p" "Request_isValid request" "length (streams p) < unat (maxConcurrentStreams p)"
      "\<not> 0x7fffffff - 1 < nextStreamId p"
    using assms(4) by (auto simp: refusal_def not_le split: if_splits)
  obtain encoded hp where "hpack_encode (buildRequestHeaderFields request) (hpack p) = Inr (encoded, hp)"
    using hpack_encode_total by blast
  then obtain p' r where r: "submitRequest order request p = Inr (p', r)" "events r = [EV_STREAM_OPENED (nextStreamId p)]"
      "hasSubmittedStream r" "submittedStreamId r = nextStreamId p"
    using submitRequest_result [OF assms(1-3) c] by force
  then have "proto_ok p'" "pending p' = insert (nextStreamId p) (pending p)"
    using submit_tracks [OF assms(1-3)] by (auto simp: tracks_def)
  moreover have "nextStreamId p \<noteq> 0" "nextStreamId p \<notin> pending p"
    using assms(1) by (auto simp: proto_ok_def pending_def)
  ultimately show ?thesis using r by blast
qed

lemma emit_keeps_open:
  "emitPendingRequestBody sid p r = Inr (p', r') \<Longrightarrow> closed p' = closed p"
  "emitRequestHeaders sid encoded p r = Inr (p', r') \<Longrightarrow> closed p' = closed p"
  by (auto simp: emitPendingRequestBody_def emitRequestHeaders_def Let_def cpp_simps erase_stream_def put_stream_def
      split: option.splits if_splits prod.splits)

lemma submit_keeps_open: "submitRequest order request p = Inr (p', r) \<Longrightarrow> closed p' = closed p"
  by (auto simp: submitRequest_def refused_def Let_def cpp_simps insert_stream_def put_stream_def
      split: option.splits if_splits dest!: emit_keeps_open)

lemma put_context_new:
  assumes "permutes_entries corder" and "context_at sid s = None"
  shows "held (put_context corder sid c s) = add_mset c (held s)"
    and "mset (streamContexts (put_context corder sid c s)) = add_mset (sid, c) (mset (streamContexts s))"
proof -
  show m: "mset (streamContexts (put_context corder sid c s)) = add_mset (sid, c) (mset (streamContexts s))"
    using assms by (simp add: put_context_def permutes_entries_def)
  have "held t = image_mset snd (mset (streamContexts t))" for t by (simp add: held_def)
  then show "held (put_context corder sid c s) = add_mset c (held s)" by (simp add: m)
qed

lemma put_fields [simp]:
  "ss_protocol (put_context corder sid c s) = ss_protocol s" "ss_transport (put_context corder sid c s) = ss_transport s"
  "ss_started (put_context corder sid c s) = ss_started s" "ss_healthy (put_context corder sid c s) = ss_healthy s"
  by (simp_all add: put_context_def)

text \<open>A context enters the table with its stream; if it has been canceled in the meantime it leaves at once.\<close>

lemma submit_ok:
  assumes "session_ok s" and "Session_isHealthy s" and "permutes_entries order" and "permutes_entries corder"
    and "length (rq_body request) < 2 ^ 64" and "refusal request (ss_protocol s) = None"
  shows "\<exists>es h' s'. Session_submit order corder request c h s = Inr (es, h', s') \<and> session_ok s' \<and>
    add_mset c (held s) = done_by es + held s' \<and> ctx_streamId (h' c) = nextStreamId (ss_protocol s) \<and>
    (es = (if canceled_flag (h c) \<and> \<not> finished_flag (h c) then [REQUEST_DONE c (protocolError EC_CANCEL ''errorCode=8'')] else []))"
proof -
  let ?p = "ss_protocol s" and ?sid = "nextStreamId (ss_protocol s)"
  have ok: "proto_ok ?p" "distinct (waiting s)" and healthy: "ss_healthy s" "ss_started s" "\<not> closed ?p"
    using assms(1,2) by (simp_all add: session_ok_def Session_isHealthy_def)
  obtain p r where r: "submitRequest order request ?p = Inr (p, r)" "proto_ok p" "events r = [EV_STREAM_OPENED ?sid]"
    "hasSubmittedStream r" "submittedStreamId r = ?sid" "pending p = insert ?sid (pending ?p)" "?sid \<noteq> 0" "?sid \<notin> pending ?p"
    using submit_accepted [OF ok(1) assms(3,5,6)] by blast
  let ?t = "put_context corder ?sid c (s\<lparr>ss_protocol := p\<rparr>)"
  let ?s1 = "fold enqueueOutbound (outbound r) ?t"
  have free: "context_at ?sid (s\<lparr>ss_protocol := p\<rparr>) = None"
    using assms(1) healthy r(8) by (simp add: context_at_def map_of_eq_None_iff session_ok_def)
  note put = put_context_new [OF assms(4) free, of c]
  have w: "mset (waiting ?t) = add_mset ?sid (mset (waiting s))"
    using arg_cong [OF put(2), of "image_mset fst"] by simp
  have "?sid \<notin> set (waiting s)" using free by (simp add: context_at_def map_of_eq_None_iff)
  then have "distinct (waiting ?t)" using w ok(2) mset_eq_imp_distinct_iff [of "waiting ?t" "?sid # waiting s"] by simp
  moreover have "set (waiting ?t) = insert ?sid (set (waiting s))" using mset_eq_setD [of "waiting ?t" "?sid # waiting s"] w by simp
  ultimately have ok1: "session_ok ?s1" using assms(1) healthy r(2,6) by (simp add: session_ok_def)
  have held1: "held ?s1 = add_mset c (held s)" using put(1) by (simp add: held_def)
  have tr: "translateEvents (events r) ?s1 = ([], ?s1)" by (simp add: r(3) translateEvent_def)
  have "(?sid, c) \<in># mset (streamContexts ?t)" using put(2) by simp
  then have at: "context_at ?sid ?s1 = Some c" using ok1 by (simp add: context_at_def session_ok_def)
  let ?h = "h(c := setStreamId ?sid (h c))"
  have flags: "canceled_flag (?h c) = canceled_flag (h c)" "finished_flag (?h c) = finished_flag (h c)" "ctx_streamId (?h c) = ?sid"
    by (simp_all add: setStreamId_def)
  have sub: "Session_submit order corder request c h s =
      (if canceled_flag (h c) \<and> \<not> finished_flag (h c)
       then case cancel_stream_of ?sid ?s1 of (es, s') \<Rightarrow> Inr (es, ?h, s') else Inr ([], ?h, ?s1))"
    using assms(2) r(1,4,5,7) tr flags by (simp add: Session_submit_def consumeStepResult_def Let_def)
  show ?thesis
  proof (cases "canceled_flag (h c) \<and> \<not> finished_flag (h c)")
    case True
    obtain es s' where cancel: "cancel_stream_of ?sid ?s1 = (es, s')" by fastforce
    have "Session_isHealthy ?s1" using healthy submit_keeps_open [OF r(1)] by (simp add: Session_isHealthy_def)
    note cancel_stream_ok [OF ok1 this at cancel]
    then show ?thesis using sub True cancel held1 flags by auto
  next
    case False
    then show ?thesis using sub ok1 held1 flags by auto
  qed
qed

section \<open>The transport\<close>

lemma failure_ok:
  assumes "session_ok s" and "handleTransportFailure s = (es, s')"
  shows "session_ok s'" and "held s = done_by es" and "held s' = {#}" and "\<not> ss_healthy s'"
proof -
  have ok: "proto_ok (ss_protocol s)" "\<not> ss_healthy s \<Longrightarrow> streamContexts s = []" using assms(1) by (simp_all add: session_ok_def)
  have "session_ok s' \<and> held s = done_by es \<and> held s' = {#} \<and> \<not> ss_healthy s'"
  proof (cases "ss_healthy s")
    case True
    obtain p r where p: "onTransportClosed (ss_protocol s) = (p, r)" by fastforce
    then have "proto_ok p" using close_tracks(2) [OF ok(1)] by simp
    then show ?thesis
      using assms(2) True p
      by (auto simp: handleTransportFailure_def consumeStepResult_def Let_def session_ok_def held_def done_by_def
          Session_failAllStreams_def comp_def case_prod_unfold concat_map_singleton)
  next
    case False
    then show ?thesis using assms ok(2) by (auto simp: handleTransportFailure_def held_def)
  qed
  then show "session_ok s'" "held s = done_by es" "held s' = {#}" "\<not> ss_healthy s'" by blast+
qed

definition closing_answer :: "IStreamTransport \<Rightarrow> nat \<Rightarrow> sys_answer \<Rightarrow> bool" where
  "closing_answer t len a \<longleftrightarrow> io_state (transport_io a len t) = IO_CLOSED \<or> io_state (transport_io a len t) = IO_ERR"

definition moving_answer :: "IStreamTransport \<Rightarrow> nat \<Rightarrow> sys_answer \<Rightarrow> bool" where
  "moving_answer t len a \<longleftrightarrow> io_state (transport_io a len t) = IO_OK \<and> io_bytes (transport_io a len t) \<noteq> 0"

lemma received_ok:
  assumes "session_ok s" and "receiveBytes data (ss_protocol s) = Inr (p, r)"
    and "translateEvents (events r) (fold enqueueOutbound (outbound r) (s\<lparr>ss_protocol := p\<rparr>)) = (es, s')"
  shows "session_ok s'" and "held s = done_by es + held s'" and "ss_transport s' = ss_transport s"
proof -
  have ok: "proto_ok (ss_protocol s)" "distinct (waiting (fold enqueueOutbound (outbound r) (s\<lparr>ss_protocol := p\<rparr>)))"
    using assms(1) by (simp_all add: session_ok_def)
  show "session_ok s'" "held s = done_by es + held s'"
    using translate_ok [OF assms(1) receive_reports [OF ok(1) assms(2)] assms(3)] by blast+
  show "ss_transport s' = ss_transport s" using translateEvents_settles [OF ok(2) assms(3)] by (simp add: settles_def)
qed

lemma read_loop_ok:
  assumes "session_ok s" and "ss_transport s = Some t" and "\<forall>(a, b)\<in>set reads. \<not> closing_answer t 8192 a"
  shows "case read_loop reads s acc of Inl e \<Rightarrow> hang e
    | Inr (es, s') \<Rightarrow> \<exists>es1. es = acc @ es1 \<and> session_ok s' \<and> held s = done_by es1 + held s' \<and> ss_transport s' = Some t"
  using assms
proof (induction reads arbitrary: s acc)
  case (Cons ab reads)
  obtain a buffer where ab: "ab = (a, buffer)" by (cases ab)
  let ?io = "transport_io a 8192 t"
  consider "io_state ?io = IO_WOULD_BLOCK \<or> io_bytes ?io = 0" | "io_state ?io = IO_OK" "io_bytes ?io \<noteq> 0"
    using Cons.prems(3) ab by (cases "io_state ?io") (auto simp: closing_answer_def)
  then show ?case
  proof cases
    case 1
    then show ?thesis using Cons.prems ab by (auto simp: closing_answer_def Let_def)
  next
    case 2
    show ?thesis
    proof (cases "receiveBytes (take (io_bytes ?io) buffer) (ss_protocol s)")
      case (Inl e)
      then show ?thesis using receive_tracks [of "ss_protocol s" "take (io_bytes ?io) buffer"] 2 ab Cons.prems(1,2) by (simp add: session_ok_def Let_def)
    next
      case (Inr pr)
      obtain p r where r: "receiveBytes (take (io_bytes ?io) buffer) (ss_protocol s) = Inr (p, r)" using Inr by (cases pr) auto
      obtain es s' where tr: "translateEvents (events r) (fold enqueueOutbound (outbound r) (s\<lparr>ss_protocol := p\<rparr>)) = (es, s')" by fastforce
      note ok = received_ok [OF Cons.prems(1) r tr]
      have step: "read_loop (ab # reads) s acc = read_loop reads s' (acc @ es)"
        using 2 ab Cons.prems(2) r tr by simp
      have "ss_transport s' = Some t" "\<forall>(a, b)\<in>set reads. \<not> closing_answer t 8192 a" using Cons.prems(2,3) ok(3) by simp_all
      note Cons.IH [OF ok(1) this, of "acc @ es"]
      then show ?thesis unfolding step using ok(2) by (auto split: sum.splits)
    qed
  qed
qed (auto simp: held_def)

text \<open>
  The end of a connection noticed by a read: what the reads before it produced is dropped, and
  only the events of the failure are returned.
\<close>

lemma read_loop_drops:
  assumes "session_ok s" and "ss_transport s = Some t" and "\<forall>(a, b)\<in>set reads. moving_answer t 8192 a"
    and "read_loop reads s acc = Inr (es1, s1)" and "closing_answer t 8192 a"
  shows "read_loop (reads @ [(a, b)]) s acc = Inr (handleTransportFailure s1)"
  using assms
proof (induction reads arbitrary: s acc)
  case Nil
  then show ?case by (auto simp: closing_answer_def Let_def)
next
  case (Cons ab reads)
  obtain c buffer where ab: "ab = (c, buffer)" by (cases ab)
  let ?io = "transport_io c 8192 t"
  have moving: "io_state ?io = IO_OK" "io_bytes ?io \<noteq> 0" using Cons.prems(3) ab by (simp_all add: moving_answer_def)
  obtain p r where r: "receiveBytes (take (io_bytes ?io) buffer) (ss_protocol s) = Inr (p, r)"
    using Cons.prems(2,4) ab moving by (auto simp: cpp_simps)
  obtain es s' where tr: "translateEvents (events r) (fold enqueueOutbound (outbound r) (s\<lparr>ss_protocol := p\<rparr>)) = (es, s')" by fastforce
  have rest: "read_loop reads s' (acc @ es) = Inr (es1, s1)"
    using Cons.prems(2,4) ab moving r tr by simp
  note ok = received_ok [OF Cons.prems(1) r tr]
  have "read_loop (reads @ [(a, b)]) s' (acc @ es) = Inr (handleTransportFailure s1)"
    using Cons.prems(2,3,5) ok rest by (intro Cons.IH) auto
  then show ?case using Cons.prems(2) ab moving r tr by simp
qed

definition queued :: "Http2Session \<Rightarrow> u8 list" where
  "queued s = concat (map (\<lambda>c. drop (ch_offset c) (ch_data c)) (ss_outbound s))"

text \<open>
  What reaches the transport is the front of the queue, in order; then either only the queue has
  changed or the transport has failed, and the events of the failure are not returned.
\<close>

definition wrote :: "sys_answer list \<Rightarrow> Http2Session \<Rightarrow> u8 list \<Rightarrow> Http2Session \<Rightarrow> bool" where
  "wrote writes s out s' \<longleftrightarrow> (\<exists>chunks. let rest = s\<lparr>ss_outbound := chunks\<rparr> in queued s = out @ queued rest \<and>
     (s' = rest \<or> (\<exists>t a n. ss_transport s = Some t \<and> a \<in> set writes \<and> 0 < n \<and> closing_answer t n a) \<and> s' = snd (handleTransportFailure rest)))"

lemma wrote_nothing: "wrote writes s [] s"
  by (auto simp: wrote_def Let_def intro: exI [of _ "ss_outbound s"])

lemma wrote_step:
  assumes "wrote as (s\<lparr>ss_outbound := cs\<rparr>) out s'" and "queued s = sent @ queued (s\<lparr>ss_outbound := cs\<rparr>)" and "set as \<subseteq> set writes"
  shows "wrote writes s (sent @ out) s'"
  using assms by (fastforce simp: wrote_def Let_def)

lemma write_loop_spec:
  assumes "ss_transport s = Some t"
  shows "\<exists>out s'. write_loop writes s = Inr (out, s') \<and> wrote writes s out s'"
  using assms
proof (induction writes s rule: write_loop.induct)
  case (1 writes s)
  show ?case
  proof (cases "ss_outbound s")
    case Nil
    then show ?thesis using wrote_nothing by (simp add: write_loop.simps)
  next
    case (Cons chunk cs)
    let ?total = "length (ch_data chunk)" and ?left = "drop (ch_offset chunk) (ch_data chunk)"
    show ?thesis
    proof (cases "?total \<le> ch_offset chunk")
      case True
      have "write_loop writes s = write_loop writes (s\<lparr>ss_outbound := cs\<rparr>)" using True Cons by (simp add: write_loop.simps [of writes s])
      moreover obtain out s' where "write_loop writes (s\<lparr>ss_outbound := cs\<rparr>) = Inr (out, s')" "wrote writes (s\<lparr>ss_outbound := cs\<rparr>) out s'"
        using "1.IH"(1) [OF Cons refl True] "1.prems" by auto
      ultimately show ?thesis using wrote_step [where as = writes and writes = writes and s = s and cs = cs and out = out and s' = s' and sent = "[]"] True Cons by (simp add: queued_def)
    next
      case False
      show ?thesis
      proof (cases writes)
        case Nil
        then show ?thesis using Cons False "1.prems" wrote_nothing by (simp add: write_loop.simps)
      next
        case w: (Cons a as)
        let ?io = "transport_io a (?total - ch_offset chunk) t"
        consider "io_state ?io = IO_WOULD_BLOCK" | "closing_answer t (?total - ch_offset chunk) a" | "io_state ?io = IO_OK"
          by (cases "io_state ?io") (auto simp: closing_answer_def)
        then show ?thesis
        proof cases
          case 1
          then show ?thesis using Cons False w "1.prems" wrote_nothing by (simp add: write_loop.simps)
        next
          case 2
          then have "write_loop writes s = Inr ([], snd (handleTransportFailure s))" using Cons False w "1.prems"
            by (auto simp: write_loop.simps [of "a # as" s] closing_answer_def Let_def)
          moreover have "wrote writes s [] (snd (handleTransportFailure s))"
            using 2 False w "1.prems" by (auto simp: wrote_def Let_def intro!: exI [of _ "ss_outbound s"] exI [of _ "?total - ch_offset chunk"])
          ultimately show ?thesis by blast
        next
          case 3
          let ?chunk = "chunk\<lparr>ch_offset := ch_offset chunk + io_bytes ?io\<rparr>"
          let ?cs = "if ?total \<le> ch_offset ?chunk then cs else ?chunk # cs"
          have step: "write_loop writes s = cpp_bind (write_loop as (s\<lparr>ss_outbound := ?cs\<rparr>)) (\<lambda>(out, s). Inr (take (io_bytes ?io) ?left @ out, s))"
            using Cons False w "1.prems" 3 by (simp add: write_loop.simps [of "a # as" s] Let_def)
          have q: "queued s = take (io_bytes ?io) ?left @ queued (s\<lparr>ss_outbound := ?cs\<rparr>)"
            using Cons append_take_drop_id [of "io_bytes ?io" ?left] by (simp add: queued_def add.commute)
          obtain out s' where "write_loop as (s\<lparr>ss_outbound := ?cs\<rparr>) = Inr (out, s')" "wrote as (s\<lparr>ss_outbound := ?cs\<rparr>) out s'"
            using "1.IH"(2) [OF Cons refl False "1.prems" w refl _ _ refl refl refl] 3 "1.prems" by auto
          then show ?thesis unfolding step using wrote_step [OF _ q, where as = as and writes = writes] w by auto
        qed
      qed
    qed
  qed
qed

section \<open>The session as a machine\<close>

lemma session_ok_outbound [simp]: "session_ok (s\<lparr>ss_outbound := cs\<rparr>) = session_ok s" "held (s\<lparr>ss_outbound := cs\<rparr>) = held s"
  by (simp_all add: session_ok_def held_def)

lemma session_ok_protocol:
  assumes "session_ok s" and "proto_ok p" and "pending p = pending (ss_protocol s)"
  shows "session_ok (fold enqueueOutbound bs (s\<lparr>ss_protocol := p\<rparr>))"
  using assms by (cases "ss_healthy s") (simp_all add: session_ok_def)

lemma start_ok:
  assumes "config_ok cfg" and "Session_start connector w (Http2Session_new ep cfg) = (True, s)"
  shows "session_ok s" and "held s = {#}" and "Session_isHealthy s"
proof -
  obtain p r where p: "protocol_start (Http2Protocol_new cfg) = (p, r)" by fastforce
  have "proto_ok p" using start_tracks [OF proto_ok_new [OF assms(1)]] p by simp
  moreover have "streams p = []" "\<not> closed p"
    using p by (auto simp: protocol_start_def Http2Protocol_new_def Http2Protocol_default_def Let_def split: if_splits)
  moreover from this have "pending p = {}" by (simp add: pending_def find_stream_def)
  ultimately show "session_ok s" "held s = {#}" "Session_isHealthy s"
    using assms(2) p
    by (auto simp: Session_start_def Http2Session_new_def consumeStepResult_def Let_def session_ok_def held_def Session_isHealthy_def
        split: sum.splits prod.splits if_splits)
qed

lemma close_ok:
  assumes "session_ok s" and "Session_close s = (es, s')"
  shows "session_ok s'" and "held s = done_by es + held s'"
proof -
  obtain p r where p: "protocol_close (ss_protocol s) = (p, r)" by fastforce
  then have "proto_ok p" using close_tracks(1) [of "ss_protocol s"] assms(1) by (simp add: session_ok_def)
  then show "session_ok s'" "held s = done_by es + held s'"
    using assms p
    by (auto simp: Session_close_def consumeStepResult_def Let_def session_ok_def held_def done_by_def Session_failAllStreams_def
        comp_def case_prod_unfold concat_map_singleton split: if_splits)
qed

lemma cancel_ok:
  assumes "session_ok s" and "Session_cancelRequest context h s = (es, s')"
  shows "session_ok s'" and "held s = done_by es + held s'"
  using assms cancel_stream_ok [OF assms(1)]
  by (auto simp: Session_cancelRequest_def Let_def split: option.splits if_splits)

lemma ping_ok:
  assumes "session_ok s" and "Session_sendPing s = (es, s')"
  shows "session_ok s'" and "held s = done_by es + held s'"
proof -
  obtain p r where p: "sendPing (ss_protocol s) = (p, r)" by fastforce
  have "proto_ok p" "pending p = pending (ss_protocol s)"
    using ping_tracks [of "ss_protocol s"] assms(1) p
    by (auto simp: session_ok_def sendPing_def Let_def pending_def find_stream_def split: if_splits)
  note session_ok_protocol [OF assms(1) this]
  then show "session_ok s'" "held s = done_by es + held s'"
    using assms p by (auto simp: Session_sendPing_def Let_def held_def split: if_splits)
qed

text \<open>
  The operations of a started session, labelled with the contexts that are handed in and the events that come out. Three
  situations are left out here and treated on their own: a request the protocol refuses, a read
  that fails after others have produced events, and a write that fails.
\<close>

definition clean_reads :: "(sys_answer \<times> u8 list) list \<Rightarrow> Http2Session \<Rightarrow> bool" where
  "clean_reads reads s \<longleftrightarrow>
     (\<exists>t. ss_transport s = Some t \<and>
       ((\<forall>(a, b)\<in>set reads. \<not> closing_answer t 8192 a) \<or> (\<exists>a b. reads = [(a, b)])))"

definition clean_writes :: "sys_answer list \<Rightarrow> Http2Session \<Rightarrow> bool" where
  "clean_writes writes s \<longleftrightarrow> (\<exists>t. ss_transport s = Some t \<and> (\<forall>a\<in>set writes. \<forall>n>0. \<not> closing_answer t n a))"

inductive session_step :: "Http2Session \<Rightarrow> ctx multiset \<times> SessionEvent list \<Rightarrow> Http2Session \<Rightarrow> bool" where
  session_submit: "permutes_entries order \<Longrightarrow> permutes_entries corder \<Longrightarrow> length (rq_body request) < 2 ^ 64 \<Longrightarrow>
     (Session_isHealthy s \<Longrightarrow> refusal request (ss_protocol s) = None) \<Longrightarrow>
     Session_submit order corder request c h s = Inr (es, h', s') \<Longrightarrow> session_step s ({#c#}, es) s'"
| session_cancel: "Session_cancelRequest context h s = (es, s') \<Longrightarrow> session_step s ({#}, es) s'"
| session_ping: "Session_sendPing s = (es, s') \<Longrightarrow> session_step s ({#}, es) s'"
| session_read: "clean_reads reads s \<Longrightarrow> Session_onReadable reads s = Inr (es, s') \<Longrightarrow> session_step s ({#}, es) s'"
| session_write: "clean_writes writes s \<Longrightarrow> Session_onWritable writes s = Inr (out, s') \<Longrightarrow> session_step s ({#}, []) s'"
| session_close: "Session_close s = (es, s') \<Longrightarrow> session_step s ({#}, es) s'"

lemma readable_ok:
  assumes "session_ok s" and "clean_reads reads s" and "Session_onReadable reads s = Inr (es, s')"
  shows "session_ok s' \<and> held s = done_by es + held s'"
proof (cases "Session_isHealthy s")
  case True
  obtain t where t: "ss_transport s = Some t"
    and clean: "(\<forall>(a, b)\<in>set reads. \<not> closing_answer t 8192 a) \<or> (\<exists>a b. reads = [(a, b)])"
    using assms(2) by (auto simp: clean_reads_def)
  show ?thesis
  proof (cases "\<forall>(a, b)\<in>set reads. \<not> closing_answer t 8192 a")
    case True
    then show ?thesis
      using read_loop_ok [OF assms(1) t True, of "[]"] assms(3) \<open>Session_isHealthy s\<close> by (simp add: Session_onReadable_def)
  next
    case False
    then obtain a b where "reads = [(a, b)]" "closing_answer t 8192 a" using clean by auto
    then have "(es, s') = handleTransportFailure s"
      using assms(3) \<open>Session_isHealthy s\<close> t by (auto simp: Session_onReadable_def closing_answer_def Let_def)
    then show ?thesis using failure_ok [OF assms(1), of es s'] by simp
  qed
qed (use assms in \<open>simp add: Session_onReadable_def\<close>)

lemma writable_ok:
  assumes "session_ok s" and "clean_writes writes s" and "Session_onWritable writes s = Inr (out, s')"
  shows "session_ok s' \<and> held s = held s' \<and> queued s = out @ queued s'"
proof (cases "Session_isHealthy s")
  case True
  obtain t where t: "ss_transport s = Some t" "\<forall>a\<in>set writes. \<forall>n>0. \<not> closing_answer t n a"
    using assms(2) by (auto simp: clean_writes_def)
  have "wrote writes s out s'"
    using write_loop_spec [OF t(1), of writes] assms(3) True by (auto simp: Session_onWritable_def)
  then show ?thesis using t assms(1) by (auto simp: wrote_def Let_def)
qed (use assms in \<open>simp add: Session_onWritable_def\<close>)

lemma session_step_ok:
  assumes "session_ok s" and "session_step s l s'"
  shows "session_ok s' \<and> fst l + held s = done_by (snd l) + held s'"
  using assms(2)
proof (cases rule: session_step.cases)
  case (session_submit order corder request c h es h')
  show ?thesis
  proof (cases "Session_isHealthy s")
    case True
    then show ?thesis
      using submit_ok [OF assms(1) True session_submit(2,3,4) session_submit(5) [OF True], of c h] session_submit(1,6) by auto
  next
    case False
    then show ?thesis using session_submit(1,6) assms(1) by (auto simp: Session_submit_def)
  qed
next
  case (session_cancel c h es)
  then show ?thesis using cancel_ok [OF assms(1)] by simp
next
  case (session_ping es)
  then show ?thesis using ping_ok [OF assms(1)] by simp
next
  case (session_read reads es)
  then show ?thesis using readable_ok [OF assms(1)] by simp
next
  case (session_write writes out)
  then show ?thesis using writable_ok [OF assms(1)] by simp
next
  case (session_close es)
  then show ?thesis using close_ok [OF assms(1)] by simp
qed

interpretation session: invariant_machine session_step session_ok
  by unfold_locales (use session_step_ok in blast)

definition handed_in :: "(ctx multiset \<times> SessionEvent list) list \<Rightarrow> ctx multiset" where
  "handed_in ls = sum_list (map fst ls)"

definition handed_back :: "(ctx multiset \<times> SessionEvent list) list \<Rightarrow> ctx multiset" where
  "handed_back ls = done_by (concat (map snd ls))"

lemma session_runs_held:
  assumes "runs session_step s0 ls s" and "session_ok s0"
  shows "handed_in ls + held s0 = handed_back ls + held s"
  using assms(1,2)
proof (rule session.runs_history)
  fix ls t l u
  assume t: "session_ok t" "handed_in ls + held s0 = handed_back ls + held t" "session_step t l u"
  then have "fst l + held t = done_by (snd l) + held u" using session_step_ok [OF t(1,3)] by simp
  then show "handed_in (ls @ [l]) + held s0 = handed_back (ls @ [l]) + held u"
    using t(2) by (simp add: handed_in_def handed_back_def ac_simps)
qed (simp add: handed_in_def handed_back_def)

end
