(* ===== verification/Protocol_Wire.thy ===== *)
theory Protocol_Wire
  imports Protocol_Machine
begin

text \<open>
  What a peer reads: the frames of an accepted request as the frame codec parses them from the
  bytes handed to the transport, and a fresh connection with a small request, on which the
  properties of the development are evaluated.
\<close>

section \<open>Frames on the wire\<close>

lemma sendable_opened:
  assumes "proto_ok p"
  shows "sendable (opened_stream request encoded p) (connectionOutFlow p) =
    min (length (rq_body request)) (nat (min (uint (initialWindowSize p)) (of_window (connectionOutFlow p))))"
proof -
  have "unat (initialWindowSize p) < 2 ^ 31" using assms by (simp add: proto_ok_def)
  then have "of_window (outflow (opened_stream request encoded p)) = uint (initialWindowSize p)"
    using window_new(3) by (simp add: opened_stream_def Let_def headers_sent_def new_stream_def setRequest_def)
  then show ?thesis by (simp add: sendable_def OutFlow_available_def min_def)
qed

definition wire_frames :: "ProtocolStepResult \<Rightarrow> RawFrame list \<times> u8 list" where
  "wire_frames r = decode_seq popped (concat (outbound r))"

lemma raw_frames_read: "list_all raw_ok fs \<Longrightarrow> decode_seq popped (concat (map raw_bytes fs)) = (fs, [])"
  by (rule frames.decode_seq_enc_all)

lemma header_frames_header:
  assumes "f \<in> set (header_frames sid m bs noBody)"
  shows "streamId (rf_header f) = sid \<and> length (rf_data f) \<le> m"
  using assms chunks_bounds [of _ m "drop m bs"]
  by (auto simp: header_frames_def continuation_frames_def plain_raw_def dest!: set_mark_last)

lemma request_frames:
  assumes "proto_ok p" and "permutes_entries order" and "length (rq_body request) < 2 ^ 64" and "refusal request p = None"
    and "hpack_encode (buildRequestHeaderFields request) (hpack p) = Inr (encoded, hp)"
  defines "n \<equiv> min (length (rq_body request)) (nat (min (uint (initialWindowSize p)) (of_window (connectionOutFlow p))))"
  defines "hs \<equiv> header_frames (nextStreamId p) (unat (maxFrameSize p)) encoded (rq_body request = [])"
  defines "ds \<equiv> data_frames (nextStreamId p) (unat (maxFrameSize p)) (bytes_of_string (take n (rq_body request)))
                 (n = length (rq_body request))"
  shows "\<exists>p' r. submitRequest order request p = Inr (p', r) \<and> submittedStreamId r = nextStreamId p \<and>
           wire_frames r = (hs @ ds, [])"
proof -
  have c: "canSubmitRequests p" "Request_isValid request" "length (streams p) < unat (maxConcurrentStreams p)"
      "\<not> 0x7fffffff - 1 < nextStreamId p"
    using assms(4) by (auto simp: refusal_def not_le split: if_splits)
  let ?q = "opened order request encoded hp p" and ?s = "opened_stream request encoded p"
  have body: "body_frames ?q ?s = map raw_bytes ds"
    using sendable_opened [OF assms(1), of request encoded]
    by (simp add: body_frames_def ds_def n_def opened_def Let_def)
  obtain p' where "submitRequest order request p = Inr (p', \<lparr>outbound = map raw_bytes hs @ map raw_bytes ds,
       events = [EV_STREAM_OPENED (nextStreamId p)], hasSubmittedStream = True, submittedStreamId = nextStreamId p\<rparr>)"
    using submitRequest_result [OF assms(1-3) c assms(5)] unfolding body hs_def by blast
  moreover have "list_all raw_ok (hs @ ds)"
    using data_frames_ok header_frames_ok assms(1) by (simp add: hs_def ds_def proto_ok_def)
  ultimately show ?thesis using raw_frames_read [of "hs @ ds"] by (auto simp: wire_frames_def)
qed

text \<open>The flush over the stream table, when it sends the rest of an answered request.\<close>

lemma flush_erases:
  assumes "proto_ok p" and "streams p = (sid, s) # es" and "remoteEndStreamReceived s"
    and "requestBodyOffset s < length (rq_body (rqst s))"
    and "sendable s (connectionOutFlow p) = length (rq_body (rqst s)) - requestBodyOffset s"
  shows "emit_each (map fst (streams p)) p r = Inl (UndefinedBehaviour ''increment of an erased iterator'')"
proof -
  have s: "find_stream sid p = Some s" using assms(2) by (simp add: find_stream_def)
  then have ok: "st_id s = sid" "stream_ok s" using proto_ok_find [OF assms(1)] by blast+
  then have "\<not> localEndStreamSent s" "body_ok s" "\<not> Stream_isClosed s"
    using assms(3) by (auto simp: stream_ok_def Stream_isClosed_def)
  moreover have "0 < unat (maxFrameSize p)" "OutFlow_wf (connectionOutFlow p)" using assms(1) by (auto simp: proto_ok_def)
  ultimately have "\<exists>p' r'. emitPendingRequestBody sid p r = Inr (p', r') \<and> find_stream sid p' = None"
    using s ok assms(3-5)
    by (simp add: emitPendingRequestBody_def emit_body_loop_frames Let_def find_erase)
  then show ?thesis using assms(2) by auto
qed

section \<open>A fresh connection\<close>

abbreviation (input) fresh :: Http2Protocol where
  "fresh \<equiv> fst (protocol_start (Http2Protocol_new ClientConfig_new))"

lemma config_default: "config_ok ClientConfig_new"
  by (simp add: config_ok_def ClientConfig_new_def)

lemma fresh_ok: "proto_ok fresh"
  using start_tracks [OF proto_ok_new [OF config_default]] by blast

lemma fresh_run: "runs protocol_step (Http2Protocol_new ClientConfig_new) [snd (protocol_start (Http2Protocol_new ClientConfig_new))] fresh"
  by (intro runs_single step_start) simp

definition get_request :: Request where
  "get_request = \<lparr>rq_headers = [('':method'', ''GET''), ('':path'', ''/''), ('':scheme'', ''http'')], rq_body = []\<rparr>"

lemma fresh_in_step: "in_step (hpack fresh) Hpack_new"
proof -
  have "hpack fresh = setDecodeTableLimit 4096 (setEncodeTableSize 4096 (setDecodeTableLimit 4096 Hpack_new))"
    by (simp add: protocol_start_def Http2Protocol_new_def Http2Protocol_default_def ClientConfig_new_def Let_def
        defaultHeaderTableSize_def Hpack_reset_def)
  moreover have "in_step (setEncodeTableSize 4096 Hpack_new) Hpack_new"
    by (rule in_step_setEncodeTableSize [OF in_step_new]) (simp_all add: Hpack_new_def INIT_MAX_TABLE_SIZE_def)
  ultimately show ?thesis
    by (simp add: in_step_def setDecodeTableLimit_def setEncodeTableSize_def)
qed

lemma fresh_hpack:
  "hpack fresh = \<lparr>decodeBuffer = span_of [], firstField = True, decodeTable = HpackTable_new, decodeTableLimit = 4096,
     encodeTable = HpackTable_new, encodeTableDirty = True, encodeMinSize = 4096\<rparr>"
  by (simp add: protocol_start_def Http2Protocol_new_def Http2Protocol_default_def ClientConfig_new_def Let_def
      defaultHeaderTableSize_def Hpack_reset_def setEncodeTableSize_def setDecodeTableLimit_def Hpack_new_def SIZE_MAX_def
      table_setMaxSize_def HpackTable_new_def evict_def evict_loop.simps INIT_MAX_TABLE_SIZE_def)

lemma static_finds:
  "table_find (HeaderField_new '':method'' ''GET'') HpackTable_new = (True, 2)"
  "table_find (HeaderField_new '':path'' ''/'') HpackTable_new = (True, 4)"
  "table_find (HeaderField_new '':scheme'' ''http'') HpackTable_new = (True, 6)"
  by (simp_all add: table_find_def STATIC_NAME_VALUE_TABLE_def STATIC_NAME_VALUES_def HeaderField_new_def)

lemma fresh_encodes:
  "\<exists>hp. hpack_encode (buildRequestHeaderFields get_request) (hpack fresh) = Inr ([0x3f, 0xe1, 0x1f, 0x82, 0x84, 0x86], hp)"
proof -
  have size: "maxSize HpackTable_new = 4096" by (simp add: HpackTable_new_def INIT_MAX_TABLE_SIZE_def)
  have plain: "\<not> sensitivity (HeaderField_new k v)" for k v by (simp add: HeaderField_new_def)
  have vint: "vint_tail 4065 = [0xe1, 0x1f]" by (simp add: vint_tail.simps)
  show ?thesis
  by (simp add: fresh_hpack size vint plain get_request_def buildRequestHeaderFields_def hpack_encode_def encode_updates_def
    encodeTableSizeUpdate_def encodeVInt_def maxPrefix_def buf_or_at_def encode_header_def static_finds encodeIndexedHeader_def Let_def)
qed

lemma id_permutes: "permutes_entries (\<lambda>es. es)"
  by (simp add: permutes_entries_def)

lemma fresh_accepts: "refusal get_request fresh = None"
  by (simp add: refusal_def get_request_def canSubmitRequests_def Request_isValid_def Request_find_def protocol_start_def
      Http2Protocol_new_def Http2Protocol_default_def ClientConfig_new_def Let_def)

section \<open>A connection with a response under way\<close>

definition post_request :: Request where
  "post_request = \<lparr>rq_headers = [('':method'', ''POST''), ('':path'', ''/''), ('':scheme'', ''http'')], rq_body = ''hello''\<rparr>"

text \<open>
  A connection with one stream: its request has a body, the response headers have arrived.
\<close>

definition posted :: Http2Protocol where
  "posted = opened (\<lambda>es. es) post_request [] Hpack_new fresh"

definition replied_stream :: Stream where
  "replied_stream = (opened_stream post_request [] fresh)\<lparr>finalResponseHeadersReceived := True,
     resp := Response_new\<lparr>rs_headers := [HeaderField_new '':status'' ''200'']\<rparr>\<rparr>"

definition replied :: Http2Protocol where
  "replied = put_stream 1 replied_stream posted"

lemma fresh_fields [simp]:
  "nextStreamId fresh = 1" "streams fresh = []" "initialWindowSize fresh = 65535" "maxFrameSize fresh = 16384"
  "connectionOutFlow fresh = \<lparr>of_window = 65535\<rparr>" "connectionInflow fresh = \<lparr>avail = 65535, unsnt = 0\<rparr>"
  "closed fresh = False" "transportClosed fresh = False" "sentGoaway fresh = False" "expectingContinuation fresh = False"
  "gotPeerSettings fresh = False"
  by (simp_all add: protocol_start_def Http2Protocol_new_def Http2Protocol_default_def ClientConfig_new_def Let_def
     Http2Protocol_reset_def OutFlow_add_def OutFlow_zero_def InFlow_init_def InFlow_zero_def i32_bounds setting_defaults)

lemma posted_ok: "proto_ok posted" "find_stream 1 posted = Some (opened_stream post_request [] fresh)"
proof -
  have "length (rq_body post_request) < 2 ^ 64" by (simp add: post_request_def)
  then have o: "find_stream k posted = (if k = 1 then Some (opened_stream post_request [] fresh) else find_stream k fresh)"
      "proto_ok posted" for k
    using opened_ok(1,3) [OF fresh_ok id_permutes _ decoder_ok_new, where request = post_request and encoded = "[]"] by (simp_all add: posted_def)
  then show "proto_ok posted" "find_stream 1 posted = Some (opened_stream post_request [] fresh)" by simp_all
qed

lemma posted_stream_body: "rs_body (resp (opened_stream post_request [] fresh)) = []"
  by (simp add: opened_stream_def headers_sent_def new_stream_def setRequest_def Stream_new_def Let_def Response_new_def)

lemma posted_stream_ok: "stream_ok (opened_stream post_request [] fresh)"
  using proto_ok_find [OF posted_ok] by blast

lemma replied_stream_fields [simp]:
  "st_id replied_stream = 1" "rqst replied_stream = post_request" "\<not> remoteEndStreamReceived replied_stream"
  "finalResponseHeadersReceived replied_stream" "requestBodyOffset replied_stream = 0"
  "expectedContentLength replied_stream = -1" "inflow replied_stream = \<lparr>avail = 65535, unsnt = 0\<rparr>"
  "rs_body (resp replied_stream) = []" "outflow replied_stream = \<lparr>of_window = 65535\<rparr>"
  "\<not> isHeadRequest replied_stream" "\<not> localEndStreamSent replied_stream"
  by (simp_all add: replied_stream_def opened_stream_def headers_sent_def new_stream_def setRequest_def Stream_new_def
      Let_def Response_new_def InFlow_init_def InFlow_zero_def OutFlow_add_def OutFlow_zero_def i32_bounds
      Request_find_def hasBody_def post_request_def)

lemma replied_status: "getStatusCode (resp replied_stream) = Inr 200"
proof -
  have "tryParseStatusCode ''200'' = Some 200" by (simp add: tryParseStatusCode_iff is_digit_def digits_value_def digit_value_def)
  then show ?thesis using status_code_stoi by (simp add: replied_stream_def getStatusCode_def first_value_def HeaderField_new_def)
qed

lemma replied_stream_ok: "stream_ok replied_stream"
  using posted_stream_ok posted_stream_body replied_status
  by (auto simp: stream_ok_def replied_stream_def body_ok_def Response_new_def)

lemma replied_ok: "proto_ok replied" "find_stream 1 replied = Some replied_stream"
  using evolves_put [OF posted_ok, of replied_stream] replied_stream_ok posted_ok
  by (auto simp: replied_def evolves_def find_put replied_stream_def)

text \<open>
  The same stream after its response has ended, with its send window used up, and a SETTINGS
  frame that raises the initial window size by ten.
\<close>

definition starved_stream :: Stream where
  "starved_stream = replied_stream\<lparr>remoteEndStreamReceived := True, responseComplete := True,
     st_state := SS_HALF_CLOSED_REMOTE, outflow := \<lparr>of_window = 0\<rparr>\<rparr>"

definition starved :: Http2Protocol where
  "starved = posted\<lparr>streams := [(1, starved_stream)]\<rparr>"

definition wider :: RawFrame where
  "wider = \<lparr>rf_header = (FrameHeader_new FT_SETTINGS 0)\<lparr>payloadLength := 6\<rparr>, rf_data = setting_bytes (4, 65545)\<rparr>"

lemma starved_stream_ok: "stream_ok starved_stream"
  using replied_stream_ok
  by (auto simp: stream_ok_def starved_stream_def body_ok_def OutFlow_wf_def i32_bounds replied_stream_def post_request_def)

lemma wider_reads: "SettingFrame_of_raw wider = Inr \<lparr>sf_header = rf_header wider, sf_settings = [(4, 65545)]\<rparr>"
proof -
  let ?f = "\<lparr>sf_header = rf_header wider, sf_settings = [(4, 65545)]\<rparr> :: SettingFrame"
  have f: "fits (sf_header ?f) (concat (map setting_bytes (sf_settings ?f)))"
    by (simp add: fits_def raw_ok_def wider_def FrameHeader_new_def setting_bytes_def)
  then obtain fr where "popped (SettingFrame_toBytes ?f @ []) = Some (fr, [])" "SettingFrame_of_raw fr = Inr ?f"
    using SettingFrame_read_back [of ?f "[]"] by blast
  moreover have "popped (SettingFrame_toBytes ?f @ []) = Some (wider, [])"
    using popped_fits [OF f, of "[]"] by (simp add: SettingFrame_toBytes_def wider_def)
  ultimately show ?thesis by simp
qed

lemma starved_settings:
  "applyPeerSettings [(4, 65545)] (starved\<lparr>gotPeerSettings := True\<rparr>) =
   Inr (EC_NO_ERROR, starved\<lparr>gotPeerSettings := True, initialWindowSize := 65545,
          streams := [(1, starved_stream\<lparr>outflow := \<lparr>of_window = 10\<rparr>\<rparr>)]\<rparr>)"
  by (simp add: starved_def posted_def opened_def put_stream_def applyPeerSetting_def sp_of_def setting_defaults i32_bounds OutFlow_add_def Let_def
      starved_stream_def)

lemma starved_ok: "proto_ok starved"
proof -
  have q: "proto_ok (p\<lparr>streams := [(1, starved_stream)]\<rparr>)" if "proto_ok p" "1 < nextStreamId p" "\<not> expectingContinuation p" for p
    using that starved_stream_ok by (auto simp: proto_ok_def keys_def find_stream_def starved_stream_def)
  show ?thesis unfolding starved_def
    by (rule q [OF posted_ok(1)]) (simp_all add: posted_def opened_def put_stream_def)
qed

end
