(* ===== verification/Client.thy ===== *)
theory Client
  imports Endpoint Request_Context
begin

text \<open>
  src/client.cpp: the checks on a client request, the request that goes on the wire, and the
  convenience methods. \<open>Operation\<close> holds a weak pointer to its context: \<open>None\<close> once it has
  expired.
\<close>

record ClientRequest =
  cq_endpoint :: Endpoint
  cq_method :: string
  cq_target :: string
  cq_headers :: "HeaderField list"
  cq_body :: string
  cq_timeoutMs :: int
  cq_autoContentLength :: bool

definition ClientRequest_new :: ClientRequest where
  "ClientRequest_new =
     \<lparr>cq_endpoint = Endpoint_new, cq_method = ''GET'', cq_target = ''/'', cq_headers = [], cq_body = [],
      cq_timeoutMs = -1, cq_autoContentLength = True\<rparr>"

text \<open>\<open>None\<close>: the request is accepted; otherwise the error response.\<close>

definition validateRequest :: "ClientRequest \<Rightarrow> Response option" where
  "validateRequest request =
     (let ep = cq_endpoint request in
      if ep_host ep = [] \<and> ep_ip ep = [] \<and> ep_sockFile ep = []
      then Some (customError ''Request endpoint is empty'')
      else if cq_method request = [] then Some (customError ''Request method is empty'')
      else if cq_target request = [] then Some (customError ''Request target is empty'')
      else if hd (cq_target request) \<noteq> CHR ''/''
      then Some (customError ([CHR ''R''] @ ''equest target must start with '' @ [CHR 0x27, CHR ''/'', CHR 0x27]))
      else None)"

abbreviation put_header :: "string \<Rightarrow> string \<Rightarrow> Request \<Rightarrow> Request" where
  "put_header k v r \<equiv> snd (setHeader k v r)"

definition authority_of :: "Endpoint \<Rightarrow> string" where
  "authority_of ep =
     (let authority = (if ep_host ep = [] then ep_ip ep else ep_host ep);
          defaultPort = (if ep_useSSL ep then 443 else 80)
      in if ep_port ep \<noteq> 0 \<and> ep_port ep \<noteq> defaultPort then authority @ '':'' @ to_string (unat (ep_port ep))
         else authority)"

definition buildWireRequest :: "string \<Rightarrow> ClientRequest \<Rightarrow> Request" where
  "buildWireRequest userAgent request =
     (let ep = cq_endpoint request;
          wire = put_header '':method'' (cq_method request) Request_new;
          wire = put_header '':scheme'' (if ep_useSSL ep then ''https'' else ''http'') wire;
          wire = put_header '':authority'' (authority_of ep) wire;
          wire = put_header '':path'' (cq_target request) wire;
          wire = put_header ''user-agent'' userAgent wire;
          wire = put_header ''accept'' ''*/*'' wire;
          wire = fold (\<lambda>h. put_header (hname h) (hvalue h)) (cq_headers request) wire;
          wire = wire\<lparr>rq_body := cq_body request\<rparr>
      in if cq_body request \<noteq> [] \<and> cq_autoContentLength request \<and> Request_find wire ''content-length'' = None
         then put_header ''content-length'' (to_string (length (cq_body request))) wire
         else wire)"

text \<open>Either the calls of the completion callback, or what is given to the connection manager.\<close>

definition Client_Send :: "string \<Rightarrow> ClientRequest \<Rightarrow> bool \<Rightarrow> Response list + Request \<times> Endpoint \<times> int" where
  "Client_Send userAgent request callback =
     (case validateRequest request of
        Some invalidResponse \<Rightarrow> Inl (if callback then [invalidResponse] else [])
      | None \<Rightarrow>
          let ep = cq_endpoint request;
              ep = (if ep_port ep = 0 then ep\<lparr>ep_port := (if ep_useSSL ep then 443 else 80)\<rparr> else ep)
          in Inr (buildWireRequest userAgent request, ep, cq_timeoutMs request))"

definition Client_Get :: "Endpoint \<Rightarrow> string \<Rightarrow> HeaderField list \<Rightarrow> int \<times> bool \<Rightarrow> ClientRequest" where
  "Client_Get ep path headers options =
     ClientRequest_new\<lparr>cq_endpoint := ep, cq_method := ''GET'', cq_target := path, cq_headers := headers,
                       cq_timeoutMs := fst options, cq_autoContentLength := snd options\<rparr>"

definition Client_Post :: "Endpoint \<Rightarrow> string \<Rightarrow> string \<Rightarrow> HeaderField list \<Rightarrow> int \<times> bool \<Rightarrow> ClientRequest" where
  "Client_Post ep path body headers options =
     ClientRequest_new\<lparr>cq_endpoint := ep, cq_method := ''POST'', cq_target := path, cq_headers := headers,
                       cq_body := body, cq_timeoutMs := fst options, cq_autoContentLength := snd options\<rparr>"

section \<open>Operations\<close>

definition Operation_cancel :: "RequestContext option \<Rightarrow> bool" where
  "Operation_cancel context = (case context of None \<Rightarrow> False | Some c \<Rightarrow> fst (RequestContext_cancel c))"

definition Operation_isCanceled :: "RequestContext option \<Rightarrow> bool" where
  "Operation_isCanceled context = (case context of None \<Rightarrow> False | Some c \<Rightarrow> canceled_flag c)"

definition Operation_isValid :: "RequestContext option \<Rightarrow> bool" where
  "Operation_isValid context = (case context of None \<Rightarrow> False | Some c \<Rightarrow> \<not> finished_flag c)"

section \<open>The headers of the wire request\<close>

text \<open>
  The value that a name ends up with when the headers are set in order: the last one. The
  defaults are listed with the one set last first.
\<close>

definition last_value :: "string \<Rightarrow> HeaderField list \<Rightarrow> string option" where
  "last_value k hs = map_of (rev (map (\<lambda>h. (hname h, hvalue h)) hs)) k"

definition default_headers :: "string \<Rightarrow> ClientRequest \<Rightarrow> (string \<times> string) list" where
  "default_headers userAgent request =
     [(''accept'', ''*/*''), (''user-agent'', userAgent), ('':path'', cq_target request),
      ('':authority'', authority_of (cq_endpoint request)),
      ('':scheme'', if ep_useSSL (cq_endpoint request) then ''https'' else ''http''), ('':method'', cq_method request)]"

lemma find_put_header: "Request_find (put_header k v r) k' = (if k' = k then Some v else Request_find r k')"
  by (simp add: Request_find_def setHeader_def map_of_map_set)

lemma body_put_header [simp]: "rq_body (put_header k v r) = rq_body r"
  by (simp add: setHeader_def)

lemma find_put_headers:
  "Request_find (fold (\<lambda>h. put_header (hname h) (hvalue h)) hs r) k =
     (case last_value k hs of None \<Rightarrow> Request_find r k | Some v \<Rightarrow> Some v)"
proof (induction hs arbitrary: r)
  case (Cons h hs)
  then show ?case by (simp add: last_value_def find_put_header map_add_def split: option.splits)
qed (simp add: last_value_def)

lemma put_headers_wf: "Request_wf r \<Longrightarrow> Request_wf (fold (\<lambda>h. put_header (hname h) (hvalue h)) hs r)"
  by (induction hs arbitrary: r) (simp_all add: setHeader_wf)

lemma find_body [simp]: "Request_find (r\<lparr>rq_body := b\<rparr>) k = Request_find r k"
  by (simp add: Request_find_def)

lemma put_default_headers:
  "Request_find (fold (\<lambda>(k, v). put_header k v) (rev kvs) Request_new) k = map_of kvs k"
proof (induction kvs)
  case (Cons kv kvs)
  then show ?case by (cases kv) (simp add: find_put_header)
qed (simp add: Request_find_def Request_new_def)

lemma wire_steps:
  "buildWireRequest userAgent request =
     (let wire = (fold (\<lambda>h. put_header (hname h) (hvalue h)) (cq_headers request)
            (fold (\<lambda>(k, v). put_header k v) (rev (default_headers userAgent request)) Request_new))\<lparr>rq_body := cq_body request\<rparr>
      in if cq_body request \<noteq> [] \<and> cq_autoContentLength request \<and> Request_find wire ''content-length'' = None
         then put_header ''content-length'' (to_string (length (cq_body request))) wire else wire)"
  by (simp add: buildWireRequest_def default_headers_def Let_def)

lemma wire_find:
  "Request_find (buildWireRequest userAgent request) k =
     (case last_value k (cq_headers request) of
        Some v \<Rightarrow> Some v
      | None \<Rightarrow> (case map_of (default_headers userAgent request) k of
          Some v \<Rightarrow> Some v
        | None \<Rightarrow> if k = ''content-length'' \<and> cq_body request \<noteq> [] \<and> cq_autoContentLength request
                  then Some (to_string (length (cq_body request))) else None))"
  by (auto simp: wire_steps Let_def find_put_header find_put_headers put_default_headers split: option.splits)

lemma wire_wf: "Request_wf (buildWireRequest userAgent request)" "rq_body (buildWireRequest userAgent request) = cq_body request"
proof -
  have "Request_wf (fold (\<lambda>(k, v). put_header k v) kvs Request_new)" for kvs
    by (induction kvs rule: rev_induct) (auto simp: setHeader_wf, simp add: Request_wf_def Request_new_def)
  moreover have "Request_wf r \<Longrightarrow> Request_wf (r\<lparr>rq_body := b\<rparr>)" for r b by (simp add: Request_wf_def)
  ultimately show "Request_wf (buildWireRequest userAgent request)"
    by (simp add: wire_steps Let_def setHeader_wf put_headers_wf)
  show "rq_body (buildWireRequest userAgent request) = cq_body request"
    by (simp add: wire_steps Let_def)
qed

lemma valid_find: "Request_isValid r \<longleftrightarrow>
    (case Request_find r '':method'' of None \<Rightarrow> False
     | Some m \<Rightarrow> if m = ''CONNECT''
         then Request_find r '':authority'' \<noteq> None \<and> Request_find r '':scheme'' = None \<and> Request_find r '':path'' = None
         else Request_find r '':scheme'' \<noteq> None \<and> Request_find r '':path'' \<noteq> None)"
  by (auto simp: Request_isValid_def Request_find_def split: option.splits)

text \<open>The library always sends \<open>:scheme\<close> and \<open>:path\<close>, so a request is valid unless its method is CONNECT.\<close>

lemma wire_valid_iff:
  "Request_isValid (buildWireRequest userAgent request) \<longleftrightarrow>
     Request_find (buildWireRequest userAgent request) '':method'' \<noteq> Some ''CONNECT''"
  unfolding valid_find by (auto simp: wire_find default_headers_def split: option.splits)

end
