(* ===== verification/Session_Example.thy ===== *)
theory Session_Example
  imports Session_Inv Protocol_Wire Client
begin

text \<open>
  A session with one request under way, on which the properties of the session are evaluated:
  the peer's first frame is not SETTINGS, and the next read finds the connection closed.
\<close>

definition tcp_open :: IStreamTransport where
  "tcp_open = Tcp_Transport \<lparr>tcp_socket = \<lparr>rawFd = 3\<rparr>, tcp_ready = True\<rparr>"

definition busy :: Http2Session where
  "busy = (Http2Session_new Endpoint_new ClientConfig_new)
     \<lparr>ss_protocol := replied, ss_transport := Some tcp_open, ss_started := True, ss_healthy := True,
      ss_outbound := [\<lparr>ch_data = [1, 2, 3], ch_offset = 0\<rparr>], streamContexts := [(1, 7)]\<rparr>"

definition answer :: "int \<Rightarrow> sys_answer" where
  "answer ret = \<lparr>sa_ret = ret, sa_errno = E_OTHER 0, sa_ssl = SSL_ERROR_OTHER 0\<rparr>"

lemma tcp_answers [simp]:
  "0 < n \<Longrightarrow> 0 < len \<Longrightarrow> transport_io (answer n) len tcp_open = io IO_OK (nat n)"
  "0 < len \<Longrightarrow> transport_io (answer 0) len tcp_open = io IO_CLOSED 0"
  by (simp_all add: transport_io_def tcp_open_def answer_def Tcp_io_def SocketFd_io_def SocketFd_valid_def INVALID_SOCKET_def)

lemma io_simps [simp]: "io_state (io st n) = st" "io_bytes (io st n) = n"
  by (simp_all add: io_def)

lemma replied_streams: "streams replied = [(1, replied_stream)]"
  by (simp add: replied_def posted_def opened_def put_stream_def)

lemma replied_pending: "pending replied = {1}"
  using replied_stream_ok by (auto simp: pending_def find_stream_def replied_streams stream_ok_def)

lemma replied_fields [simp]: "\<not> closed replied" "\<not> transportClosed replied" "\<not> gotPeerSettings replied" "frameCodec replied = []"
  by (simp_all add: replied_def posted_def opened_def put_stream_def protocol_start_def Http2Protocol_new_def Http2Protocol_default_def Let_def FrameCodec_clear_def)

lemma busy_ok: "session_ok busy" "Session_isHealthy busy" "ss_transport busy = Some tcp_open" "held busy = {#7#}"
  "ss_protocol busy = replied" "streamContexts busy = [(1, 7)]" "queued busy = [1, 2, 3]"
  using replied_ok(1) replied_pending
  by (simp_all add: busy_def session_ok_def Session_isHealthy_def held_def queued_def)

definition early_ping :: "u8 list" where
  "early_ping = raw_bytes (plain_raw FT_PING 0 0 (replicate 8 0))"

lemma early_ping_fails:
  "\<exists>p r. receiveBytes early_ping replied = Inr (p, r) \<and>
     events r = snd (goaway_part EC_PROTOCOL_ERROR ''first peer frame must be SETTINGS'' replied) @
       [EV_STREAM_CLOSED 1 EC_PROTOCOL_ERROR, EV_RESPONSE_FAILED 1 EC_PROTOCOL_ERROR,
        EV_CONNECTION_ERROR EC_PROTOCOL_ERROR, EV_CONNECTION_CLOSED EC_PROTOCOL_ERROR]"
proof -
  let ?fr = "plain_raw FT_PING 0 0 (replicate 8 0)" and ?debug = "''first peer frame must be SETTINGS''"
  have "raw_ok ?fr" by (rule plain_raw_ok) simp_all
  then have pop: "tryPop early_ping = Inr (Some (?fr, []))"
    using popped_raw_bytes [of ?fr "[]"] by (simp add: tryPop_popped early_ping_def)
  have "distinct (keys replied)" "keys replied = [1]" by (simp_all add: keys_def replied_streams)
  then obtain p r where f: "failConnection EC_PROTOCOL_ERROR ?debug replied = (p, r)" "closed p"
    "events r = snd (goaway_part EC_PROTOCOL_ERROR ?debug replied) @
       [EV_STREAM_CLOSED 1 EC_PROTOCOL_ERROR, EV_RESPONSE_FAILED 1 EC_PROTOCOL_ERROR,
        EV_CONNECTION_ERROR EC_PROTOCOL_ERROR, EV_CONNECTION_CLOSED EC_PROTOCOL_ERROR]"
    using failConnection_spec [of replied EC_PROTOCOL_ERROR ?debug] by (auto simp: fail_events_def shut_def)
  have "receiveFrame ?fr replied = Inr (p, r)" using f(1) by (simp add: receiveFrame_def plain_raw_def)
  then have "receive_loop early_ping replied no_result = Inr ([], p, mergeStepResult no_result r)"
    using f(2) by (subst receive_loop.simps) (simp add: pop)
  then show ?thesis using f(3) by (auto simp: receiveBytes_def FrameCodec_feed_def)
qed

lemma length_early_ping: "length early_ping = 17"
  by (simp add: early_ping_def raw_bytes_def plain_raw_def)

lemma early_ping_read:
  "\<exists>s. read_loop [(answer 17, early_ping)] busy [] =
     Inr ([REQUEST_DONE 7 (protocolError EC_PROTOCOL_ERROR ''errorCode=1''), SESSION_DEAD, SESSION_DEAD], s) \<and> \<not> ss_healthy s"
proof -
  obtain p r where r: "receiveBytes early_ping replied = Inr (p, r)"
    "events r = snd (goaway_part EC_PROTOCOL_ERROR ''first peer frame must be SETTINGS'' replied) @
       [EV_STREAM_CLOSED 1 EC_PROTOCOL_ERROR, EV_RESPONSE_FAILED 1 EC_PROTOCOL_ERROR,
        EV_CONNECTION_ERROR EC_PROTOCOL_ERROR, EV_CONNECTION_CLOSED EC_PROTOCOL_ERROR]"
    using early_ping_fails by blast
  let ?s = "fold enqueueOutbound (outbound r) (busy\<lparr>ss_protocol := p\<rparr>)"
  have code: "to_string 1 = ''1''" by code_simp
  have "streamContexts ?s = [(1, 7)]" by (simp add: busy_ok)
  then have "\<exists>s. translateEvents (events r) ?s =
      ([REQUEST_DONE 7 (protocolError EC_PROTOCOL_ERROR ''errorCode=1''), SESSION_DEAD, SESSION_DEAD], s) \<and> \<not> ss_healthy s"
    using code
    by (auto simp: r(2) goaway_part_def translateEvent_def answer_context_def context_at_def erase_context_def Session_failAllStreams_def Let_def)
  then show ?thesis using r(1) length_early_ping by (auto simp: busy_ok)
qed

definition sslAnswers_ok :: ssl_answers where
  "sslAnswers_ok =
     \<lparr>ssl_nonBlocking = True, ssl_ctx_new = True, ssl_load_verify = True, ssl_default_paths = True, ssl_min_version = True,
      ssl_set_alpn = True, ssl_new = True, ssl_bio = True, ssl_host_name = True, ssl_set_host = True, ssl_handshake = [],
      ssl_verified = True, ssl_alpn = ''h2''\<rparr>"

lemma example_starts:
  "\<exists>s. Session_start (\<lambda>_. Inr \<lparr>rawFd = 3\<rparr>) sslAnswers_ok (Http2Session_new (Endpoint_new\<lparr>ep_host := ''h''\<rparr>) ClientConfig_new) = (True, s)"
  by (auto simp: Session_start_def Http2Session_new_def StreamTransportFactory_create_def connect_of_def Endpoint_new_def transport_init_def
      Tcp_init_def TcpStreamTransport_new_def SocketFd_valid_def SocketFd_guard_def INVALID_SOCKET_def sslAnswers_ok_def consumeStepResult_def
      Let_def split: prod.splits)

end
