(* ===== verification/Task_Queue.thy ===== *)
theory Task_Queue
  imports Machine
begin

text \<open>
  What the callback dispatcher and the reactor promise of their task queues: a task that is
  accepted goes to the end, and the worker thread takes tasks from the front. Over every
  interleaving of posts and takes, the accepted tasks are those taken followed by those that wait.
\<close>

datatype 'task queue_event = Accepted 'task | Refused 'task | Taken 'task

inductive queue_step ::
    "('task \<Rightarrow> 's \<Rightarrow> bool \<times> 's) \<Rightarrow> ('s \<Rightarrow> ('task \<times> 's) option) \<Rightarrow> 's \<Rightarrow> 'task queue_event \<Rightarrow> 's \<Rightarrow> bool"
  for post take_task where
  queue_accept: "post t s = (True, s') \<Longrightarrow> queue_step post take_task s (Accepted t) s'"
| queue_refuse: "post t s = (False, s') \<Longrightarrow> queue_step post take_task s (Refused t) s'"
| queue_take: "take_task s = Some (t, s') \<Longrightarrow> queue_step post take_task s (Taken t) s'"

inductive_cases queue_stepE: "queue_step post take_task s l s'"

fun accepted_by :: "'task queue_event \<Rightarrow> 'task list" where
  "accepted_by (Accepted t) = [t]"
| "accepted_by _ = []"

fun taken_by :: "'task queue_event \<Rightarrow> 'task list" where
  "taken_by (Taken t) = [t]"
| "taken_by _ = []"

abbreviation accepted :: "'task queue_event list \<Rightarrow> 'task list" where
  "accepted ls \<equiv> concat (map accepted_by ls)"

abbreviation taken :: "'task queue_event list \<Rightarrow> 'task list" where
  "taken ls \<equiv> concat (map taken_by ls)"

locale task_queue =
  fixes waiting_tasks :: "'s \<Rightarrow> 'task list"
    and accepting :: "'s \<Rightarrow> bool"
    and post :: "'task \<Rightarrow> 's \<Rightarrow> bool \<times> 's"
    and take_task :: "'s \<Rightarrow> ('task \<times> 's) option"
  assumes post_result: "post t s = (b, s') \<Longrightarrow>
      b = accepting s \<and> accepting s' = accepting s \<and> waiting_tasks s' = waiting_tasks s @ (if b then [t] else [])"
    and take_result: "take_task s = Some (t, s') \<Longrightarrow> accepting s' = accepting s \<and> waiting_tasks s = t # waiting_tasks s'"
    and take_none: "take_task s = None \<Longrightarrow> waiting_tasks s = []"
begin

lemma step_waiting:
  assumes "queue_step post take_task s l s'"
  shows "waiting_tasks s @ accepted_by l = taken_by l @ waiting_tasks s'" and "accepting s' = accepting s"
  using assms by (auto elim!: queue_stepE dest!: post_result take_result)

lemma runs_in_order: "runs (queue_step post take_task) s ls s' \<Longrightarrow> waiting_tasks s @ accepted ls = taken ls @ waiting_tasks s'"
proof (induction rule: runs.induct)
  case (runs_snoc ls t l u)
  have "waiting_tasks s @ accepted (ls @ [l]) = taken ls @ waiting_tasks t @ accepted_by l" using runs_snoc.IH by simp
  then show ?case using step_waiting(1) [OF runs_snoc.hyps(2)] by simp
qed simp

text \<open>The worker can always empty the queue, and then nothing that was accepted is left.\<close>

lemma drains: "\<exists>ls s'. runs (queue_step post take_task) s ls s' \<and> accepted ls = [] \<and> taken ls = waiting_tasks s \<and> waiting_tasks s' = []"
proof (induction "waiting_tasks s" arbitrary: s)
  case Nil
  then show ?case using runs_Nil by fastforce
next
  case (Cons t ts)
  then obtain u s1 where u: "take_task s = Some (u, s1)" using take_none [of s] by (cases "take_task s") auto
  then have "t = u" "ts = waiting_tasks s1" using take_result [OF u] Cons.hyps(2) by auto
  then obtain ls s' where "runs (queue_step post take_task) s1 ls s'" "accepted ls = []" "taken ls = waiting_tasks s1" "waiting_tasks s' = []"
    using Cons.hyps(1) by blast
  moreover have "runs (queue_step post take_task) s [Taken u] s1" using u by (intro runs_single queue_take)
  ultimately show ?case
    using runs_append [of _ s1 ls s' s "[Taken u]"] \<open>t = u\<close> \<open>ts = waiting_tasks s1\<close> Cons.hyps(2) by fastforce
qed

end

end
