(* ===== verification/Reactor.thy ===== *)
theory Reactor
  imports Task_Queue Transport
begin

text \<open>
  src/reactor.cpp on Linux: the event loop with its descriptors, timers and posted tasks. A
  handler is data of the type \<open>'h\<close>; \<open>None\<close> is an empty \<open>std::function\<close>. Each critical section
  of the mutex is one definition. The system is a parameter: what its calls return, and the clock in
  nanoseconds (\<open>now\<close>). \<open>rx_worker\<close> says that the thread is in its loop, \<open>rx_armed\<close> is what
  the timer descriptor was last set to.
\<close>

record 'h TimerItem =
  due :: int
  ti_id :: u64
  ti_handler :: 'h

record 'h FdContext =
  fd_read :: 'h
  fd_write :: "'h option"
  fd_writeEnabled :: bool

record 'h Reactor =
  rx_fds :: "socket_t \<rightharpoonup> 'h FdContext"
  epollFd :: int
  wakeupFd :: int
  timerFd :: int
  rx_running :: bool
  rx_worker :: bool
  rx_tasks :: "'h list"
  rx_timers :: "'h TimerItem list"
  canceledTimers :: "u64 \<rightharpoonup> bool"
  nextTimerId :: u64
  rx_armed :: "int option"

definition Reactor_new :: "'h Reactor" where
  "Reactor_new =
     \<lparr>rx_fds = Map.empty, epollFd = -1, wakeupFd = -1, timerFd = -1, rx_running = False, rx_worker = False, rx_tasks = [],
      rx_timers = [], canceledTimers = Map.empty, nextTimerId = 1, rx_armed = None\<rparr>"

section \<open>Starting and stopping\<close>

text \<open>The descriptors closed, and the reactor without them.\<close>

definition teardownPlatformPrimitives :: "'h Reactor \<Rightarrow> int list \<times> 'h Reactor" where
  "teardownPlatformPrimitives rx =
     (filter (\<lambda>fd. 0 \<le> fd) [timerFd rx, wakeupFd rx, epollFd rx],
      rx\<lparr>timerFd := (if 0 \<le> timerFd rx then -1 else timerFd rx), wakeupFd := (if 0 \<le> wakeupFd rx then -1 else wakeupFd rx),
         epollFd := (if 0 \<le> epollFd rx then -1 else epollFd rx), rx_fds := Map.empty,
         rx_armed := (if 0 \<le> timerFd rx then None else rx_armed rx)\<rparr>)"

text \<open>The results of \<open>epoll_create1\<close>, \<open>eventfd\<close>, \<open>timerfd_create\<close> and of the two \<open>epoll_ctl\<close> calls.\<close>

record platform_answers =
  pa_epoll :: int
  pa_eventfd :: int
  pa_timerfd :: int
  pa_watchWakeup :: bool
  pa_watchTimer :: bool

definition setupPlatformPrimitives :: "platform_answers \<Rightarrow> 'h Reactor \<Rightarrow> bool \<times> int list \<times> 'h Reactor" where
  "setupPlatformPrimitives a rx =
     (let rx = rx\<lparr>epollFd := pa_epoll a\<rparr> in
      if epollFd rx < 0 then (False, [], rx)
      else let rx = rx\<lparr>wakeupFd := pa_eventfd a\<rparr> in
        if wakeupFd rx < 0 then (False, teardownPlatformPrimitives rx)
        else let rx = rx\<lparr>timerFd := pa_timerfd a\<rparr> in
          if timerFd rx < 0 then (False, teardownPlatformPrimitives rx)
          else if \<not> pa_watchWakeup a then (False, teardownPlatformPrimitives rx)
          else if \<not> pa_watchTimer a then (False, teardownPlatformPrimitives rx)
          else (True, [], rx))"

definition Reactor_start :: "platform_answers \<Rightarrow> 'h Reactor \<Rightarrow> bool \<times> 'h Reactor" where
  "Reactor_start a rx =
     (if rx_running rx then (True, rx)
      else case setupPlatformPrimitives a rx of (ok, _, rx) \<Rightarrow>
        if \<not> ok then (False, rx) else (True, rx\<lparr>rx_running := True, rx_worker := True\<rparr>))"

text \<open>
  \<open>stop\<close> before and after it waits for the thread. \<open>own\<close>: the caller is that thread, where
  \<open>std::thread::join\<close> throws.
\<close>

definition Reactor_stop_request :: "bool \<Rightarrow> 'h Reactor \<Rightarrow> 'h Reactor cpp" where
  "Reactor_stop_request own rx =
     (if own then Inl (RuntimeError ''Resource deadlock avoided'') else Inr (rx\<lparr>rx_running := False\<rparr>))"

definition Reactor_stop_finish :: "'h Reactor \<Rightarrow> 'h Reactor" where
  "Reactor_stop_finish rx =
     (case teardownPlatformPrimitives rx of (_, rx) \<Rightarrow>
        rx\<lparr>rx_tasks := [], rx_timers := [], canceledTimers := Map.empty\<rparr>)"

section \<open>Tasks and descriptors\<close>

definition Reactor_post :: "'h option \<Rightarrow> 'h Reactor \<Rightarrow> bool \<times> 'h Reactor" where
  "Reactor_post task rx =
     (case task of
        None \<Rightarrow> (False, rx)
      | Some t \<Rightarrow> if \<not> rx_running rx then (False, rx) else (True, rx\<lparr>rx_tasks := rx_tasks rx @ [t]\<rparr>))"

text \<open>\<open>ctl\<close>: \<open>epoll_ctl\<close> returned zero.\<close>

definition registerFd :: "bool \<Rightarrow> socket_t \<Rightarrow> 'h option \<Rightarrow> 'h option \<Rightarrow> 'h Reactor \<Rightarrow> bool \<times> 'h Reactor" where
  "registerFd ctl fd readHandler writeHandler rx =
     (case readHandler of
        None \<Rightarrow> (False, rx)
      | Some rh \<Rightarrow>
          if fd = INVALID_SOCKET then (False, rx)
          else if \<not> rx_running rx then (False, rx)
          else if rx_fds rx fd \<noteq> None then (False, rx)
          else if \<not> ctl then (False, rx)
          else (True, rx\<lparr>rx_fds := (rx_fds rx)(fd \<mapsto> \<lparr>fd_read = rh, fd_write = writeHandler, fd_writeEnabled = False\<rparr>)\<rparr>))"

definition unregisterFd :: "socket_t \<Rightarrow> 'h Reactor \<Rightarrow> bool \<times> 'h Reactor" where
  "unregisterFd fd rx =
     (if rx_fds rx fd = None then (False, rx) else (True, rx\<lparr>rx_fds := (rx_fds rx)(fd := None)\<rparr>))"

definition enableWrite :: "bool \<Rightarrow> socket_t \<Rightarrow> bool \<Rightarrow> 'h Reactor \<Rightarrow> bool \<times> 'h Reactor" where
  "enableWrite ctl fd enable rx =
     (case rx_fds rx fd of
        None \<Rightarrow> (False, rx)
      | Some c \<Rightarrow>
          let rx = rx\<lparr>rx_fds := (rx_fds rx)(fd \<mapsto> c\<lparr>fd_writeEnabled := enable \<and> fd_write c \<noteq> None\<rparr>)\<rparr>
          in if \<not> ctl then (False, rx) else (True, rx))"

section \<open>Timers\<close>

text \<open>
  The heap of timers is the list of its items in the order in which they come to the top: by due
  time. Which of two items with the same due time comes first is not specified for
  \<open>std::priority_queue\<close>; the parameter \<open>before\<close> decides.
\<close>

fun push_timer :: "('h TimerItem \<Rightarrow> 'h TimerItem \<Rightarrow> bool) \<Rightarrow> 'h TimerItem \<Rightarrow> 'h TimerItem list \<Rightarrow> 'h TimerItem list" where
  "push_timer before t [] = [t]"
| "push_timer before t (u # us) =
     (if due t < due u \<or> due t = due u \<and> before t u then t # u # us else u # push_timer before t us)"

fun purge_canceled :: "'h TimerItem list \<Rightarrow> (u64 \<rightharpoonup> bool) \<Rightarrow> 'h TimerItem list \<times> (u64 \<rightharpoonup> bool)" where
  "purge_canceled [] c = ([], c)"
| "purge_canceled (t # ts) c =
     (if c (ti_id t) = Some True then purge_canceled ts (c(ti_id t := None)) else (t # ts, c))"

definition armNextTimerLocked :: "int \<Rightarrow> 'h Reactor \<Rightarrow> 'h Reactor" where
  "armNextTimerLocked now rx =
     (if timerFd rx < 0 then rx
      else case purge_canceled (rx_timers rx) (canceledTimers rx) of (ts, c) \<Rightarrow>
        rx\<lparr>rx_timers := ts, canceledTimers := c,
           rx_armed := (case ts of
               [] \<Rightarrow> None
             | t # _ \<Rightarrow> Some (if due t - now < 1000000 then 1000000 else due t - now))\<rparr>)"

definition scheduleOnce ::
    "('h TimerItem \<Rightarrow> 'h TimerItem \<Rightarrow> bool) \<Rightarrow> int \<Rightarrow> int \<Rightarrow> int \<Rightarrow> 'h option \<Rightarrow> 'h Reactor \<Rightarrow> u64 \<times> 'h Reactor" where
  "scheduleOnce before now now' timeout handler rx =
     (case handler of
        None \<Rightarrow> (0, rx)
      | Some h \<Rightarrow>
          let timerId = nextTimerId rx;
              rx = rx\<lparr>nextTimerId := nextTimerId rx + 1\<rparr>;
              item = \<lparr>due = now + max timeout 0 * 1000000, ti_id = timerId, ti_handler = h\<rparr>
          in if \<not> rx_running rx then (0, rx)
             else (timerId, armNextTimerLocked now' (rx\<lparr>rx_timers := push_timer before item (rx_timers rx),
                                                       canceledTimers := (canceledTimers rx)(timerId \<mapsto> False)\<rparr>)))"

definition cancelTimer :: "int \<Rightarrow> u64 \<Rightarrow> 'h Reactor \<Rightarrow> bool \<times> 'h Reactor" where
  "cancelTimer now timerId rx =
     (if canceledTimers rx timerId = None then (False, rx)
      else (True, armNextTimerLocked now (rx\<lparr>canceledTimers := (canceledTimers rx)(timerId \<mapsto> True)\<rparr>)))"

fun fire_loop :: "int \<Rightarrow> 'h TimerItem list \<Rightarrow> (u64 \<rightharpoonup> bool) \<Rightarrow> 'h list \<times> 'h TimerItem list \<times> (u64 \<rightharpoonup> bool)" where
  "fire_loop now [] c = ([], [], c)"
| "fire_loop now (t # ts) c =
     (if c (ti_id t) = Some True then fire_loop now ts (c(ti_id t := None))
      else if now < due t then ([], t # ts, c)
      else case fire_loop now ts (c(ti_id t := None)) of (hs, ts', c') \<Rightarrow> (ti_handler t # hs, ts', c'))"

text \<open>The handlers that are then called in order, without the mutex.\<close>

definition fireDueTimers :: "int \<Rightarrow> int \<Rightarrow> 'h Reactor \<Rightarrow> 'h list \<times> 'h Reactor" where
  "fireDueTimers now now' rx =
     (case fire_loop now (rx_timers rx) (canceledTimers rx) of (hs, ts, c) \<Rightarrow>
        (hs, armNextTimerLocked now' (rx\<lparr>rx_timers := ts, canceledTimers := c\<rparr>)))"

section \<open>The event loop\<close>

text \<open>
  The outcome of a handler: \<open>Inr\<close> a value, or \<open>Inl\<close> why there is none: what the code it calls
  raises, the use of an object that was destroyed, or a model that ran out of fuel.
\<close>

datatype fault = Raised cpp_error | Dangling | Unending

type_synonym 'a net = "fault + 'a"

fun net_bind :: "'a net \<Rightarrow> ('a \<Rightarrow> 'b net) \<Rightarrow> 'b net" where
  "net_bind (Inl e) f = Inl e"
| "net_bind (Inr x) f = f x"

fun lift :: "'a cpp \<Rightarrow> 'a net" where
  "lift (Inl e) = Inl (Raised e)"
| "lift (Inr x) = Inr x"

text \<open>The handlers that an event calls; they are copied before the first one runs.\<close>

definition handleFdEvent :: "socket_t \<Rightarrow> bool \<Rightarrow> bool \<Rightarrow> bool \<Rightarrow> 'h Reactor \<Rightarrow> 'h list" where
  "handleFdEvent fd readable writable error rx =
     (case rx_fds rx fd of
        None \<Rightarrow> []
      | Some c \<Rightarrow>
          if error then [fd_read c]
          else (if readable then [fd_read c] else []) @
               (if writable \<and> fd_writeEnabled c then (case fd_write c of None \<Rightarrow> [] | Some h \<Rightarrow> [h]) else []))"

text \<open>
  The handlers change the world the reactor is part of: a record that extends this one.
  \<open>run\<close> is what calling a handler does.
\<close>

record 'h World =
  reactor :: "'h Reactor"

fun run_handlers ::
    "('h \<Rightarrow> ('h, 'z) World_scheme \<Rightarrow> ('h, 'z) World_scheme net) \<Rightarrow> 'h list \<Rightarrow> ('h, 'z) World_scheme \<Rightarrow> ('h, 'z) World_scheme net" where
  "run_handlers run [] w = Inr w"
| "run_handlers run (h # hs) w = net_bind (run h w) (run_handlers run hs)"

definition take_task :: "'h Reactor \<Rightarrow> ('h \<times> 'h Reactor) option" where
  "take_task rx = (case rx_tasks rx of [] \<Rightarrow> None | t # ts \<Rightarrow> Some (t, rx\<lparr>rx_tasks := ts\<rparr>))"

text \<open>The tasks may post further tasks, so the loop has fuel.\<close>

fun drainPostedTasks ::
    "nat \<Rightarrow> ('h \<Rightarrow> ('h, 'z) World_scheme \<Rightarrow> ('h, 'z) World_scheme net) \<Rightarrow> ('h, 'z) World_scheme \<Rightarrow> ('h, 'z) World_scheme net" where
  "drainPostedTasks 0 run w = Inl Unending"
| "drainPostedTasks (Suc n) run w =
     (case take_task (reactor w) of
        None \<Rightarrow> Inr w
      | Some (t, rx) \<Rightarrow> net_bind (run t (w\<lparr>reactor := rx\<rparr>)) (drainPostedTasks n run))"

record poll_event =
  pe_fd :: int
  pe_readable :: bool
  pe_writable :: bool
  pe_error :: bool
  pe_now :: int
  pe_armNow :: int

definition dispatch_event ::
    "('h \<Rightarrow> ('h, 'z) World_scheme \<Rightarrow> ('h, 'z) World_scheme net) \<Rightarrow> poll_event \<Rightarrow> ('h, 'z) World_scheme \<Rightarrow> ('h, 'z) World_scheme net" where
  "dispatch_event run e w =
     (if pe_fd e = wakeupFd (reactor w) then Inr w
      else if pe_fd e = timerFd (reactor w)
      then case fireDueTimers (pe_now e) (pe_armNow e) (reactor w) of (hs, rx) \<Rightarrow> run_handlers run hs (w\<lparr>reactor := rx\<rparr>)
      else run_handlers run (handleFdEvent (pe_fd e) (pe_readable e) (pe_writable e) (pe_error e) (reactor w)) w)"

fun dispatch_events ::
    "('h \<Rightarrow> ('h, 'z) World_scheme \<Rightarrow> ('h, 'z) World_scheme net) \<Rightarrow> poll_event list \<Rightarrow> ('h, 'z) World_scheme \<Rightarrow> ('h, 'z) World_scheme net" where
  "dispatch_events run [] w = Inr w"
| "dispatch_events run (e # es) w = net_bind (dispatch_event run e w) (dispatch_events run es)"

text \<open>What \<open>epoll_wait\<close> returns: an error, interrupted or not, or events.\<close>

datatype poll_answer = Poll_Error bool | Poll_Events "poll_event list"

abbreviation leave_loop :: "('h, 'z) World_scheme \<Rightarrow> ('h, 'z) World_scheme" where
  "leave_loop w \<equiv> w\<lparr>reactor := (reactor w)\<lparr>rx_worker := False\<rparr>\<rparr>"

text \<open>
  The loop over a list of answers; once they are used up, the thread waits in \<open>epoll_wait\<close>. After the
  loop the posted tasks are run once more.
\<close>

fun runLoop ::
    "nat \<Rightarrow> ('h \<Rightarrow> ('h, 'z) World_scheme \<Rightarrow> ('h, 'z) World_scheme net) \<Rightarrow> poll_answer list \<Rightarrow> ('h, 'z) World_scheme \<Rightarrow>
     ('h, 'z) World_scheme net" where
  "runLoop n run answers w =
     (if \<not> rx_running (reactor w) then net_bind (drainPostedTasks n run w) (\<lambda>w. Inr (leave_loop w))
      else case answers of
        [] \<Rightarrow> Inr w
      | Poll_Error interrupted # answers \<Rightarrow>
          if interrupted then runLoop n run answers w
          else net_bind (drainPostedTasks n run w) (\<lambda>w. Inr (leave_loop w))
      | Poll_Events es # answers \<Rightarrow>
          net_bind (dispatch_events run es w) (\<lambda>w. net_bind (drainPostedTasks n run w) (runLoop n run answers)))"

declare runLoop.simps [simp del]

end
