(* ===== verification/Connection.thy ===== *)
theory Connection
  imports Reactor Session
begin

text \<open>
  src/connection.cpp: a connection drives its session from the reactor's events and keeps it
  alive with pings. The world is a record that extends the reactor's: the connections by id, which stands for the
  \<open>Connection\<close> pointer, and the store of request contexts. The three handlers that the constructor is given
  are the \<open>hooks\<close>; each method re-reads the connection after a call of one of them, since they may come back to it.
  The session is made by the constructor and never reset, so the checks of a null pointer are left out.
\<close>

type_synonym ConnectionId = u64

text \<open>The closures that the library gives to the reactor.\<close>

datatype job =
    Session_Readable ConnectionId
  | Session_Writable ConnectionId
  | Ping_Timer ConnectionId
  | Ping_Timeout ConnectionId
  | Request_Timeout u64
  | Drain_Submit_Queue
  | Cancel_Request u64
  | Connection_Established Endpoint ConnectionId
  | Connection_Failed Endpoint
  | Close_Manager

record Connection =
  cn_id :: ConnectionId
  cn_endpoint :: Endpoint
  cn_pingIntervalSec :: int
  cn_pingTimeoutSec :: int
  cn_session :: Http2Session
  sessionFd :: socket_t
  connected :: bool
  pendingPing :: bool
  pingTimerId :: u64
  pingTimeoutTimerId :: u64

definition Connection_new :: "ConnectionId \<Rightarrow> Endpoint \<Rightarrow> ClientConfig \<Rightarrow> Connection" where
  "Connection_new cid ep config =
     \<lparr>cn_id = cid, cn_endpoint = ep, cn_pingIntervalSec = pingIntervalSec config, cn_pingTimeoutSec = pingTimeoutSec config,
      cn_session = Http2Session_new ep config, sessionFd = INVALID_SOCKET, connected = False, pendingPing = False,
      pingTimerId = 0, pingTimeoutTimerId = 0\<rparr>"

record Net = "job World" +
  connections :: "ConnectionId \<rightharpoonup> Connection"
  ctxs :: store

record 'w hooks =
  requestDone :: "ctx \<Rightarrow> Response \<Rightarrow> 'w \<Rightarrow> 'w net"
  connectionLost :: "ConnectionId \<Rightarrow> 'w \<Rightarrow> 'w net"
  connectionDraining :: "ConnectionId \<Rightarrow> 'w \<Rightarrow> 'w net"

text \<open>
  What the system and the library's hash tables answer during one job of the reactor: the orders of the
  tables, the clock, whether \<open>epoll_ctl\<close> succeeds, and the reads and writes.
\<close>

record env =
  en_order :: "(StreamId \<times> Stream) list \<Rightarrow> (StreamId \<times> Stream) list"
  en_corder :: "(StreamId \<times> ctx) list \<Rightarrow> (StreamId \<times> ctx) list"
  en_before :: "job TimerItem \<Rightarrow> job TimerItem \<Rightarrow> bool"
  en_now :: int
  en_armNow :: int
  en_ctl :: bool
  en_reads :: "(sys_answer \<times> u8 list) list"
  en_writes :: "sys_answer list"

definition with_connection :: "ConnectionId \<Rightarrow> (Connection \<Rightarrow> 'a net) \<Rightarrow> 'z Net_scheme \<Rightarrow> 'a net" where
  "with_connection cid f w =
     (case connections w cid of None \<Rightarrow> Inl Dangling | Some c \<Rightarrow> f c)"

definition put_connection :: "ConnectionId \<Rightarrow> Connection \<Rightarrow> 'z Net_scheme \<Rightarrow> 'z Net_scheme" where
  "put_connection cid c w = w\<lparr>connections := (connections w)(cid \<mapsto> c)\<rparr>"

section \<open>Connecting\<close>

definition Connection_connect :: "(connect_call \<Rightarrow> SocketFd cpp) \<Rightarrow> ssl_answers \<Rightarrow> Connection \<Rightarrow> bool \<times> Connection" where
  "Connection_connect connector ssl c =
     (case Session_start connector ssl (cn_session c) of (ok, s) \<Rightarrow>
        let c = c\<lparr>cn_session := s\<rparr> in
        if \<not> ok then (False, c)
        else let c = c\<lparr>sessionFd := Session_pollFd s\<rparr> in
          if sessionFd c = INVALID_SOCKET then (False, c\<lparr>cn_session := snd (Session_close s)\<rparr>)
          else (True, c\<lparr>connected := True\<rparr>))"

text \<open>\<open>pingIntervalSec * 1000\<close> is an \<open>int\<close>.\<close>

definition schedulePingTimer :: "'e env_scheme \<Rightarrow> ConnectionId \<Rightarrow> 'z Net_scheme \<Rightarrow> 'z Net_scheme net" where
  "schedulePingTimer env cid w = with_connection cid (\<lambda>c.
     if cn_pingIntervalSec c \<le> 0 \<or> \<not> connected c then Inr w
     else net_bind (lift (i32 (cn_pingIntervalSec c * 1000))) (\<lambda>ms.
       case scheduleOnce (en_before env) (en_now env) (en_armNow env) ms (Some (Ping_Timer cid)) (reactor w) of (tid, rx) \<Rightarrow>
         Inr (put_connection cid (c\<lparr>pingTimerId := tid\<rparr>) (w\<lparr>reactor := rx\<rparr>)))) w"

definition registerWithReactor :: "'e env_scheme \<Rightarrow> ConnectionId \<Rightarrow> 'z Net_scheme \<Rightarrow> (bool \<times> 'z Net_scheme) net" where
  "registerWithReactor env cid w = with_connection cid (\<lambda>c.
     if \<not> connected c \<or> sessionFd c = INVALID_SOCKET then Inr (False, w)
     else case registerFd (en_ctl env) (sessionFd c) (Some (Session_Readable cid)) (Some (Session_Writable cid)) (reactor w) of
       (registered, rx) \<Rightarrow>
         let w = w\<lparr>reactor := rx\<rparr> in
         if \<not> registered
         then Inr (False, put_connection cid (c\<lparr>connected := False, cn_session := snd (Session_close (cn_session c))\<rparr>) w)
         else let w = w\<lparr>reactor := snd (enableWrite (en_ctl env) (sessionFd c) (Session_wantsWrite (cn_session c)) (reactor w))\<rparr>
              in net_bind (schedulePingTimer env cid w) (\<lambda>w. Inr (True, w))) w"

section \<open>Session events\<close>

text \<open>Both timers, and the connection without them.\<close>

definition cancelPingTimers :: "'e env_scheme \<Rightarrow> ConnectionId \<Rightarrow> 'z Net_scheme \<Rightarrow> 'z Net_scheme net" where
  "cancelPingTimers env cid w = with_connection cid (\<lambda>c.
     let (c, rx) = (if pingTimerId c \<noteq> 0
                    then (c\<lparr>pingTimerId := 0\<rparr>, snd (cancelTimer (en_armNow env) (pingTimerId c) (reactor w)))
                    else (c, reactor w));
         (c, rx) = (if pingTimeoutTimerId c \<noteq> 0
                    then (c\<lparr>pingTimeoutTimerId := 0\<rparr>, snd (cancelTimer (en_armNow env) (pingTimeoutTimerId c) rx))
                    else (c, rx))
     in Inr (put_connection cid (c\<lparr>pendingPing := False\<rparr>) (w\<lparr>reactor := rx\<rparr>))) w"

definition unregisterSession :: "ConnectionId \<Rightarrow> 'z Net_scheme \<Rightarrow> 'z Net_scheme net" where
  "unregisterSession cid w = with_connection cid (\<lambda>c.
     if sessionFd c \<noteq> INVALID_SOCKET
     then Inr (put_connection cid (c\<lparr>sessionFd := INVALID_SOCKET\<rparr>) (w\<lparr>reactor := snd (unregisterFd (sessionFd c) (reactor w))\<rparr>))
     else Inr w) w"

definition process_ping_ack :: "'e env_scheme \<Rightarrow> ConnectionId \<Rightarrow> 'z Net_scheme \<Rightarrow> 'z Net_scheme net" where
  "process_ping_ack env cid w = with_connection cid (\<lambda>c.
     if pendingPing c
     then let c = c\<lparr>pendingPing := False\<rparr>;
              (c, rx) = (if pingTimeoutTimerId c \<noteq> 0
                         then (c\<lparr>pingTimeoutTimerId := 0\<rparr>, snd (cancelTimer (en_armNow env) (pingTimeoutTimerId c) (reactor w)))
                         else (c, reactor w))
          in schedulePingTimer env cid (put_connection cid c (w\<lparr>reactor := rx\<rparr>))
     else Inr w) w"

definition processSessionEvent :: "'z Net_scheme hooks \<Rightarrow> 'e env_scheme \<Rightarrow> ConnectionId \<Rightarrow> SessionEvent \<Rightarrow> 'z Net_scheme \<Rightarrow> 'z Net_scheme net" where
  "processSessionEvent hk env cid event w =
     (case event of
        REQUEST_DONE context response \<Rightarrow> requestDone hk context response w
      | SESSION_CLOSING \<Rightarrow> connectionDraining hk cid w
      | SESSION_DEAD \<Rightarrow>
          with_connection cid (\<lambda>c.
            net_bind (cancelPingTimers env cid (put_connection cid (c\<lparr>connected := False\<rparr>) w)) (\<lambda>w.
            net_bind (unregisterSession cid w) (connectionLost hk cid))) w
      | PING_ACK \<Rightarrow> process_ping_ack env cid w)"

fun processSessionEvents :: "'z Net_scheme hooks \<Rightarrow> 'e env_scheme \<Rightarrow> ConnectionId \<Rightarrow> SessionEvent list \<Rightarrow> 'z Net_scheme \<Rightarrow> 'z Net_scheme net" where
  "processSessionEvents hk env cid [] w = Inr w"
| "processSessionEvents hk env cid (e # es) w =
     net_bind (processSessionEvent hk env cid e w) (processSessionEvents hk env cid es)"

definition updateWriteInterest :: "'e env_scheme \<Rightarrow> ConnectionId \<Rightarrow> 'z Net_scheme \<Rightarrow> 'z Net_scheme net" where
  "updateWriteInterest env cid w = with_connection cid (\<lambda>c.
     if sessionFd c = INVALID_SOCKET then Inr w
     else Inr (w\<lparr>reactor := snd (enableWrite (en_ctl env) (sessionFd c) (Session_wantsWrite (cn_session c)) (reactor w))\<rparr>)) w"

section \<open>Operations on the reactor thread\<close>

definition Connection_closeOnReactor :: "'z Net_scheme hooks \<Rightarrow> 'e env_scheme \<Rightarrow> ConnectionId \<Rightarrow> 'z Net_scheme \<Rightarrow> 'z Net_scheme net" where
  "Connection_closeOnReactor hk env cid w = with_connection cid (\<lambda>c.
     if \<not> connected c then Inr w
     else net_bind (cancelPingTimers env cid (put_connection cid (c\<lparr>connected := False\<rparr>) w)) (\<lambda>w.
       net_bind (unregisterSession cid w) (\<lambda>w. with_connection cid (\<lambda>c.
         case Session_close (cn_session c) of (es, s) \<Rightarrow>
           processSessionEvents hk env cid es (put_connection cid (c\<lparr>cn_session := s\<rparr>) w)) w))) w"

definition submitOnReactor ::
    "'z Net_scheme hooks \<Rightarrow> 'e env_scheme \<Rightarrow> ConnectionId \<Rightarrow> Request \<Rightarrow> ctx \<Rightarrow> 'z Net_scheme \<Rightarrow> (bool \<times> 'z Net_scheme) net" where
  "submitOnReactor hk env cid request context w = with_connection cid (\<lambda>c.
     if \<not> connected c then Inr (False, w)
     else net_bind (lift (Session_submit (en_order env) (en_corder env) request context (ctxs w) (cn_session c))) (\<lambda>(es, h, s).
       net_bind (processSessionEvents hk env cid es (put_connection cid (c\<lparr>cn_session := s\<rparr>) (w\<lparr>ctxs := h\<rparr>))) (\<lambda>w.
       net_bind (updateWriteInterest env cid w) (\<lambda>w. Inr (True, w))))) w"

definition cancelRequestOnReactor ::
    "'z Net_scheme hooks \<Rightarrow> 'e env_scheme \<Rightarrow> ConnectionId \<Rightarrow> ctx option \<Rightarrow> 'z Net_scheme \<Rightarrow> 'z Net_scheme net" where
  "cancelRequestOnReactor hk env cid context w = with_connection cid (\<lambda>c.
     case Session_cancelRequest context (ctxs w) (cn_session c) of (es, s) \<Rightarrow>
       net_bind (processSessionEvents hk env cid es (put_connection cid (c\<lparr>cn_session := s\<rparr>) w)) (updateWriteInterest env cid)) w"

definition canAcceptNewRequests :: "Connection \<Rightarrow> bool" where
  "canAcceptNewRequests c \<longleftrightarrow> connected c \<and> Session_isHealthy (cn_session c) \<and> \<not> Session_isGoingAway (cn_session c)"

definition Connection_hasStreamCapacity :: "Connection \<Rightarrow> bool" where
  "Connection_hasStreamCapacity c \<longleftrightarrow> Session_hasStreamCapacity (cn_session c)"

definition Connection_activeStreamCount :: "Connection \<Rightarrow> nat" where
  "Connection_activeStreamCount c = Session_activeStreamCount (cn_session c)"

definition onSessionReadable :: "'z Net_scheme hooks \<Rightarrow> 'e env_scheme \<Rightarrow> ConnectionId \<Rightarrow> 'z Net_scheme \<Rightarrow> 'z Net_scheme net" where
  "onSessionReadable hk env cid w = with_connection cid (\<lambda>c.
     if \<not> connected c then Inr w
     else net_bind (lift (Session_onReadable (en_reads env) (cn_session c))) (\<lambda>(es, s).
       net_bind (processSessionEvents hk env cid es (put_connection cid (c\<lparr>cn_session := s\<rparr>) w)) (updateWriteInterest env cid))) w"

definition onSessionWritable :: "'e env_scheme \<Rightarrow> ConnectionId \<Rightarrow> 'z Net_scheme \<Rightarrow> 'z Net_scheme net" where
  "onSessionWritable env cid w = with_connection cid (\<lambda>c.
     if \<not> connected c then Inr w
     else net_bind (lift (Session_onWritable (en_writes env) (cn_session c))) (\<lambda>(out, s).
       updateWriteInterest env cid (put_connection cid (c\<lparr>cn_session := s\<rparr>) w))) w"

section \<open>Pings\<close>

definition onPingTimer :: "'z Net_scheme hooks \<Rightarrow> 'e env_scheme \<Rightarrow> ConnectionId \<Rightarrow> 'z Net_scheme \<Rightarrow> 'z Net_scheme net" where
  "onPingTimer hk env cid w = with_connection cid (\<lambda>c.
     let c = c\<lparr>pingTimerId := 0\<rparr>; w = put_connection cid c w in
     if \<not> connected c then Inr w
     else if 0 < Session_activeStreamCount (cn_session c) then schedulePingTimer env cid w
     else if pendingPing c then Inr w
     else case Session_sendPing (cn_session c) of (es, s) \<Rightarrow>
       net_bind (processSessionEvents hk env cid es (put_connection cid (c\<lparr>cn_session := s\<rparr>) w)) (\<lambda>w.
       net_bind (updateWriteInterest env cid w) (\<lambda>w. with_connection cid (\<lambda>c.
         let c = c\<lparr>pendingPing := True\<rparr>; w = put_connection cid c w in
         if 0 < cn_pingTimeoutSec c
         then net_bind (lift (i32 (cn_pingTimeoutSec c * 1000))) (\<lambda>ms.
           case scheduleOnce (en_before env) (en_now env) (en_armNow env) ms (Some (Ping_Timeout cid)) (reactor w) of (tid, rx) \<Rightarrow>
             Inr (put_connection cid (c\<lparr>pingTimeoutTimerId := tid\<rparr>) (w\<lparr>reactor := rx\<rparr>)))
         else Inr w) w))) w"

definition onPingTimeout :: "'z Net_scheme hooks \<Rightarrow> 'e env_scheme \<Rightarrow> ConnectionId \<Rightarrow> 'z Net_scheme \<Rightarrow> 'z Net_scheme net" where
  "onPingTimeout hk env cid w = with_connection cid (\<lambda>c.
     let c = c\<lparr>pingTimeoutTimerId := 0\<rparr>; w = put_connection cid c w in
     if \<not> pendingPing c \<or> \<not> connected c then Inr w
     else net_bind (Connection_closeOnReactor hk env cid (put_connection cid (c\<lparr>pendingPing := False\<rparr>) w)) (connectionLost hk cid)) w"

end
