(* ===== verification/Dispatcher.thy ===== *)
theory Dispatcher
  imports Task_Queue Prelude
begin

text \<open>
  src/callback_dispatcher.cpp: the thread that runs the completion callbacks. A task is data of
  the type \<open>'task\<close>; \<open>None\<close> is an empty \<open>std::function\<close>. The critical sections of the mutex are
  atomic; \<open>runLoop_section\<close> is the one of the worker's loop.
\<close>

record 'task CallbackDispatcher =
  cd_running :: bool
  cd_stopRequested :: bool
  cd_worker :: bool
  cd_tasks :: "'task list"

definition CallbackDispatcher_new :: "'task CallbackDispatcher" where
  "CallbackDispatcher_new = \<lparr>cd_running = False, cd_stopRequested = False, cd_worker = False, cd_tasks = []\<rparr>"

text \<open>\<open>cd_worker\<close>: the thread is in its loop.\<close>

definition CallbackDispatcher_start :: "'task CallbackDispatcher \<Rightarrow> bool \<times> 'task CallbackDispatcher" where
  "CallbackDispatcher_start d =
     (if cd_running d then (True, d)
      else (True, d\<lparr>cd_stopRequested := False, cd_running := True, cd_worker := True\<rparr>))"

definition CallbackDispatcher_post :: "'task option \<Rightarrow> 'task CallbackDispatcher \<Rightarrow> bool \<times> 'task CallbackDispatcher" where
  "CallbackDispatcher_post task d =
     (case task of
        None \<Rightarrow> (False, d)
      | Some t \<Rightarrow>
          if \<not> cd_running d \<or> cd_stopRequested d then (False, d)
          else (True, d\<lparr>cd_tasks := cd_tasks d @ [t]\<rparr>))"

text \<open>One round of the loop: it waits, it returns, or it runs the task at the front.\<close>

datatype 'task loop_round = Waits | Returns | Runs 'task

definition runLoop_section :: "'task CallbackDispatcher \<Rightarrow> 'task loop_round \<times> 'task CallbackDispatcher" where
  "runLoop_section d =
     (if \<not> (cd_stopRequested d \<or> cd_tasks d \<noteq> []) then (Waits, d)
      else case cd_tasks d of
        [] \<Rightarrow> (Returns, d\<lparr>cd_worker := False\<rparr>)
      | t # ts \<Rightarrow> (Runs t, d\<lparr>cd_tasks := ts\<rparr>))"

text \<open>
  The loop while \<open>stop\<close> waits for the thread: posts are refused, so the worker runs what is
  queued and returns. The first component is what it runs.
\<close>

function runLoop_to_end :: "'task CallbackDispatcher \<Rightarrow> 'task list \<times> 'task CallbackDispatcher" where
  "runLoop_to_end d =
     (case runLoop_section d of
        (Runs t, d') \<Rightarrow> (case runLoop_to_end d' of (ts, d'') \<Rightarrow> (t # ts, d''))
      | (_, d') \<Rightarrow> ([], d'))"
  by pat_completeness auto
termination
  by (relation "measure (\<lambda>d. length (cd_tasks d))") (auto simp: runLoop_section_def split: if_splits list.splits)

declare runLoop_to_end.simps [simp del]

text \<open>
  \<open>own\<close>: the caller is the worker itself, a callback that closes the client. \<open>std::thread::join\<close>
  throws there.
\<close>

definition CallbackDispatcher_stop :: "bool \<Rightarrow> 'task CallbackDispatcher \<Rightarrow> ('task list \<times> 'task CallbackDispatcher) cpp" where
  "CallbackDispatcher_stop own d =
     (if \<not> cd_running d then Inr ([], d)
      else let d = d\<lparr>cd_stopRequested := True\<rparr> in
        if own then Inl (RuntimeError ''Resource deadlock avoided'')
        else case runLoop_to_end d of (executed, d) \<Rightarrow> Inr (executed, d\<lparr>cd_running := False, cd_tasks := []\<rparr>))"

section \<open>No callback is lost\<close>

definition dispatcher_take :: "'task CallbackDispatcher \<Rightarrow> ('task \<times> 'task CallbackDispatcher) option" where
  "dispatcher_take d = (case runLoop_section d of (Runs t, d') \<Rightarrow> Some (t, d') | _ \<Rightarrow> None)"

abbreviation dispatcher_accepts :: "'task CallbackDispatcher \<Rightarrow> bool" where
  "dispatcher_accepts d \<equiv> cd_running d \<and> \<not> cd_stopRequested d"

interpretation dispatcher:
  task_queue cd_tasks dispatcher_accepts "\<lambda>t. CallbackDispatcher_post (Some t)" dispatcher_take
  by unfold_locales
     (auto simp: CallbackDispatcher_post_def dispatcher_take_def runLoop_section_def split: if_splits list.splits)

lemma runLoop_to_end_tasks:
  "cd_stopRequested d \<Longrightarrow> runLoop_to_end d = (cd_tasks d, d\<lparr>cd_tasks := [], cd_worker := False\<rparr>)"
proof (induction d rule: runLoop_to_end.induct)
  case (1 d)
  show ?case
  proof (cases "cd_tasks d")
    case Nil
    then show ?thesis using 1(2) by (simp add: runLoop_to_end.simps [of d] runLoop_section_def)
  next
    case (Cons t ts)
    then have s: "runLoop_section d = (Runs t, d\<lparr>cd_tasks := ts\<rparr>)" by (simp add: runLoop_section_def)
    show ?thesis using 1(1) [OF s [symmetric] refl] 1(2) s Cons by (simp add: runLoop_to_end.simps [of d])
  qed
qed

lemma stop_runs_all:
  assumes "cd_running d"
  shows "\<exists>d'. CallbackDispatcher_stop False d = Inr (cd_tasks d, d') \<and> cd_tasks d' = [] \<and> \<not> cd_running d' \<and> \<not> cd_worker d'"
  using assms by (simp add: CallbackDispatcher_stop_def Let_def runLoop_to_end_tasks)

end
