(* ===== verification/Manager.thy ===== *)
theory Manager
  imports Connection Dispatcher Client
begin

text \<open>
  src/connection_manager.cpp: requests come from the user's threads, wait in the submit queue or for
  a connection to their endpoint, and are handed to a connection on the reactor thread; a connector thread makes
  new connections. The state is one record that extends the connections'. A context's address
  is the number of its request; \<open>sendAsync\<close> always sets it, so the checks of a null context are left
  out. Tables keyed by an endpoint are lists in the table's order; where a new entry goes is a
  parameter. \<open>called\<close> records the calls of completion callbacks. A callback may use the client
  again: that is a further operation of the user, after the one that called it.
\<close>

record PendingRequest =
  pr_request :: Request
  pr_endpoint :: Endpoint
  pr_context :: ctx

record ConnectTask =
  ct_endpoint :: Endpoint
  ct_connId :: ConnectionId

record Manager = Net +
  mg_config :: ClientConfig
  callbackDispatcher :: "(ctx \<times> Response) CallbackDispatcher"
  nextRequestId :: u64
  nextConnectionId :: u64
  pools :: "(Endpoint \<times> ConnectionId list) list"
  pendingByEndpoint :: "(Endpoint \<times> PendingRequest list) list"
  connectingEndpoints :: "Endpoint list"
  requestConnections :: "u64 \<rightharpoonup> ConnectionId"
  startOnce :: bool
  startResult :: bool
  connectorThread :: bool
  connectTasks :: "ConnectTask list"
  connectorStop :: bool
  submitQueue :: "PendingRequest list"
  contexts :: "(u64 \<times> ctx) list"
  called :: "(ctx \<times> Response) list"

definition ConnectionManager_new :: "ClientConfig \<Rightarrow> Manager" where
  "ConnectionManager_new config =
     \<lparr>reactor = Reactor_new, connections = Map.empty, ctxs = (\<lambda>_. RequestContext_new 0 0 False), mg_config = config,
      callbackDispatcher = CallbackDispatcher_new, nextRequestId = 1, nextConnectionId = 1, pools = [], pendingByEndpoint = [],
      connectingEndpoints = [], requestConnections = Map.empty, startOnce = False, startResult = False, connectorThread = False,
      connectTasks = [], connectorStop = False, submitQueue = [], contexts = [], called = []\<rparr>"

record menv = env +
  od_pools :: "(Endpoint \<times> ConnectionId list) list \<Rightarrow> (Endpoint \<times> ConnectionId list) list"
  od_pending :: "(Endpoint \<times> PendingRequest list) list \<Rightarrow> (Endpoint \<times> PendingRequest list) list"
  od_contexts :: "(u64 \<times> ctx) list \<Rightarrow> (u64 \<times> ctx) list"

section \<open>Tables keyed by an endpoint\<close>

fun ep_find :: "Endpoint \<Rightarrow> (Endpoint \<times> 'v) list \<Rightarrow> 'v option" where
  "ep_find ep [] = None"
| "ep_find ep ((k, v) # tbl) = (if ep_eq k ep then Some v else ep_find ep tbl)"

definition ep_erase :: "Endpoint \<Rightarrow> (Endpoint \<times> 'v) list \<Rightarrow> (Endpoint \<times> 'v) list" where
  "ep_erase ep tbl = filter (\<lambda>(k, v). \<not> ep_eq k ep) tbl"

definition ep_set :: "Endpoint \<Rightarrow> 'v \<Rightarrow> (Endpoint \<times> 'v) list \<Rightarrow> (Endpoint \<times> 'v) list" where
  "ep_set ep v tbl = map (\<lambda>(k, u). if ep_eq k ep then (k, v) else (k, u)) tbl"

text \<open>\<open>table[ep].push_back(x)\<close>\<close>

definition ep_push ::
    "((Endpoint \<times> 'x list) list \<Rightarrow> (Endpoint \<times> 'x list) list) \<Rightarrow> Endpoint \<Rightarrow> 'x \<Rightarrow> (Endpoint \<times> 'x list) list \<Rightarrow> (Endpoint \<times> 'x list) list" where
  "ep_push order ep x tbl =
     (case ep_find ep tbl of
        None \<Rightarrow> order ((ep, [x]) # tbl)
      | Some xs \<Rightarrow> ep_set ep (xs @ [x]) tbl)"

section \<open>Shared helpers\<close>

definition update_context :: "ctx \<Rightarrow> (RequestContext \<Rightarrow> RequestContext) \<Rightarrow> Manager \<Rightarrow> Manager" where
  "update_context c f m = m\<lparr>ctxs := (ctxs m)(c := f (ctxs m c))\<rparr>"

definition call_back :: "ctx \<Rightarrow> Response \<Rightarrow> Manager \<Rightarrow> Manager" where
  "call_back c response m = m\<lparr>called := called m @ map (Pair c) (invokeCompletion response (ctxs m c))\<rparr>"

definition cancel_request_timer :: "menv \<Rightarrow> ctx \<Rightarrow> Manager \<Rightarrow> Manager" where
  "cancel_request_timer env c m =
     (let timerId = ctx_timerId (ctxs m c) in
      if timerId \<noteq> 0
      then update_context c (setTimerId 0) (m\<lparr>reactor := snd (cancelTimer (en_armNow env) timerId (reactor m))\<rparr>)
      else m)"

definition completeRequest :: "menv \<Rightarrow> ctx \<Rightarrow> Response \<Rightarrow> Manager \<Rightarrow> Manager" where
  "completeRequest env c response m =
     (case tryFinish (ctxs m c) of (won, rc) \<Rightarrow>
        let m = update_context c (\<lambda>_. rc) m in
        if \<not> won then m
        else let m = cancel_request_timer env c m;
                 m = m\<lparr>contexts := filter (\<lambda>(k, d). k \<noteq> REQUEST_ID (ctxs m c)) (contexts m)\<rparr>
             in if cd_running (callbackDispatcher m)
                then case CallbackDispatcher_post (Some (c, response)) (callbackDispatcher m) of (posted, d) \<Rightarrow>
                  if posted then m\<lparr>callbackDispatcher := d\<rparr> else call_back c response (m\<lparr>callbackDispatcher := d\<rparr>)
                else call_back c response m)"

fun complete_all :: "menv \<Rightarrow> ctx list \<Rightarrow> Response \<Rightarrow> Manager \<Rightarrow> Manager" where
  "complete_all env [] response m = m"
| "complete_all env (c # cs) response m = complete_all env cs response (completeRequest env c response m)"

definition failQueuedRequests :: "menv \<Rightarrow> Response \<Rightarrow> Manager \<Rightarrow> Manager" where
  "failQueuedRequests env response m =
     complete_all env (map pr_context (submitQueue m)) response (m\<lparr>submitQueue := []\<rparr>)"

definition failAllContexts :: "menv \<Rightarrow> Response \<Rightarrow> Manager \<Rightarrow> Manager" where
  "failAllContexts env response m = complete_all env (map snd (contexts m)) response m"

definition findContext :: "u64 \<Rightarrow> Manager \<Rightarrow> ctx option" where
  "findContext requestId m = map_of (contexts m) requestId"

fun remove_request :: "u64 \<Rightarrow> store \<Rightarrow> PendingRequest list \<Rightarrow> (ctx \<times> PendingRequest list) option" where
  "remove_request requestId h [] = None"
| "remove_request requestId h (pr # prs) =
     (if REQUEST_ID (h (pr_context pr)) = requestId then Some (pr_context pr, prs)
      else map_option (\<lambda>(c, qs). (c, pr # qs)) (remove_request requestId h prs))"

definition removeFromSubmitQueue :: "u64 \<Rightarrow> Manager \<Rightarrow> (ctx \<times> Manager) option" where
  "removeFromSubmitQueue requestId m =
     map_option (\<lambda>(c, q). (c, m\<lparr>submitQueue := q\<rparr>)) (remove_request requestId (ctxs m) (submitQueue m))"

section \<open>Choosing a connection\<close>

text \<open>The least loaded one that accepts requests, the first of several.\<close>

fun pick_best :: "(ConnectionId \<rightharpoonup> Connection) \<Rightarrow> ConnectionId list \<Rightarrow> (ConnectionId \<times> nat) option \<Rightarrow> ConnectionId option" where
  "pick_best cs [] best = map_option fst best"
| "pick_best cs (cid # cids) best =
     (case cs cid of
        None \<Rightarrow> pick_best cs cids best
      | Some c \<Rightarrow>
          if canAcceptNewRequests c \<and> (case best of None \<Rightarrow> True | Some (_, bestLoad) \<Rightarrow> Connection_activeStreamCount c < bestLoad)
          then pick_best cs cids (Some (cid, Connection_activeStreamCount c))
          else pick_best cs cids best)"

definition pickConnectionOnReactor :: "Endpoint \<Rightarrow> Manager \<Rightarrow> ConnectionId option" where
  "pickConnectionOnReactor ep m =
     (case ep_find ep (pools m) of None \<Rightarrow> None | Some cids \<Rightarrow> pick_best (connections m) cids None)"

definition enqueueConnectTask :: "Endpoint \<Rightarrow> Manager \<Rightarrow> Manager" where
  "enqueueConnectTask ep m =
     (if \<exists>k\<in>set (connectingEndpoints m). ep_eq k ep then m
      else if pickConnectionOnReactor ep m \<noteq> None then m
      else m\<lparr>connectingEndpoints := ep # connectingEndpoints m, nextConnectionId := nextConnectionId m + 1,
             connectTasks := connectTasks m @ [\<lparr>ct_endpoint = ep, ct_connId = nextConnectionId m\<rparr>]\<rparr>)"

abbreviation capacity_of :: "ConnectionId \<Rightarrow> Manager \<Rightarrow> bool net" where
  "capacity_of cid m \<equiv> with_connection cid (\<lambda>c. Inr (Connection_hasStreamCapacity c)) m"

abbreviation finished_of :: "ctx \<Rightarrow> Manager \<Rightarrow> bool" where
  "finished_of c m \<equiv> finished_flag (ctxs m c)"

abbreviation canceled_of :: "ctx \<Rightarrow> Manager \<Rightarrow> bool" where
  "canceled_of c m \<equiv> canceled_flag (ctxs m c)"

text \<open>Hand a request to a connection; \<open>hk\<close> are the handlers the connection calls meanwhile.\<close>

definition submit_to :: "Manager hooks \<Rightarrow> menv \<Rightarrow> ConnectionId \<Rightarrow> PendingRequest \<Rightarrow> Manager \<Rightarrow> Manager net" where
  "submit_to hk env cid pr m =
     net_bind (submitOnReactor hk env cid (pr_request pr) (pr_context pr) m) (\<lambda>(ok, m).
       let c = pr_context pr in
       if ok then Inr (m\<lparr>requestConnections := (requestConnections m)(REQUEST_ID (ctxs m c) \<mapsto> cid)\<rparr>)
       else if \<not> finished_of c m then Inr (completeRequest env c (failConnectionError ''Submit failed'') m)
       else Inr m)"

section \<open>Events of the connections\<close>

text \<open>
  The loop of \<open>trySubmitPending\<close> keeps a reference to the queue in the table; the model looks it up
  again in each round, and a queue that is gone is the use of a destroyed object. The queue only
  shrinks, so its length and one more round are enough fuel.
\<close>

fun submit_pending_loop :: "nat \<Rightarrow> Manager hooks \<Rightarrow> menv \<Rightarrow> Endpoint \<Rightarrow> ConnectionId \<Rightarrow> Manager \<Rightarrow> Manager net" where
  "submit_pending_loop 0 hk env ep cid m = Inl Unending"
| "submit_pending_loop (Suc n) hk env ep cid m =
     (case ep_find ep (pendingByEndpoint m) of
        None \<Rightarrow> Inl Dangling
      | Some [] \<Rightarrow> Inr (m\<lparr>pendingByEndpoint := ep_erase ep (pendingByEndpoint m)\<rparr>)
      | Some (pr # queue) \<Rightarrow>
          net_bind (capacity_of cid m) (\<lambda>capacity.
            if \<not> capacity then Inr m
            else let m = m\<lparr>pendingByEndpoint := ep_set ep queue (pendingByEndpoint m)\<rparr> in
              if canceled_of (pr_context pr) m
              then submit_pending_loop n hk env ep cid (completeRequest env (pr_context pr) (customError ''Request canceled'') m)
              else net_bind (submit_to hk env cid pr m) (submit_pending_loop n hk env ep cid)))"

definition trySubmitPending :: "Manager hooks \<Rightarrow> menv \<Rightarrow> Endpoint \<Rightarrow> Manager \<Rightarrow> Manager net" where
  "trySubmitPending hk env ep m =
     (case ep_find ep (pendingByEndpoint m) of
        None \<Rightarrow> Inr m
      | Some queue \<Rightarrow>
          if queue = [] then Inr m
          else case pickConnectionOnReactor ep m of
            None \<Rightarrow> Inr m
          | Some cid \<Rightarrow> submit_pending_loop (Suc (length queue)) hk env ep cid m)"

definition onRequestDone :: "Manager hooks \<Rightarrow> menv \<Rightarrow> ctx \<Rightarrow> Response \<Rightarrow> Manager \<Rightarrow> Manager net" where
  "onRequestDone hk env c response m =
     (let requestId = REQUEST_ID (ctxs m c);
          conn = requestConnections m requestId;
          m = m\<lparr>requestConnections := (requestConnections m)(requestId := None)\<rparr>;
          m = completeRequest env c response m
      in case conn of
           None \<Rightarrow> Inr m
         | Some cid \<Rightarrow> with_connection cid (\<lambda>cn. trySubmitPending hk env (cn_endpoint cn) m) m)"

definition onConnectionLost :: "ConnectionId \<Rightarrow> Manager \<Rightarrow> Manager net" where
  "onConnectionLost cid m =
     with_connection cid (\<lambda>cn. Inr (m\<lparr>requestConnections :=
       (\<lambda>k. if requestConnections m k = Some cid then None else requestConnections m k)\<rparr>)) m"

definition onConnectionDraining :: "ConnectionId \<Rightarrow> Manager \<Rightarrow> Manager net" where
  "onConnectionDraining cid m = Inr m"

text \<open>
  The handlers call the connection, which calls them again: the argument bounds how deep. Two levels are
  enough, since a connection answers at most the submitted request itself while it takes it.
\<close>

fun manager_hooks :: "nat \<Rightarrow> menv \<Rightarrow> Manager hooks" where
  "manager_hooks 0 env =
     \<lparr>requestDone = (\<lambda>c response m. Inl Unending), connectionLost = onConnectionLost, connectionDraining = onConnectionDraining\<rparr>"
| "manager_hooks (Suc n) env =
     \<lparr>requestDone = onRequestDone (manager_hooks n env) env, connectionLost = onConnectionLost,
      connectionDraining = onConnectionDraining\<rparr>"

abbreviation hooks_of :: "menv \<Rightarrow> Manager hooks" where
  "hooks_of \<equiv> manager_hooks 2"

section \<open>Jobs of the reactor\<close>

definition drainPendingForEndpoint :: "menv \<Rightarrow> Endpoint \<Rightarrow> Manager \<Rightarrow> Manager" where
  "drainPendingForEndpoint env ep m =
     (case ep_find ep (pendingByEndpoint m) of
        None \<Rightarrow> m
      | Some pending \<Rightarrow>
          complete_all env (map pr_context pending) (failConnectionError ''Connection failed'')
            (m\<lparr>pendingByEndpoint := ep_erase ep (pendingByEndpoint m)\<rparr>))"

definition forget_connecting :: "Endpoint \<Rightarrow> Manager \<Rightarrow> Manager" where
  "forget_connecting ep m = m\<lparr>connectingEndpoints := filter (\<lambda>k. \<not> ep_eq k ep) (connectingEndpoints m)\<rparr>"

fun submit_waiting :: "menv \<Rightarrow> Endpoint \<Rightarrow> ConnectionId \<Rightarrow> PendingRequest list \<Rightarrow> Manager \<Rightarrow> Manager net" where
  "submit_waiting env ep cid [] m = Inr m"
| "submit_waiting env ep cid (pr # prs) m =
     (if canceled_of (pr_context pr) m
      then submit_waiting env ep cid prs (completeRequest env (pr_context pr) (customError ''Request canceled'') m)
      else net_bind (capacity_of cid m) (\<lambda>capacity.
        net_bind (if capacity then submit_to (hooks_of env) env cid pr m
                  else Inr (m\<lparr>pendingByEndpoint := ep_push (od_pending env) ep pr (pendingByEndpoint m)\<rparr>))
          (submit_waiting env ep cid prs)))"

definition destroy :: "ConnectionId \<Rightarrow> Manager \<Rightarrow> Manager" where
  "destroy cid m = m\<lparr>connections := (connections m)(cid := None)\<rparr>"

definition onConnectionEstablished :: "menv \<Rightarrow> Endpoint \<Rightarrow> ConnectionId \<Rightarrow> Manager \<Rightarrow> Manager net" where
  "onConnectionEstablished env ep cid m =
     net_bind (registerWithReactor env cid (forget_connecting ep m)) (\<lambda>(registered, m).
       if \<not> registered then Inr (destroy cid (drainPendingForEndpoint env ep m))
       else let m = m\<lparr>pools := ep_push (od_pools env) ep cid (pools m)\<rparr> in
         case ep_find ep (pendingByEndpoint m) of
           None \<Rightarrow> Inr m
         | Some pending \<Rightarrow>
             submit_waiting env ep cid pending (m\<lparr>pendingByEndpoint := ep_erase ep (pendingByEndpoint m)\<rparr>))"

definition onConnectionFailed :: "menv \<Rightarrow> Endpoint \<Rightarrow> Manager \<Rightarrow> Manager" where
  "onConnectionFailed env ep m = drainPendingForEndpoint env ep (forget_connecting ep m)"

text \<open>The connections that are no longer connected leave their pools and are destroyed.\<close>

definition disconnected :: "Manager \<Rightarrow> ConnectionId \<Rightarrow> bool" where
  "disconnected m cid \<longleftrightarrow> (case connections m cid of None \<Rightarrow> True | Some c \<Rightarrow> \<not> connected c)"

definition prune_pools :: "Manager \<Rightarrow> Manager" where
  "prune_pools m =
     (let lost = filter (disconnected m) (concat (map snd (pools m)))
      in fold destroy lost (m\<lparr>pools := map (\<lambda>(ep, cids). (ep, filter (\<lambda>cid. \<not> disconnected m cid) cids)) (pools m)\<rparr>))"

fun drain_requests :: "menv \<Rightarrow> PendingRequest list \<Rightarrow> Manager \<Rightarrow> Manager net" where
  "drain_requests env [] m = Inr m"
| "drain_requests env (pr # prs) m =
     (if canceled_of (pr_context pr) m
      then drain_requests env prs (completeRequest env (pr_context pr) (customError ''Request canceled'') m)
      else case pickConnectionOnReactor (pr_endpoint pr) m of
        Some cid \<Rightarrow>
          net_bind (capacity_of cid m) (\<lambda>capacity.
            net_bind (if capacity then submit_to (hooks_of env) env cid pr m
                      else Inr (m\<lparr>pendingByEndpoint := ep_push (od_pending env) (pr_endpoint pr) pr (pendingByEndpoint m)\<rparr>))
              (drain_requests env prs))
      | None \<Rightarrow>
          drain_requests env prs (enqueueConnectTask (pr_endpoint pr)
            (m\<lparr>pendingByEndpoint := ep_push (od_pending env) (pr_endpoint pr) pr (pendingByEndpoint m)\<rparr>)))"

definition drainSubmitQueue :: "menv \<Rightarrow> Manager \<Rightarrow> Manager net" where
  "drainSubmitQueue env m =
     (let m = prune_pools m in drain_requests env (submitQueue m) (m\<lparr>submitQueue := []\<rparr>))"

text \<open>The first waiting request with this id: its context, and the table without it.\<close>

fun remove_pending ::
    "u64 \<Rightarrow> store \<Rightarrow> (Endpoint \<times> PendingRequest list) list \<Rightarrow> (ctx \<times> (Endpoint \<times> PendingRequest list) list) option" where
  "remove_pending requestId h [] = None"
| "remove_pending requestId h ((ep, q) # tbl) =
     (case remove_request requestId h q of
        Some (c, q') \<Rightarrow> Some (c, (ep, q') # tbl)
      | None \<Rightarrow> map_option (\<lambda>(c, tbl'). (c, (ep, q) # tbl')) (remove_pending requestId h tbl))"

text \<open>The common part of \<open>handleCancelOnReactor\<close> and \<open>handleTimeoutOnReactor\<close>.\<close>

definition withdraw_request :: "menv \<Rightarrow> u64 \<Rightarrow> ctx \<Rightarrow> Response \<Rightarrow> Manager \<Rightarrow> Manager net" where
  "withdraw_request env requestId c response m =
     (case removeFromSubmitQueue requestId m of
        Some (queued, m) \<Rightarrow> Inr (completeRequest env queued response m)
      | None \<Rightarrow>
      case remove_pending requestId (ctxs m) (pendingByEndpoint m) of
        Some (queued, tbl) \<Rightarrow> Inr (completeRequest env queued response (m\<lparr>pendingByEndpoint := tbl\<rparr>))
      | None \<Rightarrow>
      net_bind (case requestConnections m requestId of
                  None \<Rightarrow> Inr m
                | Some cid \<Rightarrow> with_connection cid (\<lambda>cn.
                    if connected cn then cancelRequestOnReactor (hooks_of env) env cid (Some c) m else Inr m) m)
        (\<lambda>m. if \<not> finished_of c m then Inr (completeRequest env c response m) else Inr m))"

definition handleCancelOnReactor :: "menv \<Rightarrow> u64 \<Rightarrow> Manager \<Rightarrow> Manager net" where
  "handleCancelOnReactor env requestId m =
     (case findContext requestId m of
        None \<Rightarrow> Inr m
      | Some c \<Rightarrow>
          if finished_of c m then Inr m
          else let m = (if \<not> canceled_of c m then update_context c (snd \<circ> markCanceled) m else m)
               in withdraw_request env requestId c (customError ''Request canceled'') m)"

definition handleTimeoutOnReactor :: "menv \<Rightarrow> u64 \<Rightarrow> Manager \<Rightarrow> Manager net" where
  "handleTimeoutOnReactor env requestId m =
     (case findContext requestId m of
        None \<Rightarrow> Inr m
      | Some c \<Rightarrow>
          if finished_of c m then Inr m
          else withdraw_request env requestId c (customError ''Request timeout'') (update_context c (snd \<circ> markCanceled) m))"

fun close_connections :: "menv \<Rightarrow> ConnectionId list \<Rightarrow> Manager \<Rightarrow> Manager net" where
  "close_connections env [] m = Inr m"
| "close_connections env (cid # cids) m =
     net_bind (case connections m cid of
                 None \<Rightarrow> Inr m
               | Some cn \<Rightarrow> if connected cn then Connection_closeOnReactor (hooks_of env) env cid m else Inr m)
       (close_connections env cids)"

definition Manager_closeOnReactor :: "menv \<Rightarrow> Manager \<Rightarrow> Manager net" where
  "Manager_closeOnReactor env m =
     (let m = complete_all env (map pr_context (concat (map snd (pendingByEndpoint m)))) (failConnectionError ''Connection closed'') m;
          m = m\<lparr>pendingByEndpoint := [], connectingEndpoints := []\<rparr>;
          local = concat (map snd (pools m));
          m = m\<lparr>pools := []\<rparr>
      in net_bind (close_connections env local m) (\<lambda>m.
           Inr (fold destroy local (m\<lparr>requestConnections := Map.empty\<rparr>))))"

fun run_job :: "menv \<Rightarrow> job \<Rightarrow> Manager \<Rightarrow> Manager net" where
  "run_job env (Session_Readable cid) m = onSessionReadable (hooks_of env) env cid m"
| "run_job env (Session_Writable cid) m = onSessionWritable env cid m"
| "run_job env (Ping_Timer cid) m = onPingTimer (hooks_of env) env cid m"
| "run_job env (Ping_Timeout cid) m = onPingTimeout (hooks_of env) env cid m"
| "run_job env (Request_Timeout requestId) m = handleTimeoutOnReactor env requestId m"
| "run_job env Drain_Submit_Queue m = drainSubmitQueue env m"
| "run_job env (Cancel_Request requestId) m = handleCancelOnReactor env requestId m"
| "run_job env (Connection_Established ep cid) m = onConnectionEstablished env ep cid m"
| "run_job env (Connection_Failed ep) m = Inr (onConnectionFailed env ep m)"
| "run_job env Close_Manager m = Manager_closeOnReactor env m"

section \<open>The connector thread\<close>

text \<open>
  One round: the task is taken, the connection is made and tried, and the outcome is posted. A
  connection whose outcome cannot be posted is destroyed with its closure.
\<close>

definition connectorLoop_round :: "(connect_call \<Rightarrow> SocketFd cpp) \<Rightarrow> ssl_answers \<Rightarrow> Manager \<Rightarrow> Manager option" where
  "connectorLoop_round connector ssl m =
     (case connectTasks m of
        [] \<Rightarrow> None
      | task # tasks \<Rightarrow>
          let ep = ct_endpoint task;
              (ok, cn) = Connection_connect connector ssl (Connection_new (ct_connId task) ep (mg_config m));
              m = m\<lparr>connectTasks := tasks\<rparr>;
              job = (if ok then Connection_Established ep (ct_connId task) else Connection_Failed ep);
              (posted, rx) = Reactor_post (Some job) (reactor m);
              m = m\<lparr>reactor := rx\<rparr>
          in Some (if ok \<and> posted then put_connection (ct_connId task) cn m else m))"

text \<open>After \<open>close\<close> has asked it to stop, the thread still makes the connections that are queued.\<close>

fun connectorLoop_to_end :: "((connect_call \<Rightarrow> SocketFd cpp) \<times> ssl_answers) list \<Rightarrow> Manager \<Rightarrow> Manager net" where
  "connectorLoop_to_end answers m =
     (if connectTasks m = [] then Inr (m\<lparr>connectorThread := False\<rparr>)
      else case answers of
        [] \<Rightarrow> Inl Unending
      | (connector, ssl) # answers \<Rightarrow>
          (case connectorLoop_round connector ssl m of
             None \<Rightarrow> Inr m
           | Some m \<Rightarrow> connectorLoop_to_end answers m))"

declare connectorLoop_to_end.simps [simp del]

section \<open>The user's threads\<close>

definition startThreadsIfNeeded :: "platform_answers \<Rightarrow> Manager \<Rightarrow> bool \<times> Manager" where
  "startThreadsIfNeeded a m =
     (if startOnce m then (startResult m, m)
      else let m = m\<lparr>startOnce := True\<rparr>;
               (ok, d) = CallbackDispatcher_start (callbackDispatcher m);
               m = m\<lparr>callbackDispatcher := d\<rparr>
        in if \<not> ok then (startResult m, m)
           else case Reactor_start a (reactor m) of (ok, rx) \<Rightarrow>
             let m = m\<lparr>reactor := rx\<rparr> in
             if \<not> ok
             then (startResult m, m\<lparr>callbackDispatcher :=
                    (case CallbackDispatcher_stop False (callbackDispatcher m) of Inl e \<Rightarrow> callbackDispatcher m | Inr (_, d) \<Rightarrow> d)\<rparr>)
             else (True, m\<lparr>connectorStop := False, connectorThread := True, startResult := True\<rparr>))"

text \<open>
  \<open>sendAsync\<close> up to the submit queue and from there on; in between the timeout may already fire.
  The first component: whether to go on.
\<close>

definition send_begin :: "menv \<Rightarrow> platform_answers \<Rightarrow> int \<Rightarrow> bool \<Rightarrow> Manager \<Rightarrow> bool \<times> ctx \<times> Manager" where
  "send_begin env a timeout callback m =
     (let requestId = nextRequestId m;
          c = unat requestId;
          m = m\<lparr>nextRequestId := nextRequestId m + 1,
                ctxs := (ctxs m)(c := setCancelHandler (RequestContext_new requestId timeout callback))\<rparr>;
          (ok, m) = startThreadsIfNeeded a m
      in if \<not> ok
         then (False, c, completeRequest env c (failConnectionError ''Connection manager failed to start'') m)
         else let m = m\<lparr>contexts := od_contexts env ((requestId, c) # contexts m)\<rparr> in
           if timeout < 0 then (True, c, m)
           else case scheduleOnce (en_before env) (en_now env) (en_armNow env) timeout (Some (Request_Timeout requestId)) (reactor m) of
             (timerId, rx) \<Rightarrow>
               let m = m\<lparr>reactor := rx\<rparr> in
               if timerId = 0 then (False, c, completeRequest env c (failConnectionError ''Failed to schedule timeout'') m)
               else (True, c, update_context c (setTimerId timerId) m))"

definition send_finish :: "menv \<Rightarrow> PendingRequest \<Rightarrow> Manager \<Rightarrow> Manager" where
  "send_finish env pr m =
     (let m = m\<lparr>submitQueue := submitQueue m @ [pr]\<rparr>;
          (posted, rx) = Reactor_post (Some Drain_Submit_Queue) (reactor m);
          m = m\<lparr>reactor := rx\<rparr>
      in if posted then m
         else let m = (case removeFromSubmitQueue (REQUEST_ID (ctxs m (pr_context pr))) m of None \<Rightarrow> m | Some (_, m) \<Rightarrow> m)
              in completeRequest env (pr_context pr) (failConnectionError ''Reactor is not running'') m)"

definition sendAsync :: "menv \<Rightarrow> platform_answers \<Rightarrow> Request \<Rightarrow> Endpoint \<Rightarrow> int \<Rightarrow> bool \<Rightarrow> Manager \<Rightarrow> ctx \<times> Manager" where
  "sendAsync env a request ep timeout callback m =
     (case send_begin env a timeout callback m of (go_on, c, m) \<Rightarrow>
        if \<not> go_on then (c, m)
        else (c, send_finish env \<lparr>pr_request = request, pr_endpoint = ep, pr_context = c\<rparr> m))"

definition Manager_cancel :: "menv \<Rightarrow> u64 \<Rightarrow> Manager \<Rightarrow> (bool \<times> Manager) net" where
  "Manager_cancel env requestId m =
     (case findContext requestId m of
        None \<Rightarrow> Inr (False, m)
      | Some c \<Rightarrow>
          if finished_of c m then Inr (False, m)
          else let m = update_context c (snd \<circ> markCanceled) m in
            case Reactor_post (Some (Cancel_Request requestId)) (reactor m) of (posted, rx) \<Rightarrow>
              let m = m\<lparr>reactor := rx\<rparr> in
              if posted then Inr (True, m)
              else net_bind (handleCancelOnReactor env requestId m) (\<lambda>m. Inr (True, m)))"

text \<open>\<open>Operation::cancel\<close> of a context that is alive: the context calls its cancel handler.\<close>

definition cancel_operation :: "menv \<Rightarrow> ctx \<Rightarrow> Manager \<Rightarrow> (bool \<times> Manager) net" where
  "cancel_operation env c m =
     (case RequestContext_cancel (ctxs m c) of (b, rc, handler) \<Rightarrow>
        let m = update_context c (\<lambda>_. rc) m in
        case handler of
          None \<Rightarrow> Inr (b, m)
        | Some requestId \<Rightarrow> net_bind (Manager_cancel env requestId m) (\<lambda>(_, m). Inr (b, m)))"

text \<open>The dispatcher's thread runs one callback; and all of them, when it is stopped.\<close>

definition dispatch_callback :: "Manager \<Rightarrow> Manager option" where
  "dispatch_callback m =
     (case runLoop_section (callbackDispatcher m) of
        (Runs (c, response), d) \<Rightarrow> Some (call_back c response (m\<lparr>callbackDispatcher := d\<rparr>))
      | _ \<Rightarrow> None)"

definition stop_dispatcher :: "Manager \<Rightarrow> Manager net" where
  "stop_dispatcher m =
     net_bind (lift (CallbackDispatcher_stop False (callbackDispatcher m))) (\<lambda>(tasks, d).
       Inr (fold (\<lambda>(c, response). call_back c response) tasks (m\<lparr>callbackDispatcher := d\<rparr>)))"

text \<open>
  \<open>reactor.stop()\<close>: the loop ends and runs what is posted; \<open>fuel\<close> bounds the tasks.
\<close>

definition stop_reactor :: "nat \<Rightarrow> menv \<Rightarrow> Manager \<Rightarrow> Manager net" where
  "stop_reactor fuel env m =
     (if \<not> rx_running (reactor m) then Inr m
      else net_bind (lift (Reactor_stop_request False (reactor m))) (\<lambda>rx.
        net_bind (if rx_worker rx then runLoop fuel (run_job env) [] (m\<lparr>reactor := rx\<rparr>) else Inr (m\<lparr>reactor := rx\<rparr>)) (\<lambda>m.
          Inr (m\<lparr>reactor := Reactor_stop_finish (reactor m)\<rparr>))))"

definition Manager_close ::
    "nat \<Rightarrow> ((connect_call \<Rightarrow> SocketFd cpp) \<times> ssl_answers) list \<Rightarrow> menv \<Rightarrow> Manager \<Rightarrow> Manager net" where
  "Manager_close fuel answers env m =
     net_bind (let m = m\<lparr>connectorStop := True\<rparr> in
               if connectorThread m then connectorLoop_to_end answers m else Inr m) (\<lambda>m.
     net_bind (stop_reactor fuel env
                 (if rx_running (reactor m) then m\<lparr>reactor := snd (Reactor_post (Some Close_Manager) (reactor m))\<rparr> else m)) (\<lambda>m.
     net_bind (stop_dispatcher m) (\<lambda>m.
       let closed = failConnectionError ''Connection closed''
       in Inr (failAllContexts env closed (failQueuedRequests env closed m)))))"

end
