(* ===== verification/Connection_Client.thy ===== *)
theory Connection_Client
  imports Connection Session_Inv
begin

text \<open>
  What a connection asks of the one who made it: the locale \<open>connection_client\<close> states what
  the handlers must keep true of the world, and has one lemma for each operation of the
  connection that keeps it. The contexts that a connection answers are among those its session holds.
\<close>

section \<open>The connection and its client\<close>

lemma net_bind_Inr: "net_bind r f = Inr y \<longleftrightarrow> (\<exists>x. r = Inr x \<and> f x = Inr y)"
  by (cases r) auto

lemma with_connection_Inr: "with_connection cid f w = Inr y \<longleftrightarrow> (\<exists>c. connections w cid = Some c \<and> f c = Inr y)"
  by (auto simp: with_connection_def split: option.splits)

lemma lift_InrE: "lift r = Inr x \<Longrightarrow> (r = Inr x \<Longrightarrow> P) \<Longrightarrow> P"
  by (cases r) auto

lemmas net_simps = net_bind_Inr with_connection_Inr

lemma Session_submit_store:
  assumes "Session_submit order corder request c h s = Inr (es, h', s')"
  shows "h' = h \<or> (\<exists>sid. h' = h(c := setStreamId sid (h c)))"
  using assms by (auto simp: Session_submit_def cpp_simps Let_def split: if_splits prod.splits)

text \<open>
  The contexts a session holds. An operation of the session answers only contexts it held, or the
  one it is given.
\<close>

definition ctx_set :: "Http2Session \<Rightarrow> ctx set" where
  "ctx_set s = snd ` set (streamContexts s)"

definition answers_ctxs :: "SessionEvent list \<Rightarrow> ctx set" where
  "answers_ctxs es = {c. \<exists>response. REQUEST_DONE c response \<in> set es}"

definition answers_within :: "ctx set \<Rightarrow> SessionEvent list \<times> Http2Session \<Rightarrow> bool" where
  "answers_within C r \<longleftrightarrow> answers_ctxs (fst r) \<subseteq> C \<and> ctx_set (snd r) \<subseteq> C"

lemma answers_ctxs_simps [simp]:
  "answers_ctxs [] = {}" "answers_ctxs (es @ es') = answers_ctxs es \<union> answers_ctxs es'"
  "answers_ctxs (REQUEST_DONE c response # es) = insert c (answers_ctxs es)"
  "answers_ctxs (SESSION_CLOSING # es) = answers_ctxs es" "answers_ctxs (SESSION_DEAD # es) = answers_ctxs es"
  "answers_ctxs (PING_ACK # es) = answers_ctxs es"
  by (auto simp: answers_ctxs_def)

lemma ctx_set_simps [simp]:
  "ctx_set (fold enqueueOutbound bs s) = ctx_set s" "ctx_set (s\<lparr>ss_protocol := p\<rparr>) = ctx_set s"
  "ctx_set (s\<lparr>ss_outbound := out\<rparr>) = ctx_set s" "ctx_set (s\<lparr>ss_transport := t\<rparr>) = ctx_set s"
  "ctx_set (s\<lparr>ss_healthy := b\<rparr>) = ctx_set s" "ctx_set (s\<lparr>ss_started := b\<rparr>) = ctx_set s" "ctx_set (s\<lparr>ss_goingAway := b\<rparr>) = ctx_set s"
  by (simp_all add: ctx_set_def)

lemma answer_within: "ctx_set s \<subseteq> C \<Longrightarrow> answers_within C (answer_context sid response s)"
  by (auto simp: answer_context_def answers_within_def ctx_set_def context_at_def erase_context_def split: option.splits
      dest!: map_of_SomeD)

lemma fail_within: "ctx_set s \<subseteq> C \<Longrightarrow> answers_within C (Session_failAllStreams response s)"
  by (auto simp: Session_failAllStreams_def answers_within_def ctx_set_def answers_ctxs_def)

lemmas within_simps = fail_within [unfolded answers_within_def] answer_within [unfolded answers_within_def]

lemma translateEvent_within: "ctx_set s \<subseteq> C \<Longrightarrow> answers_within C (translateEvent pe s)"
  by (cases pe) (simp_all add: translateEvent_def answers_within_def within_simps Let_def case_prod_unfold)

lemma translateEvents_within: "ctx_set s \<subseteq> C \<Longrightarrow> answers_within C (translateEvents pes s)"
proof (induction pes arbitrary: s)
  case (Cons pe pes)
  then show ?case using translateEvent_within [of s C pe] by (simp add: answers_within_def case_prod_unfold)
qed (simp add: answers_within_def)

lemmas translate_simps = within_simps translateEvents_within [unfolded answers_within_def]

lemma failure_within: "ctx_set s \<subseteq> C \<Longrightarrow> answers_within C (handleTransportFailure s)"
  by (simp add: handleTransportFailure_def consumeStepResult_def Let_def case_prod_unfold answers_within_def within_simps)

lemma close_within: "ctx_set s \<subseteq> C \<Longrightarrow> answers_within C (Session_close s)"
  by (simp add: Session_close_def consumeStepResult_def Let_def case_prod_unfold answers_within_def within_simps)

lemma cancel_stream_within: "ctx_set s \<subseteq> C \<Longrightarrow> answers_within C (cancel_stream_of sid s)"
  by (simp add: cancel_stream_of_def consumeStepResult_def Let_def case_prod_unfold answers_within_def translate_simps)

lemma cancel_within: "ctx_set s \<subseteq> C \<Longrightarrow> answers_within C (Session_cancelRequest c h s)"
  using cancel_stream_within [of s C] by (auto simp: Session_cancelRequest_def Let_def answers_within_def split: option.splits)

lemma ping_within: "ctx_set s \<subseteq> C \<Longrightarrow> answers_within C (Session_sendPing s)"
  by (simp add: Session_sendPing_def answers_within_def case_prod_unfold Let_def)

lemma permutes_set: "permutes_entries order \<Longrightarrow> set (order es) = set es"
  unfolding permutes_entries_def by (blast dest: mset_eq_setD)

lemma put_ctx_set: "permutes_entries corder \<Longrightarrow> ctx_set (put_context corder sid c s) \<subseteq> insert c (ctx_set s)"
  by (auto simp: put_context_def ctx_set_def permutes_set split: if_splits)

lemma submit_within:
  assumes "Session_submit order corder request c h s = Inr (es, h', s')" and "ctx_set s \<subseteq> C" and "c \<in> C" and "permutes_entries corder"
  shows "answers_within C (es, s')"
proof (cases "Session_isHealthy s")
  case True
  then obtain p r where r: "submitRequest order request (ss_protocol s) = Inr (p, r)"
    using assms(1) by (auto simp: Session_submit_def cpp_simps)
  let ?s = "if hasSubmittedStream r then put_context corder (submittedStreamId r) c (s\<lparr>ss_protocol := p\<rparr>) else s\<lparr>ss_protocol := p\<rparr>"
  let ?t = "translateEvents (events r) (fold enqueueOutbound (outbound r) ?s)"
  have "ctx_set ?s \<subseteq> C" using put_ctx_set [OF assms(4), of "submittedStreamId r" c "s\<lparr>ss_protocol := p\<rparr>"] assms(2,3) by auto
  then have t: "answers_within C ?t" by (intro translateEvents_within) simp
  then have u: "answers_within C (cancel_stream_of sid (snd ?t))" for sid by (intro cancel_stream_within) (simp add: answers_within_def)
  have "(es, s') = ?t \<or> (\<exists>sid. (es, s') = (fst ?t @ fst (cancel_stream_of sid (snd ?t)), snd (cancel_stream_of sid (snd ?t))))"
    using assms(1) r True by (auto simp: Session_submit_def consumeStepResult_def Let_def case_prod_unfold split: if_splits)
  then show ?thesis
  proof (elim disjE exE)
    fix sid
    assume "(es, s') = (fst ?t @ fst (cancel_stream_of sid (snd ?t)), snd (cancel_stream_of sid (snd ?t)))"
    then show ?thesis using t u [of sid] by (simp add: answers_within_def)
  qed (use t in simp)
next
  case False
  then show ?thesis using assms(1-3) by (auto simp: Session_submit_def answers_within_def)
qed

lemma read_loop_within:
  "ctx_set s \<subseteq> C \<Longrightarrow> answers_ctxs acc \<subseteq> C \<Longrightarrow> read_loop reads s acc = Inr (es, s') \<Longrightarrow> answers_within C (es, s')"
proof (induction reads arbitrary: s acc)
  case Nil
  then show ?case by (auto simp: answers_within_def)
next
  case (Cons read reads)
  obtain a buffer where r: "read = (a, buffer)" by fastforce
  obtain t where t: "ss_transport s = Some t" using Cons.prems(3) by (cases "ss_transport s") (simp_all add: r)
  let ?io = "transport_io a 8192 t"
  consider "io_state ?io = IO_CLOSED \<or> io_state ?io = IO_ERR"
    | "io_state ?io = IO_WOULD_BLOCK \<or> io_state ?io = IO_OK \<and> io_bytes ?io = 0" | "io_state ?io = IO_OK" "io_bytes ?io \<noteq> 0"
    by (cases "io_state ?io") auto
  then show ?case
  proof cases
    case 1
    then have "(es, s') = handleTransportFailure s" using Cons.prems(3) by (auto simp: r t Let_def)
    then show ?thesis using failure_within [OF Cons.prems(1)] by simp
  next
    case 2
    then have "(es, s') = (acc, s)" using Cons.prems(3) by (auto simp: r t Let_def)
    then show ?thesis using Cons.prems(1,2) by (simp add: answers_within_def)
  next
    case 3
    then obtain p q where q: "receiveBytes (take (io_bytes ?io) buffer) (ss_protocol s) = Inr (p, q)"
      using Cons.prems(3) by (auto simp: r t Let_def cpp_simps)
    let ?t = "translateEvents (events q) (fold enqueueOutbound (outbound q) (s\<lparr>ss_protocol := p\<rparr>))"
    have "read_loop reads (snd ?t) (acc @ fst ?t) = Inr (es, s')"
      using Cons.prems(3) 3 q by (simp add: r t Let_def case_prod_unfold)
    moreover have "answers_within C ?t" using translateEvents_within Cons.prems(1) by simp
    ultimately show ?thesis using Cons.IH [of "snd ?t" "acc @ fst ?t"] Cons.prems(2) by (simp add: answers_within_def)
  qed
qed

lemma readable_within:
  "ctx_set s \<subseteq> C \<Longrightarrow> Session_onReadable reads s = Inr (es, s') \<Longrightarrow> answers_within C (es, s')"
  using read_loop_within [of s C "[]" reads es s'] by (auto simp: Session_onReadable_def answers_within_def split: if_splits)

lemma write_loop_no_transport:
  "ss_transport s = None \<Longrightarrow> write_loop writes s = Inr (out, s') \<Longrightarrow> s' = s\<lparr>ss_outbound := []\<rparr>"
proof (induction "ss_outbound s" arbitrary: s)
  case Nil
  then show ?case by (simp add: write_loop.simps [of writes s])
next
  case (Cons chunk chunks)
  have o: "ss_outbound s = chunk # chunks" using Cons.hyps(2) by simp
  then have "write_loop writes (s\<lparr>ss_outbound := chunks\<rparr>) = Inr (out, s')"
    using Cons.prems by (simp add: write_loop.simps [of writes s] Let_def split: if_splits)
  then show ?case using Cons.hyps(1) [of "s\<lparr>ss_outbound := chunks\<rparr>"] Cons.prems(1) by simp
qed

lemma writable_within:
  assumes "Session_onWritable writes s = Inr (out, s')" and "ctx_set s \<subseteq> C"
  shows "ctx_set s' \<subseteq> C"
proof (cases "Session_isHealthy s")
  case True
  then have w: "write_loop writes s = Inr (out, s')" using assms(1) by (simp add: Session_onWritable_def)
  show ?thesis
  proof (cases "ss_transport s")
    case None
    then show ?thesis using write_loop_no_transport [OF None w] assms(2) by simp
  next
    case (Some t)
    then have "wrote writes s out s'" using write_loop_spec [OF Some, of writes] w by auto
    then obtain chunks where "s' = s\<lparr>ss_outbound := chunks\<rparr> \<or> s' = snd (handleTransportFailure (s\<lparr>ss_outbound := chunks\<rparr>))"
      by (auto simp: wrote_def Let_def)
    then show ?thesis using assms(2) failure_within [of "s\<lparr>ss_outbound := chunks\<rparr>" C] by (auto simp: answers_within_def)
  qed
qed (use assms in \<open>simp add: Session_onWritable_def\<close>)

section \<open>The contract of the handlers\<close>

text \<open>\<open>K\<close> are the contexts that are known to the client; a session holds no others.\<close>

locale connection_client =
  fixes hk :: "'z Net_scheme hooks"
    and K :: "ctx set"
    and inv :: "'z Net_scheme \<Rightarrow> bool"
  assumes done_inv: "inv w \<Longrightarrow> c \<in> K \<Longrightarrow> requestDone hk c r w = Inr w' \<Longrightarrow> inv w'"
    and lost_inv: "inv w \<Longrightarrow> connectionLost hk cid w = Inr w' \<Longrightarrow> inv w'"
    and draining_inv: "inv w \<Longrightarrow> connectionDraining hk cid w = Inr w' \<Longrightarrow> inv w'"
    and reactor_inv: "inv w \<Longrightarrow> inv (w\<lparr>reactor := rx\<rparr>)"
    and put_inv: "inv w \<Longrightarrow> ctx_set (cn_session cn) \<subseteq> K \<Longrightarrow> inv (put_connection cid cn w)"
    and stream_inv: "inv w \<Longrightarrow> inv (w\<lparr>ctxs := (ctxs w)(c := setStreamId sid (ctxs w c))\<rparr>)"
    and held_known: "inv w \<Longrightarrow> connections w cid = Some cn \<Longrightarrow> ctx_set (cn_session cn) \<subseteq> K"
begin

lemma field_inv:
  assumes "inv w" and "connections w cid = Some cn" and "cn_session cn' = cn_session cn"
  shows "inv (put_connection cid cn' w)" and "inv (put_connection cid cn' (w\<lparr>reactor := rx\<rparr>))"
  using assms held_known [OF assms(1,2)] by (simp_all add: put_inv reactor_inv)

lemma schedule_inv:
  assumes "inv w" and "schedulePingTimer env cid w = Inr w'"
  shows "inv w'"
proof -
  obtain cn tid rx where "connections w cid = Some cn"
    "w' = w \<or> w' = put_connection cid (cn\<lparr>pingTimerId := tid\<rparr>) (w\<lparr>reactor := rx\<rparr>)"
    using assms(2) by (auto simp: schedulePingTimer_def net_simps case_prod_unfold split: if_splits)
  then show ?thesis using assms(1) field_inv(2) [OF assms(1)] by auto
qed

lemma cancel_timers_inv:
  assumes "inv w" and "cancelPingTimers env cid w = Inr w'"
  shows "inv w'"
proof -
  obtain cn where cn: "connections w cid = Some cn" using assms(2) by (auto simp: cancelPingTimers_def net_simps)
  let ?p = "if pingTimerId cn \<noteq> 0 then snd (cancelTimer (en_armNow env) (pingTimerId cn) (reactor w)) else reactor w"
  let ?q = "if pingTimeoutTimerId cn \<noteq> 0 then snd (cancelTimer (en_armNow env) (pingTimeoutTimerId cn) ?p) else ?p"
  have "w' = put_connection cid (cn\<lparr>pingTimerId := 0, pingTimeoutTimerId := 0, pendingPing := False\<rparr>) (w\<lparr>reactor := ?q\<rparr>)"
    using assms(2) cn by (cases cn; cases "pingTimerId cn = 0"; cases "pingTimeoutTimerId cn = 0")
      (simp_all add: cancelPingTimers_def with_connection_def Let_def)
  then show ?thesis using field_inv(2) [OF assms(1) cn] by simp
qed

lemma unregister_inv:
  assumes "inv w" and "unregisterSession cid w = Inr w'"
  shows "inv w'"
proof -
  obtain cn rx where "connections w cid = Some cn"
    "w' = w \<or> w' = put_connection cid (cn\<lparr>sessionFd := INVALID_SOCKET\<rparr>) (w\<lparr>reactor := rx\<rparr>)"
    using assms(2) by (auto simp: unregisterSession_def net_simps split: if_splits)
  then show ?thesis using assms(1) field_inv(2) [OF assms(1)] by auto
qed

lemma update_inv: "inv w \<Longrightarrow> updateWriteInterest env cid w = Inr w' \<Longrightarrow> inv w'"
  by (auto simp: updateWriteInterest_def net_simps split: if_splits intro: reactor_inv)

lemma ping_ack_inv:
  assumes "inv w" and "process_ping_ack env cid w = Inr w'"
  shows "inv w'"
proof -
  obtain cn where cn: "connections w cid = Some cn" using assms(2) by (auto simp: process_ping_ack_def net_simps)
  show ?thesis
  proof (cases "pendingPing cn")
    case True
    have "\<exists>cn' rx. cn_session cn' = cn_session cn \<and> schedulePingTimer env cid (put_connection cid cn' (w\<lparr>reactor := rx\<rparr>)) = Inr w'"
    proof (cases "pingTimeoutTimerId cn = 0")
      case True
      then show ?thesis using assms(2) cn \<open>pendingPing cn\<close>
        by (intro exI [of _ "cn\<lparr>pendingPing := False\<rparr>"] exI [of _ "reactor w"]) (simp add: process_ping_ack_def net_simps Let_def)
    next
      case False
      then show ?thesis using assms(2) cn \<open>pendingPing cn\<close>
        by (intro exI [of _ "cn\<lparr>pendingPing := False, pingTimeoutTimerId := 0\<rparr>"]
            exI [of _ "snd (cancelTimer (en_armNow env) (pingTimeoutTimerId cn) (reactor w))"])
           (simp add: process_ping_ack_def net_simps Let_def)
    qed
    then show ?thesis using field_inv(2) [OF assms(1) cn] schedule_inv by blast
  next
    case False
    then show ?thesis using assms cn by (simp add: process_ping_ack_def net_simps)
  qed
qed

lemma event_inv:
  assumes "inv w" and "answers_ctxs [e] \<subseteq> K" and "processSessionEvent hk env cid e w = Inr w'"
  shows "inv w'"
proof (cases e)
  case (REQUEST_DONE c response)
  then show ?thesis using assms done_inv by (simp add: processSessionEvent_def)
next
  case SESSION_CLOSING
  then show ?thesis using assms draining_inv by (simp add: processSessionEvent_def)
next
  case SESSION_DEAD
  then obtain cn w1 w2 where s: "connections w cid = Some cn"
    "cancelPingTimers env cid (put_connection cid (cn\<lparr>connected := False\<rparr>) w) = Inr w1" "unregisterSession cid w1 = Inr w2"
    "connectionLost hk cid w2 = Inr w'" using assms(3) by (auto simp: processSessionEvent_def net_simps)
  have "inv (put_connection cid (cn\<lparr>connected := False\<rparr>) w)" using put_inv [OF assms(1)] held_known [OF assms(1) s(1)] by simp
  then show ?thesis using s cancel_timers_inv unregister_inv lost_inv by blast
next
  case PING_ACK
  then show ?thesis using assms ping_ack_inv by (simp add: processSessionEvent_def)
qed

lemma events_inv: "inv w \<Longrightarrow> answers_ctxs es \<subseteq> K \<Longrightarrow> processSessionEvents hk env cid es w = Inr w' \<Longrightarrow> inv w'"
proof (induction es arbitrary: w)
  case (Cons e es)
  obtain w1 where w1: "processSessionEvent hk env cid e w = Inr w1" "processSessionEvents hk env cid es w1 = Inr w'"
    using Cons.prems(3) by (auto simp: net_simps)
  have a: "answers_ctxs [e] \<subseteq> K" "answers_ctxs es \<subseteq> K" using Cons.prems(2) by (auto simp: answers_ctxs_def)
  then have "inv w1" using event_inv [OF Cons.prems(1) _ w1(1)] by blast
  then show ?case using Cons.IH a(2) w1(2) by blast
qed simp

text \<open>An operation of the session, and then its events.\<close>

lemma session_inv:
  assumes "inv w" and "connections w cid = Some cn" and "ctx_set (cn_session cn) \<subseteq> K \<Longrightarrow> answers_within K (es, s)"
    and "processSessionEvents hk env cid es (put_connection cid (cn'\<lparr>cn_session := s\<rparr>) w) = Inr w'"
  shows "inv w'"
proof -
  have a: "answers_ctxs es \<subseteq> K" "ctx_set s \<subseteq> K"
    using assms(3) [OF held_known [OF assms(1,2)]] by (simp_all add: answers_within_def)
  then have "inv (put_connection cid (cn'\<lparr>cn_session := s\<rparr>) w)" using put_inv [OF assms(1)] by simp
  then show ?thesis using events_inv a(1) assms(4) by blast
qed

lemma register_inv:
  assumes "inv w" and "registerWithReactor env cid w = Inr (b, w')"
  shows "inv w'"
proof -
  obtain cn where cn: "connections w cid = Some cn" using assms(2) by (auto simp: registerWithReactor_def net_simps)
  note held = held_known [OF assms(1) cn]
  have "inv (put_connection cid (cn\<lparr>connected := False, cn_session := snd (Session_close (cn_session cn))\<rparr>) (w\<lparr>reactor := rx\<rparr>))" for rx
    using close_within [OF held] by (intro put_inv reactor_inv assms(1)) (simp add: answers_within_def)
  moreover have "\<And>rx w'. schedulePingTimer env cid (w\<lparr>reactor := rx\<rparr>) = Inr w' \<Longrightarrow> inv w'"
    using schedule_inv reactor_inv [OF assms(1)] by blast
  ultimately show ?thesis using assms cn
    by (auto simp: registerWithReactor_def net_simps Let_def case_prod_unfold split: if_splits)
qed

lemma close_inv:
  assumes "inv w" and "Connection_closeOnReactor hk env cid w = Inr w'"
  shows "inv w'"
proof (cases "w' = w")
  case False
  then obtain cn w1 w2 cn2 where s: "connections w cid = Some cn"
    "cancelPingTimers env cid (put_connection cid (cn\<lparr>connected := False\<rparr>) w) = Inr w1" "unregisterSession cid w1 = Inr w2"
    "connections w2 cid = Some cn2"
    "processSessionEvents hk env cid (fst (Session_close (cn_session cn2)))
       (put_connection cid (cn2\<lparr>cn_session := snd (Session_close (cn_session cn2))\<rparr>) w2) = Inr w'"
    using assms(2) by (auto simp: Connection_closeOnReactor_def net_simps case_prod_unfold split: if_splits)
  have "inv (put_connection cid (cn\<lparr>connected := False\<rparr>) w)" using put_inv [OF assms(1)] held_known [OF assms(1) s(1)] by simp
  then have "inv w2" using s(2,3) cancel_timers_inv unregister_inv by blast
  then show ?thesis using session_inv [OF _ s(4) _ s(5)] close_within [of "cn_session cn2" K] by simp
qed (use assms(1) in simp)

lemma submit_inv:
  assumes "inv w" and "c \<in> K" and "permutes_entries (en_corder env)" and "submitOnReactor hk env cid request c w = Inr (b, w')"
  shows "inv w'"
proof (cases "w' = w")
  case False
  then obtain cn es h s w1 where cn: "connections w cid = Some cn"
    "Session_submit (en_order env) (en_corder env) request c (ctxs w) (cn_session cn) = Inr (es, h, s)"
    "processSessionEvents hk env cid es (put_connection cid (cn\<lparr>cn_session := s\<rparr>) (w\<lparr>ctxs := h\<rparr>)) = Inr w1"
    "updateWriteInterest env cid w1 = Inr w'"
    using assms(4) by (auto simp: submitOnReactor_def net_simps case_prod_unfold split: if_splits elim!: lift_InrE)
  have "inv (w\<lparr>ctxs := h\<rparr>)" using Session_submit_store [OF cn(2)] assms(1) stream_inv by auto
  then have "inv w1" using session_inv [OF _ _ _ cn(3), of cn] submit_within [OF cn(2) _ assms(2,3)] cn(1) by simp
  then show ?thesis using cn(4) update_inv by blast
qed (use assms(1) in simp)

lemma cancel_inv:
  assumes "inv w" and "cancelRequestOnReactor hk env cid context w = Inr w'"
  shows "inv w'"
proof -
  obtain cn w1 where s: "connections w cid = Some cn"
    "processSessionEvents hk env cid (fst (Session_cancelRequest context (ctxs w) (cn_session cn)))
       (put_connection cid (cn\<lparr>cn_session := snd (Session_cancelRequest context (ctxs w) (cn_session cn))\<rparr>) w) = Inr w1"
    "updateWriteInterest env cid w1 = Inr w'"
    using assms(2) by (auto simp: cancelRequestOnReactor_def net_simps case_prod_unfold)
  have "inv w1" using session_inv [OF assms(1) s(1) _ s(2)] cancel_within [of "cn_session cn" K] by simp
  then show ?thesis using s(3) update_inv by blast
qed

lemma readable_inv:
  assumes "inv w" and "onSessionReadable hk env cid w = Inr w'"
  shows "inv w'"
proof (cases "w' = w")
  case False
  then obtain cn es s w1 where s: "connections w cid = Some cn" "Session_onReadable (en_reads env) (cn_session cn) = Inr (es, s)"
    "processSessionEvents hk env cid es (put_connection cid (cn\<lparr>cn_session := s\<rparr>) w) = Inr w1"
    "updateWriteInterest env cid w1 = Inr w'"
    using assms(2) by (auto simp: onSessionReadable_def net_simps case_prod_unfold split: if_splits elim!: lift_InrE)
  have "inv w1" using session_inv [OF assms(1) s(1) _ s(3)] readable_within [OF _ s(2)] by blast
  then show ?thesis using s(4) update_inv by blast
qed (use assms(1) in simp)

lemma writable_inv:
  assumes "inv w" and "onSessionWritable env cid w = Inr w'"
  shows "inv w'"
proof (cases "w' = w")
  case False
  then obtain cn out s where s: "connections w cid = Some cn" "Session_onWritable (en_writes env) (cn_session cn) = Inr (out, s)"
    "updateWriteInterest env cid (put_connection cid (cn\<lparr>cn_session := s\<rparr>) w) = Inr w'"
    using assms(2) by (auto simp: onSessionWritable_def net_simps case_prod_unfold split: if_splits elim!: lift_InrE)
  have "ctx_set s \<subseteq> K" using writable_within [OF s(2)] held_known [OF assms(1) s(1)] by blast
  then have "inv (put_connection cid (cn\<lparr>cn_session := s\<rparr>) w)" using put_inv [OF assms(1)] by simp
  then show ?thesis using s(3) update_inv by blast
qed (use assms(1) in simp)

lemma timer_inv:
  assumes "inv w" and "onPingTimer hk env cid w = Inr w'"
  shows "inv w'"
proof -
  obtain cn where cn: "connections w cid = Some cn" using assms(2) by (auto simp: onPingTimer_def net_simps Let_def)
  let ?cn = "cn\<lparr>pingTimerId := 0\<rparr>" and ?w = "put_connection cid (cn\<lparr>pingTimerId := 0\<rparr>) w"
  have w: "inv ?w" using put_inv [OF assms(1)] held_known [OF assms(1) cn] by simp
  have at: "connections ?w cid = Some ?cn" by (simp add: put_connection_def)
  show ?thesis
  proof (cases "\<not> connected cn \<or> pendingPing cn \<or> 0 < Session_activeStreamCount (cn_session cn)")
    case True
    then have "w' = ?w \<or> schedulePingTimer env cid ?w = Inr w'"
      using assms(2) cn by (auto simp: onPingTimer_def with_connection_def Let_def split: if_splits)
    then show ?thesis using w schedule_inv by blast
  next
    case False
    let ?s = "Session_sendPing (cn_session cn)"
    obtain w1 w2 cn2 where s: "processSessionEvents hk env cid (fst ?s) (put_connection cid (?cn\<lparr>cn_session := snd ?s\<rparr>) ?w) = Inr w1"
      "updateWriteInterest env cid w1 = Inr w2" "connections w2 cid = Some cn2"
      and w': "(let c = cn2\<lparr>pendingPing := True\<rparr>; w = put_connection cid c w2 in
         if 0 < cn_pingTimeoutSec c
         then net_bind (lift (i32 (cn_pingTimeoutSec c * 1000))) (\<lambda>ms.
           case scheduleOnce (en_before env) (en_now env) (en_armNow env) ms (Some (Ping_Timeout cid)) (reactor w) of (tid, rx) \<Rightarrow>
             Inr (put_connection cid (c\<lparr>pingTimeoutTimerId := tid\<rparr>) (w\<lparr>reactor := rx\<rparr>)))
         else Inr w) = Inr w'"
      using assms(2) False cn by (simp add: onPingTimer_def net_simps Let_def case_prod_unfold) blast
    have "inv w1" using session_inv [OF w at _ s(1)] ping_within [of "cn_session cn" K] by simp
    then have w2: "inv w2" using s(2) update_inv by blast
    have "inv (put_connection cid (cn2\<lparr>pendingPing := True, pingTimeoutTimerId := tid\<rparr>) ((put_connection cid (cn2\<lparr>pendingPing := True\<rparr>) w2)\<lparr>reactor := rx\<rparr>))"
      and p: "inv (put_connection cid (cn2\<lparr>pendingPing := True\<rparr>) w2)" for tid rx
      using held_known [OF w2 s(3)] by (auto intro!: put_inv reactor_inv w2)
    then show ?thesis using w' by (cases "0 < cn_pingTimeoutSec cn2") (auto simp: Let_def net_simps case_prod_unfold)
  qed
qed

lemma timeout_inv:
  assumes "inv w" and "onPingTimeout hk env cid w = Inr w'"
  shows "inv w'"
proof -
  obtain cn where cn: "connections w cid = Some cn" using assms(2) by (auto simp: onPingTimeout_def net_simps Let_def)
  note held = held_known [OF assms(1) cn]
  have w: "inv (put_connection cid (cn\<lparr>pingTimeoutTimerId := 0\<rparr>) w)" using put_inv [OF assms(1)] held by simp
  then have "inv (put_connection cid (cn\<lparr>pingTimeoutTimerId := 0, pendingPing := False\<rparr>) (put_connection cid (cn\<lparr>pingTimeoutTimerId := 0\<rparr>) w))"
    using put_inv held by simp
  then show ?thesis using assms(2) cn w
    by (auto simp: onPingTimeout_def net_simps Let_def split: if_splits elim!: lost_inv [rotated] close_inv [rotated])
qed

end

end
