(* ===== verification/Manager_Requests.thy ===== *)
theory Manager_Requests
  imports Manager Connection_Client
begin

text \<open>
  Every request is answered once: a request that was sent and not answered is in the table of
  contexts, and its completion callback has been called or queued exactly once if it is answered. Each handler of the
  manager keeps this, by the lemmas of \<open>connection_client\<close> for the connections it uses.
\<close>

section \<open>Requests and their answers\<close>

text \<open>
  The callbacks that have been called or are queued for the dispatcher's thread. A context without a
  handler is queued too, but calling it back does nothing.
\<close>

definition delivered :: "Manager \<Rightarrow> ctx multiset" where
  "delivered m = mset (map fst (called m)) +
     filter_mset (\<lambda>c. completionHandler (ctxs m c)) (mset (map fst (cd_tasks (callbackDispatcher m))))"

definition issued :: "Manager \<Rightarrow> u64 \<Rightarrow> bool" where
  "issued m k \<longleftrightarrow> k \<noteq> 0 \<and> k < nextRequestId m"

text \<open>The addresses of the contexts that were made: the numbers of the requests issued so far.\<close>

definition known :: "Manager \<Rightarrow> ctx set" where
  "known m = {c. 0 < c \<and> c < unat (nextRequestId m)}"

text \<open>A dispatcher that does not run has nothing queued; it does not run before the first request.\<close>

definition threads_ok :: "Manager \<Rightarrow> bool" where
  "threads_ok m \<longleftrightarrow> (cd_running (callbackDispatcher m) \<or> cd_tasks (callbackDispatcher m) = []) \<and>
     (startOnce m \<or> \<not> cd_running (callbackDispatcher m))"

text \<open>
  The requests that are not answered are those in the table, and a callback was delivered once
  for each that is.
\<close>

definition requests_ok :: "Manager \<Rightarrow> bool" where
  "requests_ok m \<longleftrightarrow>
     nextRequestId m \<noteq> 0 \<and> distinct (map fst (contexts m)) \<and>
     (\<forall>(k, c)\<in>set (contexts m). c = unat k \<and> issued m k \<and> \<not> finished_of c m) \<and>
     (\<forall>k. issued m k \<longrightarrow> REQUEST_ID (ctxs m (unat k)) = k \<and> (finished_of (unat k) m \<or> (k, unat k) \<in> set (contexts m))) \<and>
     (\<forall>c. c \<notin> known m \<longrightarrow> REQUEST_ID (ctxs m c) = 0 \<and> \<not> completionHandler (ctxs m c) \<and> \<not> finished_of c m) \<and>
     fst ` set (cd_tasks (callbackDispatcher m)) \<subseteq> known m \<and> threads_ok m \<and>
     (\<forall>c. count (delivered m) c = (if finished_of c m \<and> completionHandler (ctxs m c) then 1 else 0))"

lemma requests_frame:
  assumes "requests_ok m" and "nextRequestId m' = nextRequestId m" and "contexts m' = contexts m"
    and "delivered m' = delivered m" and "threads_ok m \<Longrightarrow> threads_ok m'"
    and "fst ` set (cd_tasks (callbackDispatcher m')) \<subseteq> fst ` set (cd_tasks (callbackDispatcher m))"
    and "\<And>c. finished_of c m' = finished_of c m" and "\<And>c. REQUEST_ID (ctxs m' c) = REQUEST_ID (ctxs m c)"
    and "\<And>c. completionHandler (ctxs m' c) = completionHandler (ctxs m c)"
  shows "requests_ok m'"
  using assms(1,5) subset_trans [OF assms(6)] by (simp add: requests_ok_def issued_def known_def assms(2-4,7-9))

lemma requests_state [simp]:
  "requests_ok (m\<lparr>reactor := rx\<rparr>) = requests_ok m" "requests_ok (m\<lparr>connections := cs\<rparr>) = requests_ok m"
  "requests_ok (m\<lparr>pools := ps\<rparr>) = requests_ok m" "requests_ok (m\<lparr>pendingByEndpoint := tbl\<rparr>) = requests_ok m"
  "requests_ok (m\<lparr>connectingEndpoints := eps\<rparr>) = requests_ok m" "requests_ok (m\<lparr>requestConnections := rc\<rparr>) = requests_ok m"
  "requests_ok (m\<lparr>submitQueue := q\<rparr>) = requests_ok m" "requests_ok (m\<lparr>connectTasks := ts\<rparr>) = requests_ok m"
  "requests_ok (m\<lparr>nextConnectionId := n\<rparr>) = requests_ok m" "requests_ok (m\<lparr>connectorStop := b\<rparr>) = requests_ok m"
  "requests_ok (m\<lparr>connectorThread := b\<rparr>) = requests_ok m"
  by (simp_all add: requests_ok_def issued_def known_def threads_ok_def delivered_def)

lemma requests_context:
  assumes "requests_ok m" and "finished_flag (f (ctxs m c)) = finished_of c m"
    and "REQUEST_ID (f (ctxs m c)) = REQUEST_ID (ctxs m c)" and "completionHandler (f (ctxs m c)) = completionHandler (ctxs m c)"
  shows "requests_ok (update_context c f m)"
  using assms by (intro requests_frame [OF assms(1)]) (auto simp: update_context_def delivered_def threads_ok_def intro!: filter_mset_cong)

lemma issued_known: "issued m k \<longleftrightarrow> unat k \<in> known m"
  by (auto simp: issued_def known_def word_less_nat_alt unat_gt_0)

lemma known_issued:
  assumes "c \<in> known m"
  obtains k where "issued m k" and "c = unat k"
proof
  have "c < 2 ^ 64" using assms unsigned_less [of "nextRequestId m", where 'a = nat] by (simp add: known_def)
  then show u: "c = unat (of_nat c :: u64)" by (simp add: unat_of_nat)
  show "issued m (of_nat c)" using assms by (simp add: issued_known flip: u)
qed

text \<open>The first completion of a request.\<close>

lemma finish_ok:
  assumes "requests_ok m" and "\<not> finished_of c m" and "c \<in> known m"
    and "m' = m\<lparr>ctxs := (ctxs m)(c := (ctxs m c)\<lparr>finished_flag := True\<rparr>),
               contexts := filter (\<lambda>(k, d). k \<noteq> REQUEST_ID (ctxs m c)) (contexts m)\<rparr>"
    and "nextRequestId m'' = nextRequestId m'" and "contexts m'' = contexts m'"
    and "\<And>d. finished_of d m'' = finished_of d m'" and "\<And>d. REQUEST_ID (ctxs m'' d) = REQUEST_ID (ctxs m' d)"
    and "\<And>d. completionHandler (ctxs m'' d) = completionHandler (ctxs m' d)"
    and "delivered m'' = delivered m + (if completionHandler (ctxs m c) then {#c#} else {#})"
    and "fst ` set (cd_tasks (callbackDispatcher m'')) \<subseteq> insert c (fst ` set (cd_tasks (callbackDispatcher m)))"
    and "threads_ok m \<Longrightarrow> threads_ok m''"
  shows "requests_ok m''"
proof -
  obtain kc where kc: "issued m kc" "c = unat kc" using known_issued [OF assms(3)] .
  then have idc: "REQUEST_ID (ctxs m c) = kc" using assms(1) by (simp add: requests_ok_def)
  have ctx: "\<And>k d. (k, d) \<in> set (contexts m) \<Longrightarrow> d = unat k \<and> issued m k \<and> \<not> finished_of d m"
    using assms(1) by (auto simp: requests_ok_def)
  have same: "issued m'' = issued m" "known m'' = known m" using assms(4,5) by (auto simp: issued_def known_def fun_eq_iff)
  have store: "REQUEST_ID (ctxs m'' d) = REQUEST_ID (ctxs m d)" "completionHandler (ctxs m'' d) = completionHandler (ctxs m d)"
    "finished_of d m'' = (d = c \<or> finished_of d m)" for d using assms(4,7,8,9) by auto
  have tbl: "set (contexts m'') = {(k, d) \<in> set (contexts m). unat k \<noteq> c}" using assms(4,6) idc kc by (auto simp: word_unat_eq_iff)
  have "distinct (map fst (contexts m''))" using assms(1,4,6) by (auto simp: requests_ok_def intro: distinct_map_filter)
  moreover have "\<forall>(k, d)\<in>set (contexts m''). d = unat k \<and> issued m'' k \<and> \<not> finished_of d m''"
    using ctx by (auto simp: tbl same store)
  moreover have "\<forall>k. issued m'' k \<longrightarrow> REQUEST_ID (ctxs m'' (unat k)) = k \<and> (finished_of (unat k) m'' \<or> (k, unat k) \<in> set (contexts m''))"
    using assms(1) by (auto simp: requests_ok_def tbl same store)
  moreover have "\<forall>d. d \<notin> known m'' \<longrightarrow> REQUEST_ID (ctxs m'' d) = 0 \<and> \<not> completionHandler (ctxs m'' d) \<and> \<not> finished_of d m''"
    using assms(1,3) by (auto simp: requests_ok_def same store)
  moreover have "\<forall>d. count (delivered m'') d = (if finished_of d m'' \<and> completionHandler (ctxs m'' d) then 1 else 0)"
    using assms(1,2) by (auto simp: requests_ok_def store assms(10))
  moreover have "nextRequestId m'' \<noteq> 0" using assms(1,4,5) by (simp add: requests_ok_def)
  moreover have "fst ` set (cd_tasks (callbackDispatcher m'')) \<subseteq> known m''"
    using assms(1) subset_trans [OF assms(11)] assms(3) unfolding same by (simp add: requests_ok_def)
  moreover have "threads_ok m''" using assms(1,12) by (simp add: requests_ok_def)
  ultimately show ?thesis unfolding requests_ok_def by blast
qed

lemma finished_again: "finished_flag rc \<Longrightarrow> rc\<lparr>finished_flag := True\<rparr> = rc"
  by (cases rc) simp

lemma completeRequest_again: "finished_of c m \<Longrightarrow> completeRequest env c response m = m"
  by (simp add: completeRequest_def tryFinish_def Let_def update_context_def finished_again)

lemma completeRequest_fields [simp]:
  "connections (completeRequest env c response m) = connections m" "pools (completeRequest env c response m) = pools m"
  "pendingByEndpoint (completeRequest env c response m) = pendingByEndpoint m"
  "requestConnections (completeRequest env c response m) = requestConnections m"
  "submitQueue (completeRequest env c response m) = submitQueue m"
  "connectTasks (completeRequest env c response m) = connectTasks m"
  "nextRequestId (completeRequest env c response m) = nextRequestId m"
  "connectingEndpoints (completeRequest env c response m) = connectingEndpoints m"
  "nextConnectionId (completeRequest env c response m) = nextConnectionId m"
  "mg_config (completeRequest env c response m) = mg_config m"
  "startResult (completeRequest env c response m) = startResult m"
  "connectorThread (completeRequest env c response m) = connectorThread m"
  by (simp_all add: completeRequest_def tryFinish_def cancel_request_timer_def update_context_def call_back_def Let_def split: prod.splits)

lemma completeRequest_store:
  "ctxs (completeRequest env c response m) d =
     (if d = c \<and> \<not> finished_of c m then (ctxs m c)\<lparr>finished_flag := True, ctx_timerId := 0\<rparr> else ctxs m d)"
  by (auto simp: completeRequest_def tryFinish_def cancel_request_timer_def update_context_def call_back_def setTimerId_def Let_def
      split: prod.splits)

lemma completeRequest_tasks:
  "fst ` set (cd_tasks (callbackDispatcher (completeRequest env c response m))) \<subseteq> insert c (fst ` set (cd_tasks (callbackDispatcher m)))"
  by (auto simp: completeRequest_def tryFinish_def cancel_request_timer_def update_context_def call_back_def setTimerId_def
      CallbackDispatcher_post_def Let_def split: prod.splits)

lemma completeRequest_threads: "threads_ok m \<Longrightarrow> threads_ok (completeRequest env c response m)"
  by (auto simp: threads_ok_def completeRequest_def tryFinish_def cancel_request_timer_def update_context_def call_back_def
      CallbackDispatcher_post_def Let_def split: prod.splits)

lemma complete_requests:
  assumes "requests_ok m" and "c \<in> known m"
  shows "requests_ok (completeRequest env c response m)"
proof (cases "finished_of c m")
  case False
  let ?m1 = "m\<lparr>ctxs := (ctxs m)(c := (ctxs m c)\<lparr>finished_flag := True\<rparr>),
      contexts := filter (\<lambda>(k, d). k \<noteq> REQUEST_ID (ctxs m c)) (contexts m)\<rparr>"
  let ?m = "completeRequest env c response m"
  have c: "contexts ?m = contexts ?m1"
    using False by (auto simp: completeRequest_def tryFinish_def cancel_request_timer_def update_context_def call_back_def setTimerId_def
        Let_def split: prod.splits)
  have d: "delivered ?m = delivered m + (if completionHandler (ctxs m c) then {#c#} else {#})"
    using False by (auto simp: delivered_def completeRequest_def tryFinish_def cancel_request_timer_def update_context_def call_back_def
        setTimerId_def invokeCompletion_def CallbackDispatcher_post_def Let_def intro!: filter_mset_cong)
  show ?thesis
    using finish_ok [OF assms(1) False assms(2) refl, of ?m] c d completeRequest_tasks completeRequest_threads by (simp add: completeRequest_store)
qed (use assms in \<open>simp add: completeRequest_again\<close>)

section \<open>The contexts that are referred to\<close>

definition queue_in :: "ctx set \<Rightarrow> PendingRequest list \<Rightarrow> bool" where
  "queue_in K prs \<longleftrightarrow> pr_context ` set prs \<subseteq> K"

definition pending_in :: "ctx set \<Rightarrow> (Endpoint \<times> PendingRequest list) list \<Rightarrow> bool" where
  "pending_in K tbl \<longleftrightarrow> (\<forall>q\<in>snd ` set tbl. queue_in K q)"

definition sessions_in :: "ctx set \<Rightarrow> (ConnectionId \<rightharpoonup> Connection) \<Rightarrow> bool" where
  "sessions_in K cs \<longleftrightarrow> (\<forall>cid cn. cs cid = Some cn \<longrightarrow> ctx_set (cn_session cn) \<subseteq> K)"

definition manager_ok :: "ctx set \<Rightarrow> Manager \<Rightarrow> bool" where
  "manager_ok K m \<longleftrightarrow> requests_ok m \<and> known m = K \<and> queue_in K (submitQueue m) \<and> pending_in K (pendingByEndpoint m) \<and>
     sessions_in K (connections m)"

lemma queue_in_simps [simp]:
  "queue_in K []" "queue_in K (pr # prs) \<longleftrightarrow> pr_context pr \<in> K \<and> queue_in K prs"
  "queue_in K (ps @ qs) \<longleftrightarrow> queue_in K ps \<and> queue_in K qs"
  by (auto simp: queue_in_def)

lemma pending_simps [simp]:
  "pending_in K []" "pending_in K ((ep, q) # tbl) \<longleftrightarrow> queue_in K q \<and> pending_in K tbl"
  by (auto simp: pending_in_def)

lemma pending_erase: "pending_in K tbl \<Longrightarrow> pending_in K (ep_erase ep tbl)"
  by (auto simp: pending_in_def ep_erase_def)

lemma pending_set: "pending_in K tbl \<Longrightarrow> queue_in K q \<Longrightarrow> pending_in K (ep_set ep q tbl)"
  by (auto simp: pending_in_def ep_set_def)

lemma pending_find: "pending_in K tbl \<Longrightarrow> ep_find ep tbl = Some q \<Longrightarrow> queue_in K q"
  by (induction ep tbl rule: ep_find.induct) (auto split: if_splits)

lemma pending_push:
  assumes "pending_in K tbl" and "pr_context pr \<in> K" and "permutes_entries order"
  shows "pending_in K (ep_push order ep pr tbl)"
proof (cases "ep_find ep tbl")
  case None
  then show ?thesis using assms permutes_set [OF assms(3), of "(ep, [pr]) # tbl"] by (auto simp: ep_push_def pending_in_def)
next
  case (Some q)
  then show ?thesis using pending_set [OF assms(1)] pending_find [OF assms(1) Some] assms(2) by (simp add: ep_push_def)
qed

lemma pending_concat: "pending_in K tbl \<Longrightarrow> queue_in K (concat (map snd tbl))"
  by (induction tbl) auto

lemma remove_request_in: "remove_request k h q = Some (c, q') \<Longrightarrow> queue_in K q \<Longrightarrow> c \<in> K \<and> queue_in K q'"
  by (induction k h q arbitrary: c q' rule: remove_request.induct) (auto split: if_splits)

lemma remove_pending_in: "remove_pending k h tbl = Some (c, tbl') \<Longrightarrow> pending_in K tbl \<Longrightarrow> c \<in> K \<and> pending_in K tbl'"
  by (induction k h tbl arbitrary: c tbl' rule: remove_pending.induct) (auto split: option.splits dest!: remove_request_in [of _ _ _ _ _ K])

lemma sessions_put: "sessions_in K cs \<Longrightarrow> ctx_set (cn_session cn) \<subseteq> K \<Longrightarrow> sessions_in K (cs(cid \<mapsto> cn))"
  by (auto simp: sessions_in_def)

lemma sessions_drop: "sessions_in K cs \<Longrightarrow> sessions_in K (cs(cid := None))"
  by (auto simp: sessions_in_def)

lemma known_frame: "nextRequestId m' = nextRequestId m \<Longrightarrow> known m' = known m"
  by (simp add: known_def)

lemma known_state [simp]:
  "known (m\<lparr>reactor := rx\<rparr>) = known m" "known (m\<lparr>connections := cs\<rparr>) = known m" "known (m\<lparr>ctxs := h\<rparr>) = known m"
  "known (m\<lparr>pools := ps\<rparr>) = known m" "known (m\<lparr>pendingByEndpoint := tbl\<rparr>) = known m"
  "known (m\<lparr>connectingEndpoints := eps\<rparr>) = known m" "known (m\<lparr>requestConnections := rc\<rparr>) = known m"
  "known (m\<lparr>submitQueue := q\<rparr>) = known m" "known (m\<lparr>connectTasks := ts\<rparr>) = known m"
  "known (m\<lparr>nextConnectionId := n\<rparr>) = known m" "known (m\<lparr>connectorStop := b\<rparr>) = known m"
  "known (m\<lparr>connectorThread := b\<rparr>) = known m"
  by (simp_all add: known_def)

text \<open>The invariant is indifferent to the rest of the state.\<close>

lemma manager_state [simp]:
  "manager_ok K (m\<lparr>reactor := rx\<rparr>) = manager_ok K m" "manager_ok K (m\<lparr>pools := ps\<rparr>) = manager_ok K m"
  "manager_ok K (m\<lparr>connectingEndpoints := eps\<rparr>) = manager_ok K m" "manager_ok K (m\<lparr>requestConnections := rc\<rparr>) = manager_ok K m"
  "manager_ok K (m\<lparr>connectTasks := ts\<rparr>) = manager_ok K m" "manager_ok K (m\<lparr>nextConnectionId := n\<rparr>) = manager_ok K m"
  "manager_ok K (m\<lparr>connectorStop := b\<rparr>) = manager_ok K m" "manager_ok K (m\<lparr>connectorThread := b\<rparr>) = manager_ok K m"
  by (simp_all add: manager_ok_def)

lemma manager_queue: "manager_ok K m \<Longrightarrow> queue_in K q \<Longrightarrow> manager_ok K (m\<lparr>submitQueue := q\<rparr>)"
  by (simp add: manager_ok_def)

lemma manager_pending: "manager_ok K m \<Longrightarrow> pending_in K tbl \<Longrightarrow> manager_ok K (m\<lparr>pendingByEndpoint := tbl\<rparr>)"
  by (simp add: manager_ok_def)

lemma manager_sessions: "manager_ok K m \<Longrightarrow> sessions_in K cs \<Longrightarrow> manager_ok K (m\<lparr>connections := cs\<rparr>)"
  by (simp add: manager_ok_def)

lemmas manager_intros = manager_queue manager_pending manager_sessions pending_erase pending_set pending_push

lemma manager_refs:
  assumes "manager_ok K m"
  shows "queue_in K (submitQueue m)" and "pending_in K (pendingByEndpoint m)" and "sessions_in K (connections m)"
  using assms by (simp_all add: manager_ok_def)

lemma manager_context:
  assumes "manager_ok K m" and "\<And>rc. finished_flag (f rc) = finished_flag rc" and "\<And>rc. REQUEST_ID (f rc) = REQUEST_ID rc"
    and "\<And>rc. completionHandler (f rc) = completionHandler rc"
  shows "manager_ok K (update_context c f m)"
proof -
  have "requests_ok (update_context c f m)" using assms by (intro requests_context) (simp_all add: manager_ok_def)
  then show ?thesis using assms(1) by (simp add: manager_ok_def) (simp add: update_context_def)
qed

lemma complete_ok: "manager_ok K m \<Longrightarrow> c \<in> K \<Longrightarrow> manager_ok K (completeRequest env c response m)"
  by (simp add: manager_ok_def complete_requests) (simp add: known_def)

lemma complete_all_ok: "manager_ok K m \<Longrightarrow> set cs \<subseteq> K \<Longrightarrow> manager_ok K (complete_all env cs response m)"
  by (induction cs arbitrary: m) (simp_all add: complete_ok)

lemma table_known: "manager_ok K m \<Longrightarrow> (k, c) \<in> set (contexts m) \<Longrightarrow> c \<in> K"
  by (auto simp: manager_ok_def requests_ok_def issued_known)

lemma found_known: "manager_ok K m \<Longrightarrow> findContext k m = Some c \<Longrightarrow> c \<in> K"
  by (auto simp: findContext_def dest!: map_of_SomeD intro: table_known)

section \<open>The manager's handlers\<close>

text \<open>The tables are those of \<open>std::unordered_map\<close>: an insertion keeps the entries, in any order.\<close>

definition env_ok :: "menv \<Rightarrow> bool" where
  "env_ok env \<longleftrightarrow> permutes_entries (en_order env) \<and> permutes_entries (en_corder env) \<and> permutes_entries (od_pools env) \<and>
     permutes_entries (od_pending env) \<and> permutes_entries (od_contexts env)"

abbreviation client_ok :: "menv \<Rightarrow> ctx set \<Rightarrow> Manager \<Rightarrow> bool" where
  "client_ok env K m \<equiv> env_ok env \<and> manager_ok K m"

lemma submit_to_ok:
  assumes "connection_client hk K (client_ok env K)" and "env_ok env" and "manager_ok K m" and "pr_context pr \<in> K"
    and "submit_to hk env cid pr m = Inr m'"
  shows "manager_ok K m'"
proof -
  obtain b m1 where s: "submitOnReactor hk env cid (pr_request pr) (pr_context pr) m = Inr (b, m1)"
    and m': "(if b then Inr (m1\<lparr>requestConnections := (requestConnections m1)(REQUEST_ID (ctxs m1 (pr_context pr)) \<mapsto> cid)\<rparr>)
       else if \<not> finished_of (pr_context pr) m1 then Inr (completeRequest env (pr_context pr) (failConnectionError ''Submit failed'') m1)
       else Inr m1) = (Inr m' :: Manager net)" using assms(5) by (auto simp: submit_to_def net_simps Let_def)
  have "manager_ok K m1" using connection_client.submit_inv [OF assms(1) _ assms(4) _ s] assms(2,3) by (simp add: env_ok_def)
  then show ?thesis using m' assms(4) by (auto simp: complete_ok split: if_splits)
qed

lemma submit_pending_cases:
  assumes "submit_pending_loop (Suc n) hk env ep cid m = Inr m'"
  obtains "ep_find ep (pendingByEndpoint m) = Some []" "m' = m\<lparr>pendingByEndpoint := ep_erase ep (pendingByEndpoint m)\<rparr>"
  | "m' = m"
  | pr queue m1 where "ep_find ep (pendingByEndpoint m) = Some (pr # queue)"
    "m1 = m\<lparr>pendingByEndpoint := ep_set ep queue (pendingByEndpoint m)\<rparr>" "canceled_of (pr_context pr) m1"
    "submit_pending_loop n hk env ep cid (completeRequest env (pr_context pr) (customError ''Request canceled'') m1) = Inr m'"
  | pr queue m1 m2 where "ep_find ep (pendingByEndpoint m) = Some (pr # queue)"
    "m1 = m\<lparr>pendingByEndpoint := ep_set ep queue (pendingByEndpoint m)\<rparr>" "\<not> canceled_of (pr_context pr) m1"
    "submit_to hk env cid pr m1 = Inr m2" "submit_pending_loop n hk env ep cid m2 = Inr m'"
proof (cases "ep_find ep (pendingByEndpoint m)")
  case (Some queue)
  then show thesis using assms that by (cases queue) (auto simp: net_simps Let_def split: if_splits)
qed (use assms in simp)

lemma submit_pending_ok:
  assumes "connection_client hk K (client_ok env K)" and "env_ok env"
  shows "manager_ok K m \<Longrightarrow> submit_pending_loop n hk env ep cid m = Inr m' \<Longrightarrow> manager_ok K m'"
proof (induction n arbitrary: m)
  case (Suc n)
  note refs = manager_refs [OF Suc.prems(1)]
  have popped: "manager_ok K (m\<lparr>pendingByEndpoint := ep_set ep queue (pendingByEndpoint m)\<rparr>)" "pr_context pr \<in> K"
    if "ep_find ep (pendingByEndpoint m) = Some (pr # queue)" for pr queue
    using pending_find [OF refs(2) that] by (auto intro: manager_intros Suc.prems(1) refs)
  from Suc.prems(2) show ?case
  proof (cases rule: submit_pending_cases)
    case 1
    then show ?thesis using Suc.prems(1) refs by (auto intro: manager_intros)
  next
    case (3 pr queue m1)
    then show ?thesis using Suc.IH [OF _ 3(4)] popped [OF 3(1)] by (simp add: complete_ok)
  next
    case (4 pr queue m1 m2)
    then show ?thesis using Suc.IH [OF _ 4(5)] submit_to_ok [OF assms _ _ 4(4)] popped [OF 4(1)] by simp
  qed (use Suc.prems(1) in simp_all)
qed simp

lemma try_submit_ok:
  assumes "connection_client hk K (client_ok env K)" and "env_ok env" and "manager_ok K m" and "trySubmitPending hk env ep m = Inr m'"
  shows "manager_ok K m'"
  using assms(3,4) submit_pending_ok [OF assms(1-3)]
  by (auto simp: trySubmitPending_def simp del: submit_pending_loop.simps split: option.splits if_splits)

lemma request_done_ok:
  assumes "connection_client hk K (client_ok env K)" and "env_ok env" and "manager_ok K m" and "c \<in> K"
    and "onRequestDone hk env c response m = Inr m'"
  shows "manager_ok K m'"
proof -
  let ?id = "REQUEST_ID (ctxs m c)"
  let ?m = "completeRequest env c response (m\<lparr>requestConnections := (requestConnections m)(?id := None)\<rparr>)"
  have "manager_ok K ?m" using assms(3,4) by (simp add: complete_ok)
  then show ?thesis
    using assms(5) try_submit_ok [OF assms(1,2)]
    by (auto simp: onRequestDone_def Let_def net_simps split: option.splits)
qed

lemma stream_ok: "manager_ok K m \<Longrightarrow> manager_ok K (m\<lparr>ctxs := (ctxs m)(c := setStreamId sid (ctxs m c))\<rparr>)"
  using manager_context [of K m "setStreamId sid" c] by (simp add: update_context_def setStreamId_def)

lemma put_ok: "manager_ok K m \<Longrightarrow> ctx_set (cn_session cn) \<subseteq> K \<Longrightarrow> manager_ok K (put_connection cid cn m)"
  by (simp add: put_connection_def manager_sessions sessions_put manager_refs)

lemma held_ok: "manager_ok K m \<Longrightarrow> connections m cid = Some cn \<Longrightarrow> ctx_set (cn_session cn) \<subseteq> K"
  using manager_refs(3) by (auto simp: sessions_in_def)

lemma lost_ok: "manager_ok K m \<Longrightarrow> onConnectionLost cid m = Inr m' \<Longrightarrow> manager_ok K m'"
  by (auto simp: onConnectionLost_def net_simps)

lemma hooks_client: "connection_client (manager_hooks n env) K (client_ok env K)"
proof (induction n)
  case 0
  show ?case
    by unfold_locales (auto simp: onConnectionDraining_def stream_ok put_ok intro: lost_ok dest: held_ok)
next
  case (Suc n)
  show ?case
  proof
    show "client_ok env K w \<Longrightarrow> c \<in> K \<Longrightarrow> requestDone (manager_hooks (Suc n) env) c r w = Inr w' \<Longrightarrow> client_ok env K w'" for w c r w'
      using request_done_ok [OF Suc.IH, of w c r w'] by simp
  qed (auto simp: onConnectionDraining_def stream_ok put_ok intro: lost_ok dest: held_ok)
qed

interpretation manager: connection_client "manager_hooks n env" K "client_ok env K" for n env K
  by (rule hooks_client)

section \<open>Jobs\<close>

lemma drain_pending_ok:
  assumes "manager_ok K m"
  shows "manager_ok K (drainPendingForEndpoint env ep m)"
proof (cases "ep_find ep (pendingByEndpoint m)")
  case (Some q)
  have "set (map pr_context q) \<subseteq> K" using pending_find [OF manager_refs(2) [OF assms] Some] by (simp add: queue_in_def)
  then show ?thesis using assms Some manager_pending [OF assms pending_erase [OF manager_refs(2) [OF assms]]]
    by (simp add: drainPendingForEndpoint_def complete_all_ok)
qed (use assms in \<open>simp add: drainPendingForEndpoint_def\<close>)

lemma forget_connecting_ok [simp]: "manager_ok K (forget_connecting ep m) = manager_ok K m"
  by (simp add: forget_connecting_def)

lemma destroy_ok: "manager_ok K m \<Longrightarrow> manager_ok K (destroy cid m)"
  by (simp add: destroy_def manager_sessions sessions_drop manager_refs)

lemma fold_destroy_ok: "manager_ok K m \<Longrightarrow> manager_ok K (fold destroy cids m)"
  by (induction cids arbitrary: m) (simp_all add: destroy_ok)

lemma enqueue_ok [simp]: "manager_ok K (enqueueConnectTask ep m) = manager_ok K m"
  by (simp add: enqueueConnectTask_def)

lemma push_ok:
  "manager_ok K m \<Longrightarrow> env_ok env \<Longrightarrow> pr_context pr \<in> K \<Longrightarrow>
   manager_ok K (m\<lparr>pendingByEndpoint := ep_push (od_pending env) ep pr (pendingByEndpoint m)\<rparr>)"
  by (simp add: manager_pending pending_push manager_refs env_ok_def)

lemma submit_waiting_ok:
  "env_ok env \<Longrightarrow> manager_ok K m \<Longrightarrow> queue_in K prs \<Longrightarrow> submit_waiting env ep cid prs m = Inr m' \<Longrightarrow> manager_ok K m'"
proof (induction prs arbitrary: m)
  case (Cons pr prs)
  have pr: "pr_context pr \<in> K" "queue_in K prs" using Cons.prems(3) by simp_all
  show ?case
  proof (cases "canceled_of (pr_context pr) m")
    case True
    then show ?thesis using Cons.prems(4) by (auto dest: Cons.IH [OF Cons.prems(1) complete_ok [OF Cons.prems(2) pr(1)] pr(2)])
  next
    case False
    then obtain capacity m1 where "(if capacity then submit_to (hooks_of env) env cid pr m
        else Inr (m\<lparr>pendingByEndpoint := ep_push (od_pending env) ep pr (pendingByEndpoint m)\<rparr>)) = Inr m1"
      and rest: "submit_waiting env ep cid prs m1 = Inr m'" using Cons.prems(4) by (auto simp: net_simps)
    then have "manager_ok K m1" using push_ok [OF Cons.prems(2,1) pr(1)]
      by (auto split: if_splits dest: submit_to_ok [OF hooks_client Cons.prems(1,2) pr(1)])
    then show ?thesis using Cons.IH [OF Cons.prems(1) _ pr(2)] rest by blast
  qed
qed simp

lemma established_ok:
  assumes "env_ok env" and "manager_ok K m" and "onConnectionEstablished env ep cid m = Inr m'"
  shows "manager_ok K m'"
proof -
  obtain b m1 where r: "registerWithReactor env cid (forget_connecting ep m) = Inr (b, m1)"
    and rest: "(if \<not> b then Inr (destroy cid (drainPendingForEndpoint env ep m1))
       else let m = m1\<lparr>pools := ep_push (od_pools env) ep cid (pools m1)\<rparr> in
         case ep_find ep (pendingByEndpoint m) of
           None \<Rightarrow> Inr m
         | Some prs \<Rightarrow>
             submit_waiting env ep cid prs (m\<lparr>pendingByEndpoint := ep_erase ep (pendingByEndpoint m)\<rparr>)) = Inr m'"
    using assms(3) by (auto simp: onConnectionEstablished_def net_simps)
  have ok: "manager_ok K m1" using manager.register_inv [OF _ r, of env K] assms(1,2) by simp
  let ?m = "m1\<lparr>pools := ep_push (od_pools env) ep cid (pools m1)\<rparr>"
  show ?thesis
  proof (cases "b \<and> ep_find ep (pendingByEndpoint ?m) \<noteq> None")
    case True
    then obtain prs where p: "ep_find ep (pendingByEndpoint ?m) = Some prs" by auto
    have "queue_in K prs" using pending_find p manager_refs(2) [OF ok] by simp
    moreover have "manager_ok K (?m\<lparr>pendingByEndpoint := ep_erase ep (pendingByEndpoint ?m)\<rparr>)"
      using ok by (intro manager_pending pending_erase) (simp_all add: manager_refs)
    ultimately show ?thesis using rest True p submit_waiting_ok [OF assms(1)] by simp
  next
    case False
    then show ?thesis using rest ok by (cases b) (auto simp: Let_def destroy_ok drain_pending_ok)
  qed
qed

lemma drain_requests_ok:
  "env_ok env \<Longrightarrow> manager_ok K m \<Longrightarrow> queue_in K prs \<Longrightarrow> drain_requests env prs m = Inr m' \<Longrightarrow> manager_ok K m'"
proof (induction prs arbitrary: m)
  case (Cons pr prs)
  let ?push = "m\<lparr>pendingByEndpoint := ep_push (od_pending env) (pr_endpoint pr) pr (pendingByEndpoint m)\<rparr>"
  have pr: "pr_context pr \<in> K" "queue_in K prs" using Cons.prems(3) by simp_all
  have push: "manager_ok K ?push" by (rule push_ok [OF Cons.prems(2,1) pr(1)])
  show ?case
  proof (cases "canceled_of (pr_context pr) m")
    case True
    then show ?thesis using Cons.prems(4) by (auto dest: Cons.IH [OF Cons.prems(1) complete_ok [OF Cons.prems(2) pr(1)] pr(2)])
  next
    case False
    show ?thesis
    proof (cases "pickConnectionOnReactor (pr_endpoint pr) m")
      case None
      then have "drain_requests env prs (enqueueConnectTask (pr_endpoint pr) ?push) = Inr m'" using Cons.prems(4) False by simp
      then show ?thesis using Cons.IH [OF Cons.prems(1), of "enqueueConnectTask (pr_endpoint pr) ?push"] push pr(2) by simp
    next
      case (Some cid)
      then obtain capacity m1 where "(if capacity then submit_to (hooks_of env) env cid pr m else Inr ?push) = Inr m1"
        and rest: "drain_requests env prs m1 = Inr m'" using Cons.prems(4) False by (auto simp: net_simps)
      then have "manager_ok K m1" using push
        by (auto split: if_splits dest: submit_to_ok [OF hooks_client Cons.prems(1,2) pr(1)])
      then show ?thesis using Cons.IH [OF Cons.prems(1) _ pr(2)] rest by blast
    qed
  qed
qed simp

lemma prune_ok: "manager_ok K m \<Longrightarrow> manager_ok K (prune_pools m)"
  by (simp add: prune_pools_def Let_def fold_destroy_ok)

lemma fold_destroy_fields:
  "submitQueue (fold destroy cids m) = submitQueue m" "ctxs (fold destroy cids m) = ctxs m"
  by (induction cids arbitrary: m) (simp_all add: destroy_def)

lemma drain_queue_ok:
  assumes "env_ok env" and "manager_ok K m" and "drainSubmitQueue env m = Inr m'"
  shows "manager_ok K m'"
proof -
  have p: "manager_ok K (prune_pools m)" by (rule prune_ok [OF assms(2)])
  then have "manager_ok K ((prune_pools m)\<lparr>submitQueue := []\<rparr>)" by (intro manager_queue) simp_all
  then show ?thesis using drain_requests_ok [OF assms(1) _ manager_refs(1) [OF p]] assms(3) by (simp add: drainSubmitQueue_def Let_def)
qed

lemma withdraw_ok:
  assumes "env_ok env" and "manager_ok K m" and "c \<in> K" and "withdraw_request env requestId c response m = Inr m'"
  shows "manager_ok K m'"
proof (cases "removeFromSubmitQueue requestId m")
  case None
  show ?thesis
  proof (cases "remove_pending requestId (ctxs m) (pendingByEndpoint m)")
    case none: None
    then obtain m1 where m1: "(case requestConnections m requestId of
          None \<Rightarrow> Inr m
        | Some cid \<Rightarrow> with_connection cid (\<lambda>cn.
            if connected cn then cancelRequestOnReactor (hooks_of env) env cid (Some c) m else Inr m) m) = Inr m1"
      "(if \<not> finished_of c m1 then Inr (completeRequest env c response m1) else Inr m1) = (Inr m' :: Manager net)"
      using assms(4) None by (auto simp: withdraw_request_def net_simps)
    have "manager_ok K m1"
      using m1(1) assms(1,2) manager.cancel_inv [of env K m _ env] by (auto simp: net_simps split: option.splits if_splits)
    then show ?thesis using m1(2) assms(3) by (auto simp: complete_ok split: if_splits)
  next
    case (Some a)
    then obtain d tbl where a: "remove_pending requestId (ctxs m) (pendingByEndpoint m) = Some (d, tbl)" by (cases a) simp
    note in_K = remove_pending_in [OF a manager_refs(2) [OF assms(2)]]
    then show ?thesis using assms(4) None a by (auto simp: withdraw_request_def intro!: complete_ok manager_pending assms(2))
  qed
next
  case (Some a)
  then obtain d q where a: "remove_request requestId (ctxs m) (submitQueue m) = Some (d, q)"
    by (auto simp: removeFromSubmitQueue_def)
  note in_K = remove_request_in [OF a manager_refs(1) [OF assms(2)]]
  then show ?thesis using assms(4) a
    by (auto simp: withdraw_request_def removeFromSubmitQueue_def intro!: complete_ok manager_queue assms(2))
qed

lemma mark_ok: "manager_ok K m \<Longrightarrow> manager_ok K (update_context c (snd \<circ> markCanceled) m)"
  by (rule manager_context) (simp_all add: markCanceled_def)

lemma cancel_job_ok: "env_ok env \<Longrightarrow> manager_ok K m \<Longrightarrow> handleCancelOnReactor env requestId m = Inr m' \<Longrightarrow> manager_ok K m'"
  by (auto simp: handleCancelOnReactor_def Let_def split: option.splits if_splits
      elim!: withdraw_ok [rotated 3] intro: found_known mark_ok)

lemma timeout_job_ok: "env_ok env \<Longrightarrow> manager_ok K m \<Longrightarrow> handleTimeoutOnReactor env requestId m = Inr m' \<Longrightarrow> manager_ok K m'"
  by (auto simp: handleTimeoutOnReactor_def split: option.splits if_splits elim!: withdraw_ok [rotated 3] intro: found_known mark_ok)

lemma close_connections_ok: "env_ok env \<Longrightarrow> manager_ok K m \<Longrightarrow> close_connections env cids m = Inr m' \<Longrightarrow> manager_ok K m'"
proof (induction cids arbitrary: m)
  case (Cons cid cids)
  then obtain m1 where m1: "(case connections m cid of None \<Rightarrow> Inr m
      | Some cn \<Rightarrow> if connected cn then Connection_closeOnReactor (hooks_of env) env cid m else Inr m) = Inr m1"
    "close_connections env cids m1 = Inr m'" by (auto simp: net_simps)
  then have "manager_ok K m1" using Cons.prems(1,2) manager.close_inv [of env K m]
    by (auto split: option.splits if_splits)
  then show ?case using Cons.IH Cons.prems(1) m1(2) by blast
qed simp

lemma close_job_ok:
  assumes "env_ok env" and "manager_ok K m" and "Manager_closeOnReactor env m = Inr m'"
  shows "manager_ok K m'"
proof -
  let ?cs = "map pr_context (concat (map snd (pendingByEndpoint m)))" and ?closed = "failConnectionError ''Connection closed''"
  let ?m = "(complete_all env ?cs ?closed m)\<lparr>pendingByEndpoint := [], connectingEndpoints := []\<rparr>"
  have "set ?cs \<subseteq> K" using pending_concat [OF manager_refs(2) [OF assms(2)]] by (simp add: queue_in_def)
  then have "manager_ok K ?m" using manager_pending [OF complete_all_ok [OF assms(2)], of ?cs "[]"] by simp
  moreover obtain m1 where "close_connections env (concat (map snd (pools ?m))) (?m\<lparr>pools := []\<rparr>) = Inr m1"
    "m' = fold destroy (concat (map snd (pools ?m))) (m1\<lparr>requestConnections := Map.empty\<rparr>)"
    using assms(3) by (auto simp: Manager_closeOnReactor_def net_simps Let_def)
  ultimately show ?thesis using close_connections_ok [OF assms(1), of K "?m\<lparr>pools := []\<rparr>"] by (simp add: fold_destroy_ok)
qed

lemma job_ok:
  assumes "env_ok env" and "manager_ok K m" and "run_job env j m = Inr m'"
  shows "manager_ok K m'"
proof -
  have ok: "client_ok env K m" using assms(1,2) ..
  note connection = manager.readable_inv [OF ok] manager.writable_inv [OF ok] manager.timer_inv [OF ok] manager.timeout_inv [OF ok]
  note own = timeout_job_ok [OF assms(1,2)] drain_queue_ok [OF assms(1,2)] cancel_job_ok [OF assms(1,2)]
    established_ok [OF assms(1,2)] close_job_ok [OF assms(1,2)]
  show ?thesis using assms(3)
    by (cases j) (auto dest: connection own simp: onConnectionFailed_def drain_pending_ok assms(2))
qed

lemma handlers_ok: "env_ok env \<Longrightarrow> manager_ok K m \<Longrightarrow> run_handlers (run_job env) js m = Inr m' \<Longrightarrow> manager_ok K m'"
  by (induction js arbitrary: m) (auto simp: net_simps dest: job_ok)

lemma event_ok: "env_ok env \<Longrightarrow> manager_ok K m \<Longrightarrow> dispatch_event (run_job env) e m = Inr m' \<Longrightarrow> manager_ok K m'"
  by (auto simp: dispatch_event_def case_prod_unfold split: if_splits elim!: handlers_ok [rotated 2])

lemma drain_tasks_ok: "env_ok env \<Longrightarrow> manager_ok K m \<Longrightarrow> drainPostedTasks n (run_job env) m = Inr m' \<Longrightarrow> manager_ok K m'"
proof (induction n arbitrary: m)
  case (Suc n)
  show ?case
  proof (cases "take_task (reactor m)")
    case (Some a)
    then obtain j rx m1 where "run_job env j (m\<lparr>reactor := rx\<rparr>) = Inr m1" "drainPostedTasks n (run_job env) m1 = Inr m'"
      using Suc.prems(3) by (cases a) (auto simp: net_simps)
    then show ?thesis using Suc.IH Suc.prems(1,2) job_ok [OF Suc.prems(1), of K "m\<lparr>reactor := rx\<rparr>"] by auto
  qed (use Suc.prems in simp)
qed simp

end
