(* ===== verification/Reactor_Inv.thy ===== *)
theory Reactor_Inv
  imports Reactor "HOL-Library.Multiset"
begin

text \<open>
  The reactor as a task queue, and its timers against their specification: the live timers are
  those scheduled and neither fired nor canceled, in the order of their due times. Also: the timer
  descriptor is armed exactly if there is a live timer, and what happens when the event loop ends with an error.
\<close>

section \<open>Posted tasks\<close>

interpretation reactor: task_queue rx_tasks rx_running "\<lambda>t. Reactor_post (Some t)" take_task
  by unfold_locales (auto simp: Reactor_post_def take_task_def split: if_splits list.splits)

text \<open>The queue is run to its end if the handlers post nothing.\<close>

lemma drain_all:
  assumes "\<And>t w. I w \<Longrightarrow> \<exists>w'. run t w = Inr w' \<and> I w' \<and> rx_tasks (reactor w') = rx_tasks (reactor w)"
    and "\<And>w rx. I w \<Longrightarrow> I (w\<lparr>reactor := (reactor w)\<lparr>rx_tasks := rx\<rparr>\<rparr>)"
    and "I w" and "length (rx_tasks (reactor w)) < n"
  shows "\<exists>w'. drainPostedTasks n run w = Inr w' \<and> I w' \<and> rx_tasks (reactor w') = []"
  using assms(3,4)
proof (induction n arbitrary: w)
  case (Suc n)
  show ?case
  proof (cases "rx_tasks (reactor w)")
    case Nil
    then show ?thesis using Suc.prems(1) by (auto simp: take_task_def)
  next
    case (Cons t ts)
    have "I (w\<lparr>reactor := (reactor w)\<lparr>rx_tasks := ts\<rparr>\<rparr>)" using assms(2) Suc.prems(1) .
    then obtain w' where "run t (w\<lparr>reactor := (reactor w)\<lparr>rx_tasks := ts\<rparr>\<rparr>) = Inr w'" "I w'" "rx_tasks (reactor w') = ts"
      using assms(1) [of "w\<lparr>reactor := (reactor w)\<lparr>rx_tasks := ts\<rparr>\<rparr>" t] by auto
    then show ?thesis using Suc.IH [of w'] Suc.prems(2) Cons by (auto simp: take_task_def)
  qed
qed simp

section \<open>Timers\<close>

definition live_in :: "'h TimerItem list \<Rightarrow> (u64 \<rightharpoonup> bool) \<Rightarrow> 'h TimerItem list" where
  "live_in ts c = filter (\<lambda>t. c (ti_id t) = Some False) ts"

definition live :: "'h Reactor \<Rightarrow> 'h TimerItem list" where
  "live rx = live_in (rx_timers rx) (canceledTimers rx)"

definition timers_wf :: "'h TimerItem list \<Rightarrow> (u64 \<rightharpoonup> bool) \<Rightarrow> bool" where
  "timers_wf ts c \<longleftrightarrow> sorted (map due ts) \<and> distinct (map ti_id ts) \<and> dom c = ti_id ` set ts"

definition reactor_ok :: "'h Reactor \<Rightarrow> bool" where
  "reactor_ok rx \<longleftrightarrow>
     timers_wf (rx_timers rx) (canceledTimers rx) \<and> (\<forall>t\<in>set (rx_timers rx). ti_id t < nextTimerId rx) \<and>
     (rx_running rx \<longrightarrow> 0 \<le> timerFd rx) \<and>
     (0 \<le> timerFd rx \<longrightarrow> (rx_armed rx = None \<longleftrightarrow> live rx = [])) \<and>
     (\<forall>ns. rx_armed rx = Some ns \<longrightarrow> 1000000 \<le> ns)"

text \<open>What leaves the heap at its front leaves the table.\<close>

abbreviation forget :: "'h TimerItem list \<Rightarrow> (u64 \<rightharpoonup> bool) \<Rightarrow> (u64 \<rightharpoonup> bool)" where
  "forget pre c \<equiv> c |` (- (ti_id ` set pre))"

lemma forget_Cons: "forget pre (c(ti_id t := None)) = forget (t # pre) c"
  by (auto simp: restrict_map_def)

lemma timers_wf_forget: "timers_wf (pre @ ts) c \<Longrightarrow> timers_wf ts (forget pre c)"
  by (auto simp: timers_wf_def sorted_append)

lemma live_forget: "timers_wf (pre @ ts) c \<Longrightarrow> live_in ts (forget pre c) = live_in ts c"
  by (auto simp: live_in_def timers_wf_def restrict_map_def intro!: filter_cong)

lemma purge_spec:
  assumes "purge_canceled ts c = (ts', c')" and "distinct (map ti_id ts)"
  shows "\<exists>pre. ts = pre @ ts' \<and> (\<forall>t\<in>set pre. c (ti_id t) = Some True) \<and>
    (ts' = [] \<or> c (ti_id (hd ts')) \<noteq> Some True) \<and> c' = forget pre c"
  using assms
proof (induction ts c rule: purge_canceled.induct)
  case (2 t ts c)
  show ?case
  proof (cases "c (ti_id t) = Some True")
    case True
    have "purge_canceled ts (c(ti_id t := None)) = (ts', c')" "distinct (map ti_id ts)" using 2(2,3) True by simp_all
    then obtain pre where "ts = pre @ ts'" "\<forall>u\<in>set pre. (c(ti_id t := None)) (ti_id u) = Some True"
      "ts' = [] \<or> (c(ti_id t := None)) (ti_id (hd ts')) \<noteq> Some True" "c' = forget pre (c(ti_id t := None))"
      using 2(1) [OF True] by blast
    moreover have "ts' \<noteq> [] \<Longrightarrow> ti_id (hd ts') \<noteq> ti_id t" using 2(3) calculation(1) by (cases ts') auto
    moreover have "c' = forget (t # pre) c" using calculation(4) by (simp only: forget_Cons)
    ultimately show ?thesis using True by (intro exI [of _ "t # pre"]) (auto split: if_splits)
  qed (use 2 in \<open>auto simp: restrict_map_def\<close>)
qed (auto simp: restrict_map_def)

lemma fire_spec:
  assumes "fire_loop now ts c = (hs, ts', c')" and "timers_wf ts c"
  shows "\<exists>pre. ts = pre @ ts' \<and> hs = map ti_handler (live_in pre c) \<and> (\<forall>t\<in>set (live_in pre c). due t \<le> now) \<and>
    (\<forall>t\<in>set (live_in ts' c). now < due t) \<and> c' = forget pre c"
  using assms
proof (induction now ts c arbitrary: hs rule: fire_loop.induct)
  case (1 now c)
  then show ?case by (auto simp: live_in_def restrict_map_def)
next
  case (2 now t ts c)
  let ?c = "c(ti_id t := None)"
  have wf: "timers_wf ts ?c" using 2(4) by (auto simp: timers_wf_def)
  have other: "live_in us ?c = live_in us c" if "set us \<subseteq> set ts" for us
  proof -
    have "ti_id t \<notin> ti_id ` set ts" using 2(4) by (simp add: timers_wf_def)
    then have "\<forall>u\<in>set us. ti_id u \<noteq> ti_id t" using that by (metis imageI subsetD)
    then show ?thesis unfolding live_in_def by (intro filter_cong) auto
  qed
  consider "c (ti_id t) = Some True" | "c (ti_id t) = Some False" "now < due t" | "c (ti_id t) = Some False" "due t \<le> now"
  proof -
    have "c (ti_id t) \<noteq> None" using 2(4) by (auto simp: timers_wf_def)
    then obtain b where "c (ti_id t) = Some b" by blast
    then show thesis using that by (cases b; cases "now < due t") auto
  qed
  then show ?case
  proof cases
    case 1
    have f: "fire_loop now ts ?c = (hs, ts', c')" using 2(3) 1 by simp
    obtain pre where pre: "ts = pre @ ts'" "hs = map ti_handler (live_in pre ?c)" "\<forall>t\<in>set (live_in pre ?c). due t \<le> now"
      "\<forall>t\<in>set (live_in ts' ?c). now < due t" "c' = forget pre ?c" using 2(1) [OF 1 f wf] by blast
    then have "live_in pre ?c = live_in pre c" "live_in ts' ?c = live_in ts' c" using other by auto
    moreover have "c' = forget (t # pre) c" using pre(5) by (simp only: forget_Cons)
    ultimately show ?thesis using pre 1 by (intro exI [of _ "t # pre"]) (simp add: live_in_def)
  next
    case 2
    have "\<forall>u\<in>set ts. now < due u" using 2(2) \<open>timers_wf (t # ts) c\<close> by (fastforce simp: timers_wf_def)
    then show ?thesis using 2 \<open>fire_loop now (t # ts) c = (hs, ts', c')\<close>
      by (intro exI [of _ "[]"]) (auto simp: live_in_def restrict_map_def)
  next
    case 3
    obtain hs1 where f: "fire_loop now ts ?c = (hs1, ts', c')" "hs = ti_handler t # hs1"
      using 3 2(3) by (auto split: prod.splits)
    then obtain pre where pre: "ts = pre @ ts'" "hs1 = map ti_handler (live_in pre ?c)" "\<forall>t\<in>set (live_in pre ?c). due t \<le> now"
      "\<forall>t\<in>set (live_in ts' ?c). now < due t" "c' = forget pre ?c" using 2(2) [OF _ _ f(1) wf] 3 by (auto simp del: fun_upd_apply restrict_complement_singleton_eq)
    then have "live_in pre ?c = live_in pre c" "live_in ts' ?c = live_in ts' c" using other by auto
    moreover have "c' = forget (t # pre) c" using pre(5) by (simp only: forget_Cons)
    ultimately show ?thesis using pre 3 f(2) by (intro exI [of _ "t # pre"]) (simp add: live_in_def)
  qed
qed

lemma push_timer_set: "mset (push_timer before t ts) = add_mset t (mset ts)"
  by (induction ts) auto

lemma push_timer_members: "set (push_timer before t ts) = insert t (set ts)"
  by (metis push_timer_set set_mset_add_mset_insert set_mset_mset)

lemma push_timer_sorted: "sorted (map due ts) \<Longrightarrow> sorted (map due (push_timer before t ts))"
  by (induction ts) (auto simp: push_timer_members)

lemma push_timer_distinct: "distinct (map ti_id (push_timer before t ts)) \<longleftrightarrow> ti_id t \<notin> ti_id ` set ts \<and> distinct (map ti_id ts)"
  by (induction ts) (auto simp: push_timer_members)

lemma arm_spec:
  assumes "timers_wf (rx_timers rx) (canceledTimers rx)" and "0 \<le> timerFd rx"
  shows "\<exists>pre ts. rx_timers rx = pre @ ts \<and> live_in pre (canceledTimers rx) = [] \<and>
    armNextTimerLocked now rx = rx\<lparr>rx_timers := ts, canceledTimers := forget pre (canceledTimers rx),
      rx_armed := (case live rx of [] \<Rightarrow> None | t # _ \<Rightarrow> Some (max 1000000 (due t - now)))\<rparr>"
proof -
  obtain ts c where p: "purge_canceled (rx_timers rx) (canceledTimers rx) = (ts, c)" by fastforce
  then obtain pre where pre: "rx_timers rx = pre @ ts" "\<forall>t\<in>set pre. canceledTimers rx (ti_id t) = Some True"
    "ts = [] \<or> canceledTimers rx (ti_id (hd ts)) \<noteq> Some True" "c = forget pre (canceledTimers rx)"
    using purge_spec [OF p] assms(1) by (auto simp: timers_wf_def)
  then have none: "live_in pre (canceledTimers rx) = []" by (auto simp: live_in_def)
  have "live rx = live_in ts (canceledTimers rx)" using pre(1) none by (simp add: live_def live_in_def)
  moreover have "live_in ts (canceledTimers rx) = hd ts # live_in (tl ts) (canceledTimers rx)" if "ts \<noteq> []"
  proof -
    have "hd ts \<in> set (rx_timers rx)" using that pre(1) by simp
    then have "canceledTimers rx (ti_id (hd ts)) \<noteq> None" using assms(1) by (auto simp: timers_wf_def)
    then show ?thesis using pre(3) that by (cases ts) (auto simp: live_in_def)
  qed
  ultimately have "(case ts of [] \<Rightarrow> None | t # _ \<Rightarrow> Some (if due t - now < 1000000 then 1000000 else due t - now)) =
      (case live rx of [] \<Rightarrow> None | t # _ \<Rightarrow> Some (max 1000000 (due t - now)))"
    by (cases ts) (auto simp: live_in_def max_def)
  then show ?thesis using p pre none assms(2) by (intro exI [of _ pre] exI [of _ ts]) (simp add: armNextTimerLocked_def)
qed

text \<open>Arming keeps the live timers and settles when the descriptor fires.\<close>

lemma arm_ok:
  assumes "timers_wf (rx_timers rx) (canceledTimers rx)" and "\<forall>t\<in>set (rx_timers rx). ti_id t < nextTimerId rx"
    and "0 \<le> timerFd rx"
  shows "reactor_ok (armNextTimerLocked now rx)" and "live (armNextTimerLocked now rx) = live rx"
    and "rx_armed (armNextTimerLocked now rx) = (case live rx of [] \<Rightarrow> None | t # _ \<Rightarrow> Some (max 1000000 (due t - now)))"
proof -
  obtain pre ts where a: "rx_timers rx = pre @ ts" "live_in pre (canceledTimers rx) = []"
    "armNextTimerLocked now rx = rx\<lparr>rx_timers := ts, canceledTimers := forget pre (canceledTimers rx),
      rx_armed := (case live rx of [] \<Rightarrow> None | t # _ \<Rightarrow> Some (max 1000000 (due t - now)))\<rparr>"
    using arm_spec [OF assms(1,3)] by blast
  have wf: "timers_wf (pre @ ts) (canceledTimers rx)" using assms(1) a(1) by simp
  have l: "live_in ts (forget pre (canceledTimers rx)) = live rx"
    using live_forget [OF wf] a(1,2) by (simp add: live_def live_in_def)
  then show "live (armNextTimerLocked now rx) = live rx" by (simp add: a(3) live_def)
  show "rx_armed (armNextTimerLocked now rx) = (case live rx of [] \<Rightarrow> None | t # _ \<Rightarrow> Some (max 1000000 (due t - now)))"
    by (simp add: a(3))
  show "reactor_ok (armNextTimerLocked now rx)"
    using timers_wf_forget [OF wf] assms(2,3) l by (auto simp: a reactor_ok_def live_def split: list.splits)
qed

lemma arm_fields [simp]:
  "nextTimerId (armNextTimerLocked now rx) = nextTimerId rx" "rx_running (armNextTimerLocked now rx) = rx_running rx"
  "rx_fds (armNextTimerLocked now rx) = rx_fds rx" "rx_tasks (armNextTimerLocked now rx) = rx_tasks rx"
  "timerFd (armNextTimerLocked now rx) = timerFd rx" "rx_worker (armNextTimerLocked now rx) = rx_worker rx"
  "wakeupFd (armNextTimerLocked now rx) = wakeupFd rx" "epollFd (armNextTimerLocked now rx) = epollFd rx"
  by (auto simp: armNextTimerLocked_def split: prod.splits)

text \<open>Scheduling, canceling and firing on the live timers.\<close>

lemma schedule_ok:
  assumes "reactor_ok rx" and "rx_running rx" and "nextTimerId rx \<noteq> - 1"
    and "scheduleOnce before now now' ms (Some h) rx = (tid, rx')"
  shows "reactor_ok rx'" and "tid = nextTimerId rx" and "nextTimerId rx' = nextTimerId rx + 1"
    and "mset (live rx') = add_mset \<lparr>due = now + max ms 0 * 1000000, ti_id = tid, ti_handler = h\<rparr> (mset (live rx))"
proof -
  let ?item = "\<lparr>due = now + max ms 0 * 1000000, ti_id = nextTimerId rx, ti_handler = h\<rparr>"
  let ?rx = "rx\<lparr>nextTimerId := nextTimerId rx + 1, rx_timers := push_timer before ?item (rx_timers rx),
      canceledTimers := (canceledTimers rx)(nextTimerId rx \<mapsto> False)\<rparr>"
  have s: "tid = nextTimerId rx" "rx' = armNextTimerLocked now' ?rx" using assms(2,4) by (auto simp: scheduleOnce_def Let_def)
  have "1 + nextTimerId rx \<noteq> 0" using assms(3) by (simp add: add_eq_0_iff)
  then have new: "nextTimerId rx < nextTimerId rx + 1" using unatSuc [of "nextTimerId rx"] by (simp add: word_less_nat_alt add.commute)
  have fresh: "nextTimerId rx \<notin> ti_id ` set (rx_timers rx)" using assms(1) by (auto simp: reactor_ok_def)
  have wf: "timers_wf (rx_timers ?rx) (canceledTimers ?rx)"
    using assms(1) fresh by (auto simp: reactor_ok_def timers_wf_def push_timer_sorted push_timer_distinct push_timer_members)
  have ids: "\<forall>t\<in>set (rx_timers ?rx). ti_id t < nextTimerId ?rx"
    using assms(1) new by (auto simp: reactor_ok_def push_timer_members)
  have fd: "0 \<le> timerFd ?rx" using assms(1,2) by (simp add: reactor_ok_def)
  have "mset (live ?rx) = add_mset ?item (mset (live rx))"
  proof -
    have "filter_mset (\<lambda>t. ((canceledTimers rx)(nextTimerId rx \<mapsto> False)) (ti_id t) = Some False) (mset (rx_timers rx)) =
        filter_mset (\<lambda>t. canceledTimers rx (ti_id t) = Some False) (mset (rx_timers rx))"
    proof (intro filter_mset_cong refl)
      fix t assume "t \<in># mset (rx_timers rx)"
      then have "ti_id t \<noteq> nextTimerId rx" using fresh by (metis imageI set_mset_mset)
      then show "(((canceledTimers rx)(nextTimerId rx \<mapsto> False)) (ti_id t) = Some False) = (canceledTimers rx (ti_id t) = Some False)" by simp
    qed
    then show ?thesis by (simp add: live_def live_in_def push_timer_set)
  qed
  then show "reactor_ok rx'" "mset (live rx') = add_mset \<lparr>due = now + max ms 0 * 1000000, ti_id = tid, ti_handler = h\<rparr> (mset (live rx))"
    using arm_ok [OF wf ids fd, of now'] by (simp_all add: s)
  show "tid = nextTimerId rx" "nextTimerId rx' = nextTimerId rx + 1" by (simp_all add: s)
qed

lemma cancel_timer_ok:
  assumes "reactor_ok rx" and "0 \<le> timerFd rx" and "cancelTimer now tid rx = (b, rx')"
  shows "reactor_ok rx'" and "live rx' = filter (\<lambda>t. ti_id t \<noteq> tid) (live rx)"
    and "b \<longleftrightarrow> tid \<in> ti_id ` set (rx_timers rx)"
proof -
  have wf: "timers_wf (rx_timers rx) (canceledTimers rx)" using assms(1) by (simp add: reactor_ok_def)
  then have dom: "canceledTimers rx tid = None \<longleftrightarrow> tid \<notin> ti_id ` set (rx_timers rx)" by (auto simp: timers_wf_def)
  then show "b \<longleftrightarrow> tid \<in> ti_id ` set (rx_timers rx)" using assms(3) by (auto simp: cancelTimer_def split: if_splits)
  have "reactor_ok rx' \<and> live rx' = filter (\<lambda>t. ti_id t \<noteq> tid) (live rx)"
  proof (cases "canceledTimers rx tid = None")
    case True
    then have "\<forall>t\<in>set (live rx). ti_id t \<noteq> tid" using dom by (auto simp: live_def live_in_def)
    then show ?thesis using True assms(1,3) by (simp add: cancelTimer_def filter_id_conv)
  next
    case False
    let ?rx = "rx\<lparr>canceledTimers := (canceledTimers rx)(tid \<mapsto> True)\<rparr>"
    have "timers_wf (rx_timers ?rx) (canceledTimers ?rx)" using wf False by (auto simp: timers_wf_def)
    moreover have "\<forall>t\<in>set (rx_timers ?rx). ti_id t < nextTimerId ?rx" using assms(1) by (simp add: reactor_ok_def)
    moreover have "live ?rx = filter (\<lambda>t. ti_id t \<noteq> tid) (live rx)"
      by (auto simp: live_def live_in_def intro: filter_cong)
    ultimately show ?thesis using arm_ok [of ?rx now] assms(2,3) False by (simp add: cancelTimer_def)
  qed
  then show "reactor_ok rx'" "live rx' = filter (\<lambda>t. ti_id t \<noteq> tid) (live rx)" by blast+
qed

lemma fire_ok:
  assumes "reactor_ok rx" and "0 \<le> timerFd rx" and "fireDueTimers now now' rx = (hs, rx')"
  shows "reactor_ok rx'" and "hs = map ti_handler (filter (\<lambda>t. due t \<le> now) (live rx))"
    and "live rx' = filter (\<lambda>t. now < due t) (live rx)"
    and "rx_armed rx' = (case live rx' of [] \<Rightarrow> None | t # _ \<Rightarrow> Some (max 1000000 (due t - now')))"
proof -
  have wf: "timers_wf (rx_timers rx) (canceledTimers rx)" using assms(1) by (simp add: reactor_ok_def)
  obtain hs0 ts c where f: "fire_loop now (rx_timers rx) (canceledTimers rx) = (hs0, ts, c)" using prod_cases3 by blast
  then have r: "hs = hs0" "rx' = armNextTimerLocked now' (rx\<lparr>rx_timers := ts, canceledTimers := c\<rparr>)"
    using assms(3) by (auto simp: fireDueTimers_def)
  obtain pre where pre: "rx_timers rx = pre @ ts" "hs0 = map ti_handler (live_in pre (canceledTimers rx))"
    "\<forall>t\<in>set (live_in pre (canceledTimers rx)). due t \<le> now" "\<forall>t\<in>set (live_in ts (canceledTimers rx)). now < due t"
    "c = forget pre (canceledTimers rx)" using fire_spec [OF f wf] by blast
  let ?rx = "rx\<lparr>rx_timers := ts, canceledTimers := c\<rparr>"
  have wf': "timers_wf (pre @ ts) (canceledTimers rx)" using wf pre(1) by simp
  have l: "live ?rx = live_in ts (canceledTimers rx)" using live_forget [OF wf'] by (simp add: live_def pre(5))
  have split: "live rx = live_in pre (canceledTimers rx) @ live_in ts (canceledTimers rx)"
    by (simp add: live_def live_in_def pre(1))
  have due: "filter (\<lambda>t. due t \<le> now) (live rx) = live_in pre (canceledTimers rx)"
      "filter (\<lambda>t. now < due t) (live rx) = live_in ts (canceledTimers rx)"
    using pre(3,4) by (auto simp: split filter_id_conv filter_empty_conv not_le not_less)
  show "hs = map ti_handler (filter (\<lambda>t. due t \<le> now) (live rx))" by (simp add: r pre(2) due)
  have a: "timers_wf (rx_timers ?rx) (canceledTimers ?rx)" "\<forall>t\<in>set (rx_timers ?rx). ti_id t < nextTimerId ?rx" "0 \<le> timerFd ?rx"
    using timers_wf_forget [OF wf'] assms(1,2) pre(1) by (auto simp: pre(5) reactor_ok_def)
  note arm = arm_ok [OF a, of now']
  show "reactor_ok rx'" using arm(1) by (simp add: r)
  show "live rx' = filter (\<lambda>t. now < due t) (live rx)" using arm(2) by (simp add: r due l)
  then show "rx_armed rx' = (case live rx' of [] \<Rightarrow> None | t # _ \<Rightarrow> Some (max 1000000 (due t - now')))"
    using arm(3) by (simp add: r due l)
qed

section \<open>The reactor's operations as a machine\<close>

text \<open>The label: the handlers that are scheduled, fired and canceled.\<close>

abbreviation handlers :: "'h TimerItem list \<Rightarrow> 'h multiset" where
  "handlers ts \<equiv> mset (map ti_handler ts)"

inductive reactor_step :: "'h Reactor \<Rightarrow> 'h multiset \<times> 'h multiset \<times> 'h multiset \<Rightarrow> 'h Reactor \<Rightarrow> bool" where
  timer_schedule: "nextTimerId rx \<noteq> - 1 \<Longrightarrow> scheduleOnce before now now' ms (Some h) rx = (tid, rx') \<Longrightarrow>
     reactor_step rx ({#h#}, {#}, {#}) rx'"
| timer_cancel: "cancelTimer now tid rx = (b, rx') \<Longrightarrow>
     reactor_step rx ({#}, {#}, handlers (filter (\<lambda>t. ti_id t = tid) (live rx))) rx'"
| timer_fire: "fireDueTimers now now' rx = (hs, rx') \<Longrightarrow> reactor_step rx ({#}, mset hs, {#}) rx'"
| task_post: "Reactor_post task rx = (b, rx') \<Longrightarrow> reactor_step rx ({#}, {#}, {#}) rx'"
| task_take: "take_task rx = Some (t, rx') \<Longrightarrow> reactor_step rx ({#}, {#}, {#}) rx'"
| fd_register: "registerFd ctl fd rh wh rx = (b, rx') \<Longrightarrow> reactor_step rx ({#}, {#}, {#}) rx'"
| fd_unregister: "unregisterFd fd rx = (b, rx') \<Longrightarrow> reactor_step rx ({#}, {#}, {#}) rx'"
| fd_write: "enableWrite ctl fd enable rx = (b, rx') \<Longrightarrow> reactor_step rx ({#}, {#}, {#}) rx'"

definition reactor_live :: "'h Reactor \<Rightarrow> bool" where
  "reactor_live rx \<longleftrightarrow> reactor_ok rx \<and> rx_running rx"

definition timers_match :: "'h Reactor \<Rightarrow> 'h multiset \<times> 'h multiset \<times> 'h multiset \<Rightarrow> 'h Reactor \<Rightarrow> bool" where
  "timers_match rx l rx' \<longleftrightarrow> fst l + handlers (live rx) = fst (snd l) + snd (snd l) + handlers (live rx')"

lemma other_step:
  assumes "reactor_live rx" and "rx_timers rx' = rx_timers rx" and "canceledTimers rx' = canceledTimers rx"
    and "nextTimerId rx' = nextTimerId rx" and "timerFd rx' = timerFd rx" and "rx_armed rx' = rx_armed rx"
    and "rx_running rx' = rx_running rx"
  shows "reactor_live rx' \<and> timers_match rx ({#}, {#}, {#}) rx'"
  using assms by (simp add: reactor_live_def reactor_ok_def live_def timers_match_def)

lemma split_handlers: "handlers ts = handlers (filter P ts) + handlers (filter (\<lambda>t. \<not> P t) ts)"
  by (induction ts) auto

lemma reactor_step_ok:
  assumes "reactor_live rx" and "reactor_step rx l rx'"
  shows "reactor_live rx' \<and> timers_match rx l rx'"
  using assms(2)
proof cases
  have ok: "reactor_ok rx" "rx_running rx" "0 \<le> timerFd rx" using assms(1) by (auto simp: reactor_live_def reactor_ok_def)
  {
    case (timer_schedule before now now' ms h tid)
    note s = schedule_ok [OF ok(1,2) timer_schedule(2,3)]
    have "rx_running rx'" using timer_schedule(3) ok(2) by (auto simp: scheduleOnce_def Let_def)
    then show ?thesis using s(1,4) timer_schedule(1) by (simp add: reactor_live_def timers_match_def)
  next
    case (timer_cancel now tid b)
    have "rx_running rx'" using timer_cancel(2) ok(2) by (auto simp: cancelTimer_def split: if_splits)
    then show ?thesis using cancel_timer_ok [OF ok(1,3) timer_cancel(2)] timer_cancel(1) split_handlers [of "live rx" "\<lambda>t. ti_id t = tid"]
      by (simp add: reactor_live_def timers_match_def)
  next
    case (timer_fire now now' hs)
    have "rx_running rx'" using timer_fire(2) ok(2) by (auto simp: fireDueTimers_def split: prod.splits)
    then show ?thesis using fire_ok [OF ok(1,3) timer_fire(2)] timer_fire(1) split_handlers [of "live rx" "\<lambda>t. due t \<le> now"]
      by (simp add: reactor_live_def timers_match_def not_le)
  next
    case (task_post task b)
    then show ?thesis using other_step [OF assms(1), of rx'] by (auto simp: Reactor_post_def split: option.splits if_splits)
  next
    case (task_take t)
    then show ?thesis using other_step [OF assms(1), of rx'] by (auto simp: take_task_def split: list.splits)
  next
    case (fd_register ctl fd rh wh b)
    then show ?thesis using other_step [OF assms(1), of rx'] by (auto simp: registerFd_def split: option.splits if_splits)
  next
    case (fd_unregister fd b)
    then show ?thesis using other_step [OF assms(1), of rx'] by (auto simp: unregisterFd_def split: if_splits)
  next
    case (fd_write ctl fd enable b)
    then show ?thesis using other_step [OF assms(1), of rx'] by (auto simp: enableWrite_def Let_def split: option.splits if_splits)
  }
qed

interpretation reactor_ops: invariant_machine reactor_step reactor_live
  by unfold_locales (use reactor_step_ok in blast)

lemma timers_history:
  assumes "runs reactor_step rx0 ls rx" and "reactor_live rx0"
  shows "sum_list (map fst ls) + handlers (live rx0) =
    sum_list (map (fst \<circ> snd) ls) + sum_list (map (snd \<circ> snd) ls) + handlers (live rx)"
  using assms
proof (rule reactor_ops.runs_history)
  fix ls t l u
  assume h: "reactor_live t" "sum_list (map fst ls) + handlers (live rx0) =
    sum_list (map (fst \<circ> snd) ls) + sum_list (map (snd \<circ> snd) ls) + handlers (live t)" "reactor_step t l u"
  have "fst l + handlers (live t) = fst (snd l) + snd (snd l) + handlers (live u)"
    using reactor_step_ok [OF h(1,3)] by (simp add: timers_match_def)
  then show "sum_list (map fst (ls @ [l])) + handlers (live rx0) =
      sum_list (map (fst \<circ> snd) (ls @ [l])) + sum_list (map (snd \<circ> snd) (ls @ [l])) + handlers (live u)"
    using h(2) by (simp add: ac_simps)
qed simp

lemma start_live:
  assumes "reactor_ok rx" and "rx_timers rx = []" and "rx_armed rx = None" and "Reactor_start a rx = (True, rx')"
    and "\<not> rx_running rx"
  shows "reactor_live rx' \<and> live rx' = []"
  using assms
  by (auto simp: Reactor_start_def setupPlatformPrimitives_def reactor_live_def reactor_ok_def live_def live_in_def Let_def
      teardownPlatformPrimitives_def split: if_splits)

text \<open>An error of \<open>epoll_wait\<close> ends the loop, but the reactor still says that it runs.\<close>

lemma loop_error:
  assumes "rx_running (reactor w)" and "rx_tasks (reactor w) = []"
  shows "runLoop (Suc n) run (Poll_Error False # answers) w = Inr (leave_loop w)"
  using assms by (simp add: runLoop.simps take_task_def)

end
