(* ===== verification/Manager_Machine.thy ===== *)
theory Manager_Machine
  imports Manager_Requests Reactor_Inv
begin

text \<open>
  The manager with everything that may happen to it, as a step relation: what the users' threads
  do, the connector thread, the reactor thread, the callback thread and \<open>close\<close>. Every reachable state
  answers each request once, and after \<open>close\<close> no request is left.
\<close>

section \<open>The users' operations\<close>

lemma start_threads_cases:
  assumes "startThreadsIfNeeded a m = (ok, m')" and "threads_ok m"
  obtains "m' = m"
  | d rx c t r where "\<not> startOnce m" "cd_tasks d = cd_tasks (callbackDispatcher m)" "cd_tasks d = []"
    "m' = m\<lparr>startOnce := True, callbackDispatcher := d, reactor := rx, connectorStop := c, connectorThread := t, startResult := r\<rparr>"
proof (cases "startOnce m")
  case False
  then have d: "\<not> cd_running (callbackDispatcher m)" "cd_tasks (callbackDispatcher m) = []"
    using assms(2) by (auto simp: threads_ok_def)
  let ?d = "(callbackDispatcher m)\<lparr>cd_stopRequested := False, cd_running := True, cd_worker := True\<rparr>"
  obtain up rx where r: "Reactor_start a (reactor m) = (up, rx)" by fastforce
  let ?e = "if up then ?d else ?d\<lparr>cd_stopRequested := True, cd_running := False, cd_worker := False, cd_tasks := []\<rparr>"
  have "m' = snd (startThreadsIfNeeded a m)" using assms(1) by simp
  then have "m' = m\<lparr>startOnce := True, callbackDispatcher := ?e, reactor := rx, connectorStop := (\<not> up \<and> connectorStop m),
      connectorThread := (up \<or> connectorThread m), startResult := (up \<or> startResult m)\<rparr>"
    using False d r
    by (cases up) (simp_all add: startThreadsIfNeeded_def Let_def CallbackDispatcher_start_def CallbackDispatcher_stop_def runLoop_to_end_tasks)
  then show thesis using that(2) [of ?e] False d(2) by simp
qed (use assms(1) that(1) in \<open>simp add: startThreadsIfNeeded_def\<close>)

lemma start_threads_ok:
  assumes "manager_ok K m" and "startThreadsIfNeeded a m = (ok, m')"
  shows "manager_ok K m'"
proof -
  have t: "requests_ok m" using assms(1) by (simp add: manager_ok_def)
  then have threads: "threads_ok m" by (simp add: requests_ok_def)
  show ?thesis
  proof (cases rule: start_threads_cases [OF assms(2) threads])
    case (2 d rx c t r)
    have "requests_ok m'"
      using 2 by (intro requests_frame [OF t]) (auto simp: delivered_def threads_ok_def)
    then show ?thesis using assms(1) 2(4) by (simp add: manager_ok_def known_def)
  qed (use assms(1) in simp)
qed

text \<open>A request with a new number, in the table.\<close>

definition issue :: "((u64 \<times> ctx) list \<Rightarrow> (u64 \<times> ctx) list) \<Rightarrow> int \<Rightarrow> bool \<Rightarrow> Manager \<Rightarrow> Manager" where
  "issue order timeout callback m =
     m\<lparr>nextRequestId := nextRequestId m + 1,
       ctxs := (ctxs m)(unat (nextRequestId m) := setCancelHandler (RequestContext_new (nextRequestId m) timeout callback)),
       contexts := order ((nextRequestId m, unat (nextRequestId m)) # contexts m)\<rparr>"

lemma next_known:
  assumes "nextRequestId m \<noteq> 0" and "nextRequestId m \<noteq> -1" and "nextRequestId m' = nextRequestId m + 1"
  shows "known m' = insert (unat (nextRequestId m)) (known m)"
proof -
  have "unat (nextRequestId m + 1) = Suc (unat (nextRequestId m))" using assms(2) by (simp add: unatSuc add.commute add_eq_0_iff)
  then show ?thesis using assms(1,3) by (auto simp: known_def unat_gt_0 less_Suc_eq)
qed

lemma issue_requests:
  assumes "requests_ok m" and "nextRequestId m \<noteq> -1" and "permutes_entries order"
  shows "requests_ok (issue order timeout callback m)"
proof -
  let ?n = "nextRequestId m" and ?m = "issue order timeout callback m"
  have n: "?n \<noteq> 0" using assms(1) by (simp add: requests_ok_def)
  have K: "known ?m = insert (unat ?n) (known m)" by (rule next_known [OF n assms(2)]) (simp add: issue_def)
  have new: "unat ?n \<notin> known m" by (simp add: known_def)
  have issued: "issued ?m k \<longleftrightarrow> k = ?n \<or> issued m k" for k by (auto simp: issued_known K word_unat_eq_iff)
  have tbl: "set (contexts ?m) = insert (?n, unat ?n) (set (contexts m))" using permutes_set [OF assms(3)] by (simp add: issue_def)
  have "?n \<notin> fst ` set (contexts m)" using assms(1) by (auto simp: requests_ok_def issued_def)
  then have "distinct (map fst (contexts ?m))"
    using mset_eq_imp_distinct_iff [OF perm_find(2) [OF assms(3), of "(?n, unat ?n) # contexts m"]] assms(1)
    by (simp add: issue_def requests_ok_def)
  moreover have "\<forall>(k, c)\<in>set (contexts ?m). c = unat k \<and> issued ?m k \<and> \<not> finished_of c ?m"
    using assms(1) unfolding tbl issued by (auto simp: requests_ok_def issue_def setCancelHandler_def RequestContext_new_def)
  moreover have "\<forall>k. issued ?m k \<longrightarrow> REQUEST_ID (ctxs ?m (unat k)) = k \<and> (finished_of (unat k) ?m \<or> (k, unat k) \<in> set (contexts ?m))"
    using assms(1) unfolding tbl issued
    by (auto simp: requests_ok_def issue_def setCancelHandler_def RequestContext_new_def word_unat_eq_iff)
  moreover have "\<forall>c. c \<notin> known ?m \<longrightarrow> REQUEST_ID (ctxs ?m c) = 0 \<and> \<not> completionHandler (ctxs ?m c) \<and> \<not> finished_of c ?m"
    using assms(1) unfolding K by (auto simp: requests_ok_def issue_def)
  moreover have tasks: "fst ` set (cd_tasks (callbackDispatcher m)) \<subseteq> known m" using assms(1) by (simp add: requests_ok_def)
  then have "fst ` set (cd_tasks (callbackDispatcher ?m)) \<subseteq> known ?m" unfolding K by (auto simp: issue_def)
  moreover have "threads_ok ?m" using assms(1) by (simp add: requests_ok_def threads_ok_def issue_def)
  moreover have "\<forall>c. count (delivered ?m) c = (if finished_of c ?m \<and> completionHandler (ctxs ?m c) then 1 else 0)"
  proof -
    have d: "delivered ?m = delivered m"
      using new tasks by (fastforce simp: delivered_def issue_def intro!: filter_mset_cong)
    then show ?thesis using assms(1) new by (auto simp: requests_ok_def issue_def setCancelHandler_def RequestContext_new_def)
  qed
  moreover have "nextRequestId ?m \<noteq> 0" using assms(2) by (simp add: issue_def flip: eq_neg_iff_add_eq_0)
  ultimately show ?thesis unfolding requests_ok_def by blast
qed

lemma queue_in_mono: "queue_in K q \<Longrightarrow> K \<subseteq> L \<Longrightarrow> queue_in L q"
  by (auto simp: queue_in_def)

lemma issue_ok:
  assumes "manager_ok K m" and "nextRequestId m \<noteq> -1" and "permutes_entries order"
  shows "manager_ok (insert (unat (nextRequestId m)) K) (issue order timeout callback m)"
proof -
  have r: "requests_ok m" "known m = K" using assms(1) by (simp_all add: manager_ok_def)
  have "known (issue order timeout callback m) = insert (unat (nextRequestId m)) K"
    using r next_known [of m "issue order timeout callback m"] assms(2) by (simp add: issue_def requests_ok_def)
  then show ?thesis using assms(1) issue_requests [OF r(1) assms(2,3)]
    by (fastforce simp: manager_ok_def issue_def pending_in_def sessions_in_def intro: queue_in_mono)
qed

lemma start_threads_put:
  "startThreadsIfNeeded a (m\<lparr>contexts := cs\<rparr>) =
   (fst (startThreadsIfNeeded a m), (snd (startThreadsIfNeeded a m))\<lparr>contexts := cs\<rparr>)"
  by (auto simp: startThreadsIfNeeded_def Let_def case_prod_unfold split: sum.splits)

lemma completeRequest_put:
  assumes "\<not> finished_of c m"
  shows "completeRequest env c response (m\<lparr>contexts := (REQUEST_ID (ctxs m c), c) # contexts m\<rparr>) = completeRequest env c response m"
  using assms by (simp add: completeRequest_def tryFinish_def update_context_def cancel_request_timer_def call_back_def setTimerId_def
      Let_def case_prod_unfold)

lemma start_threads_keeps:
  assumes "startThreadsIfNeeded a m = (ok, m')" and "threads_ok m"
  shows "contexts m' = contexts m \<and> ctxs m' = ctxs m \<and> nextRequestId m' = nextRequestId m"
  by (cases rule: start_threads_cases [OF assms]) simp_all

lemma set_timer_ok: "manager_ok K m \<Longrightarrow> manager_ok K (update_context c (setTimerId tid) m)"
  by (rule manager_context) (simp_all add: setTimerId_def)

lemma send_begin_ok:
  assumes "manager_ok K m" and "env_ok env" and "nextRequestId m \<noteq> -1" and "send_begin env a timeout callback m = (go_on, c, m')"
  shows "c = unat (nextRequestId m) \<and> nextRequestId m' = nextRequestId m + 1 \<and> manager_ok (insert c K) m'"
proof -
  let ?k = "nextRequestId m"
  let ?m1 = "m\<lparr>nextRequestId := ?k + 1, ctxs := (ctxs m)(unat ?k := setCancelHandler (RequestContext_new ?k timeout callback))\<rparr>"
  obtain ok m2 where s: "startThreadsIfNeeded a ?m1 = (ok, m2)" by fastforce
  have "threads_ok ?m1" using assms(1) by (simp add: manager_ok_def requests_ok_def threads_ok_def)
  note keeps = start_threads_keeps [OF s this]
  have start: "startThreadsIfNeeded a (issue order timeout callback m) = (ok, m2\<lparr>contexts := order ((?k, unat ?k) # contexts m)\<rparr>)" for order
    using start_threads_put [where m = ?m1 and cs = "order ((?k, unat ?k) # contexts m)"] s by (simp add: issue_def)
  have issued: "permutes_entries order \<Longrightarrow> manager_ok (insert (unat ?k) K) (m2\<lparr>contexts := order ((?k, unat ?k) # contexts m)\<rparr>)" for order
    using start_threads_ok [OF issue_ok [OF assms(1,3)] start] .
  have c: "c = unat ?k" using assms(4) s by (auto simp: send_begin_def Let_def split: if_splits prod.splits)
  show ?thesis
  proof (cases ok)
    case False
    have fresh: "\<not> finished_of c m2" "REQUEST_ID (ctxs m2 c) = ?k"
      using keeps by (simp_all add: c setCancelHandler_def RequestContext_new_def)
    let ?r = "failConnectionError ''Connection manager failed to start''"
    have "m' = completeRequest env c ?r m2" using assms(4) s False by (simp add: send_begin_def Let_def c)
    moreover have "m2\<lparr>contexts := (?k, c) # contexts m\<rparr> = m2\<lparr>contexts := (REQUEST_ID (ctxs m2 c), c) # contexts m2\<rparr>"
      using fresh keeps by simp
    ultimately have "m' = completeRequest env c ?r (m2\<lparr>contexts := (?k, c) # contexts m\<rparr>)"
      using completeRequest_put [OF fresh(1)] by simp
    then show ?thesis using complete_ok [OF issued [of id], of c] keeps by (simp add: c permutes_entries_def)
  next
    case True
    let ?m3 = "m2\<lparr>contexts := od_contexts env ((?k, unat ?k) # contexts m)\<rparr>"
    have m3: "manager_ok (insert c K) ?m3" using issued assms(2) by (simp add: env_ok_def c)
    show ?thesis
    proof (cases "timeout < 0")
      case True
      then have "m' = ?m3" using assms(4) s \<open>ok\<close> keeps by (simp add: send_begin_def Let_def c)
      then show ?thesis using m3 keeps c by simp
    next
      case False
      obtain tid rx where t: "scheduleOnce (en_before env) (en_now env) (en_armNow env) timeout (Some (Request_Timeout ?k)) (reactor m2) = (tid, rx)"
        by fastforce
      show ?thesis
      proof (cases "tid = 0")
        case True
        then have "m' = completeRequest env c (failConnectionError ''Failed to schedule timeout'') (?m3\<lparr>reactor := rx\<rparr>)"
          using assms(4) s \<open>ok\<close> False t keeps by (simp add: send_begin_def Let_def c)
        then show ?thesis using complete_ok [of "insert c K" "?m3\<lparr>reactor := rx\<rparr>" c] m3 keeps c by simp
      next
        case False
        then have "m' = update_context c (setTimerId tid) (?m3\<lparr>reactor := rx\<rparr>)"
          using assms(4) s \<open>ok\<close> \<open>\<not> timeout < 0\<close> t keeps by (simp add: send_begin_def Let_def c)
        then show ?thesis using set_timer_ok [of "insert c K" "?m3\<lparr>reactor := rx\<rparr>" c tid] m3 keeps c by (simp add: update_context_def)
      qed
    qed
  qed
qed

lemma send_finish_ok:
  assumes "manager_ok K m" and "pr_context pr \<in> K"
  shows "manager_ok K (send_finish env pr m)"
proof -
  let ?m1 = "m\<lparr>submitQueue := submitQueue m @ [pr]\<rparr>"
  obtain posted rx where post: "Reactor_post (Some Drain_Submit_Queue) (reactor m) = (posted, rx)" by fastforce
  let ?m2 = "?m1\<lparr>reactor := rx\<rparr>"
  have m2: "manager_ok K ?m2" using manager_queue [OF assms(1)] manager_refs(1) [OF assms(1)] assms(2) by simp
  have "manager_ok K (case removeFromSubmitQueue k ?m2 of None \<Rightarrow> ?m2 | Some (_, m) \<Rightarrow> m)" for k
  proof (cases "remove_request k (ctxs ?m2) (submitQueue ?m2)")
    case (Some r)
    obtain d q where r: "remove_request k (ctxs ?m2) (submitQueue ?m2) = Some (d, q)" using Some by (cases r) simp
    have "queue_in K q" using remove_request_in [OF r manager_refs(1) [OF m2]] ..
    then show ?thesis unfolding removeFromSubmitQueue_def r using manager_queue [OF m2] by simp
  qed (use m2 in \<open>simp add: removeFromSubmitQueue_def\<close>)
  from complete_ok [OF this assms(2)] m2 show ?thesis by (cases posted) (simp_all add: send_finish_def post Let_def)
qed

lemma user_cancel_ok:
  assumes "manager_ok K m" and "env_ok env" and "Manager_cancel env requestId m = Inr (b, m')"
  shows "manager_ok K m'"
proof -
  let ?m1 = "\<lambda>c. update_context c (snd \<circ> markCanceled) m"
  have posted: "manager_ok K ((?m1 c)\<lparr>reactor := rx\<rparr>)" for c rx using mark_ok [OF assms(1)] by simp
  show ?thesis using assms(1,3) cancel_job_ok [OF assms(2) posted] posted
    by (auto simp: Manager_cancel_def net_simps Let_def case_prod_unfold split: option.splits if_splits)
qed

lemma context_cancel_ok:
  assumes "manager_ok K m" and "RequestContext_cancel (ctxs m c) = (b, rc, handler)"
  shows "manager_ok K (update_context c (\<lambda>_. rc) m)"
proof -
  have "finished_flag rc = finished_of c m" "REQUEST_ID rc = REQUEST_ID (ctxs m c)" "completionHandler rc = completionHandler (ctxs m c)"
    using assms(2) by (auto simp: RequestContext_cancel_def markCanceled_def Let_def split: if_splits)
  then have "requests_ok (update_context c (\<lambda>_. rc) m)" using assms(1) by (intro requests_context) (simp_all add: manager_ok_def)
  then show ?thesis using assms(1) by (simp add: manager_ok_def) (simp add: update_context_def)
qed

lemma cancel_operation_ok:
  assumes "manager_ok K m" and "env_ok env" and "cancel_operation env c m = Inr (b, m')"
  shows "manager_ok K m'"
proof -
  obtain b1 rc handler where r: "RequestContext_cancel (ctxs m c) = (b1, rc, handler)" by (cases "RequestContext_cancel (ctxs m c)")
  show ?thesis using context_cancel_ok [OF assms(1) r] assms(2,3) user_cancel_ok r
    by (auto simp: cancel_operation_def net_simps Let_def split: option.splits)
qed

section \<open>The other threads\<close>

lemma start_holds_none: "ctx_set (snd (Session_start connector w (Http2Session_new ep cfg))) = {}"
proof -
  have none: "ctx_set s \<subseteq> {} \<Longrightarrow> ctx_set (snd (consumeStepResult r s)) \<subseteq> {}" for r s
    by (simp add: consumeStepResult_def)
  have "ctx_set (Http2Session_new ep cfg) = {}" by (simp add: ctx_set_def Http2Session_new_def)
  then show ?thesis
    by (auto simp: Session_start_def Let_def case_prod_unfold consumeStepResult_def split: sum.splits)
qed

lemma connect_holds_none:
  "ctx_set (cn_session (snd (Connection_connect connector w (Connection_new cid ep cfg)))) = {}"
proof -
  have "ctx_set (snd (Session_close (snd (Session_start connector w (Http2Session_new ep cfg))))) \<subseteq> {}"
    using close_within [of "snd (Session_start connector w (Http2Session_new ep cfg))" "{}"] start_holds_none
    by (simp add: answers_within_def)
  then show ?thesis
    using start_holds_none by (simp add: Connection_connect_def Connection_new_def Let_def case_prod_unfold)
qed

lemma connector_round_ok:
  assumes "manager_ok K m" and "connectorLoop_round connector w m = Some m'"
  shows "manager_ok K m'"
  using assms by (auto simp: connectorLoop_round_def Let_def case_prod_unfold connect_holds_none intro!: put_ok split: list.splits if_splits)

lemma connector_end_ok: "manager_ok K m \<Longrightarrow> connectorLoop_to_end results m = Inr m' \<Longrightarrow> manager_ok K m'"
proof (induction results arbitrary: m)
  case Nil
  then show ?case by (auto simp: connectorLoop_to_end.simps [of "[]"] split: if_splits)
next
  case (Cons a results)
  obtain connector w where a: "a = (connector, w)" by fastforce
  note unfolded = connectorLoop_to_end.simps [of "a # results" m]
  show ?case
  proof (cases "connectTasks m = []")
    case True
    then show ?thesis using Cons.prems unfolded by auto
  next
    case False
    then obtain m1 where m1: "connectorLoop_round connector w m = Some m1"
      by (auto simp: connectorLoop_round_def Let_def case_prod_unfold neq_Nil_conv)
    then have "connectorLoop_to_end results m1 = Inr m'" using Cons.prems(2) False unfolded a by simp
    then show ?thesis using Cons.IH connector_round_ok [OF Cons.prems(1) m1] by blast
  qed
qed

text \<open>A callback that is run moves from the queue to those called.\<close>

lemma delivered_run:
  assumes "cd_tasks (callbackDispatcher m) = (c, response) # tasks" and "cd_tasks d = tasks"
  shows "delivered (call_back c response (m\<lparr>callbackDispatcher := d\<rparr>)) = delivered m"
  using assms by (simp add: delivered_def call_back_def invokeCompletion_def)

lemma callback_ok:
  assumes "manager_ok K m" and "dispatch_callback m = Some m'"
  shows "manager_ok K m'"
proof -
  obtain c response d where s: "runLoop_section (callbackDispatcher m) = (Runs (c, response), d)"
    and m': "m' = call_back c response (m\<lparr>callbackDispatcher := d\<rparr>)"
    using assms(2) by (auto simp: dispatch_callback_def split: prod.splits loop_round.splits)
  then obtain tasks where t: "cd_tasks (callbackDispatcher m) = (c, response) # tasks" "d = (callbackDispatcher m)\<lparr>cd_tasks := tasks\<rparr>"
    by (auto simp: runLoop_section_def split: if_splits list.splits)
  have r: "requests_ok m" using assms(1) by (simp add: manager_ok_def)
  have "requests_ok m'"
    using delivered_run [OF t(1), of d] t by (intro requests_frame [OF r]) (auto simp: m' call_back_def threads_ok_def)
  then show ?thesis using assms(1) by (simp add: manager_ok_def m') (simp add: call_back_def known_def)
qed

lemma stop_dispatcher_result:
  assumes "stop_dispatcher m = Inr m'" and "threads_ok m"
  shows "called m' = called m @ concat (map (\<lambda>(c, response). map (Pair c) (invokeCompletion response (ctxs m c))) (cd_tasks (callbackDispatcher m)))"
    and "cd_tasks (callbackDispatcher m') = []" and "\<not> cd_running (callbackDispatcher m')"
    and "\<exists>d cs. m' = m\<lparr>callbackDispatcher := d, called := cs\<rparr>"
proof -
  have calls: "fold (\<lambda>(c, response). call_back c response) tasks m =
      m\<lparr>called := called m @ concat (map (\<lambda>(c, response). map (Pair c) (invokeCompletion response (ctxs m c))) tasks)\<rparr>" for tasks m
    by (induction tasks arbitrary: m) (auto simp: call_back_def)
  obtain d where d: "CallbackDispatcher_stop False (callbackDispatcher m) = Inr (cd_tasks (callbackDispatcher m), d)"
    "cd_tasks d = []" "\<not> cd_running d"
  proof (cases "cd_running (callbackDispatcher m)")
    case True
    then show thesis using stop_runs_all that by blast
  next
    case False
    then show thesis using that [of "callbackDispatcher m"] assms(2) by (simp add: CallbackDispatcher_stop_def threads_ok_def)
  qed
  then have m': "m' = fold (\<lambda>(c, response). call_back c response) (cd_tasks (callbackDispatcher m)) (m\<lparr>callbackDispatcher := d\<rparr>)"
    using assms(1) by (simp add: stop_dispatcher_def)
  then show "cd_tasks (callbackDispatcher m') = []" and "\<not> cd_running (callbackDispatcher m')" using d by (simp_all add: calls)
  show "called m' = called m @ concat (map (\<lambda>(c, response). map (Pair c) (invokeCompletion response (ctxs m c))) (cd_tasks (callbackDispatcher m)))"
    using m' by (simp add: calls)
  show "\<exists>d cs. m' = m\<lparr>callbackDispatcher := d, called := cs\<rparr>" using m' unfolding calls by auto
qed

lemma stop_dispatcher_ok:
  assumes "manager_ok K m" and "stop_dispatcher m = Inr m'"
  shows "manager_ok K m'"
proof -
  have r: "requests_ok m" using assms(1) by (simp add: manager_ok_def)
  then have "threads_ok m" by (simp add: requests_ok_def)
  note s = stop_dispatcher_result [OF assms(2) this]
  obtain d cs where m': "m' = m\<lparr>callbackDispatcher := d, called := cs\<rparr>" using s(4) by blast
  have "mset (map fst (concat (map (\<lambda>(c, response). map (Pair c) (invokeCompletion response (h c))) tasks))) =
      filter_mset (\<lambda>c. completionHandler (h c)) (mset (map fst tasks))" for tasks :: "(ctx \<times> Response) list" and h :: store
    by (induction tasks) (auto simp: invokeCompletion_def)
  then have "delivered m' = delivered m" using s(1,2) by (simp add: delivered_def m')
  then have "requests_ok m'" using s(2,3) by (intro requests_frame [OF r]) (auto simp: m' threads_ok_def)
  then show ?thesis using assms(1) by (simp add: manager_ok_def m' known_def)
qed

lemma stop_reactor_ok:
  assumes "env_ok env" and "manager_ok K m" and "stop_reactor n env m = Inr m'"
  shows "manager_ok K m'"
proof (cases "rx_running (reactor m)")
  case True
  let ?rx = "(reactor m)\<lparr>rx_running := False\<rparr>"
  obtain m1 where m1: "(if rx_worker ?rx then runLoop n (run_job env) [] (m\<lparr>reactor := ?rx\<rparr>) else Inr (m\<lparr>reactor := ?rx\<rparr>)) = Inr m1"
    "m' = m1\<lparr>reactor := Reactor_stop_finish (reactor m1)\<rparr>"
    using assms(3) True by (auto simp: stop_reactor_def Reactor_stop_request_def net_simps)
  have loop: "runLoop n (run_job env) [] (m\<lparr>reactor := ?rx\<rparr>) = net_bind (drainPostedTasks n (run_job env) (m\<lparr>reactor := ?rx\<rparr>)) (\<lambda>w. Inr (leave_loop w))"
    by (subst runLoop.simps) simp
  have "manager_ok K m1"
    using m1(1) assms(2) drain_tasks_ok [OF assms(1), of K "m\<lparr>reactor := ?rx\<rparr>" n] unfolding loop by (auto simp: net_simps split: if_splits)
  then show ?thesis using m1(2) by simp
qed (use assms in \<open>simp add: stop_reactor_def\<close>)

text \<open>What \<open>close\<close> has done before it fails the requests that are left.\<close>

lemma close_cases:
  assumes "Manager_close n results env m = Inr m'" and "env_ok env" and "manager_ok K m"
  obtains m1 m2 where "manager_ok K m1" "stop_dispatcher m1 = Inr m2" "manager_ok K m2"
    "m' = failAllContexts env (failConnectionError ''Connection closed'') (failQueuedRequests env (failConnectionError ''Connection closed'') m2)"
proof -
  obtain ma m1 m2 where s: "(if connectorThread m then connectorLoop_to_end results (m\<lparr>connectorStop := True\<rparr>)
        else Inr (m\<lparr>connectorStop := True\<rparr>)) = Inr ma"
    "stop_reactor n env (if rx_running (reactor ma) then ma\<lparr>reactor := snd (Reactor_post (Some Close_Manager) (reactor ma))\<rparr> else ma) = Inr m1"
    "stop_dispatcher m1 = Inr m2"
    "m' = failAllContexts env (failConnectionError ''Connection closed'') (failQueuedRequests env (failConnectionError ''Connection closed'') m2)"
    using assms(1) by (auto simp: Manager_close_def net_simps Let_def)
  have "manager_ok K ma" using s(1) assms(3) connector_end_ok [of K "m\<lparr>connectorStop := True\<rparr>"] by (auto simp: Let_def split: if_splits)
  then have "manager_ok K m1" using stop_reactor_ok [OF assms(2) _ s(2)] by simp
  then show thesis using that s(3,4) stop_dispatcher_ok by blast
qed

lemma fail_queued_ok: "manager_ok K m \<Longrightarrow> manager_ok K (failQueuedRequests env response m)"
  using manager_refs(1) [of K m] by (auto simp: failQueuedRequests_def queue_in_def intro!: complete_all_ok manager_queue)

lemma fail_all_ok: "manager_ok K m \<Longrightarrow> manager_ok K (failAllContexts env response m)"
  using table_known [of K m] by (fastforce simp: failAllContexts_def intro!: complete_all_ok)

lemma manager_close_ok: "env_ok env \<Longrightarrow> manager_ok K m \<Longrightarrow> Manager_close n results env m = Inr m' \<Longrightarrow> manager_ok K m'"
  by (erule close_cases) (auto intro: fail_queued_ok fail_all_ok)

section \<open>After close\<close>

lemma complete_all_finished:
  "finished_of c (complete_all env cs response m) \<longleftrightarrow> c \<in> set cs \<or> finished_of c m"
  by (induction cs arbitrary: m) (auto simp: completeRequest_store)

lemma completeRequest_table: "set (contexts (completeRequest env c response m)) \<subseteq> set (contexts m)"
  by (auto simp: completeRequest_def tryFinish_def cancel_request_timer_def update_context_def call_back_def setTimerId_def Let_def
      split: prod.splits)

lemma complete_all_table: "set (contexts (complete_all env cs response m)) \<subseteq> set (contexts m)"
  using completeRequest_table by (induction cs arbitrary: m) fastforce+

lemma table_unfinished: "manager_ok K m \<Longrightarrow> (k, c) \<in> set (contexts m) \<Longrightarrow> \<not> finished_of c m"
  by (auto simp: manager_ok_def requests_ok_def)

lemma fail_all_empties:
  assumes "manager_ok K m"
  shows "contexts (failAllContexts env response m) = []"
proof (rule ccontr)
  let ?m = "failAllContexts env response m"
  assume "contexts ?m \<noteq> []"
  then obtain k c where kc: "(k, c) \<in> set (contexts ?m)" by (cases "contexts ?m") auto
  then have "(k, c) \<in> set (contexts m)"
    using subsetD [OF complete_all_table] by (simp add: failAllContexts_def)
  then have "c \<in> set (map snd (contexts m))" by force
  then have "finished_of c ?m" using complete_all_finished by (simp add: failAllContexts_def)
  moreover have "\<not> finished_of c ?m" using table_unfinished [OF fail_all_ok [OF assms]] kc by blast
  ultimately show False by blast
qed

lemma completeRequest_idle:
  "\<not> cd_running (callbackDispatcher m) \<Longrightarrow> callbackDispatcher (completeRequest env c response m) = callbackDispatcher m"
  by (auto simp: completeRequest_def tryFinish_def cancel_request_timer_def update_context_def call_back_def Let_def)

lemma complete_all_idle:
  "\<not> cd_running (callbackDispatcher m) \<Longrightarrow> callbackDispatcher (complete_all env cs response m) = callbackDispatcher m"
  by (induction cs arbitrary: m) (simp_all add: completeRequest_idle)

lemma complete_all_queue: "submitQueue (complete_all env cs response m) = submitQueue m"
  by (induction cs arbitrary: m) simp_all

lemma close_leaves:
  assumes "env_ok env" and "manager_ok K m" and "Manager_close n results env m = Inr m'"
  shows "contexts m' = []" and "cd_tasks (callbackDispatcher m') = []" and "submitQueue m' = []"
proof -
  obtain m1 m2 where m: "manager_ok K m1" "stop_dispatcher m1 = Inr m2" "manager_ok K m2"
    "m' = failAllContexts env (failConnectionError ''Connection closed'') (failQueuedRequests env (failConnectionError ''Connection closed'') m2)"
    using close_cases [OF assms(3,1,2)] .
  have t: "threads_ok m1" using m(1) by (simp add: manager_ok_def requests_ok_def)
  note stopped = stop_dispatcher_result(2,3) [OF m(2) t]
  show "contexts m' = []" using fail_all_empties [OF fail_queued_ok [OF m(3)]] m(4) by simp
  show "submitQueue m' = []" using m(4) by (simp add: failAllContexts_def failQueuedRequests_def complete_all_queue)
  show "cd_tasks (callbackDispatcher m') = []"
    using stopped by (simp add: m(4) failAllContexts_def failQueuedRequests_def complete_all_idle)
qed

section \<open>Every interleaving\<close>

text \<open>
  The state is the manager and the requests whose thread is between its two parts of
  \<open>sendAsync\<close>. Each step is one that a thread may take next; the reactor's and the dispatcher's threads take theirs
  while they run. A label tells which request a user sends, and how its thread leaves \<open>sendAsync\<close>.
\<close>

datatype manager_label =
    Sends ctx | Send_Fails ctx | Enqueues ctx | Cancels | Connects | Runs_Task | Handles_Event | Calls_Back | Closes

inductive manager_step :: "Manager \<times> PendingRequest list \<Rightarrow> manager_label \<Rightarrow> Manager \<times> PendingRequest list \<Rightarrow> bool" where
  step_send: "env_ok env \<Longrightarrow> nextRequestId m \<noteq> -1 \<Longrightarrow> length (rq_body request) < 2 ^ 64 \<Longrightarrow>
    send_begin env a timeout callback m = (True, c, m') \<Longrightarrow>
    manager_step (m, sending) (Sends c) (m', \<lparr>pr_request = request, pr_endpoint = ep, pr_context = c\<rparr> # sending)"
| step_send_fails: "env_ok env \<Longrightarrow> nextRequestId m \<noteq> -1 \<Longrightarrow> send_begin env a timeout callback m = (False, c, m') \<Longrightarrow>
    manager_step (m, sending) (Send_Fails c) (m', sending)"
| step_enqueue: "env_ok env \<Longrightarrow> pr \<in> set sending \<Longrightarrow>
    manager_step (m, sending) (Enqueues (pr_context pr)) (send_finish env pr m, remove1 pr sending)"
| step_cancel: "env_ok env \<Longrightarrow> cancel_operation env c m = Inr (b, m') \<Longrightarrow> manager_step (m, sending) Cancels (m', sending)"
| step_connect: "connectorLoop_round connector w m = Some m' \<Longrightarrow> manager_step (m, sending) Connects (m', sending)"
| step_task: "env_ok env \<Longrightarrow> rx_worker (reactor m) \<Longrightarrow> take_task (reactor m) = Some (j, rx) \<Longrightarrow>
    run_job env j (m\<lparr>reactor := rx\<rparr>) = Inr m' \<Longrightarrow> manager_step (m, sending) Runs_Task (m', sending)"
| step_event: "env_ok env \<Longrightarrow> rx_worker (reactor m) \<Longrightarrow> dispatch_event (run_job env) e m = Inr m' \<Longrightarrow>
    manager_step (m, sending) Handles_Event (m', sending)"
| step_callback: "dispatch_callback m = Some m' \<Longrightarrow> manager_step (m, sending) Calls_Back (m', sending)"
| step_close: "env_ok env \<Longrightarrow> Manager_close n results env m = Inr m' \<Longrightarrow> manager_step (m, sending) Closes (m', sending)"

inductive_cases manager_stepE: "manager_step s l s'"

definition system_ok :: "Manager \<times> PendingRequest list \<Rightarrow> bool" where
  "system_ok s \<longleftrightarrow> (case s of (m, sending) \<Rightarrow> manager_ok (known m) m \<and> queue_in (known m) sending)"

lemma ok_known: "manager_ok K m \<Longrightarrow> known m = K"
  by (simp add: manager_ok_def)

lemma system_step_same:
  assumes "manager_ok (known m) m'" and "queue_in (known m) sending"
  shows "system_ok (m', sending)"
  using assms ok_known [OF assms(1)] by (simp add: system_ok_def)

lemma system_step: "system_ok s \<Longrightarrow> manager_step s l s' \<Longrightarrow> system_ok s'"
proof (erule manager_stepE, goal_cases)
  case (1 env m request a timeout callback c m' sending ep)
  then have "manager_ok (insert c (known m)) m'" using send_begin_ok by (auto simp: system_ok_def)
  with ok_known [OF this] 1 show ?case by (auto simp: system_ok_def intro: queue_in_mono)
next
  case (2 env m a timeout callback c m' sending)
  then have "manager_ok (insert c (known m)) m'" using send_begin_ok by (auto simp: system_ok_def)
  with ok_known [OF this] 2 show ?case by (auto simp: system_ok_def intro: queue_in_mono)
next
  case (3 env pr sending m)
  then have "manager_ok (known m) (send_finish env pr m)"
    by (intro send_finish_ok) (auto simp: system_ok_def queue_in_def)
  with ok_known [OF this] 3 show ?case by (auto simp: system_ok_def queue_in_def dest!: subsetD [OF set_remove1_subset])
next
  case (6 env m j rx m' sending)
  then have "manager_ok (known m) m'" using job_ok [of env "known m" "m\<lparr>reactor := rx\<rparr>"] by (simp add: system_ok_def)
  with ok_known [OF this] 6 show ?case by (simp add: system_ok_def)
next
  case (4 env c m b m' sending)
  then show ?case using system_step_same [of m m' sending] cancel_operation_ok by (auto simp: system_ok_def)
next
  case (5 connector w m m' sending)
  then show ?case using system_step_same [of m m' sending] connector_round_ok by (auto simp: system_ok_def)
next
  case (7 env m e m' sending)
  then show ?case using system_step_same [of m m' sending] event_ok by (auto simp: system_ok_def)
next
  case (8 m m' sending)
  then show ?case using system_step_same [of m m' sending] callback_ok by (auto simp: system_ok_def)
next
  case (9 env n results m m' sending)
  then show ?case using system_step_same [of m m' sending] manager_close_ok by (auto simp: system_ok_def)
qed

interpretation manager_ops: invariant_machine manager_step system_ok
  by unfold_locales (rule system_step)

lemma new_ok: "system_ok (ConnectionManager_new config, [])"
proof -
  have "known (ConnectionManager_new config) = {}" by (auto simp: known_def ConnectionManager_new_def)
  moreover have "\<not> issued (ConnectionManager_new config) k" for k
    using calculation by (simp add: issued_known)
  ultimately show ?thesis
    by (simp add: system_ok_def manager_ok_def requests_ok_def threads_ok_def delivered_def sessions_in_def)
       (simp add: ConnectionManager_new_def CallbackDispatcher_new_def RequestContext_new_def)
qed

end
