(* ===== verification/Manager_Pool.thy ===== *)
theory Manager_Pool
  imports Manager_Machine
begin

text \<open>
  Choosing a connection from a pool, against its specification; and what becomes of a request that
  times out while it is in flight.
\<close>

section \<open>The least loaded connection\<close>

definition acceptable :: "(ConnectionId \<rightharpoonup> Connection) \<Rightarrow> ConnectionId \<Rightarrow> bool" where
  "acceptable cs cid \<longleftrightarrow> (case cs cid of None \<Rightarrow> False | Some c \<Rightarrow> canAcceptNewRequests c)"

definition load_of :: "(ConnectionId \<rightharpoonup> Connection) \<Rightarrow> ConnectionId \<Rightarrow> nat" where
  "load_of cs cid = Connection_activeStreamCount (the (cs cid))"

definition least_loaded :: "(ConnectionId \<rightharpoonup> Connection) \<Rightarrow> ConnectionId list \<Rightarrow> ConnectionId option" where
  "least_loaded cs cids =
     (let good = filter (acceptable cs) cids in if good = [] then None else Some (arg_min_list (load_of cs) good))"

lemma arg_min_smaller: "f y < f x \<Longrightarrow> arg_min_list f (x # y # zs) = arg_min_list f (y # zs)"
proof -
  assume "f y < f x"
  moreover have "f (arg_min_list f (y # zs)) \<le> f y" by (subst f_arg_min_list_f) auto
  ultimately have "\<not> f x \<le> f (arg_min_list f (y # zs))" by (meson leD order_trans)
  then show ?thesis by (simp add: Let_def)
qed

lemma arg_min_other: "f x \<le> f y \<Longrightarrow> arg_min_list f (x # y # zs) = arg_min_list f (x # zs)"
  by (cases zs) (auto simp: Let_def)

lemma pick_best_from:
  "pick_best cs cids (Some (b, load_of cs b)) = Some (arg_min_list (load_of cs) (b # filter (acceptable cs) cids))"
proof (induction cids arbitrary: b)
  case (Cons cid cids)
  show ?case
  proof (cases "acceptable cs cid")
    case True
    then obtain c where c: "cs cid = Some c" "canAcceptNewRequests c" by (auto simp: acceptable_def split: option.splits)
    have l: "load_of cs cid = Connection_activeStreamCount c" by (simp add: load_of_def c(1))
    show ?thesis
    proof (cases "load_of cs cid < load_of cs b")
      case True
      then show ?thesis using Cons.IH [of cid] c l \<open>acceptable cs cid\<close> arg_min_smaller [of "load_of cs" cid b] by simp
    next
      case False
      then show ?thesis using Cons.IH [of b] c l \<open>acceptable cs cid\<close> arg_min_other [of "load_of cs" b cid] by simp
    qed
  next
    case False
    then show ?thesis using Cons.IH [of b] by (auto simp: acceptable_def split: option.splits)
  qed
qed simp

lemma pick_best_least: "pick_best cs cids None = least_loaded cs cids"
proof (induction cids)
  case (Cons cid cids)
  show ?case
  proof (cases "acceptable cs cid")
    case True
    then obtain c where c: "cs cid = Some c" "canAcceptNewRequests c" by (auto simp: acceptable_def split: option.splits)
    then show ?thesis using pick_best_from [of cs cids cid] True by (simp add: least_loaded_def load_of_def)
  next
    case False
    then show ?thesis using Cons.IH by (auto simp: acceptable_def least_loaded_def split: option.splits)
  qed
qed (simp add: least_loaded_def)

section \<open>A request in flight that times out\<close>

definition answered :: "Manager \<Rightarrow> (ctx \<times> Response) multiset" where
  "answered m = mset (called m) + filter_mset (\<lambda>(c, response). completionHandler (ctxs m c)) (mset (cd_tasks (callbackDispatcher m)))"

text \<open>The first completion of a request gives it its answer, and a later one none.\<close>

lemma complete_answers:
  "answered (completeRequest env c response m) =
   answered m + (if \<not> finished_of c m \<and> completionHandler (ctxs m c) then {#(c, response)#} else {#})"
proof (cases "finished_of c m")
  case False
  have same: "\<And>d. completionHandler (ctxs (completeRequest env c response m) d) = completionHandler (ctxs m d)"
    by (simp add: completeRequest_store)
  show ?thesis using False unfolding answered_def same
    by (auto simp: completeRequest_def tryFinish_def cancel_request_timer_def update_context_def call_back_def setTimerId_def
        invokeCompletion_def CallbackDispatcher_post_def Let_def)
qed (simp add: completeRequest_again)

lemma remove_ids:
  assumes "\<And>c. REQUEST_ID (h' c) = REQUEST_ID (h c)"
  shows "remove_request k h' q = remove_request k h q" and "remove_pending k h' tbl = remove_pending k h tbl"
proof -
  show r: "remove_request k h' q = remove_request k h q" for q by (induction q) (simp_all add: assms)
  show "remove_pending k h' tbl = remove_pending k h tbl"
    by (induction tbl) (auto simp: r split: option.splits)
qed

lemma timeout_answer:
  assumes "findContext k m = Some c" and "\<not> finished_of c m" and "REQUEST_ID (ctxs m c) = k" and "completionHandler (ctxs m c)"
    and "removeFromSubmitQueue k m = None"
    and "remove_pending k (ctxs m) (pendingByEndpoint m) = None"
    and "requestConnections m k = Some cid" and "connections m cid = Some cn" and "connected cn"
    and "session_ok (cn_session cn)" and "Session_isHealthy (cn_session cn)"
    and "context_at (ctx_streamId (ctxs m c)) (cn_session cn) = Some c"
    and "ep_find (cn_endpoint cn) (pendingByEndpoint m) = None"
  shows "\<exists>m'. handleTimeoutOnReactor env k m = Inr m' \<and> finished_of c m' \<and>
    answered m' = answered m + {#(c, protocolError EC_CANCEL ''errorCode=8'')#}"
proof -
  let ?m = "update_context c (snd \<circ> markCanceled) m" and ?sid = "ctx_streamId (ctxs m c)"
  have "?sid \<in> set (waiting (cn_session cn))" using assms(12) by (force simp: context_at_def dest: map_of_SomeD)
  then have sid: "?sid \<noteq> 0" using assms(10,11) zero_not_pending [of "ss_protocol (cn_session cn)"]
    by (auto simp: session_ok_def Session_isHealthy_def)
  let ?r = "protocolError EC_CANCEL ''errorCode=8''"
  obtain es s where c: "cancel_stream_of ?sid (cn_session cn) = (es, s)" by fastforce
  have es: "es = [REQUEST_DONE c ?r]" using cancel_stream_ok(3) [OF assms(10,11,12) c] .
  have h: "ctxs ?m = (ctxs m)(c := (ctxs m c)\<lparr>canceled_flag := True\<rparr>)" by (simp add: update_context_def markCanceled_def)
  have cancel: "Session_cancelRequest (Some c) (ctxs ?m) (cn_session cn) = ([REQUEST_DONE c ?r], s)"
    using sid assms(11,12) c es by (simp add: Session_cancelRequest_def Let_def h)
  let ?w = "put_connection cid (cn\<lparr>cn_session := s\<rparr>) ?m"
  let ?w1 = "completeRequest env c ?r (?w\<lparr>requestConnections := (requestConnections m)(k := None)\<rparr>)"
  have w: "requestConnections ?w = requestConnections m" "ctxs ?w = ctxs ?m" "connections ?w cid = Some (cn\<lparr>cn_session := s\<rparr>)"
    "pendingByEndpoint ?w = pendingByEndpoint m" by (simp_all add: put_connection_def update_context_def)
  have id: "REQUEST_ID (ctxs ?m c) = k" "\<not> finished_of c ?m" "completionHandler (ctxs ?m c)" using assms(2-4) by (simp_all add: h)
  have "onRequestDone (manager_hooks 1 env) env c ?r ?w = Inr ?w1"
    using w id(1) assms(7,13) by (simp add: onRequestDone_def Let_def with_connection_def trySubmitPending_def)
  then have ev: "processSessionEvents (hooks_of env) env cid [REQUEST_DONE c ?r] ?w = Inr ?w1"
    by (simp add: processSessionEvent_def numeral_2_eq_2)
  obtain rx where up: "updateWriteInterest env cid ?w1 = Inr (?w1\<lparr>reactor := rx\<rparr>)"
  proof -
    have "connections ?w1 cid = Some (cn\<lparr>cn_session := s\<rparr>)" using w(3) by simp
    then show thesis
      using that [of "reactor ?w1"] that [of "snd (enableWrite (en_ctl env) (sessionFd cn) (Session_wantsWrite s) (reactor ?w1))"]
      by (cases "sessionFd cn = INVALID_SOCKET") (simp_all add: updateWriteInterest_def with_connection_def)
  qed
  let ?m' = "?w1\<lparr>reactor := rx\<rparr>"
  have at: "requestConnections ?m k = Some cid" "connections ?m cid = Some cn" "pendingByEndpoint ?m = pendingByEndpoint m"
    using assms(7,8) by (simp_all add: update_context_def)
  have fin: "finished_of c ?m'" using id(2) w(2) by (simp add: completeRequest_store)
  have same: "\<And>d. REQUEST_ID (ctxs ?m d) = REQUEST_ID (ctxs m d)" by (simp add: h)
  have pend: "remove_pending k (ctxs ?m) (pendingByEndpoint ?m) = None" "removeFromSubmitQueue k ?m = None"
    using assms(5,6) at(3) by (simp_all add: removeFromSubmitQueue_def remove_ids [OF same]) (simp add: update_context_def)
  have "cancelRequestOnReactor (hooks_of env) env cid (Some c) ?m = Inr ?m'"
    using at(2) cancel ev up by (simp add: cancelRequestOnReactor_def with_connection_def)
  then have "withdraw_request env k c (customError ''Request timeout'') ?m = Inr ?m'"
    using assms(9) at pend fin by (simp add: withdraw_request_def with_connection_def)
  then have "handleTimeoutOnReactor env k m = Inr ?m'" using assms(1,2) by (simp add: handleTimeoutOnReactor_def)
  moreover have "answered ?m' = answered m + {#(c, ?r)#}"
  proof -
    have "answered ?m' = answered ?w1" by (simp add: answered_def)
    also have "\<dots> = answered ?w + {#(c, ?r)#}" using id w(2) by (simp add: complete_answers) (simp add: answered_def)
    also have "answered ?w = answered m" unfolding answered_def put_connection_def h update_context_def markCanceled_def 
      by (auto intro!: filter_mset_cong split: if_splits)
    finally show ?thesis .
  qed
  ultimately show ?thesis using fin by blast
qed

end
