(* ===== verification/Manager_Example.thy ===== *)
theory Manager_Example
  imports Manager_Pool Session_Example
begin

text \<open>
  Concrete states of the manager on which its properties are evaluated: a request that is sent
  and then closed with the manager, one that cannot start the threads, and one in flight on the session of \<open>Session_Example\<close>.
\<close>

definition idle_env :: menv where
  "idle_env = \<lparr>en_order = id, en_corder = id, en_before = (\<lambda>_ _. True), en_now = 0, en_armNow = 0, en_ctl = True, en_reads = [],
     en_writes = [], od_pools = id, od_pending = id, od_contexts = id\<rparr>"

definition all_well :: platform_answers where
  "all_well = \<lparr>pa_epoll = 4, pa_eventfd = 5, pa_timerfd = 6, pa_watchWakeup = True, pa_watchTimer = True\<rparr>"

definition no_epoll :: platform_answers where
  "no_epoll = all_well\<lparr>pa_epoll := -1\<rparr>"

lemma idle_env_ok: "env_ok idle_env"
  by (simp add: env_ok_def idle_env_def permutes_entries_def)

abbreviation new_manager :: Manager where
  "new_manager \<equiv> ConnectionManager_new ClientConfig_new"

definition sent :: Manager where
  "sent = snd (snd (send_begin idle_env all_well 1000 True new_manager))"

definition pending_get :: PendingRequest where
  "pending_get = \<lparr>pr_request = buildWireRequest ''ua'' ClientRequest_new, pr_endpoint = Endpoint_new, pr_context = 1\<rparr>"

definition queued_get :: Manager where
  "queued_get = send_finish idle_env pending_get sent"

definition closed_get :: Manager where
  "closed_get = projr (Manager_close 3 [] idle_env queued_get)"

lemmas fresh_defs = ConnectionManager_new_def Reactor_new_def CallbackDispatcher_new_def

lemma sent_begin: "send_begin idle_env all_well 1000 True new_manager = (True, 1, sent)"
  by (simp add: sent_def send_begin_def startThreadsIfNeeded_def fresh_defs CallbackDispatcher_start_def Reactor_start_def
      setupPlatformPrimitives_def scheduleOnce_def all_well_def idle_env_def Let_def armNextTimerLocked_def)

lemma sent_state:
  "sent = new_manager
     \<lparr>reactor := \<lparr>rx_fds = Map.empty, epollFd = 4, wakeupFd = 5, timerFd = 6, rx_running = True, rx_worker = True, rx_tasks = [],
        rx_timers = [\<lparr>due = 1000000000, ti_id = 1, ti_handler = Request_Timeout 1\<rparr>], canceledTimers = [1 \<mapsto> False],
        nextTimerId = 2, rx_armed = Some 1000000000\<rparr>,
      ctxs := (ctxs new_manager)(1 := \<lparr>REQUEST_ID = 1, TIMEOUT_MS = 1000, completionHandler = True, finished_flag = False, canceled_flag = False,
        ctx_streamId = 0, ctx_timerId = 1, cancelHandler = True\<rparr>),
      callbackDispatcher := \<lparr>cd_running = True, cd_stopRequested = False, cd_worker = True, cd_tasks = []\<rparr>, nextRequestId := 2,
      startOnce := True, startResult := True, connectorThread := True, contexts := [(1, 1)]\<rparr>"
  by (simp add: sent_def send_begin_def startThreadsIfNeeded_def fresh_defs CallbackDispatcher_start_def Reactor_start_def
      setupPlatformPrimitives_def scheduleOnce_def all_well_def idle_env_def Let_def armNextTimerLocked_def update_context_def
      setTimerId_def setCancelHandler_def RequestContext_new_def)

lemma queued_state:
  "queued_get = sent\<lparr>submitQueue := [pending_get], reactor := (reactor sent)\<lparr>rx_tasks := [Drain_Submit_Queue]\<rparr>\<rparr>"
  by (simp add: queued_get_def send_finish_def Let_def Reactor_post_def sent_state ConnectionManager_new_def)


text \<open>The reactor runs the two tasks that are posted: the request waits for a connection, then it is failed.\<close>

lemma closed_state:
  "\<exists>m. Manager_close 3 [] idle_env queued_get = Inr m \<and> called m = [(1, failConnectionError ''Connection closed'')] \<and>
     nextRequestId m = 2 \<and> completionHandler (ctxs m 1) \<and> finished_of 1 m"
  by (simp add: queued_state sent_state ConnectionManager_new_def pending_get_def idle_env_def numeral_3_eq_3
      Manager_close_def connectorLoop_to_end.simps stop_reactor_def Reactor_stop_request_def Reactor_stop_finish_def
      teardownPlatformPrimitives_def runLoop.simps Reactor_post_def take_task_def drainSubmitQueue_def prune_pools_def Let_def
      pickConnectionOnReactor_def ep_push_def enqueueConnectTask_def Manager_closeOnReactor_def completeRequest_def tryFinish_def
      update_context_def cancel_request_timer_def cancelTimer_def armNextTimerLocked_def setTimerId_def CallbackDispatcher_post_def
      call_back_def stop_dispatcher_def CallbackDispatcher_stop_def runLoop_to_end_tasks invokeCompletion_def failQueuedRequests_def
      failAllContexts_def)

lemma closed_get:
  "Manager_close 3 [] idle_env queued_get = Inr closed_get" "called closed_get = [(1, failConnectionError ''Connection closed'')]"
  "nextRequestId closed_get = 2" "completionHandler (ctxs closed_get 1)" "finished_of 1 closed_get"
  using closed_state by (auto simp: closed_get_def)

text \<open>A user sends the request, its thread puts it into the queue, and another one closes the manager.\<close>

lemma sent_run: "runs manager_step (new_manager, []) [Sends 1] (sent, [pending_get])"
proof -
  have "nextRequestId new_manager \<noteq> -1" by (simp add: ConnectionManager_new_def)
  moreover have "rq_body (pr_request pending_get) = []"
    by (simp add: pending_get_def buildWireRequest_def ClientRequest_new_def Let_def)
  ultimately show ?thesis
    using runs_single [of manager_step, OF step_send [OF idle_env_ok _ _ sent_begin, of "pr_request pending_get" "[]" Endpoint_new]]
    by (simp add: pending_get_def)
qed

lemma queued_run: "runs manager_step (new_manager, []) [Sends 1, Enqueues 1] (queued_get, [])"
  using runs_snoc [OF sent_run step_enqueue [OF idle_env_ok, of pending_get]] by (simp add: queued_get_def) (simp add: pending_get_def)

lemma closed_run: "runs manager_step (new_manager, []) [Sends 1, Enqueues 1, Closes] (closed_get, [])"
  using runs_snoc [OF queued_run step_close [OF idle_env_ok closed_get(1)]] by simp

text \<open>A reactor that runs, and a request in flight on the session \<open>busy\<close>.\<close>

definition started :: "platform_answers \<Rightarrow> 'h Reactor" where
  "started a = snd (Reactor_start a Reactor_new)"

definition in_flight_connection :: Connection where
  "in_flight_connection =
     (Connection_new 1 Endpoint_new ClientConfig_new)\<lparr>cn_session := busy, sessionFd := 3, connected := True\<rparr>"

definition in_flight :: Manager where
  "in_flight = sent
     \<lparr>connections := [1 \<mapsto> in_flight_connection], contexts := [(7, 7)], requestConnections := [7 \<mapsto> 1],
      ctxs := (\<lambda>_. RequestContext_new 0 0 False)(7 := setStreamId 1 (RequestContext_new 7 0 True))\<rparr>"

lemma in_flight_facts:
  "findContext 7 in_flight = Some 7" "ctxs in_flight 7 = setStreamId 1 (RequestContext_new 7 0 True)"
  "\<not> finished_of 7 in_flight" "REQUEST_ID (ctxs in_flight 7) = 7" "completionHandler (ctxs in_flight 7)" "ctx_streamId (ctxs in_flight 7) = 1"
  "removeFromSubmitQueue 7 in_flight = None" "pendingByEndpoint in_flight = []" "requestConnections in_flight 7 = Some 1"
  "connections in_flight 1 = Some in_flight_connection" "connected in_flight_connection" "cn_session in_flight_connection = busy"
  "answered in_flight = {#}"
  by (simp_all add: in_flight_def in_flight_connection_def findContext_def removeFromSubmitQueue_def sent_state ConnectionManager_new_def
      setStreamId_def RequestContext_new_def answered_def)

end
