(* ===== verification/Session_Safe.thy ===== *)
theory Session_Safe
  imports Connection_Client Reactor_Inv
begin

text \<open>
  What the connections need of sessions and of handlers to be free of dangling references. Every
  operation of a session keeps \<open>session_ok\<close>, whatever the transport answers and whatever the protocol refuses; a submission
  reports nothing but, perhaps, the answer of the submitted request. \<open>returns P r\<close> is total correctness up to
  exceptions: the result is a value with \<open>P\<close>, or an exception the code raises; no object was used after its end, and fuel was enough.
\<close>

section \<open>Results of handlers\<close>

definition returns :: "('a \<Rightarrow> bool) \<Rightarrow> 'a net \<Rightarrow> bool" where
  "returns P r = (case r of Inr x \<Rightarrow> P x | Inl (Raised e) \<Rightarrow> True | Inl Dangling \<Rightarrow> False | Inl Unending \<Rightarrow> False)"

lemma returns_Inr [simp]: "returns P (Inr x) = P x"
  by (simp add: returns_def)

lemma returns_Inl [simp]: "\<not> returns P (Inl Dangling)" "\<not> returns P (Inl Unending)" "returns P (Inl (Raised e))"
  by (simp_all add: returns_def)

lemma returns_bind: "returns P r \<Longrightarrow> (\<And>x. P x \<Longrightarrow> returns Q (f x)) \<Longrightarrow> returns Q (net_bind r f)"
  by (cases r) (auto simp: returns_def split: fault.splits)

lemma returns_mono: "returns P r \<Longrightarrow> (\<And>x. P x \<Longrightarrow> Q x) \<Longrightarrow> returns Q r"
  by (auto simp: returns_def split: sum.splits fault.splits)

lemma returns_lift: "(\<And>x. r = Inr x \<Longrightarrow> P x) \<Longrightarrow> returns P (lift r)"
  by (cases r) auto

lemma returns_value: "returns P r \<Longrightarrow> r = Inr x \<Longrightarrow> P x"
  by simp

lemma returns_with: "connections w cid = Some cn \<Longrightarrow> returns P (with_connection cid f w) = returns P (f cn)"
  by (simp add: with_connection_def)

section \<open>Sessions stay valid\<close>

lemma read_loop_keeps: "session_ok s \<Longrightarrow> read_loop reads s acc = Inr (es, s') \<Longrightarrow> session_ok s'"
proof (induction reads arbitrary: s acc)
  case (Cons read reads)
  obtain a buffer where r: "read = (a, buffer)" by fastforce
  obtain t where t: "ss_transport s = Some t" using Cons.prems(2) by (cases "ss_transport s") (simp_all add: r)
  let ?io = "transport_io a 8192 t"
  have "session_ok (snd (handleTransportFailure s))"
    using failure_ok(1) [OF Cons.prems(1)] by (cases "handleTransportFailure s") simp
  moreover have "session_ok s'" if ok: "io_state ?io = IO_OK" "io_bytes ?io \<noteq> 0"
  proof -
    obtain p q where q: "receiveBytes (take (io_bytes ?io) buffer) (ss_protocol s) = Inr (p, q)"
      using Cons.prems(2) ok by (auto simp: r t Let_def cpp_simps)
    obtain es1 s1 where tr: "translateEvents (events q) (fold enqueueOutbound (outbound q) (s\<lparr>ss_protocol := p\<rparr>)) = (es1, s1)" by fastforce
    then have "read_loop reads s1 (acc @ es1) = Inr (es, s')" using Cons.prems(2) ok q by (simp add: r t Let_def)
    then show ?thesis using Cons.IH received_ok(1) [OF Cons.prems(1) q tr] by blast
  qed
  moreover have "s' = s \<or> s' = snd (handleTransportFailure s)" if "\<not> (io_state ?io = IO_OK \<and> io_bytes ?io \<noteq> 0)"
    using Cons.prems(2) that by (cases "io_state ?io") (auto simp: r t Let_def)
  ultimately show ?case using Cons.prems(1) by blast
qed simp

lemma readable_keeps: "session_ok s \<Longrightarrow> Session_onReadable reads s = Inr (es, s') \<Longrightarrow> session_ok s'"
  using read_loop_keeps by (auto simp: Session_onReadable_def split: if_splits)

lemma writable_keeps:
  assumes "session_ok s" and "Session_onWritable writes s = Inr (out, s')"
  shows "session_ok s'"
proof (cases "Session_isHealthy s")
  case True
  then obtain t where t: "ss_transport s = Some t" using assms(1) by (auto simp: Session_isHealthy_def session_ok_def)
  have "write_loop writes s = Inr (out, s')" using assms(2) True by (simp add: Session_onWritable_def)
  then have "wrote writes s out s'" using write_loop_spec [OF t, of writes] by auto
  then obtain chunks where "s' = s\<lparr>ss_outbound := chunks\<rparr> \<or> s' = snd (handleTransportFailure (s\<lparr>ss_outbound := chunks\<rparr>))"
    by (auto simp: wrote_def Let_def)
  moreover have "session_ok (snd (handleTransportFailure (s\<lparr>ss_outbound := chunks\<rparr>)))"
    using failure_ok(1) [of "s\<lparr>ss_outbound := chunks\<rparr>"] assms(1) by (cases "handleTransportFailure (s\<lparr>ss_outbound := chunks\<rparr>)") simp
  ultimately show ?thesis using assms(1) by auto
qed (use assms in \<open>simp add: Session_onWritable_def\<close>)

lemma submit_keeps:
  assumes "session_ok s" and "permutes_entries order" and "permutes_entries corder" and "length (rq_body request) < 2 ^ 64"
    and "Session_submit order corder request c h s = Inr (es, h', s')"
  shows "session_ok s'" and "es = [] \<or> (\<exists>r. es = [REQUEST_DONE c r])" and "h' = h \<or> (\<exists>sid. h' = h(c := setStreamId sid (h c)))"
proof -
  show "h' = h \<or> (\<exists>sid. h' = h(c := setStreamId sid (h c)))" using Session_submit_store [OF assms(5)] .
  have "session_ok s' \<and> (es = [] \<or> (\<exists>r. es = [REQUEST_DONE c r]))"
  proof (cases "Session_isHealthy s")
    case True
    show ?thesis
    proof (cases "refusal request (ss_protocol s)")
      case None
      then show ?thesis using submit_ok [OF assms(1) True assms(2-4) None, of c h] assms(5) by (auto split: if_splits)
    next
      case (Some e)
      have p: "proto_ok (ss_protocol s)" using assms(1) by (simp add: session_ok_def)
      have "context_at 0 s = None" using assms(1) True zero_not_pending [OF p]
        by (simp add: context_at_def map_of_eq_None_iff session_ok_def Session_isHealthy_def)
      then show ?thesis using submitRequest_refused [OF p Some, of order] True assms(1,5)
        by (simp add: Session_submit_def consumeStepResult_def Let_def translateEvent_def answer_context_def context_at_def)
    qed
  qed (use assms(1,5) in \<open>auto simp: Session_submit_def\<close>)
  then show "session_ok s'" "es = [] \<or> (\<exists>r. es = [REQUEST_DONE c r])" by blast+
qed

text \<open>A request that is withdrawn and a session that is closed report answers only, and a ping reports nothing.\<close>

lemma cancel_answers: "session_ok s \<Longrightarrow> Session_cancelRequest context h s = (es, s') \<Longrightarrow> PING_ACK \<notin> set es"
  by (auto simp: Session_cancelRequest_def Let_def split: option.splits if_splits dest!: cancel_stream_ok(3) [rotated 3])

lemma close_answers: "Session_close s = (es, s') \<Longrightarrow> PING_ACK \<notin> set es"
  by (auto simp: Session_close_def consumeStepResult_def Session_failAllStreams_def Let_def split: if_splits prod.splits)

lemma ping_answers: "Session_sendPing s = (es, s') \<Longrightarrow> es = []"
  by (auto simp: Session_sendPing_def Let_def split: if_splits prod.splits)

end
