(* ===== verification/Connection_Safe.thy ===== *)
theory Connection_Safe
  imports Session_Safe
begin

text \<open>
  The references from the reactor to the connections are never dangling: a descriptor that is
  watched and a timer that is live belong to a connection that exists and is connected. The locale \<open>safe_client\<close> is
  what the handlers of a connection must keep for that; its lemmas are one per operation of the connection.
\<close>

section \<open>The timers of the reactor\<close>

definition reactor_safe :: "'h Reactor \<Rightarrow> bool" where
  "reactor_safe rx \<longleftrightarrow> reactor_ok rx \<and> (timerFd rx < 0 \<longrightarrow> rx_timers rx = []) \<and> nextTimerId rx \<noteq> 0 \<and> 0 \<notin> ti_id ` set (rx_timers rx)"

lemma arm_members: "set (rx_timers (armNextTimerLocked now rx)) \<subseteq> set (rx_timers rx)"
proof -
  have sub: "set (fst (purge_canceled ts c)) \<subseteq> set ts" for ts :: "'a TimerItem list" and c
    by (induction ts c rule: purge_canceled.induct) (auto simp del: fun_upd_apply)
  show ?thesis using sub [of "rx_timers rx" "canceledTimers rx"] by (auto simp: armNextTimerLocked_def case_prod_unfold)
qed

text \<open>What stays the same when timers are scheduled, canceled or fired.\<close>

definition same_watch :: "'h Reactor \<Rightarrow> 'h Reactor \<Rightarrow> bool" where
  "same_watch rx rx' \<longleftrightarrow> rx_fds rx' = rx_fds rx \<and> rx_tasks rx' = rx_tasks rx \<and> rx_running rx' = rx_running rx \<and>
     timerFd rx' = timerFd rx \<and> rx_worker rx' = rx_worker rx"

lemma same_watch_refl [simp]: "same_watch rx rx"
  by (simp add: same_watch_def)

lemma cancel_safe:
  assumes "reactor_safe rx" and "cancelTimer now tid rx = (b, rx')"
  shows "reactor_safe rx'" and "live rx' = filter (\<lambda>t. ti_id t \<noteq> tid) (live rx)" and "same_watch rx rx'"
    and "nextTimerId rx' = nextTimerId rx"
proof -
  have fields: "nextTimerId rx' = nextTimerId rx \<and> same_watch rx rx'" using assms(2) by (auto simp: cancelTimer_def same_watch_def split: if_splits)
  then show "same_watch rx rx'" "nextTimerId rx' = nextTimerId rx" by simp_all
  have members: "set (rx_timers rx') \<subseteq> set (rx_timers rx)"
    using assms(2) arm_members [of now "rx\<lparr>canceledTimers := (canceledTimers rx)(tid \<mapsto> True)\<rparr>"] by (auto simp: cancelTimer_def split: if_splits)
  have ok: "reactor_ok rx" using assms(1) by (simp add: reactor_safe_def)
  have "reactor_ok rx' \<and> live rx' = filter (\<lambda>t. ti_id t \<noteq> tid) (live rx)"
  proof (cases "0 \<le> timerFd rx")
    case True
    then show ?thesis using cancel_timer_ok [OF ok _ assms(2)] by simp
  next
    case False
    then have none: "rx_timers rx = []" using assms(1) by (simp add: reactor_safe_def)
    then have "canceledTimers rx tid = None" using ok by (auto simp: reactor_ok_def timers_wf_def)
    then show ?thesis using assms(2) ok none by (simp add: cancelTimer_def live_def live_in_def)
  qed
  then show "reactor_safe rx'" "live rx' = filter (\<lambda>t. ti_id t \<noteq> tid) (live rx)"
    using assms(1) fields members by (auto simp: reactor_safe_def same_watch_def)
qed

lemma schedule_safe:
  assumes "reactor_safe rx" and "nextTimerId rx \<noteq> -1" and "scheduleOnce before now now' ms (Some h) rx = (tid, rx')"
  shows "reactor_safe rx'" and "same_watch rx rx'" and "nextTimerId rx' = nextTimerId rx + 1"
    and "\<forall>t\<in>set (live rx'). t \<in> set (live rx) \<or> ti_id t = tid \<and> ti_handler t = h \<and> tid = nextTimerId rx"
proof -
  have fields: "nextTimerId rx' = nextTimerId rx + 1 \<and> same_watch rx rx'" using assms(3) by (auto simp: scheduleOnce_def same_watch_def Let_def split: if_splits)
  then show "same_watch rx rx'" "nextTimerId rx' = nextTimerId rx + 1" by simp_all
  have nz: "nextTimerId rx + 1 \<noteq> 0" using assms(2) by (simp flip: eq_neg_iff_add_eq_0)
  have ok: "reactor_ok rx" using assms(1) by (simp add: reactor_safe_def)
  have "reactor_safe rx' \<and> (\<forall>t\<in>set (live rx'). t \<in> set (live rx) \<or> ti_id t = tid \<and> ti_handler t = h \<and> tid = nextTimerId rx)"
  proof (cases "rx_running rx")
    case True
    note s = schedule_ok [OF ok True assms(2,3)]
    have "set (live rx') = insert \<lparr>due = now + max ms 0 * 1000000, ti_id = tid, ti_handler = h\<rparr> (set (live rx))"
      using arg_cong [OF s(4), of set_mset] by simp
    moreover have "0 \<notin> ti_id ` set (rx_timers rx')"
    proof -
      let ?rx = "rx\<lparr>nextTimerId := nextTimerId rx + 1,
          rx_timers := push_timer before \<lparr>due = now + max ms 0 * 1000000, ti_id = nextTimerId rx, ti_handler = h\<rparr> (rx_timers rx),
          canceledTimers := (canceledTimers rx)(nextTimerId rx \<mapsto> False)\<rparr>"
      have "rx' = armNextTimerLocked now' ?rx" using assms(3) True by (auto simp: scheduleOnce_def Let_def)
      then show ?thesis using arm_members [of now' ?rx] assms(1) by (fastforce simp: reactor_safe_def push_timer_members)
    qed
    moreover have "timerFd rx' \<ge> 0" using ok True fields by (simp add: reactor_ok_def same_watch_def)
    ultimately show ?thesis using s(1,2) fields nz by (auto simp: reactor_safe_def)
  next
    case False
    then have rx': "rx' = rx\<lparr>nextTimerId := nextTimerId rx + 1\<rparr>" using assms(3) by (simp add: scheduleOnce_def Let_def)
    have "nextTimerId rx < nextTimerId rx + 1" using nz unatSuc [of "nextTimerId rx"] by (simp add: word_less_nat_alt add.commute)
    then show ?thesis using assms(1) nz by (force simp: rx' reactor_safe_def reactor_ok_def live_def)
  qed
  then show "reactor_safe rx'" "\<forall>t\<in>set (live rx'). t \<in> set (live rx) \<or> ti_id t = tid \<and> ti_handler t = h \<and> tid = nextTimerId rx" by blast+
qed

lemma live_member: "t \<in> set (live rx) \<Longrightarrow> t \<in> set (rx_timers rx)"
  by (simp add: live_def live_in_def)

lemma live_ids:
  assumes "reactor_safe rx" and "t \<in> set (live rx)"
  shows "ti_id t \<noteq> 0" and "ti_id t < nextTimerId rx"
  using live_member [OF assms(2)] assms(1) by (force simp: reactor_safe_def reactor_ok_def)+

lemma live_unique: "reactor_safe rx \<Longrightarrow> t \<in> set (live rx) \<Longrightarrow> u \<in> set (live rx) \<Longrightarrow> ti_id t = ti_id u \<Longrightarrow> t = u"
  by (auto simp: reactor_safe_def reactor_ok_def timers_wf_def dest!: live_member intro: inj_onD [of ti_id "set (rx_timers rx)"] simp: distinct_map)

lemma fire_safe:
  assumes "reactor_safe rx" and "fireDueTimers now now' rx = (hs, rx')"
  shows "reactor_safe rx'" and "same_watch rx rx'" and "nextTimerId rx' = nextTimerId rx"
    and "\<exists>ts. hs = map ti_handler ts \<and> distinct ts \<and> set ts \<inter> set (live rx') = {} \<and> set ts \<union> set (live rx') = set (live rx)"
proof -
  have ok: "reactor_ok rx" using assms(1) by (simp add: reactor_safe_def)
  have fields: "nextTimerId rx' = nextTimerId rx \<and> same_watch rx rx'"
    using assms(2) by (auto simp: fireDueTimers_def same_watch_def split: prod.splits)
  then show "same_watch rx rx'" "nextTimerId rx' = nextTimerId rx" by simp_all
  have loop: "set (fst (snd (fire_loop now ts c))) \<subseteq> set ts" for ts :: "'a TimerItem list" and c
    by (induction now ts c rule: fire_loop.induct) (auto simp del: fun_upd_apply split: prod.splits, blast+)
  have members: "set (rx_timers rx') \<subseteq> set (rx_timers rx)"
  proof -
    obtain ts c where f: "fire_loop now (rx_timers rx) (canceledTimers rx) = (hs, ts, c)"
      "rx' = armNextTimerLocked now' (rx\<lparr>rx_timers := ts, canceledTimers := c\<rparr>)"
      using assms(2) by (auto simp: fireDueTimers_def split: prod.splits)
    then show ?thesis using loop [of "rx_timers rx" "canceledTimers rx"] arm_members [of now' "rx\<lparr>rx_timers := ts, canceledTimers := c\<rparr>"] by auto
  qed
  have dist: "distinct (live rx)" using ok by (simp add: reactor_ok_def timers_wf_def live_def live_in_def distinct_map)
  have "reactor_ok rx' \<and> (\<exists>ts. hs = map ti_handler ts \<and> distinct ts \<and> set ts \<inter> set (live rx') = {} \<and> set ts \<union> set (live rx') = set (live rx))"
  proof (cases "0 \<le> timerFd rx")
    case True
    note f = fire_ok [OF ok True assms(2)]
    show ?thesis using f(1,2,3) dist by (auto intro!: exI [of _ "filter (\<lambda>t. due t \<le> now) (live rx)"])
  next
    case False
    then have none: "rx_timers rx = []" using assms(1) by (simp add: reactor_safe_def)
    then have "hs = []" "rx' = rx" using assms(2) False by (auto simp: fireDueTimers_def armNextTimerLocked_def)
    then show ?thesis using ok by (auto intro!: exI [of _ "[]"])
  qed
  then show "reactor_safe rx'" "\<exists>ts. hs = map ti_handler ts \<and> distinct ts \<and> set ts \<inter> set (live rx') = {} \<and> set ts \<union> set (live rx') = set (live rx)"
    using assms(1) fields members by (auto simp: reactor_safe_def same_watch_def)
qed

section \<open>Who is referred to\<close>

definition of_ping :: "job \<Rightarrow> ConnectionId option" where
  "of_ping j = (case j of Ping_Timer cid \<Rightarrow> Some cid | Ping_Timeout cid \<Rightarrow> Some cid | _ \<Rightarrow> None)"

text \<open>A timer is the one that its connection knows by this id.\<close>

definition slot :: "Connection \<Rightarrow> u64 \<times> job \<Rightarrow> bool" where
  "slot cn p = (case snd p of Ping_Timer _ \<Rightarrow> fst p = pingTimerId cn \<and> \<not> pendingPing cn
     | Ping_Timeout _ \<Rightarrow> fst p = pingTimeoutTimerId cn \<and> pendingPing cn | _ \<Rightarrow> True)"

definition armed :: "'h Reactor \<Rightarrow> (u64 \<times> 'h) set" where
  "armed rx = (\<lambda>t. (ti_id t, ti_handler t)) ` set (live rx)"

definition owned :: "(ConnectionId \<rightharpoonup> Connection) \<Rightarrow> bool \<Rightarrow> u64 \<times> job \<Rightarrow> bool" where
  "owned cs strict p =
     (case of_ping (snd p) of
        None \<Rightarrow> \<exists>k. snd p = Request_Timeout k
      | Some cid \<Rightarrow> \<exists>cn. cs cid = Some cn \<and> (strict \<longrightarrow> connected cn) \<and> (connected cn \<longrightarrow> slot cn p))"

definition fired_ok :: "(u64 \<times> job) set \<Rightarrow> job Reactor \<Rightarrow> bool" where
  "fired_ok F rx \<longleftrightarrow> inj_on fst F \<and> (\<forall>p\<in>F. fst p < nextTimerId rx \<and> fst p \<notin> fst ` armed rx)"

definition watched :: "(ConnectionId \<rightharpoonup> Connection) \<Rightarrow> job Reactor \<Rightarrow> bool" where
  "watched cs rx \<longleftrightarrow> (\<forall>fd fc. rx_fds rx fd = Some fc \<longrightarrow>
     (\<exists>cid cn. fd_read fc = Session_Readable cid \<and> fd_write fc = Some (Session_Writable cid) \<and>
        cs cid = Some cn \<and> connected cn \<and> sessionFd cn = fd \<and> fd \<noteq> INVALID_SOCKET))"

definition idle :: "(u64 \<times> job) set \<Rightarrow> job Reactor \<Rightarrow> ConnectionId \<Rightarrow> Connection \<Rightarrow> bool" where
  "idle F rx cid cn \<longleftrightarrow> \<not> pendingPing cn \<and> (\<forall>p\<in>F \<union> armed rx. of_ping (snd p) \<noteq> Some cid) \<and>
     (\<forall>fd fc. rx_fds rx fd = Some fc \<longrightarrow> fd_read fc \<noteq> Session_Readable cid)"

text \<open>
  \<open>F\<close> are the timers that have fired and whose handlers are still to be called: their connections exist, but may have been
  disconnected meanwhile. \<open>U\<close> are the connections that are not registered yet.
\<close>

definition net_ok :: "(u64 \<times> job) set \<Rightarrow> ConnectionId set \<Rightarrow> 'z Net_scheme \<Rightarrow> bool" where
  "net_ok F U w \<longleftrightarrow> reactor_safe (reactor w) \<and> fired_ok F (reactor w) \<and>
     (\<forall>p\<in>F. owned (connections w) False p) \<and> (\<forall>p\<in>armed (reactor w). owned (connections w) True p) \<and>
     watched (connections w) (reactor w) \<and> (\<forall>cid cn. connections w cid = Some cn \<longrightarrow> session_ok (cn_session cn)) \<and>
     (\<forall>cid\<in>U. \<exists>cn. connections w cid = Some cn \<and> idle F (reactor w) cid cn)"

lemma of_ping_simps [simp]:
  "of_ping (Ping_Timer cid) = Some cid" "of_ping (Ping_Timeout cid) = Some cid" "of_ping (Request_Timeout k) = None"
  by (simp_all add: of_ping_def)

lemma slot_simps [simp]:
  "slot cn (tid, Ping_Timer cid) \<longleftrightarrow> tid = pingTimerId cn \<and> \<not> pendingPing cn"
  "slot cn (tid, Ping_Timeout cid) \<longleftrightarrow> tid = pingTimeoutTimerId cn \<and> pendingPing cn"
  by (simp_all add: slot_def)

lemma of_ping_SomeE:
  assumes "of_ping j = Some cid"
  obtains "j = Ping_Timer cid" | "j = Ping_Timeout cid"
  using assms by (cases j) (auto simp: of_ping_def)

lemma net_session: "net_ok F U w \<Longrightarrow> connections w cid = Some cn \<Longrightarrow> session_ok (cn_session cn)"
  by (simp add: net_ok_def)

lemma armed_owner:
  assumes "net_ok F U w" and "p \<in> armed (reactor w)" and "of_ping (snd p) = Some cid" and "connections w cid = Some cn"
  shows "connected cn" and "slot cn p"
  using assms by (auto simp: net_ok_def owned_def)

lemma fired_owner:
  assumes "net_ok F U w" and "p \<in> F" and "of_ping (snd p) = Some cid"
  obtains cn where "connections w cid = Some cn" and "connected cn \<longrightarrow> slot cn p"
proof -
  have "owned (connections w) False p" using assms(1,2) by (simp add: net_ok_def)
  then show thesis using that assms(3) by (auto simp: owned_def)
qed

lemma fired_slot:
  assumes "net_ok F U w" and "p \<in> F" and "of_ping (snd p) = Some cid" and "connections w cid = Some cn" and "connected cn"
  shows "slot cn p"
  using fired_owner [OF assms(1-3)] assms(4,5) by auto

lemma not_idle: "net_ok F U w \<Longrightarrow> connections w cid = Some cn \<Longrightarrow> pendingPing cn \<Longrightarrow> cid \<notin> U"
  by (auto simp: net_ok_def idle_def)

lemma watchedE:
  assumes "watched cs rx" and "rx_fds rx fd = Some fc"
  obtains cid cn where "fd_read fc = Session_Readable cid" "fd_write fc = Some (Session_Writable cid)" "cs cid = Some cn"
    "connected cn" "sessionFd cn = fd" "fd \<noteq> INVALID_SOCKET"
  using assms unfolding watched_def by blast

lemma watch_owner:
  assumes "net_ok F U w" and "rx_fds (reactor w) fd = Some fc" and "fd_read fc = Session_Readable cid" and "connections w cid = Some cn"
  shows "connected cn" and "sessionFd cn = fd \<and> fd \<noteq> INVALID_SOCKET" and "fd_write fc = Some (Session_Writable cid)"
proof -
  have "watched (connections w) (reactor w)" using assms(1) by (simp add: net_ok_def)
  from watchedE [OF this assms(2)]
  show "connected cn" "sessionFd cn = fd \<and> fd \<noteq> INVALID_SOCKET" "fd_write fc = Some (Session_Writable cid)"
    using assms(3,4) by (metis job.inject(1) option.inject)+
qed

lemma net_mono:
  assumes "net_ok F U w" and "F' \<subseteq> F" and "U' \<subseteq> U"
  shows "net_ok F' U' w"
proof -
  have "fired_ok F' (reactor w)" using assms(1,2) by (auto simp: net_ok_def fired_ok_def intro: inj_on_subset)
  moreover have "idle F' rx cid cn" if "idle F rx cid cn" for rx cid cn using that assms(2) by (auto simp: idle_def)
  ultimately show ?thesis using assms unfolding net_ok_def by (meson subsetD)
qed

text \<open>A step that changes one connection, and timers and watches of that connection.\<close>

lemma net_replace:
  assumes "net_ok F U w" and "connections w cid = Some cn" and "reactor_safe rx" and "nextTimerId (reactor w) \<le> nextTimerId rx"
    and "F' \<subseteq> F" and "session_ok (cn_session cn')"
    and old: "\<forall>p\<in>armed rx. p \<in> armed (reactor w) \<or> nextTimerId (reactor w) \<le> fst p \<and> of_ping (snd p) = Some cid"
    and own: "\<forall>p\<in>armed rx. of_ping (snd p) = Some cid \<longrightarrow> connected cn' \<and> slot cn' p"
    and fired: "\<forall>p\<in>F'. of_ping (snd p) = Some cid \<longrightarrow> connected cn' \<longrightarrow> slot cn' p"
    and fds: "\<forall>fd fc. rx_fds rx fd = Some fc \<longrightarrow>
      (\<exists>fc'. rx_fds (reactor w) fd = Some fc' \<and> fd_read fc' = fd_read fc \<and> fd_write fc' = fd_write fc) \<or>
      fd_read fc = Session_Readable cid \<and> fd_write fc = Some (Session_Writable cid)"
    and own_fds: "\<forall>fd fc. rx_fds rx fd = Some fc \<longrightarrow> fd_read fc = Session_Readable cid \<longrightarrow> connected cn' \<and> sessionFd cn' = fd \<and> fd \<noteq> INVALID_SOCKET"
    and idle: "cid \<in> U \<Longrightarrow> idle F' rx cid cn'"
  shows "net_ok F' U (put_connection cid cn' (w\<lparr>reactor := rx\<rparr>))"
proof -
  let ?cs = "(connections w)(cid \<mapsto> cn')"
  have net: "reactor_safe (reactor w)" "fired_ok F (reactor w)" "\<And>p. p \<in> F \<Longrightarrow> owned (connections w) False p"
    "\<And>p. p \<in> armed (reactor w) \<Longrightarrow> owned (connections w) True p" "watched (connections w) (reactor w)"
    "\<And>c cn. connections w c = Some cn \<Longrightarrow> session_ok (cn_session cn)"
    "\<And>c. c \<in> U \<Longrightarrow> \<exists>cn. connections w c = Some cn \<and> idle F (reactor w) c cn"
    using assms(1) by (simp_all add: net_ok_def)
  have other: "owned ?cs b p = owned (connections w) b p" if "of_ping (snd p) \<noteq> Some cid" for b p
    using that by (auto simp: owned_def split: option.splits)
  have "fired_ok F' rx"
  proof -
    have "fst p \<notin> fst ` armed rx" if "p \<in> F'" for p
    proof
      assume "fst p \<in> fst ` armed rx"
      then obtain q where q: "q \<in> armed rx" "fst q = fst p" by force
      have "p \<in> F" using that assms(5) by blast
      then have "fst p < nextTimerId (reactor w)" "fst p \<notin> fst ` armed (reactor w)" using net(2) by (simp_all add: fired_ok_def)
      then show False using old q by (metis image_eqI leD)
    qed
    then show ?thesis using net(2) assms(4,5) by (force simp: fired_ok_def intro: inj_on_subset)
  qed
  moreover have "owned ?cs False p" if "p \<in> F'" for p
  proof (cases "of_ping (snd p) = Some cid")
    case True
    then show ?thesis using fired that by (simp add: owned_def)
  next
    case False
    then show ?thesis using other net(3) that assms(5) by blast
  qed
  moreover have "owned ?cs True p" if "p \<in> armed rx" for p
  proof (cases "of_ping (snd p) = Some cid")
    case True
    then show ?thesis using own that by (simp add: owned_def)
  next
    case False
    then have "p \<in> armed (reactor w)" using old that by blast
    then show ?thesis using other [OF False] net(4) by blast
  qed
  moreover have "watched ?cs rx"
    unfolding watched_def
  proof (intro allI impI)
    fix fd fc assume fc: "rx_fds rx fd = Some fc"
    show "\<exists>c cn. fd_read fc = Session_Readable c \<and> fd_write fc = Some (Session_Writable c) \<and> ?cs c = Some cn \<and>
        connected cn \<and> sessionFd cn = fd \<and> fd \<noteq> INVALID_SOCKET"
    proof (cases "fd_read fc = Session_Readable cid")
      case True
      then have "fd_write fc = Some (Session_Writable cid)" using fds fc net(5) by (fastforce simp: watched_def)
      then show ?thesis using own_fds fc True by auto
    next
      case False
      then obtain fc' where "rx_fds (reactor w) fd = Some fc'" "fd_read fc' = fd_read fc" "fd_write fc' = fd_write fc" using fds fc by blast
      then obtain c cn where "fd_read fc = Session_Readable c" "fd_write fc = Some (Session_Writable c)" "connections w c = Some cn"
        "connected cn" "sessionFd cn = fd" "fd \<noteq> INVALID_SOCKET" using net(5) by (metis watched_def)
      then show ?thesis using False by auto
    qed
  qed
  moreover have "\<exists>cn. ?cs c = Some cn \<and> idle F' rx c cn" if u: "c \<in> U" for c
  proof (cases "c = cid")
    case False
    obtain cn where cn: "connections w c = Some cn" "idle F (reactor w) c cn" using net(7) [OF u] by blast
    have "of_ping (snd p) \<noteq> Some c" if "p \<in> F' \<union> armed rx" for p
      using that cn(2) assms(5) old False by (auto simp: idle_def)
    moreover have "fd_read fc \<noteq> Session_Readable c" if "rx_fds rx fd = Some fc" for fd fc
      using fds that cn(2) False unfolding idle_def by (metis job.inject(1))
    ultimately have "idle F' rx c cn" using cn(2) by (simp add: idle_def)
    then show ?thesis using cn(1) False by simp
  qed (use idle u in simp)
  ultimately show ?thesis using assms(3,6) net(6) by (auto simp: net_ok_def put_connection_def)
qed

section \<open>Operations without handlers\<close>

lemma armed_ids:
  assumes "reactor_safe rx" and "p \<in> armed rx"
  shows "fst p \<noteq> 0" and "fst p < nextTimerId rx"
proof -
  obtain t where t: "t \<in> set (live rx)" "fst p = ti_id t" using assms(2) by (auto simp: armed_def)
  then show "fst p \<noteq> 0" "fst p < nextTimerId rx" using live_ids [OF assms(1) t(1)] by simp_all
qed

lemma fds_safe [simp]:
  "reactor_safe (rx\<lparr>rx_fds := fds\<rparr>) = reactor_safe rx" "armed (rx\<lparr>rx_fds := fds\<rparr>) = armed rx"
  by (simp_all add: reactor_safe_def reactor_ok_def armed_def live_def)

lemma armed_cancel:
  assumes "reactor_safe rx" and "cancelTimer now tid rx = (b, rx')"
  shows "armed rx' = {p \<in> armed rx. fst p \<noteq> tid}"
proof -
  have "set (live rx') = {t \<in> set (live rx). ti_id t \<noteq> tid}" using arg_cong [OF cancel_safe(2) [OF assms], of set] by (simp only: set_filter)
  then show ?thesis unfolding armed_def by force
qed

lemma armed_schedule:
  assumes "reactor_safe rx" and "nextTimerId rx \<noteq> -1" and "scheduleOnce before now now' ms (Some h) rx = (tid, rx')" and "p \<in> armed rx'"
  shows "p \<in> armed rx \<or> p = (tid, h) \<and> tid = nextTimerId rx"
  using schedule_safe(4) [OF assms(1-3)] assms(4) by (auto simp: armed_def)

text \<open>What an operation may change of the world: one connection and the timers and watches.\<close>

definition same_loop :: "'h Reactor \<Rightarrow> 'h Reactor \<Rightarrow> bool" where
  "same_loop rx rx' \<longleftrightarrow> rx_tasks rx' = rx_tasks rx \<and> rx_running rx' = rx_running rx \<and> rx_worker rx' = rx_worker rx"

definition touches :: "ConnectionId \<Rightarrow> 'z Net_scheme \<Rightarrow> 'z Net_scheme \<Rightarrow> bool" where
  "touches cid w w' \<longleftrightarrow> (\<exists>cn cn' rx. connections w cid = Some cn \<and> w' = put_connection cid cn' (w\<lparr>reactor := rx\<rparr>) \<and>
     connected cn' = connected cn \<and> same_loop (reactor w) rx)"

definition drops :: "ConnectionId \<Rightarrow> 'z Net_scheme \<Rightarrow> 'z Net_scheme \<Rightarrow> bool" where
  "drops cid w w' \<longleftrightarrow> (\<exists>cn cn' rx. connections w cid = Some cn \<and> w' = put_connection cid cn' (w\<lparr>reactor := rx\<rparr>) \<and>
     \<not> connected cn' \<and> same_loop (reactor w) rx)"

text \<open>The timer ids that have been used, or, if \<open>A\<close>, may still be when this connection's ping is answered.\<close>

definition budget :: "bool \<Rightarrow> ConnectionId \<Rightarrow> 'z Net_scheme \<Rightarrow> nat" where
  "budget A cid w = unat (nextTimerId (reactor w)) +
     (case connections w cid of None \<Rightarrow> 0 | Some cn \<Rightarrow> if A \<and> pendingPing cn then 1 else 0)"

lemma same_loop_simps [simp]:
  "same_loop rx rx" "same_loop (rx\<lparr>rx_fds := fds\<rparr>) rx' = same_loop rx rx'" "same_loop rx (rx'\<lparr>rx_fds := fds\<rparr>) = same_loop rx rx'"
  by (simp_all add: same_loop_def)

lemma same_loop_trans: "same_loop rx rx' \<Longrightarrow> same_loop rx' rx'' \<Longrightarrow> same_loop rx rx''"
  by (simp add: same_loop_def)

lemma watch_loop: "same_watch rx rx' \<Longrightarrow> same_loop rx rx'"
  by (simp add: same_watch_def same_loop_def)

lemma put_simps [simp]:
  "connections (put_connection cid cn w) = (connections w)(cid \<mapsto> cn)" "reactor (put_connection cid cn w) = reactor w"
  "ctxs (put_connection cid cn w) = ctxs w" "put_connection cid cn' (put_connection cid cn w) = put_connection cid cn' w"
  "(put_connection cid cn w)\<lparr>reactor := rx\<rparr> = put_connection cid cn (w\<lparr>reactor := rx\<rparr>)"
  by (simp_all add: put_connection_def)

lemma put_same: "connections w cid = Some cn \<Longrightarrow> put_connection cid cn w = w"
  by (simp add: put_connection_def fun_upd_idem)

lemma touches_refl: "connections w cid = Some cn \<Longrightarrow> touches cid w w"
  unfolding touches_def by (rule exI [of _ cn], rule exI [of _ cn], rule exI [of _ "reactor w"]) (simp add: put_same)


lemma touches_at: "touches cid w w' \<Longrightarrow> \<exists>cn. connections w' cid = Some cn"
  by (auto simp: touches_def)

lemma touchesI:
  "connections w cid = Some cn \<Longrightarrow> connected cn' = connected cn \<Longrightarrow> same_loop (reactor w) rx \<Longrightarrow>
   touches cid w (put_connection cid cn' (w\<lparr>reactor := rx\<rparr>))"
  by (auto simp: touches_def)

lemma touches_trans:
  assumes "touches cid w w'" and "touches cid w' w''"
  shows "touches cid w w''"
proof -
  obtain cn cn' rx where 1: "connections w cid = Some cn" "w' = put_connection cid cn' (w\<lparr>reactor := rx\<rparr>)"
    "connected cn' = connected cn" "same_loop (reactor w) rx" using assms(1) by (auto simp: touches_def)
  then obtain cn'' rx' where 2: "w'' = put_connection cid cn'' (w\<lparr>reactor := rx'\<rparr>)" "connected cn'' = connected cn'" "same_loop rx rx'"
    using assms(2) by (auto simp: touches_def)
  then show ?thesis using touchesI [of w cid cn cn'' rx'] 1 same_loop_trans by auto
qed

lemma room: "unat (n :: u64) + 1 < 2 ^ 64 \<Longrightarrow> n \<noteq> -1 \<and> unat (n + 1) = unat n + 1"
proof -
  assume "unat n + 1 < 2 ^ 64"
  then have s: "unat (n + 1) = unat n + 1" by (simp add: unat_word_ariths)
  then have "n \<noteq> -1" by auto
  with s show ?thesis by blast
qed

text \<open>A timer of a connection is scheduled, and the connection knows it by its id.\<close>

lemma net_schedule:
  assumes "net_ok F U w" and "connections w cid = Some cn" and "cid \<notin> U" and "unat (nextTimerId (reactor w)) + 1 < 2 ^ 64"
    and s: "scheduleOnce before now now' ms (Some j) (reactor w) = (tid, rx)" and "of_ping j = Some cid"
    and cn': "connected cn" "connected cn'" "sessionFd cn' = sessionFd cn" "session_ok (cn_session cn')"
    and slots: "\<And>p. p \<in> F \<union> armed (reactor w) \<Longrightarrow> of_ping (snd p) = Some cid \<Longrightarrow> slot cn' p" "slot cn' (tid, j)"
  shows "net_ok F U (put_connection cid cn' (w\<lparr>reactor := rx\<rparr>))" and "touches cid w (put_connection cid cn' (w\<lparr>reactor := rx\<rparr>))"
    and "unat (nextTimerId rx) = unat (nextTimerId (reactor w)) + 1"
proof -
  note n = room [OF assms(4)]
  have rs: "reactor_safe (reactor w)" using assms(1) by (simp add: net_ok_def)
  note sched = schedule_safe [OF rs conjunct1 [OF n] s]
  have new: "p \<in> armed (reactor w) \<or> p = (tid, j) \<and> tid = nextTimerId (reactor w)" if "p \<in> armed rx" for p
    using armed_schedule [OF rs conjunct1 [OF n] s that] .
  have w: "rx_fds rx = rx_fds (reactor w)" using sched(2) by (simp add: same_watch_def)
  show "net_ok F U (put_connection cid cn' (w\<lparr>reactor := rx\<rparr>))"
  proof (rule net_replace [OF assms(1,2) sched(1)])
    show "nextTimerId (reactor w) \<le> nextTimerId rx" using sched(3) n by (simp add: word_le_nat_alt)
    show "\<forall>p\<in>armed rx. p \<in> armed (reactor w) \<or> nextTimerId (reactor w) \<le> fst p \<and> of_ping (snd p) = Some cid"
      using new assms(6) by fastforce
    show "\<forall>p\<in>armed rx. of_ping (snd p) = Some cid \<longrightarrow> connected cn' \<and> slot cn' p" using new slots cn'(2) by blast
    show "\<forall>p\<in>F. of_ping (snd p) = Some cid \<longrightarrow> connected cn' \<longrightarrow> slot cn' p" using slots(1) by blast
    show "\<forall>fd fc. rx_fds rx fd = Some fc \<longrightarrow> fd_read fc = Session_Readable cid \<longrightarrow>
        connected cn' \<and> sessionFd cn' = fd \<and> fd \<noteq> INVALID_SOCKET"
      using watch_owner [OF assms(1) _ _ assms(2)] cn'(2,3) unfolding w by simp
  qed (use assms(3) cn'(4) w in auto)
  show "touches cid w (put_connection cid cn' (w\<lparr>reactor := rx\<rparr>))" using assms(2) cn'(1,2) watch_loop [OF sched(2)] by (intro touchesI) simp_all
  show "unat (nextTimerId rx) = unat (nextTimerId (reactor w)) + 1" using sched(3) n by simp
qed

lemma schedule_ping_safe:
  assumes "net_ok F U w" and "connections w cid = Some cn" and "connected cn \<Longrightarrow> \<not> pendingPing cn"
    and "\<forall>p\<in>F \<union> armed (reactor w). snd p \<noteq> Ping_Timer cid" and "cid \<notin> U" and "unat (nextTimerId (reactor w)) + 1 < 2 ^ 64"
  shows "returns (\<lambda>w'. net_ok F U w' \<and> touches cid w w' \<and> budget A cid w' \<le> budget A cid w + 1) (schedulePingTimer env cid w)"
proof (cases "cn_pingIntervalSec cn \<le> 0 \<or> \<not> connected cn")
  case True
  then show ?thesis using assms(1,2) touches_refl by (auto simp: schedulePingTimer_def returns_with)
next
  case False
  have slots: "slot (cn\<lparr>pingTimerId := tid\<rparr>) p" if "p \<in> F \<union> armed (reactor w)" "of_ping (snd p) = Some cid" for p tid
  proof -
    have "slot cn p" using that armed_owner(2) [OF assms(1) _ _ assms(2)] fired_slot [OF assms(1) _ _ assms(2)] False by blast
    then show ?thesis using bspec [OF assms(4) that(1)] that(2) by (cases p) (auto elim!: of_ping_SomeE)
  qed
  have step: "net_ok F U w' \<and> touches cid w w' \<and> budget A cid w' \<le> budget A cid w + 1"
    if s: "scheduleOnce (en_before env) (en_now env) (en_armNow env) ms (Some (Ping_Timer cid)) (reactor w) = (tid, rx)"
      and w': "w' = put_connection cid (cn\<lparr>pingTimerId := tid\<rparr>) (w\<lparr>reactor := rx\<rparr>)" for ms tid rx w'
    using net_schedule [OF assms(1,2,5,6) s, of "cn\<lparr>pingTimerId := tid\<rparr>"] False assms(2,3) slots net_session [OF assms(1,2)]
    by (simp add: w' budget_def)
  show ?thesis using False assms(2) step
    by (auto simp: schedulePingTimer_def returns_with case_prod_unfold intro!: returns_bind [of "\<lambda>_. True"] returns_lift)
qed

text \<open>Canceling the timer of a field, if the field is set.\<close>

abbreviation cancel_if :: "int \<Rightarrow> u64 \<Rightarrow> 'h Reactor \<Rightarrow> 'h Reactor" where
  "cancel_if now tid rx \<equiv> (if tid \<noteq> 0 then snd (cancelTimer now tid rx) else rx)"

lemma cancel_if_safe:
  assumes "reactor_safe rx"
  shows "reactor_safe (cancel_if now tid rx)" and "armed (cancel_if now tid rx) = {p \<in> armed rx. fst p \<noteq> tid}"
    and "same_watch rx (cancel_if now tid rx)" and "nextTimerId (cancel_if now tid rx) = nextTimerId rx"
proof -
  obtain b rx' where c: "cancelTimer now tid rx = (b, rx')" by fastforce
  note s = cancel_safe [OF assms c] armed_cancel [OF assms c]
  show "reactor_safe (cancel_if now tid rx)" "same_watch rx (cancel_if now tid rx)" "nextTimerId (cancel_if now tid rx) = nextTimerId rx"
    using s assms c by simp_all
  have "{p \<in> armed rx. fst p \<noteq> 0} = armed rx" using armed_ids(1) [OF assms] by blast
  then show "armed (cancel_if now tid rx) = {p \<in> armed rx. fst p \<noteq> tid}" using s(5) c by simp
qed

lemma ping_ack_safe:
  assumes "net_ok {} U w" and "connections w cid = Some cn" and "budget True cid w < 2 ^ 64"
  shows "returns (\<lambda>w'. net_ok {} U w' \<and> touches cid w w' \<and> budget True cid w' \<le> budget True cid w) (process_ping_ack env cid w)"
proof (cases "pendingPing cn")
  case False
  then show ?thesis using assms(1,2) touches_refl by (auto simp: process_ping_ack_def returns_with)
next
  case True
  let ?cn = "cn\<lparr>pendingPing := False, pingTimeoutTimerId := 0\<rparr>"
  let ?rx = "cancel_if (en_armNow env) (pingTimeoutTimerId cn) (reactor w)"
  let ?w = "put_connection cid ?cn (w\<lparr>reactor := ?rx\<rparr>)"
  have rs: "reactor_safe (reactor w)" using assms(1) by (simp add: net_ok_def)
  note c = cancel_if_safe [OF rs, where now = "en_armNow env" and tid = "pingTimeoutTimerId cn"]
  have fds: "rx_fds ?rx = rx_fds (reactor w)" using c(3) by (simp add: same_watch_def)
  have none: "of_ping (snd p) \<noteq> Some cid" if "p \<in> armed ?rx" for p
  proof
    assume o: "of_ping (snd p) = Some cid"
    have "p \<in> armed (reactor w)" "fst p \<noteq> pingTimeoutTimerId cn" using that c(2) by auto
    then show False using armed_owner(2) [OF assms(1) _ o assms(2)] o True by (cases p) (auto elim!: of_ping_SomeE)
  qed
  have net: "net_ok {} U ?w"
  proof (rule net_replace [OF assms(1,2) c(1)])
    show "\<forall>p\<in>armed ?rx. p \<in> armed (reactor w) \<or> nextTimerId (reactor w) \<le> fst p \<and> of_ping (snd p) = Some cid"
      unfolding c(2) by blast
    show "\<forall>fd fc. rx_fds ?rx fd = Some fc \<longrightarrow> fd_read fc = Session_Readable cid \<longrightarrow> connected ?cn \<and> sessionFd ?cn = fd \<and> fd \<noteq> INVALID_SOCKET"
      using watch_owner [OF assms(1) _ _ assms(2)] unfolding fds by simp
    show "cid \<in> U \<Longrightarrow> idle {} ?rx cid ?cn" using not_idle [OF assms(1,2) True] by blast
  qed (use net_session [OF assms(1,2)] c(4) fds none in \<open>simp_all del: if_split\<close>)
  have t: "touches cid w ?w" using assms(2) watch_loop [OF c(3)] by (intro touchesI) simp_all
  have b: "budget True cid ?w + 1 = budget True cid w" using assms(2) True c(4) by (simp add: budget_def)
  have "process_ping_ack env cid w = schedulePingTimer env cid ?w"
    using True assms(2) by (cases cn) (simp add: process_ping_ack_def with_connection_def Let_def)
  moreover have "returns (\<lambda>w'. net_ok {} U w' \<and> touches cid ?w w' \<and> budget True cid w' \<le> budget True cid ?w + 1) (schedulePingTimer env cid ?w)"
  proof (rule schedule_ping_safe [OF net, where cn = ?cn])
    show "\<forall>p\<in>{} \<union> armed (reactor ?w). snd p \<noteq> Ping_Timer cid" using none by fastforce
    show "unat (nextTimerId (reactor ?w)) + 1 < 2 ^ 64" using assms(2,3) True c(4) by (simp add: budget_def)
  qed (use not_idle [OF assms(1,2) True] in simp_all)
  ultimately show ?thesis using b touches_trans [OF t] by (auto elim!: returns_mono)
qed

text \<open>The connection is disconnected: its timers and its watch go.\<close>

abbreviation disconnect :: "'e env_scheme \<Rightarrow> ConnectionId \<Rightarrow> Connection \<Rightarrow> 'z Net_scheme \<Rightarrow> 'z Net_scheme net" where
  "disconnect env cid cn w \<equiv>
     net_bind (cancelPingTimers env cid (put_connection cid (cn\<lparr>connected := False\<rparr>) w)) (unregisterSession cid)"

lemma disconnect_safe:
  assumes "net_ok F U w" and "connections w cid = Some cn"
  obtains cn' w' where "disconnect env cid cn w = Inr w'" and "net_ok F U w'" and "drops cid w w'"
    and "connections w' cid = Some cn'" and "\<not> connected cn'" and "cn_session cn' = cn_session cn" and "budget A cid w' \<le> budget A cid w"
    and "\<not> pendingPing cn'"
proof -
  let ?cn = "cn\<lparr>connected := False, pingTimerId := 0, pingTimeoutTimerId := 0, pendingPing := False, sessionFd := INVALID_SOCKET\<rparr>"
  let ?rx1 = "cancel_if (en_armNow env) (pingTimerId cn) (reactor w)"
  let ?rx2 = "cancel_if (en_armNow env) (pingTimeoutTimerId cn) ?rx1"
  let ?rx = "if sessionFd cn \<noteq> INVALID_SOCKET then snd (unregisterFd (sessionFd cn) ?rx2) else ?rx2"
  let ?w = "\<lambda>rx. put_connection cid ?cn (w\<lparr>reactor := rx\<rparr>)"
  have rs: "reactor_safe (reactor w)" using assms(1) by (simp add: net_ok_def)
  note c1 = cancel_if_safe [OF rs, where now = "en_armNow env" and tid = "pingTimerId cn"]
  note c2 = cancel_if_safe [OF c1(1), where now = "en_armNow env" and tid = "pingTimeoutTimerId cn"]
  have ran: "disconnect env cid cn w = Inr (?w ?rx)"
    using assms(2) by (cases cn) (simp add: cancelPingTimers_def unregisterSession_def with_connection_def Let_def put_connection_def)
  obtain rx fds where r: "?rx = rx" and rx: "rx = ?rx2\<lparr>rx_fds := fds\<rparr>"
    and fds: "fds = (if sessionFd cn \<noteq> INVALID_SOCKET then (rx_fds (reactor w))(sessionFd cn := None) else rx_fds (reactor w))"
  proof -
    have "rx_fds ?rx2 = rx_fds (reactor w)" using c1(3) c2(3) by (simp add: same_watch_def)
    then show thesis using that by (cases "rx_fds ?rx2 (sessionFd cn)") (simp_all add: unregisterFd_def fun_upd_idem)
  qed
  have arm: "armed rx = {p \<in> armed (reactor w). fst p \<noteq> pingTimerId cn \<and> fst p \<noteq> pingTimeoutTimerId cn}"
    unfolding rx fds_safe c2(2) c1(2) by blast
  have none: "of_ping (snd p) \<noteq> Some cid" if "p \<in> armed rx" for p
  proof
    assume o: "of_ping (snd p) = Some cid"
    show False using armed_owner(2) [OF assms(1) _ o assms(2)] that o unfolding arm by (cases p) (auto elim!: of_ping_SomeE)
  qed
  have gone: "fd_read fc \<noteq> Session_Readable cid" if "rx_fds rx fd = Some fc" for fd fc
    using that watch_owner(2) [OF assms(1) _ _ assms(2)] unfolding rx fds by (auto split: if_splits)
  have net: "net_ok F U (?w rx)"
  proof (rule net_replace [OF assms(1,2)])
    show "reactor_safe rx" using c2(1) unfolding rx by simp
    show "nextTimerId (reactor w) \<le> nextTimerId rx" using c1(4) c2(4) unfolding rx by simp
    show "\<forall>p\<in>armed rx. p \<in> armed (reactor w) \<or> nextTimerId (reactor w) \<le> fst p \<and> of_ping (snd p) = Some cid"
      unfolding arm by blast
    show "\<forall>p\<in>armed rx. of_ping (snd p) = Some cid \<longrightarrow> connected ?cn \<and> slot ?cn p" using none by blast
    show "\<forall>fd fc. rx_fds rx fd = Some fc \<longrightarrow>
      (\<exists>fc'. rx_fds (reactor w) fd = Some fc' \<and> fd_read fc' = fd_read fc \<and> fd_write fc' = fd_write fc) \<or>
      fd_read fc = Session_Readable cid \<and> fd_write fc = Some (Session_Writable cid)"
      unfolding rx fds by (auto split: if_splits)
    show "idle F rx cid ?cn" if "cid \<in> U"
    proof -
      have "idle F (reactor w) cid cn" using assms that by (auto simp: net_ok_def)
      then show ?thesis using none gone by (auto simp: idle_def)
    qed
  qed (use net_session [OF assms(1,2)] gone in \<open>simp_all del: if_split\<close>)
  have "same_loop (reactor w) rx"
    using same_loop_trans [OF watch_loop [OF c1(3)] watch_loop [OF c2(3)]] unfolding rx by simp
  then have "drops cid w (?w rx)"
    unfolding drops_def using assms(2) by (intro exI [of _ cn] exI [of _ ?cn] exI [of _ rx]) simp
  moreover have "budget A cid (?w rx) \<le> budget A cid w" using assms(2) c1(4) c2(4) unfolding budget_def rx by simp
  ultimately show thesis using that ran net unfolding r by simp
qed

text \<open>The session of a connection changes, or whether its descriptor is watched for writing.\<close>

definition same_watches :: "(socket_t \<rightharpoonup> 'h FdContext) \<Rightarrow> (socket_t \<rightharpoonup> 'h FdContext) \<Rightarrow> bool" where
  "same_watches fds fds' \<longleftrightarrow> (\<forall>fd fc. fds' fd = Some fc \<longrightarrow> (\<exists>fc'. fds fd = Some fc' \<and> fd_read fc' = fd_read fc \<and> fd_write fc' = fd_write fc))"

lemma net_update:
  assumes "net_ok F U w" and "connections w cid = Some cn" and "session_ok (cn_session cn')"
    and cn': "connected cn' = connected cn" "sessionFd cn' = sessionFd cn" "pendingPing cn' = pendingPing cn"
      "pingTimerId cn' = pingTimerId cn" "pingTimeoutTimerId cn' = pingTimeoutTimerId cn"
    and fds: "same_watches (rx_fds (reactor w)) fds"
    and w': "w' = put_connection cid cn' (w\<lparr>reactor := (reactor w)\<lparr>rx_fds := fds\<rparr>\<rparr>)"
  shows "net_ok F U w'" and "touches cid w w'" and "budget A cid w' = budget A cid w"
proof -
  have slots: "slot cn' p = slot cn p" for p using cn' by (simp add: slot_def split: job.splits)
  show "net_ok F U w'" unfolding w'
  proof (rule net_replace [OF assms(1,2)])
    show "\<forall>p\<in>armed ((reactor w)\<lparr>rx_fds := fds\<rparr>). of_ping (snd p) = Some cid \<longrightarrow> connected cn' \<and> slot cn' p"
      using armed_owner [OF assms(1) _ _ assms(2)] cn'(1) slots by simp
    show "\<forall>p\<in>F. of_ping (snd p) = Some cid \<longrightarrow> connected cn' \<longrightarrow> slot cn' p"
      using fired_slot [OF assms(1) _ _ assms(2)] cn'(1) slots by simp
    show "\<forall>fd fc. rx_fds ((reactor w)\<lparr>rx_fds := fds\<rparr>) fd = Some fc \<longrightarrow> fd_read fc = Session_Readable cid \<longrightarrow>
        connected cn' \<and> sessionFd cn' = fd \<and> fd \<noteq> INVALID_SOCKET"
      using fds watch_owner [OF assms(1) _ _ assms(2)] cn'(1,2) by (fastforce simp: same_watches_def)
    show "idle F ((reactor w)\<lparr>rx_fds := fds\<rparr>) cid cn'" if "cid \<in> U"
    proof -
      have "idle F (reactor w) cid cn" using assms(1,2) that by (auto simp: net_ok_def)
      then show ?thesis using fds cn'(3) by (fastforce simp: idle_def same_watches_def)
    qed
  qed (use assms(1,3) fds in \<open>auto simp: net_ok_def same_watches_def\<close>)
  show "touches cid w w'" unfolding w' using assms(2) cn'(1) by (intro touchesI) simp_all
  show "budget A cid w' = budget A cid w" using assms(2) cn'(3) by (simp add: w' budget_def)
qed

lemma put_session_safe:
  assumes "net_ok F U w" and "connections w cid = Some cn" and "session_ok s"
  shows "net_ok F U (put_connection cid (cn\<lparr>cn_session := s\<rparr>) w)" and "touches cid w (put_connection cid (cn\<lparr>cn_session := s\<rparr>) w)"
    and "budget A cid (put_connection cid (cn\<lparr>cn_session := s\<rparr>) w) = budget A cid w"
  using net_update [OF assms(1,2), of "cn\<lparr>cn_session := s\<rparr>" "rx_fds (reactor w)"] assms(3)
  by (simp_all add: same_watches_def)

lemma enableWrite_fds:
  obtains fds where "snd (enableWrite ctl fd enable rx) = rx\<lparr>rx_fds := fds\<rparr>"
    and "same_watches (rx_fds rx) fds"
proof (cases "rx_fds rx fd")
  case None
  then show thesis using that [of "rx_fds rx"] by (simp add: enableWrite_def same_watches_def)
next
  case (Some c)
  let ?fds = "(rx_fds rx)(fd \<mapsto> c\<lparr>fd_writeEnabled := enable \<and> fd_write c \<noteq> None\<rparr>)"
  have "snd (enableWrite ctl fd enable rx) = rx\<lparr>rx_fds := ?fds\<rparr>" using Some by (simp add: enableWrite_def Let_def)
  moreover have "same_watches (rx_fds rx) ?fds" using Some by (auto simp: same_watches_def)
  ultimately show thesis using that by blast
qed

lemma write_interest_result:
  assumes "connections w cid = Some cn"
  obtains fds where "updateWriteInterest env cid w = Inr (w\<lparr>reactor := (reactor w)\<lparr>rx_fds := fds\<rparr>\<rparr>)"
    and "same_watches (rx_fds (reactor w)) fds"
proof (cases "sessionFd cn = INVALID_SOCKET")
  case True
  then show thesis using assms that [of "rx_fds (reactor w)"] by (simp add: updateWriteInterest_def with_connection_def same_watches_def)
next
  case False
  obtain fds where f: "snd (enableWrite (en_ctl env) (sessionFd cn) (Session_wantsWrite (cn_session cn)) (reactor w)) = (reactor w)\<lparr>rx_fds := fds\<rparr>"
    "same_watches (rx_fds (reactor w)) fds" using enableWrite_fds by blast
  show thesis by (rule that [OF _ f(2)]) (use assms False f(1) in \<open>simp add: updateWriteInterest_def with_connection_def\<close>)
qed

lemma write_interest_safe:
  assumes "net_ok F U w" and "connections w cid = Some cn"
  shows "returns (\<lambda>w'. net_ok F U w' \<and> touches cid w w' \<and> budget A cid w' = budget A cid w) (updateWriteInterest env cid w)"
proof -
  obtain fds where u: "updateWriteInterest env cid w = Inr (w\<lparr>reactor := (reactor w)\<lparr>rx_fds := fds\<rparr>\<rparr>)"
    and fds: "same_watches (rx_fds (reactor w)) fds" by (rule write_interest_result [OF assms(2), of env])
  have "put_connection cid cn (w\<lparr>reactor := (reactor w)\<lparr>rx_fds := fds\<rparr>\<rparr>) = w\<lparr>reactor := (reactor w)\<lparr>rx_fds := fds\<rparr>\<rparr>"
    using assms(2) by (intro put_same) simp
  moreover note net_update [OF assms(1,2) net_session [OF assms(1,2)] refl refl refl refl refl fds refl]
  ultimately show ?thesis using u by simp
qed

end
