(* ===== verification/Connection_Hooks.thy ===== *)
theory Connection_Hooks
  imports Connection_Safe
begin

text \<open>
  What the connections ask of their client to be free of dangling references. The locale \<open>safe_client\<close> extends
  \<open>connection_client\<close> with what the handlers may do to the connections: they answer without disconnecting
  anything, and a lost connection is no longer referred to. One lemma for each operation: it returns, or
  raises what the session raises, and the world is in order again.
\<close>

section \<open>The contract\<close>

text \<open>The connections with their sessions left out.\<close>

definition view :: "'z Net_scheme \<Rightarrow> ConnectionId \<rightharpoonup> bool \<times> bool" where
  "view w = (\<lambda>cid. map_option (\<lambda>cn. (connected cn, pendingPing cn)) (connections w cid))"

definition light :: "'z Net_scheme \<Rightarrow> 'z Net_scheme \<Rightarrow> bool" where
  "light w w' \<longleftrightarrow> view w' = view w \<and> nextTimerId (reactor w') = nextTimerId (reactor w)"

lemma light_refl [simp]: "light w w"
  by (simp add: light_def)

lemma light_trans: "light w w' \<Longrightarrow> light w' w'' \<Longrightarrow> light w w''"
  by (simp add: light_def)

lemma light_at:
  assumes "light w w'" and "connections w cid = Some cn"
  obtains cn' where "connections w' cid = Some cn'" and "connected cn' = connected cn" and "pendingPing cn' = pendingPing cn"
proof -
  have "view w' cid = view w cid" using assms(1) by (simp add: light_def)
  then show thesis using assms(2) that by (auto simp: view_def)
qed

lemma light_budget:
  assumes "light w w'" and "connections w cid = Some cn"
  shows "budget A cid w' = budget A cid w" and "connections w' cid \<noteq> None"
proof -
  obtain cn' where "connections w' cid = Some cn'" "pendingPing cn' = pendingPing cn" using light_at [OF assms] by metis
  then show "budget A cid w' = budget A cid w" "connections w' cid \<noteq> None" using assms by (simp_all add: budget_def light_def)
qed

text \<open>
  \<open>G X w\<close>: what the client knows of the connections, those in \<open>X\<close> being disconnected while it may still refer to them.
\<close>

locale safe_client = connection_client hk K inv
  for hk :: "'z Net_scheme hooks" and K :: "ctx set" and inv :: "'z Net_scheme \<Rightarrow> bool" +
  fixes G :: "ConnectionId set \<Rightarrow> 'z Net_scheme \<Rightarrow> bool"
  assumes done_safe: "inv w \<Longrightarrow> net_ok F U w \<Longrightarrow> G X w \<Longrightarrow> c \<in> K \<Longrightarrow>
      returns (\<lambda>w'. net_ok F U w' \<and> G X w' \<and> light w w') (requestDone hk c r w)"
    and lost_safe: "net_ok F U w \<Longrightarrow> G (insert cid X) w \<Longrightarrow> connections w cid = Some cn \<Longrightarrow>
      returns (\<lambda>w'. net_ok F U w' \<and> G X w' \<and> light w w') (connectionLost hk cid w)"
    and draining_safe: "net_ok F U w \<Longrightarrow> G X w \<Longrightarrow> connections w cid = Some cn \<Longrightarrow>
      returns (\<lambda>w'. net_ok F U w' \<and> G X w' \<and> light w w') (connectionDraining hk cid w)"
    and touch_safe: "G X w \<Longrightarrow> touches cid w w' \<Longrightarrow> G X w'"
    and drop_safe: "G X w \<Longrightarrow> drops cid w w' \<Longrightarrow> G (insert cid X) w'"

text \<open>
  During an operation of the connection \<open>cid\<close>, where a ping may be answered if \<open>A\<close>, and between operations; \<open>N\<close>
  bounds the timer ids.
\<close>

definition good ::
    "('z Net_scheme \<Rightarrow> bool) \<Rightarrow> (ConnectionId set \<Rightarrow> 'z Net_scheme \<Rightarrow> bool) \<Rightarrow> (u64 \<times> job) set \<Rightarrow> ConnectionId set \<Rightarrow>
    ConnectionId set \<Rightarrow> ConnectionId \<Rightarrow> bool \<Rightarrow> nat \<Rightarrow> 'z Net_scheme \<Rightarrow> bool" where
  "good I G F U X cid A N w \<longleftrightarrow> I w \<and> net_ok F U w \<and> G X w \<and> budget A cid w \<le> N \<and> connections w cid \<noteq> None"

definition fine ::
    "('z Net_scheme \<Rightarrow> bool) \<Rightarrow> (ConnectionId set \<Rightarrow> 'z Net_scheme \<Rightarrow> bool) \<Rightarrow> (u64 \<times> job) set \<Rightarrow> ConnectionId set \<Rightarrow>
    ConnectionId set \<Rightarrow> nat \<Rightarrow> 'z Net_scheme \<Rightarrow> bool" where
  "fine I G F U X N w \<longleftrightarrow> I w \<and> net_ok F U w \<and> G X w \<and> unat (nextTimerId (reactor w)) \<le> N"

lemma good_fine: "good I G F U X cid A N w \<Longrightarrow> fine I G F U X N w"
  by (auto simp: good_def fine_def budget_def)

lemma fine_good:
  assumes "fine I G F U X N w" and "connections w cid = Some cn"
  shows "good I G F U X cid False N w" and "good I G F U X cid True (N + 1) w"
  using assms by (auto simp: good_def fine_def budget_def)

lemma returns_conj: "returns P r \<Longrightarrow> (\<And>x. r = Inr x \<Longrightarrow> Q x) \<Longrightarrow> returns (\<lambda>x. P x \<and> Q x) r"
  by (auto simp: returns_def split: sum.splits fault.splits)

context safe_client
begin

lemma event_safe:
  assumes "good inv G F U X cid A N w" and "N < 2 ^ 64" and "answers_ctxs [e] \<subseteq> K" and "e = PING_ACK \<Longrightarrow> F = {} \<and> A"
  shows "returns (good inv G F U X cid A N) (processSessionEvent hk env cid e w)"
proof -
  have w: "inv w" "net_ok F U w" "G X w" "budget A cid w \<le> N" using assms(1) by (simp_all add: good_def)
  obtain cn where cn: "connections w cid = Some cn" using assms(1) by (auto simp: good_def)
  have hooked: "net_ok F U w' \<and> G X w' \<and> budget A cid w' \<le> N \<and> connections w' cid \<noteq> None"
    if "net_ok F U w'" "G X w'" "light u w'" "connections u cid = Some c" "budget A cid u \<le> N" for u w' c
    using that light_budget [OF that(3,4)] by simp
  have "returns (\<lambda>w'. net_ok F U w' \<and> G X w' \<and> budget A cid w' \<le> N \<and> connections w' cid \<noteq> None) (processSessionEvent hk env cid e w)"
  proof (cases e)
    case (REQUEST_DONE c r)
    then show ?thesis using returns_mono [OF done_safe [OF w(1-3), of c r]] assms(3) hooked [OF _ _ _ cn w(4)]
      by (simp add: processSessionEvent_def)
  next
    case SESSION_CLOSING
    then show ?thesis using returns_mono [OF draining_safe [OF w(2,3) cn]] hooked [OF _ _ _ cn w(4)]
      by (simp add: processSessionEvent_def)
  next
    case SESSION_DEAD
    obtain cn1 w1 where d: "disconnect env cid cn w = Inr w1" "net_ok F U w1" "drops cid w w1" "connections w1 cid = Some cn1"
      "budget A cid w1 \<le> budget A cid w" by (rule disconnect_safe [OF w(2) cn]) blast
    have "processSessionEvent hk env cid e w = net_bind (disconnect env cid cn w) (connectionLost hk cid)"
      using SESSION_DEAD cn by (cases "cancelPingTimers env cid (put_connection cid (cn\<lparr>connected := False\<rparr>) w)")
        (simp_all add: processSessionEvent_def with_connection_def)
    then show ?thesis using returns_mono [OF lost_safe [OF d(2) drop_safe [OF w(3) d(3)] d(4)]] hooked [OF _ _ _ d(4)] d(1,5) w(4)
      by simp
  next
    case PING_ACK
    then have F: "F = {}" "A" using assms(4) by simp_all
    have "returns (\<lambda>w'. net_ok {} U w' \<and> touches cid w w' \<and> budget True cid w' \<le> budget True cid w) (process_ping_ack env cid w)"
      using ping_ack_safe [of U w cid cn env] w(2,4) cn assms(2) F by simp
    then show ?thesis using PING_ACK F w(3,4) touch_safe touches_at
      by (auto simp: processSessionEvent_def elim!: returns_mono) fastforce
  qed
  moreover have "inv w'" if "processSessionEvent hk env cid e w = Inr w'" for w'
    using event_inv [OF w(1) assms(3) that] .
  ultimately show ?thesis by (rule returns_mono [OF returns_conj]) (auto simp: good_def)
qed

lemma events_safe:
  "good inv G F U X cid A N w \<Longrightarrow> N < 2 ^ 64 \<Longrightarrow> answers_ctxs es \<subseteq> K \<Longrightarrow> (PING_ACK \<in> set es \<Longrightarrow> F = {} \<and> A) \<Longrightarrow>
   returns (good inv G F U X cid A N) (processSessionEvents hk env cid es w)"
proof (induction es arbitrary: w)
  case (Cons e es)
  have "answers_ctxs [e] \<subseteq> K" "answers_ctxs es \<subseteq> K" using Cons.prems(3) by (auto simp: answers_ctxs_def)
  then show ?case using Cons by (auto intro!: returns_bind [OF event_safe])
qed simp

text \<open>An operation of the session and then its events.\<close>

lemma session_events_safe:
  assumes "good inv G F U X cid A N w" and "N < 2 ^ 64" and "connections w cid = Some cn" and "session_ok s"
    and "answers_within K (es, s)" and "PING_ACK \<notin> set es \<or> F = {} \<and> A"
  shows "returns (good inv G F U X cid A N) (processSessionEvents hk env cid es (put_connection cid (cn\<lparr>cn_session := s\<rparr>) w))"
proof (rule events_safe [OF _ assms(2)])
  have w: "inv w" "net_ok F U w" "G X w" "budget A cid w \<le> N" using assms(1) by (simp_all add: good_def)
  have a: "answers_ctxs es \<subseteq> K" "ctx_set s \<subseteq> K"
    using assms(5) by (simp_all add: answers_within_def)
  show "answers_ctxs es \<subseteq> K" by (rule a(1))
  note put = put_session_safe [OF w(2) assms(3,4)]
  show "good inv G F U X cid A N (put_connection cid (cn\<lparr>cn_session := s\<rparr>) w)"
    using put w(3,4) put_inv [OF w(1)] a(2) touch_safe by (auto simp: good_def)
qed (use assms(6) in blast)

lemma update_safe:
  assumes "good inv G F U X cid A N w"
  shows "returns (good inv G F U X cid A N) (updateWriteInterest env cid w)"
proof -
  have w: "inv w" "net_ok F U w" "G X w" "budget A cid w \<le> N" using assms by (simp_all add: good_def)
  obtain cn where cn: "connections w cid = Some cn" using assms by (auto simp: good_def)
  have "good inv G F U X cid A N w'" if "(net_ok F U w' \<and> touches cid w w' \<and> budget A cid w' = budget A cid w) \<and> inv w'" for w'
    using that w(4) touch_safe [OF w(3)] touches_at [of cid w w'] by (auto simp: good_def)
  from returns_mono [OF returns_conj [OF write_interest_safe [OF w(2) cn] update_inv [OF w(1)]] this] show ?thesis .
qed

section \<open>Operations\<close>

lemma goodE:
  assumes "good inv G F U X cid A N w"
  obtains cn where "connections w cid = Some cn" and "session_ok (cn_session cn)" and "ctx_set (cn_session cn) \<subseteq> K"
    and "inv w" and "net_ok F U w" and "G X w" and "budget A cid w \<le> N"
  using assms held_known by (auto simp: good_def net_session)

lemma good_touch:
  assumes "good inv G F U X cid A N w" and "net_ok F' U' w'" and "touches cid w w'" and "budget A cid w' \<le> N'" and "inv w'"
  shows "good inv G F' U' X cid A N' w'"
  using assms touch_safe [of X w cid w'] touches_at [of cid w w'] by (auto simp: good_def)

lemma close_safe:
  assumes "good inv G F U X cid A N w" and "N < 2 ^ 64"
  shows "returns (good inv G F U (insert cid X) cid A N) (Connection_closeOnReactor hk env cid w)"
proof -
  obtain cn where cn: "connections w cid = Some cn" and w: "inv w" "net_ok F U w" "G X w" "budget A cid w \<le> N"
    using assms(1) by (elim goodE) blast
  show ?thesis
  proof (cases "connected cn")
    case False
    then have "drops cid w w"
      unfolding drops_def using cn by (intro exI [of _ cn] exI [of _ "reactor w"]) (simp add: put_same)
    then show ?thesis using False cn w drop_safe by (simp add: Connection_closeOnReactor_def returns_with good_def)
  next
    case True
    obtain cn1 w1 where d: "disconnect env cid cn w = Inr w1" "net_ok F U w1" "drops cid w w1" "connections w1 cid = Some cn1"
      "budget A cid w1 \<le> budget A cid w" by (rule disconnect_safe [OF w(2) cn]) blast
    obtain w0 where w0: "cancelPingTimers env cid (put_connection cid (cn\<lparr>connected := False\<rparr>) w) = Inr w0" "unregisterSession cid w0 = Inr w1"
      using d(1) by (auto simp: net_bind_Inr)
    have "inv (put_connection cid (cn\<lparr>connected := False\<rparr>) w)" using field_inv(1) [OF w(1) cn] by simp
    then have w1: "inv w1" using w0 cancel_timers_inv unregister_inv by blast
    then have g: "good inv G F U (insert cid X) cid A N w1" using d w drop_safe by (simp add: good_def)
    obtain es s where s: "Session_close (cn_session cn1) = (es, s)" by fastforce
    have "returns (good inv G F U (insert cid X) cid A N) (processSessionEvents hk env cid es (put_connection cid (cn1\<lparr>cn_session := s\<rparr>) w1))"
      using session_events_safe [OF g assms(2) d(4) close_ok(1) [OF net_session [OF d(2,4)] s], where es = es] close_within [OF held_known [OF w1 d(4)]]
        close_answers [OF s] s by simp
    then show ?thesis using True cn w0 d(4) s by (simp add: Connection_closeOnReactor_def with_connection_def)
  qed
qed

lemma cancel_request_safe:
  assumes "good inv G F U X cid A N w" and "N < 2 ^ 64"
  shows "returns (good inv G F U X cid A N) (cancelRequestOnReactor hk env cid c w)"
proof -
  obtain cn where cn: "connections w cid = Some cn" "session_ok (cn_session cn)" "ctx_set (cn_session cn) \<subseteq> K"
    using assms(1) by (elim goodE) blast
  obtain es s where s: "Session_cancelRequest c (ctxs w) (cn_session cn) = (es, s)" by fastforce
  have "returns (good inv G F U X cid A N) (processSessionEvents hk env cid es (put_connection cid (cn\<lparr>cn_session := s\<rparr>) w))"
    using session_events_safe [OF assms cn(1) cancel_ok(1) [OF cn(2) s], where es = es] cancel_within [OF cn(3), of c "ctxs w"]
      cancel_answers [OF cn(2) s] s by simp
  from returns_bind [OF this update_safe] show ?thesis using cn(1) s by (simp add: cancelRequestOnReactor_def returns_with)
qed

lemma readable_safe:
  assumes "good inv G {} U X cid True N w" and "N < 2 ^ 64"
  shows "returns (good inv G {} U X cid True N) (onSessionReadable hk env cid w)"
proof -
  obtain cn where cn: "connections w cid = Some cn" "session_ok (cn_session cn)" "ctx_set (cn_session cn) \<subseteq> K"
    using assms(1) by (elim goodE) blast
  show ?thesis
  proof (cases "connected cn")
    case True
    let ?next = "\<lambda>(es, s). net_bind (processSessionEvents hk env cid es (put_connection cid (cn\<lparr>cn_session := s\<rparr>) w)) (updateWriteInterest env cid)"
    have step: "returns (good inv G {} U X cid True N) (?next (es, s))" if s: "Session_onReadable (en_reads env) (cn_session cn) = Inr (es, s)" for es s
      using returns_bind [OF session_events_safe [OF assms cn(1) readable_keeps [OF cn(2) s], where es = es] update_safe]
        readable_within [OF cn(3) s] by simp
    have "returns (good inv G {} U X cid True N) (net_bind (lift (Session_onReadable (en_reads env) (cn_session cn))) ?next)"
    proof (cases "Session_onReadable (en_reads env) (cn_session cn)")
      case (Inr r)
      then show ?thesis using step by (cases r) simp
    qed simp
    then show ?thesis using True cn(1) by (simp add: onSessionReadable_def returns_with)
  qed (use assms cn in \<open>simp add: onSessionReadable_def returns_with\<close>)
qed

lemma writable_safe:
  assumes "good inv G F U X cid A N w"
  shows "returns (good inv G F U X cid A N) (onSessionWritable env cid w)"
proof -
  obtain cn where cn: "connections w cid = Some cn" "session_ok (cn_session cn)" and w: "inv w" "net_ok F U w" "G X w" "budget A cid w \<le> N"
    using assms(1) by (elim goodE) blast
  show ?thesis
  proof (cases "connected cn")
    case True
    have "good inv G F U X cid A N (put_connection cid (cn\<lparr>cn_session := s\<rparr>) w)"
      if s: "Session_onWritable (en_writes env) (cn_session cn) = Inr (out, s)" for out s
    proof -
      have "ctx_set s \<subseteq> K" by (rule writable_within [OF s held_known [OF w(1) cn(1)]])
      then have "inv (put_connection cid (cn\<lparr>cn_session := s\<rparr>) w)" using put_inv [OF w(1)] by simp
      then show ?thesis using good_touch [OF assms put_session_safe(1,2) [OF w(2) cn(1) writable_keeps [OF cn(2) s]]]
          put_session_safe(3) [OF w(2) cn(1) writable_keeps [OF cn(2) s]] w(4) by simp
    qed
    then show ?thesis using True cn(1) update_safe
      by (auto simp: onSessionWritable_def returns_with
          intro!: returns_bind [of "\<lambda>(out, s). Session_onWritable (en_writes env) (cn_session cn) = Inr (out, s)"] returns_lift)
  qed (use assms cn in \<open>simp add: onSessionWritable_def returns_with\<close>)
qed

text \<open>
  The handlers of the two timers: each has fired, and is called with its field still set. While it is
  connected, a connection has only one of the two.
\<close>

lemma fire_timer:
  assumes "good inv G (insert p F) U X cid A N w" and "p \<notin> F" and "connections w cid = Some cn" and "of_ping (snd p) = Some cid"
    and cn': "connected cn' = connected cn" "sessionFd cn' = sessionFd cn" "cn_session cn' = cn_session cn"
      "pendingPing cn' = pendingPing cn"
  shows "good inv G F U X cid A N (put_connection cid cn' w)" and "cid \<notin> U"
    and "connected cn \<Longrightarrow> \<forall>q\<in>F \<union> armed (reactor w). of_ping (snd q) \<noteq> Some cid" and "connected cn \<Longrightarrow> slot cn p"
proof -
  have w: "inv w" "net_ok (insert p F) U w" "G X w" "budget A cid w \<le> N" using assms(1) by (simp_all add: good_def)
  show out: "cid \<notin> U" using w(2) assms(4) by (auto simp: net_ok_def idle_def)
  have ids: "fst q \<noteq> fst p" if "q \<in> F \<union> armed (reactor w)" for q
  proof
    assume e: "fst q = fst p"
    have f: "inj_on fst (insert p F)" "fst p \<notin> fst ` armed (reactor w)" using w(2) by (simp_all add: net_ok_def fired_ok_def)
    then show False using that assms(2) e inj_onD [OF f(1) e] by (metis UnE image_eqI insertCI)
  qed
  show p: "connected cn \<Longrightarrow> slot cn p" using fired_slot [OF w(2) _ assms(4,3)] by simp
  show none: "\<forall>q\<in>F \<union> armed (reactor w). of_ping (snd q) \<noteq> Some cid" if c: "connected cn"
  proof (intro ballI notI)
    fix q assume q: "q \<in> F \<union> armed (reactor w)" "of_ping (snd q) = Some cid"
    then have "slot cn q" using c armed_owner(2) [OF w(2) _ _ assms(3)] fired_slot [OF w(2) _ _ assms(3)] by blast
    then show False using p [OF c] ids [OF q(1)] q(2) assms(4) by (cases p; cases q) (auto elim!: of_ping_SomeE)
  qed
  have rs: "reactor_safe (reactor w)" using w(2) by (simp add: net_ok_def)
  have "net_ok F U (put_connection cid cn' (w\<lparr>reactor := reactor w\<rparr>))"
  proof (rule net_replace [OF w(2) assms(3) rs])
    show "\<forall>q\<in>armed (reactor w). of_ping (snd q) = Some cid \<longrightarrow> connected cn' \<and> slot cn' q"
      using armed_owner(1) [OF w(2) _ _ assms(3)] none by blast
    show "\<forall>q\<in>F. of_ping (snd q) = Some cid \<longrightarrow> connected cn' \<longrightarrow> slot cn' q" using none cn'(1) by blast
    show "\<forall>fd fc. rx_fds (reactor w) fd = Some fc \<longrightarrow> fd_read fc = Session_Readable cid \<longrightarrow>
        connected cn' \<and> sessionFd cn' = fd \<and> fd \<noteq> INVALID_SOCKET"
      using watch_owner [OF w(2) _ _ assms(3)] cn'(1,2) by simp
  qed (use net_session [OF w(2) assms(3)] cn'(3) out in auto)
  then have "net_ok F U (put_connection cid cn' w)" by simp
  moreover have "touches cid w (put_connection cid cn' w)" using touchesI [OF assms(3) cn'(1), of "reactor w"] by simp
  moreover have "budget A cid (put_connection cid cn' w) \<le> N" using w(4) assms(3) cn'(4) by (simp add: budget_def)
  moreover have "inv (put_connection cid cn' w)" by (rule field_inv(1) [OF w(1) assms(3) cn'(3)])
  ultimately show "good inv G F U X cid A N (put_connection cid cn' w)" using good_touch [OF assms(1)] by blast
qed

text \<open>A connection without ping timers may change what it waits for.\<close>

lemma good_pending:
  assumes "good inv G F U X cid A N w" and "connections w cid = Some cn" and "cid \<notin> U"
    and "connected cn \<Longrightarrow> \<forall>q\<in>F \<union> armed (reactor w). of_ping (snd q) \<noteq> Some cid"
  shows "good inv G F U X cid A (N + 1) (put_connection cid (cn\<lparr>pendingPing := b\<rparr>) w)"
proof -
  have w: "inv w" "net_ok F U w" "G X w" "budget A cid w \<le> N" using assms(1) by (simp_all add: good_def)
  let ?cn = "cn\<lparr>pendingPing := b\<rparr>"
  have rs: "reactor_safe (reactor w)" using w(2) by (simp add: net_ok_def)
  have "net_ok F U (put_connection cid ?cn (w\<lparr>reactor := reactor w\<rparr>))"
  proof (rule net_replace [OF w(2) assms(2) rs])
    show "\<forall>q\<in>armed (reactor w). of_ping (snd q) = Some cid \<longrightarrow> connected ?cn \<and> slot ?cn q"
      using armed_owner(1) [OF w(2) _ _ assms(2)] assms(4) by blast
    show "\<forall>q\<in>F. of_ping (snd q) = Some cid \<longrightarrow> connected ?cn \<longrightarrow> slot ?cn q"
      using assms(4) by (cases "connected cn") auto
    show "\<forall>fd fc. rx_fds (reactor w) fd = Some fc \<longrightarrow> fd_read fc = Session_Readable cid \<longrightarrow>
        connected ?cn \<and> sessionFd ?cn = fd \<and> fd \<noteq> INVALID_SOCKET"
      using watch_owner [OF w(2) _ _ assms(2)] by simp
  qed (use net_session [OF w(2) assms(2)] assms(3) in auto)
  then have "net_ok F U (put_connection cid ?cn w)" by simp
  moreover have "touches cid w (put_connection cid ?cn w)" using touchesI [OF assms(2), of ?cn "reactor w"] by simp
  moreover have "budget A cid (put_connection cid ?cn w) \<le> N + 1" using w(4) assms(2) by (simp add: budget_def)
  moreover have "inv (put_connection cid ?cn w)" by (rule field_inv(1) [OF w(1) assms(2)]) simp
  ultimately show ?thesis using good_touch [OF assms(1)] by blast
qed

lemma timeout_safe:
  assumes "good inv G (insert (tid, Ping_Timeout cid) F) U X cid A N w" and "(tid, Ping_Timeout cid) \<notin> F" and "N + 1 < 2 ^ 64"
  shows "returns (good inv G F U X cid A (N + 1)) (onPingTimeout hk env cid w)"
proof -
  obtain cn where cn: "connections w cid = Some cn" using assms(1) by (elim goodE) blast
  let ?cn = "cn\<lparr>pingTimeoutTimerId := 0\<rparr>" and ?w = "put_connection cid (cn\<lparr>pingTimeoutTimerId := 0\<rparr>) w"
  have fired: "good inv G F U X cid A N ?w" "cid \<notin> U" "connected cn \<Longrightarrow> \<forall>q\<in>F \<union> armed (reactor w). of_ping (snd q) \<noteq> Some cid"
    using fire_timer [OF assms(1,2) cn, of ?cn] by simp_all
  show ?thesis
  proof (cases "pendingPing cn \<and> connected cn")
    case False
    then show ?thesis using cn fired(1) by (auto simp: onPingTimeout_def returns_with good_def)
  next
    case True
    let ?v = "put_connection cid (?cn\<lparr>pendingPing := False\<rparr>) ?w"
    have "good inv G F U X cid A (N + 1) ?v" by (rule good_pending [OF fired(1) _ fired(2)]) (use fired(3) in simp_all)
    from close_safe [OF this assms(3)]
    have closed: "returns (good inv G F U (insert cid X) cid A (N + 1)) (Connection_closeOnReactor hk env cid ?v)" .
    have lost: "returns (good inv G F U X cid A (N + 1)) (connectionLost hk cid w')" if g: "good inv G F U (insert cid X) cid A (N + 1) w'" for w'
    proof -
      have w': "inv w'" "net_ok F U w'" "G (insert cid X) w'" "budget A cid w' \<le> N + 1" using g by (simp_all add: good_def)
      obtain c where c: "connections w' cid = Some c" using g by (elim goodE) blast
      have "good inv G F U X cid A (N + 1) u" if "(net_ok F U u \<and> G X u \<and> light w' u) \<and> inv u" for u
        using that light_budget [OF _ c, of u] w'(4) by (auto simp: good_def)
      from returns_mono [OF returns_conj [OF lost_safe [OF w'(2,3) c] lost_inv [OF w'(1)]] this] show ?thesis .
    qed
    show ?thesis using returns_bind [OF closed lost] True cn by (simp add: onPingTimeout_def returns_with)
  qed
qed

lemma timer_safe:
  assumes "good inv G (insert (tid, Ping_Timer cid) F) U X cid A N w" and "(tid, Ping_Timer cid) \<notin> F" and "N + 1 < 2 ^ 64"
  shows "returns (fine inv G F U X (N + 1)) (onPingTimer hk env cid w)"
proof -
  obtain cn where cn: "connections w cid = Some cn" using assms(1) by (elim goodE) blast
  let ?cn = "cn\<lparr>pingTimerId := 0\<rparr>" and ?w = "put_connection cid (cn\<lparr>pingTimerId := 0\<rparr>) w"
  have fired: "good inv G F U X cid A N ?w" "cid \<notin> U" "connected cn \<Longrightarrow> \<forall>q\<in>F \<union> armed (reactor w). of_ping (snd q) \<noteq> Some cid"
    "connected cn \<Longrightarrow> \<not> pendingPing cn"
    using fire_timer [OF assms(1,2) cn, of ?cn] by simp_all
  have w: "inv ?w" "net_ok F U ?w" "G X ?w" "budget A cid ?w \<le> N" using fired(1) by (simp_all add: good_def)
  have at: "connections ?w cid = Some ?cn" by simp
  consider "\<not> connected cn" | "connected cn" "0 < Session_activeStreamCount (cn_session cn)"
    | "connected cn" "Session_activeStreamCount (cn_session cn) = 0" by blast
  then show ?thesis
  proof cases
    case 1
    then show ?thesis using cn fired(1) by (auto simp: onPingTimer_def returns_with good_def fine_def budget_def)
  next
    case 2
    have a: "returns (\<lambda>w'. net_ok F U w' \<and> touches cid ?w w' \<and> budget A cid w' \<le> budget A cid ?w + 1) (schedulePingTimer env cid ?w)"
    proof (rule schedule_ping_safe [OF w(2) at])
      show "\<forall>q\<in>F \<union> armed (reactor ?w). snd q \<noteq> Ping_Timer cid" using fired(3) [OF 2(1)] by (metis of_ping_simps(1) put_simps(2))
      show "unat (nextTimerId (reactor ?w)) + 1 < 2 ^ 64" using w(4) assms(3) by (simp add: budget_def)
    qed (use fired(2,4) in simp_all)
    have b: "fine inv G F U X (N + 1) u" if "(net_ok F U u \<and> touches cid ?w u \<and> budget A cid u \<le> budget A cid ?w + 1) \<and> inv u" for u
      using that good_fine [OF good_touch [OF fired(1), of F U u "N + 1"]] w(4) by simp
    from returns_mono [OF returns_conj [OF a schedule_inv [OF w(1)]] b]
    show ?thesis using cn 2 by (simp add: onPingTimer_def returns_with)
  next
    case 3
    obtain s where s: "Session_sendPing (cn_session cn) = ([], s)"
      using ping_answers by (cases "Session_sendPing (cn_session cn)") blast
    let ?v = "put_connection cid (?cn\<lparr>cn_session := s\<rparr>) w"
    have ctx: "ctx_set s \<subseteq> K" using ping_within [OF held_known [OF w(1) at]] s by (simp add: answers_within_def)
    have v: "good inv G F U X cid A N ?v"
      using good_touch [OF fired(1) put_session_safe(1,2) [OF w(2) at]] put_session_safe(3) [OF w(2) at] put_inv [OF w(1), of "?cn\<lparr>cn_session := s\<rparr>" cid]
        ping_ok(1) [OF net_session [OF w(2) at]] s ctx w(4) by simp
    obtain fds where u: "updateWriteInterest env cid ?v = Inr (?v\<lparr>reactor := (reactor w)\<lparr>rx_fds := fds\<rparr>\<rparr>)"
      by (rule write_interest_result [where w = ?v and cid = cid and env = env]) simp_all
    let ?u = "?v\<lparr>reactor := (reactor w)\<lparr>rx_fds := fds\<rparr>\<rparr>" and ?c = "?cn\<lparr>cn_session := s, pendingPing := True\<rparr>"
    have "good inv G F U X cid A N ?u" using update_safe [OF v, of env] u by simp
    then have p: "good inv G F U X cid A (N + 1) (put_connection cid ?c ?u)"
      using good_pending [of F U X cid A N ?u "?cn\<lparr>cn_session := s\<rparr>" True] fired(2,3) by simp
    show ?thesis
    proof (cases "0 < cn_pingTimeoutSec cn")
      case False
      then show ?thesis using cn 3 s fired(4) u good_fine [OF p] by (simp add: onPingTimer_def returns_with)
    next
      case True
      let ?x = "put_connection cid ?c ?u"
      have x: "inv ?x" "net_ok F U ?x" "G X ?x" using p by (simp_all add: good_def)
      have step: "fine inv G F U X (N + 1) (put_connection cid (?c\<lparr>pingTimeoutTimerId := tid\<rparr>) (?x\<lparr>reactor := rx\<rparr>))"
        if sc: "scheduleOnce (en_before env) (en_now env) (en_armNow env) ms (Some (Ping_Timeout cid)) (reactor ?x) = (tid, rx)" for ms tid rx
      proof -
        let ?c' = "?c\<lparr>pingTimeoutTimerId := tid\<rparr>"
        have at': "connections ?x cid = Some ?c" by simp
        have r: "unat (nextTimerId (reactor ?x)) \<le> N" using w(4) by (simp add: budget_def)
        then have room: "unat (nextTimerId (reactor ?x)) + 1 < 2 ^ 64" using assms(3) by simp
        have none: "of_ping (snd q) \<noteq> Some cid" if "q \<in> F \<union> armed (reactor ?x)" for q using that fired(3) [OF 3(1)] by auto
        have so: "session_ok (cn_session ?c')" using net_session [OF x(2) at'] by simp
        have con: "connected ?c" "connected ?c'" "sessionFd ?c' = sessionFd ?c" "slot ?c' (tid, Ping_Timeout cid)" using 3(1) by simp_all
        note sched = net_schedule [OF x(2) at' fired(2) room sc of_ping_simps(2) con(1-3) so _ con(4)]
        have "inv (put_connection cid ?c' (?x\<lparr>reactor := rx\<rparr>))" by (rule field_inv(2) [OF x(1) at']) simp
        then show ?thesis using sched none r touch_safe [OF x(3)] by (auto simp: fine_def)
      qed
      let ?next = "\<lambda>ms. case scheduleOnce (en_before env) (en_now env) (en_armNow env) ms (Some (Ping_Timeout cid)) (reactor ?x) of
          (tid, rx) \<Rightarrow> Inr (put_connection cid (?c\<lparr>pingTimeoutTimerId := tid\<rparr>) (?x\<lparr>reactor := rx\<rparr>))"
      have "returns (fine inv G F U X (N + 1)) (?next ms)" for ms using step by (simp only: case_prod_unfold prod.collapse returns_Inr)
      then have "returns (fine inv G F U X (N + 1)) (net_bind (lift (i32 (cn_pingTimeoutSec cn * 1000))) ?next)"
        by (intro returns_bind [of "\<lambda>_. True"] returns_lift) simp_all
      moreover have "onPingTimer hk env cid w = net_bind (lift (i32 (cn_pingTimeoutSec cn * 1000))) ?next"
        using cn 3 s fired(4) u True by (simp add: onPingTimer_def with_connection_def Let_def)
      ultimately show ?thesis by simp
    qed
  qed
qed

lemma register_safe:
  assumes "inv w" and "net_ok {} (insert cid U) w" and "G X w" and "unat (nextTimerId (reactor w)) \<le> N" and "cid \<notin> U"
    and "N + 1 < 2 ^ 64"
  shows "returns (\<lambda>(registered, w'). if registered then good inv G {} U X cid A (N + 1) w'
      else fine inv G {} (insert cid U) (insert cid X) N w' \<or> fine inv G {} (insert cid U) X N w') (registerWithReactor env cid w)"
proof -
  obtain cn where cn: "connections w cid = Some cn" "idle {} (reactor w) cid cn" using assms(2) by (auto simp: net_ok_def)
  have start: "fine inv G {} (insert cid U) X N w" using assms(1-4) by (simp add: fine_def)
  show ?thesis
  proof (cases "connected cn \<and> sessionFd cn \<noteq> INVALID_SOCKET")
    case False
    then show ?thesis using cn(1) start by (auto simp: registerWithReactor_def returns_with)
  next
    case True
    obtain b rx1 where r: "registerFd (en_ctl env) (sessionFd cn) (Some (Session_Readable cid)) (Some (Session_Writable cid)) (reactor w) = (b, rx1)"
      by fastforce
    show ?thesis
    proof (cases b)
      case False
      then have rx1: "rx1 = reactor w" using r by (auto simp: registerFd_def split: if_splits)
      let ?cn = "cn\<lparr>connected := False, cn_session := snd (Session_close (cn_session cn))\<rparr>"
      let ?w = "put_connection cid ?cn w"
      have ran: "registerWithReactor env cid w = Inr (False, ?w)"
        using cn(1) True r False rx1 by (simp add: registerWithReactor_def with_connection_def)
      have so: "session_ok (cn_session ?cn)"
        using close_ok(1) [OF net_session [OF assms(2) cn(1)], of "fst (Session_close (cn_session cn))"] by simp
      have rs: "reactor_safe (reactor w)" using assms(2) by (simp add: net_ok_def)
      have "net_ok {} (insert cid U) (put_connection cid ?cn (w\<lparr>reactor := reactor w\<rparr>))"
        by (rule net_replace [OF assms(2) cn(1) rs]) (use so cn(2) in \<open>auto simp: idle_def\<close>)
      moreover have "drops cid w ?w"
        unfolding drops_def using cn(1) by (intro exI [of _ cn] exI [of _ ?cn] exI [of _ "reactor w"]) simp
      ultimately have "fine inv G {} (insert cid U) (insert cid X) N ?w"
        using drop_safe [OF assms(3)] register_inv [OF assms(1) ran] assms(4) by (simp add: fine_def)
      then show ?thesis by (simp add: ran)
    next
      case b: True
      obtain fds where rx: "snd (enableWrite (en_ctl env) (sessionFd cn) (Session_wantsWrite (cn_session cn)) rx1) = rx1\<lparr>rx_fds := fds\<rparr>"
        and fds: "same_watches (rx_fds rx1) fds" using enableWrite_fds by blast
      have rx1: "rx1 = (reactor w)\<lparr>rx_fds := (rx_fds (reactor w))(sessionFd cn \<mapsto>
          \<lparr>fd_read = Session_Readable cid, fd_write = Some (Session_Writable cid), fd_writeEnabled = False\<rparr>)\<rparr>"
        using r b by (auto simp: registerFd_def split: if_splits)
      let ?rx = "(reactor w)\<lparr>rx_fds := fds\<rparr>"
      let ?w = "w\<lparr>reactor := ?rx\<rparr>"
      have ran: "registerWithReactor env cid w = net_bind (schedulePingTimer env cid ?w) (\<lambda>w. Inr (True, w))"
        using cn(1) True r b rx unfolding rx1 by (simp add: registerWithReactor_def with_connection_def Let_def)
      have same: "put_connection cid cn ?w = ?w" using cn(1) by (intro put_same) simp
      have "net_ok {} U (put_connection cid cn ?w)"
      proof (rule net_replace [OF net_mono [OF assms(2), of "{}" U] cn(1)])
        show "reactor_safe ?rx" using assms(2) by (simp add: net_ok_def)
        show "\<forall>q\<in>armed ?rx. of_ping (snd q) = Some cid \<longrightarrow> connected cn \<and> slot cn q" using cn(2) by (simp add: idle_def)
        show "\<forall>fd fc. rx_fds ?rx fd = Some fc \<longrightarrow>
          (\<exists>fc'. rx_fds (reactor w) fd = Some fc' \<and> fd_read fc' = fd_read fc \<and> fd_write fc' = fd_write fc) \<or>
          fd_read fc = Session_Readable cid \<and> fd_write fc = Some (Session_Writable cid)"
          using fds unfolding rx1 same_watches_def by (fastforce split: if_splits)
        show "\<forall>fd fc. rx_fds ?rx fd = Some fc \<longrightarrow> fd_read fc = Session_Readable cid \<longrightarrow>
          connected cn \<and> sessionFd cn = fd \<and> fd \<noteq> INVALID_SOCKET"
          using fds cn(2) True unfolding rx1 same_watches_def idle_def by (fastforce split: if_splits)
      qed (use net_session [OF assms(2) cn(1)] assms(5) in auto)
      then have net: "net_ok {} U ?w" by (simp add: same)
      have t: "touches cid w ?w" using touchesI [OF cn(1), of cn ?rx] same by simp
      have at: "connections ?w cid = Some cn" using cn(1) by simp
      have a: "returns (\<lambda>w'. net_ok {} U w' \<and> touches cid ?w w' \<and> budget A cid w' \<le> budget A cid ?w + 1) (schedulePingTimer env cid ?w)"
      proof (rule schedule_ping_safe [OF net at _ _ assms(5)])
        show "\<forall>q\<in>{} \<union> armed (reactor ?w). snd q \<noteq> Ping_Timer cid" using cn(2) by (auto simp: idle_def)
        show "unat (nextTimerId (reactor ?w)) + 1 < 2 ^ 64" using assms(4,6) by simp
      qed (use cn(2) in \<open>simp add: idle_def\<close>)
      have start: "good inv G {} U X cid A N ?w"
        using net reactor_inv [OF assms(1)] touch_safe [OF assms(3) t] at assms(4) cn(2) by (simp add: good_def budget_def idle_def)
      have b: "good inv G {} U X cid A (N + 1) u" if "(net_ok {} U u \<and> touches cid ?w u \<and> budget A cid u \<le> budget A cid ?w + 1) \<and> inv u" for u
        using that good_touch [OF start, of "{}" U u "N + 1"] start by (simp add: good_def)
      have "inv ?w" by (rule reactor_inv [OF assms(1)])
      from returns_mono [OF returns_conj [OF a schedule_inv [OF this]] b]
      have "returns (good inv G {} U X cid A (N + 1)) (schedulePingTimer env cid ?w)" .
      then show ?thesis unfolding ran by (rule returns_bind) simp
    qed
  qed
qed

end

section \<open>Connections that are destroyed\<close>

lemma net_destroy:
  assumes "net_ok {} U w" and "cid \<notin> U" and "\<forall>p\<in>armed (reactor w). of_ping (snd p) \<noteq> Some cid"
    and "\<forall>fd fc. rx_fds (reactor w) fd = Some fc \<longrightarrow> fd_read fc \<noteq> Session_Readable cid"
  shows "net_ok {} U (w\<lparr>connections := (connections w)(cid := None)\<rparr>)"
proof -
  have "owned ((connections w)(cid := None)) True p" if "p \<in> armed (reactor w)" for p
  proof -
    have "owned (connections w) True p" using assms(1) that by (simp add: net_ok_def)
    then show ?thesis using bspec [OF assms(3) that] by (auto simp: owned_def split: option.splits)
  qed
  moreover have "watched ((connections w)(cid := None)) (reactor w)"
  proof -
    have "watched (connections w) (reactor w)" using assms(1) by (simp add: net_ok_def)
    then show ?thesis using assms(4) unfolding watched_def by (metis fun_upd_other)
  qed
  ultimately show ?thesis using assms(1,2) by (auto simp: net_ok_def)
qed

text \<open>A connection that is not connected, or that was never registered.\<close>

lemma net_destroy_lost:
  assumes "net_ok {} U w" and "cid \<notin> U" and "\<And>cn. connections w cid = Some cn \<Longrightarrow> \<not> connected cn"
  shows "net_ok {} U (w\<lparr>connections := (connections w)(cid := None)\<rparr>)"
proof (rule net_destroy [OF assms(1,2)])
  show "\<forall>p\<in>armed (reactor w). of_ping (snd p) \<noteq> Some cid"
  proof (intro ballI notI)
    fix p assume "p \<in> armed (reactor w)" "of_ping (snd p) = Some cid"
    then have "owned (connections w) True p" "of_ping (snd p) = Some cid" using assms(1) by (simp_all add: net_ok_def)
    then show False using assms(3) by (auto simp: owned_def)
  qed
  show "\<forall>fd fc. rx_fds (reactor w) fd = Some fc \<longrightarrow> fd_read fc \<noteq> Session_Readable cid"
    using assms(1,3) unfolding net_ok_def watched_def by (metis job.inject(1))
qed

lemma net_destroy_new:
  assumes "net_ok {} (insert cid U) w" and "cid \<notin> U"
  shows "net_ok {} U (w\<lparr>connections := (connections w)(cid := None)\<rparr>)"
proof -
  obtain cn where "idle {} (reactor w) cid cn" using assms(1) by (auto simp: net_ok_def)
  then show ?thesis using net_destroy [OF net_mono [OF assms(1), of "{}" U] assms(2)] by (auto simp: idle_def)
qed

end
