(* ===== verification/Manager_Safe.thy ===== *)
theory Manager_Safe
  imports Manager_Machine Connection_Hooks
begin

text \<open>
  The manager never uses a connection that was destroyed: what it refers to exists, and a request that
  waits is not in the table of the requests in flight, so an answer during its submission calls no connection
  back. The handlers are those the connections ask for, the locale \<open>safe_client\<close>.
\<close>

section \<open>Tables keyed by an endpoint\<close>

definition ep_key :: "Endpoint \<Rightarrow> SocketType \<times> string \<times> (u16 \<times> bool) option" where
  "ep_key ep = (ep_type ep, ep_target ep, if ep_type ep = UNIX then None else Some (ep_port ep, ep_useSSL ep))"

lemma ep_eq_key: "ep_eq a b \<longleftrightarrow> ep_key a = ep_key b"
  by (auto simp: ep_eq_def ep_key_def ep_target_def)

definition ep_unique :: "(Endpoint \<times> 'v) list \<Rightarrow> bool" where
  "ep_unique tbl \<longleftrightarrow> distinct (map (ep_key \<circ> fst) tbl)"

abbreviation entries :: "(Endpoint \<times> 'x list) list \<Rightarrow> 'x multiset" where
  "entries tbl \<equiv> mset (concat (map snd tbl))"

lemma ep_unique_simps [simp]:
  "ep_unique []" "ep_unique ((k, v) # tbl) \<longleftrightarrow> ep_key k \<notin> ep_key ` fst ` set tbl \<and> ep_unique tbl"
  by (auto simp: ep_unique_def image_comp)

lemma ep_set_simps [simp]:
  "ep_set ep v [] = []" "ep_set ep v ((k, u) # tbl) = (k, if ep_key k = ep_key ep then v else u) # ep_set ep v tbl"
  by (simp_all add: ep_set_def ep_eq_key)

lemma ep_erase_simps [simp]:
  "ep_erase ep [] = []"
  "ep_erase ep ((k, u) # tbl) = (if ep_key k = ep_key ep then ep_erase ep tbl else (k, u) # ep_erase ep tbl)"
  by (simp_all add: ep_erase_def ep_eq_key)

lemma set_absent: "ep_key ep \<notin> ep_key ` fst ` set tbl \<Longrightarrow> ep_set ep v tbl = tbl"
  by (induction tbl) auto

lemma find_absent: "ep_find ep tbl = None \<Longrightarrow> ep_key ep \<notin> ep_key ` fst ` set tbl"
proof (induction tbl)
  case (Cons a tbl)
  then show ?case by (cases a) (simp add: ep_eq_key split: if_splits)
qed simp

lemma set_keys: "map (ep_key \<circ> fst) (ep_set ep v tbl) = map (ep_key \<circ> fst) tbl"
  by (induction tbl) auto

lemma unique_set [simp]: "ep_unique (ep_set ep v tbl) = ep_unique tbl"
  by (simp add: ep_unique_def set_keys del: map_map)

lemma ep_find_Cons: "ep_find ep ((k, v) # tbl) = (if ep_key k = ep_key ep then Some v else ep_find ep tbl)"
  by (simp add: ep_eq_key)

lemma set_entries:
  "ep_unique tbl \<Longrightarrow> ep_find ep tbl = Some xs \<Longrightarrow> entries (ep_set ep ys tbl) + mset xs = entries tbl + mset ys"
proof (induction tbl)
  case (Cons a tbl)
  obtain k v where a: "a = (k, v)" by fastforce
  show ?case
  proof (cases "ep_key k = ep_key ep")
    case True
    then have "ep_set ep ys tbl = tbl" using Cons.prems(1) set_absent [of ep tbl ys] by (simp add: a)
    then show ?thesis using Cons.prems(2) True by (simp add: a ep_eq_key)
  next
    case False
    then show ?thesis using Cons by (simp add: a ep_eq_key ac_simps)
  qed
qed (simp add: ep_set_def)

lemma find_set: "ep_find ep tbl = Some u \<Longrightarrow> ep_find ep (ep_set ep v tbl) = Some v"
proof (induction tbl)
  case (Cons a tbl)
  then show ?case by (cases a) (auto simp: ep_eq_key split: if_splits)
qed simp

lemma erase_unique: "ep_unique tbl \<Longrightarrow> ep_unique (ep_erase ep tbl)"
  by (auto simp: ep_unique_def ep_erase_def intro: distinct_map_filter)

lemma erase_entries: "ep_find ep tbl = Some xs \<Longrightarrow> entries (ep_erase ep tbl) + mset xs \<subseteq># entries tbl"
proof (induction tbl)
  case (Cons a tbl)
  obtain k v where a: "a = (k, v)" by fastforce
  have "entries (ep_erase ep t) \<subseteq># entries t" for t :: "(Endpoint \<times> 'a list) list"
    by (induction t) (auto simp: subset_mset.add_increasing)
  then show ?case using Cons by (auto simp: a ep_eq_key ac_simps split: if_splits)
qed simp

lemma push_entries:
  assumes "ep_unique tbl" and "permutes_entries order"
  shows "entries (ep_push order ep x tbl) = add_mset x (entries tbl)" and "ep_unique (ep_push order ep x tbl)"
proof -
  have m: "mset (order es) = mset es" for es using assms(2) by (simp add: permutes_entries_def)
  have e: "entries t = sum_mset (image_mset (mset \<circ> snd) (mset t))" for t :: "(Endpoint \<times> 'a list) list"
    by (induction t) simp_all
  have "entries (ep_push order ep x tbl) = add_mset x (entries tbl) \<and> ep_unique (ep_push order ep x tbl)"
  proof (cases "ep_find ep tbl")
    case None
    have "ep_key ep \<notin> ep_key ` fst ` set tbl" by (rule find_absent [OF None])
    then have "ep_unique ((ep, [x]) # tbl)" using assms(1) by simp
    then have "ep_unique (order ((ep, [x]) # tbl))"
      using mset_eq_imp_distinct_iff [of "map (ep_key \<circ> fst) (order ((ep, [x]) # tbl))" "map (ep_key \<circ> fst) ((ep, [x]) # tbl)"] m
      unfolding ep_unique_def by (simp only: mset_map)
    moreover have "entries (order ((ep, [x]) # tbl)) = add_mset x (entries tbl)" unfolding e m by simp
    ultimately show ?thesis using None by (simp add: ep_push_def)
  next
    case (Some xs)
    then show ?thesis using set_entries [OF assms(1) Some, of "xs @ [x]"] assms(1) by (simp add: ep_push_def)
  qed
  then show "entries (ep_push order ep x tbl) = add_mset x (entries tbl)" "ep_unique (ep_push order ep x tbl)" by blast+
qed

lemma remove_request_entries:
  "remove_request k h q = Some (c, q') \<Longrightarrow> \<exists>pr. mset q = add_mset pr (mset q') \<and> c = pr_context pr"
  by (induction k h q arbitrary: c q' rule: remove_request.induct) (auto split: if_splits)

lemma remove_pending_entries:
  "remove_pending k h tbl = Some (c, tbl') \<Longrightarrow> entries tbl' \<subseteq># entries tbl \<and> map fst tbl' = map fst tbl"
proof (induction k h tbl arbitrary: c tbl' rule: remove_pending.induct)
  case (2 k h ep q tbl)
  show ?case
  proof (cases "remove_request k h q")
    case None
    then show ?thesis using 2 by auto
  next
    case (Some a)
    then obtain d q' where a: "remove_request k h q = Some (d, q')" by (cases a) simp
    then show ?thesis using remove_request_entries [OF a] 2(2) by auto
  qed
qed simp

section \<open>What the manager refers to\<close>

definition queue_of :: "Manager \<Rightarrow> PendingRequest list" where
  "queue_of m = submitQueue m @ concat (map snd (pendingByEndpoint m))"

definition pool_ids :: "Manager \<Rightarrow> ConnectionId set" where
  "pool_ids m = set (concat (map snd (pools m)))"

text \<open>Requests that wait: each once, and none of them in flight.\<close>

definition ready :: "ctx set \<Rightarrow> (u64 \<rightharpoonup> ConnectionId) \<Rightarrow> PendingRequest list \<Rightarrow> bool" where
  "ready K rc prs \<longleftrightarrow> distinct (map pr_context prs) \<and>
     (\<forall>pr\<in>set prs. pr_context pr \<in> K \<and> length (rq_body (pr_request pr)) < 2 ^ 64 \<and> rc (of_nat (pr_context pr)) = None)"

text \<open>The ids of the connections that are still to be made are unused.\<close>

definition ids_ok :: "Manager \<Rightarrow> bool" where
  "ids_ok m \<longleftrightarrow> distinct (map ct_connId (connectTasks m)) \<and>
     (\<forall>t\<in>set (connectTasks m). ct_connId t < nextConnectionId m \<and> connections m (ct_connId t) = None \<and> ct_connId t \<notin> pool_ids m) \<and>
     (\<forall>cid\<in>dom (connections m) \<union> pool_ids m. cid < nextConnectionId m)"

definition loop_of :: "'h Reactor \<Rightarrow> bool \<times> 'h list" where
  "loop_of rx = (rx_running rx, rx_tasks rx)"

text \<open>
  \<open>U\<close>: connections that are not registered yet; \<open>S\<close>: requests that wait in a local list; \<open>T\<close>: whether the reactor runs and the posted tasks, the
  next connection's id and a bound of the submit queue; \<open>X\<close>: disconnected connections that may still be referred to.
\<close>

definition links :: "ctx set \<Rightarrow> ConnectionId set \<Rightarrow> PendingRequest list \<Rightarrow> (bool \<times> job list) \<times> ConnectionId \<times> nat \<Rightarrow> ConnectionId set \<Rightarrow> Manager \<Rightarrow> bool" where
  "links K U S T X m \<longleftrightarrow>
     (\<forall>k cid. requestConnections m k = Some cid \<longrightarrow>
        unat k \<in> K \<and> cid \<notin> U \<and> (\<exists>cn. connections m cid = Some cn \<and> (connected cn \<or> cid \<in> X))) \<and>
     (\<forall>cid\<in>X. \<forall>cn. connections m cid = Some cn \<longrightarrow> \<not> connected cn) \<and>
     pool_ids m \<inter> U = {} \<and> ep_unique (pendingByEndpoint m) \<and> ready K (requestConnections m) (queue_of m @ S) \<and> ids_ok m \<and>
     (case T of (Q, C, L) \<Rightarrow> loop_of (reactor m) = Q \<and> nextConnectionId m = C \<and> length (submitQueue m) \<le> L) \<and> startOnce m \<and> config_ok (mg_config m)"

lemma ready_sub:
  assumes "ready K rc qs" and "mset ps \<subseteq># mset qs"
  shows "ready K rc ps"
proof -
  obtain zs where "mset qs = mset ps + mset zs" using assms(2) by (metis subset_mset.add_diff_inverse ex_mset)
  then have "mset qs = mset (ps @ zs)" by simp
  then have "mset (map pr_context qs) = mset (map pr_context (ps @ zs))" by (simp only: mset_map)
  then have "distinct (map pr_context (ps @ zs))" using assms(1) mset_eq_imp_distinct_iff unfolding ready_def by blast
  then have "distinct (map pr_context ps)" by simp
  moreover have "set ps \<subseteq> set qs" using set_mset_mono [OF assms(2)] by simp
  ultimately show ?thesis using assms(1) by (auto simp: ready_def)
qed

lemma ready_none: "ready K rc prs \<Longrightarrow> (\<And>k. rc k = None \<Longrightarrow> rc' k = None) \<Longrightarrow> ready K rc' prs"
  by (simp add: ready_def)

lemma links_frame:
  assumes "links K U S T X m" and "requestConnections m' = requestConnections m" and "connections m' = connections m"
    and "pools m' = pools m" and "pendingByEndpoint m' = pendingByEndpoint m" and "submitQueue m' = submitQueue m"
    and "connectTasks m' = connectTasks m" and "nextConnectionId m' = nextConnectionId m"
    and "loop_of (reactor m') = loop_of (reactor m)" and "startOnce m' = startOnce m" and "mg_config m' = mg_config m"
  shows "links K U S T X m'"
  using assms(1) by (simp add: links_def pool_ids_def queue_of_def ids_ok_def assms(2-))

lemma links_target:
  assumes "links K U S T X m" and "requestConnections m k = Some cid"
  obtains cn where "cid \<notin> U" and "connections m cid = Some cn" and "connected cn \<or> cid \<in> X" and "unat k \<in> K"
proof -
  have "unat k \<in> K \<and> cid \<notin> U \<and> (\<exists>cn. connections m cid = Some cn \<and> (connected cn \<or> cid \<in> X))" using assms by (simp add: links_def)
  then show thesis using that by blast
qed

lemma links_touch:
  assumes "links K U S T X m" and "touches cid m m'"
  shows "links K U S T X m'"
proof -
  obtain cn cn' rx where t: "connections m cid = Some cn" "m' = put_connection cid cn' (m\<lparr>reactor := rx\<rparr>)"
    "connected cn' = connected cn" "same_loop (reactor m) rx" using assms(2) by (auto simp: touches_def)
  have f: "requestConnections m' = requestConnections m" "pools m' = pools m" "pendingByEndpoint m' = pendingByEndpoint m"
    "submitQueue m' = submitQueue m" "connectTasks m' = connectTasks m" "nextConnectionId m' = nextConnectionId m" "startOnce m' = startOnce m" "mg_config m' = mg_config m"
    "connections m' = (connections m)(cid \<mapsto> cn')" "loop_of (reactor m') = loop_of (reactor m)"
    using t(4) by (simp_all add: t(2) put_connection_def same_loop_def loop_of_def)
  have "ids_ok m'" using assms(1) t(1) by (auto simp: links_def ids_ok_def pool_ids_def f)
  moreover have "unat k \<in> K \<and> c \<notin> U \<and> (\<exists>cn. connections m' c = Some cn \<and> (connected cn \<or> c \<in> X))" if r: "requestConnections m k = Some c" for k c
  proof -
    obtain d where "c \<notin> U" "connections m c = Some d" "connected d \<or> c \<in> X" "unat k \<in> K" by (rule links_target [OF assms(1) r])
    then show ?thesis using t(1,3) by (cases "c = cid") (simp_all add: f(9))
  qed
  ultimately show ?thesis using assms(1) t(1,3) by (auto simp: links_def pool_ids_def queue_of_def f)
qed

lemma links_drop:
  assumes "links K U S T X m" and "drops cid m m'"
  shows "links K U S T (insert cid X) m'"
proof -
  obtain cn cn' rx where t: "connections m cid = Some cn" "m' = put_connection cid cn' (m\<lparr>reactor := rx\<rparr>)"
    "\<not> connected cn'" "same_loop (reactor m) rx" using assms(2) by (auto simp: drops_def)
  have f: "requestConnections m' = requestConnections m" "pools m' = pools m" "pendingByEndpoint m' = pendingByEndpoint m"
    "submitQueue m' = submitQueue m" "connectTasks m' = connectTasks m" "nextConnectionId m' = nextConnectionId m" "startOnce m' = startOnce m" "mg_config m' = mg_config m"
    "connections m' = (connections m)(cid \<mapsto> cn')" "loop_of (reactor m') = loop_of (reactor m)"
    using t(4) by (simp_all add: t(2) put_connection_def same_loop_def loop_of_def)
  have "ids_ok m'" using assms(1) t(1) by (auto simp: links_def ids_ok_def pool_ids_def f)
  then show ?thesis using assms(1) t(1,3) by (auto simp: links_def pool_ids_def queue_of_def f)
qed

text \<open>The requests that wait may become fewer.\<close>

lemma links_queue:
  assumes "links K U S T X m" and "mset (queue_of m' @ S') \<subseteq># mset (queue_of m @ S)" and "ep_unique (pendingByEndpoint m')"
    and "length (submitQueue m') \<le> length (submitQueue m)" and "requestConnections m' = requestConnections m" and "connections m' = connections m"
    and "pools m' = pools m" and "connectTasks m' = connectTasks m" and "nextConnectionId m' = nextConnectionId m"
    and "loop_of (reactor m') = loop_of (reactor m)" and "startOnce m' = startOnce m" and "mg_config m' = mg_config m"
  shows "links K U S' T X m'"
  using assms(1,3,4) ready_sub [of K "requestConnections m" "queue_of m @ S" "queue_of m' @ S'"] assms(2)
  by (cases T) (simp add: links_def pool_ids_def ids_ok_def assms(5-))

lemma links_tail: "links K U (pr # S) T X m \<Longrightarrow> links K U S T X m"
  by (rule links_queue [where S = "pr # S"], assumption) (simp_all add: links_def)

section \<open>Completing a request\<close>

lemma net_frame: "net_ok F U w \<Longrightarrow> reactor w' = reactor w \<Longrightarrow> connections w' = connections w \<Longrightarrow> net_ok F U w'"
  by (simp add: net_ok_def)

lemma net_cancel:
  assumes "net_ok F U w"
  shows "net_ok F U (w\<lparr>reactor := snd (cancelTimer now tid (reactor w))\<rparr>)"
proof -
  let ?rx = "snd (cancelTimer now tid (reactor w))"
  obtain b where c: "cancelTimer now tid (reactor w) = (b, ?rx)" by (metis prod.collapse)
  have rs: "reactor_safe (reactor w)" using assms by (simp add: net_ok_def)
  note s = cancel_safe [OF rs c] armed_cancel [OF rs c]
  have fds: "rx_fds ?rx = rx_fds (reactor w)" using s(3) by (simp add: same_watch_def)
  have "fired_ok F ?rx" using assms s(4,5) by (auto simp: net_ok_def fired_ok_def)
  moreover have "watched (connections w) ?rx" using assms by (simp add: net_ok_def watched_def fds)
  moreover have "idle F ?rx cid cn" if "idle F (reactor w) cid cn" for cid cn using that s(5) by (auto simp: idle_def fds)
  ultimately show ?thesis using assms s(1,5) unfolding net_ok_def by auto
qed

lemma complete_reactor:
  "reactor (completeRequest env c response m) = reactor m \<or>
   (\<exists>tid. reactor (completeRequest env c response m) = snd (cancelTimer (en_armNow env) tid (reactor m)))"
  by (auto simp: completeRequest_def tryFinish_def cancel_request_timer_def update_context_def call_back_def Let_def split: prod.splits)

lemma complete_startOnce [simp]: "startOnce (completeRequest env c response m) = startOnce m"
  by (simp add: completeRequest_def tryFinish_def cancel_request_timer_def update_context_def call_back_def Let_def split: prod.splits)

lemma complete_safe:
  assumes "net_ok F V m"
  shows "net_ok F V (completeRequest env c response m)" and "light m (completeRequest env c response m)"
    and "loop_of (reactor (completeRequest env c response m)) = loop_of (reactor m)"
proof -
  let ?m = "completeRequest env c response m"
  have rs: "reactor_safe (reactor m)" using assms by (simp add: net_ok_def)
  have "net_ok F V ?m \<and> nextTimerId (reactor ?m) = nextTimerId (reactor m) \<and> loop_of (reactor ?m) = loop_of (reactor m)"
  proof (cases "reactor ?m = reactor m")
    case True
    have "net_ok F V ?m" by (rule net_frame [OF assms True]) simp
    then show ?thesis using True by simp
  next
    case False
    then obtain tid where r: "reactor ?m = snd (cancelTimer (en_armNow env) tid (reactor m))" using complete_reactor by metis
    obtain b where c: "cancelTimer (en_armNow env) tid (reactor m) = (b, reactor ?m)" by (metis r prod.collapse)
    have "net_ok F V ?m" by (rule net_frame [OF net_cancel [OF assms, of "en_armNow env" tid]]) (simp_all add: r)
    then show ?thesis using cancel_safe(3,4) [OF rs c] by (simp add: same_watch_def loop_of_def)
  qed
  then show "net_ok F V ?m" "light m ?m" "loop_of (reactor ?m) = loop_of (reactor m)" by (simp_all add: light_def view_def)
qed

lemma complete_links:
  assumes "net_ok F V m" and "links K U S T X m"
  shows "links K U S T X (completeRequest env c response m)"
  by (rule links_frame [OF assms(2)]) (simp_all add: complete_safe(3) [OF assms(1)])

section \<open>Submitting\<close>

text \<open>A known request's number is its context's address.\<close>

lemma request_number:
  assumes "manager_ok K m" and "c \<in> K"
  shows "REQUEST_ID (ctxs m c) = of_nat c" and "unat (of_nat c :: u64) = c"
proof -
  have r: "requests_ok m" "known m = K" using assms(1) by (simp_all add: manager_ok_def)
  obtain k where k: "issued m k" "c = unat k" using known_issued assms(2) r(2) by blast
  then show "REQUEST_ID (ctxs m c) = of_nat c" "unat (of_nat c :: u64) = c" using r(1) by (simp_all add: requests_ok_def)
qed

text \<open>The request is in flight now.\<close>

lemma links_sent:
  assumes "links K U (pr # S) T X m" and "manager_ok K m" and "cid \<notin> U" and "connections m' cid = Some cn" and "connected cn"
    and "links K U S T X m'" and "requestConnections m' = requestConnections m" and "queue_of m' = queue_of m"
  shows "links K U S T X (m'\<lparr>requestConnections := (requestConnections m')(of_nat (pr_context pr) \<mapsto> cid)\<rparr>)"
proof -
  let ?c = "pr_context pr" and ?m = "m'\<lparr>requestConnections := (requestConnections m')(of_nat (pr_context pr) \<mapsto> cid)\<rparr>"
  have q: "queue_of (m'\<lparr>requestConnections := rc\<rparr>) = queue_of m'" "pool_ids (m'\<lparr>requestConnections := rc\<rparr>) = pool_ids m'"
    "ids_ok (m'\<lparr>requestConnections := rc\<rparr>) = ids_ok m'" for rc by (simp_all add: queue_of_def pool_ids_def ids_ok_def)
  have "ready K (requestConnections m) (queue_of m @ pr # S)" using assms(1) by (simp add: links_def)
  then have r: "?c \<in> K" "?c \<notin> pr_context ` set (queue_of m @ S)" "\<forall>q\<in>set (queue_of m @ S). pr_context q \<in> K"
    "ready K (requestConnections m) (queue_of m @ S)" by (simp_all add: ready_def image_Un)
  have "of_nat (pr_context q) \<noteq> (of_nat ?c :: u64)" if "q \<in> set (queue_of m @ S)" for q
    using r(1-3) that request_number(2) [OF assms(2)] by (metis imageI)
  then have ready: "ready K (requestConnections ?m) (queue_of ?m @ S)" using r(4) assms(7,8) by (simp add: q ready_def)
  have "unat k \<in> K \<and> c \<notin> U \<and> (\<exists>d. connections m' c = Some d \<and> (connected d \<or> c \<in> X))" if "requestConnections ?m k = Some c" for k c
  proof (cases "k = of_nat ?c")
    case True
    then show ?thesis using that assms(3-5) r(1) request_number(2) [OF assms(2) r(1)] by simp
  next
    case False
    then have "requestConnections m' k = Some c" using that by simp
    then show ?thesis using links_target [OF assms(6)] by metis
  qed
  then show ?thesis using assms(6) ready by (simp add: links_def q)
qed

text \<open>A submission answers at most the request itself, which is not in flight, so the manager only completes it.\<close>

lemma submit_to_safe:
  assumes "env_ok env" and "manager_ok K m" and "net_ok F V m" and "links K U (pr # S) T X m" and "cid \<notin> U" and "connections m cid \<noteq> None"
  shows "returns (\<lambda>m'. net_ok F V m' \<and> links K U S T X m' \<and> light m m' \<and> pendingByEndpoint m' = pendingByEndpoint m)
    (submit_to (manager_hooks (Suc n) env) env cid pr m)"
proof -
  let ?c = "pr_context pr" and ?hk = "manager_hooks (Suc n) env"
  define P where "P m' \<longleftrightarrow> net_ok F V m' \<and> links K U S T X m' \<and> light m m' \<and> pendingByEndpoint m' = pendingByEndpoint m \<and>
    queue_of m' = queue_of m \<and> requestConnections m' = requestConnections m" for m'
  have tail: "links K U S T X m" by (rule links_tail [OF assms(4)])
  have start: "P m" using assms(3) tail by (simp add: P_def)
  have pr: "?c \<in> K" "length (rq_body (pr_request pr)) < 2 ^ 64" "requestConnections m (of_nat ?c) = None"
    using assms(4) by (simp_all add: links_def ready_def)
  have complete: "P (completeRequest env ?c response u)" if "P u" for u response
    using that complete_safe [of F V u env ?c response] complete_links [of F V u K U S T X env ?c response] light_trans
    by (auto simp: P_def queue_of_def)
  obtain cn where cn: "connections m cid = Some cn" using assms(6) by blast
  have "returns (\<lambda>(ok, m'). P m' \<and> (ok \<longrightarrow> connected cn \<and> REQUEST_ID (ctxs m' ?c) = of_nat ?c)) (submitOnReactor ?hk env cid (pr_request pr) ?c m)"
  proof (cases "connected cn")
    case False
    then show ?thesis using cn start by (simp add: submitOnReactor_def with_connection_def)
  next
    case True
    show ?thesis
    proof (cases "Session_submit (en_order env) (en_corder env) (pr_request pr) ?c (ctxs m) (cn_session cn)")
      case (Inl e)
      then show ?thesis using cn True by (simp add: submitOnReactor_def with_connection_def)
    next
      case (Inr r)
      obtain es h s where r: "r = (es, h, s)" using prod_cases3 by blast
      have order: "permutes_entries (en_order env)" "permutes_entries (en_corder env)" using assms(1) by (simp_all add: env_ok_def)
      note sub = submit_keeps [OF net_session [OF assms(3) cn] order pr(2) Inr [unfolded r]]
      let ?m1 = "put_connection cid (cn\<lparr>cn_session := s\<rparr>) (m\<lparr>ctxs := h\<rparr>)"
      note put = put_session_safe [OF assms(3) cn sub(1)]
      have number: "REQUEST_ID (h ?c) = of_nat ?c"
        using sub(3) request_number(1) [OF assms(2) pr(1)] by (auto simp: setStreamId_def)
      have "net_ok F V ?m1" by (rule net_frame [OF put(1)]) simp_all
      moreover have "links K U S T X ?m1"
        by (rule links_frame [OF links_touch [OF tail put(2)]]) (simp_all add: put_connection_def)
      ultimately have m1: "P ?m1"
        using cn by (auto simp: P_def light_def view_def queue_of_def put_connection_def fun_eq_iff)
      obtain m2 where m2: "processSessionEvents ?hk env cid es ?m1 = Inr m2" "P m2" "REQUEST_ID (ctxs m2 ?c) = of_nat ?c"
      proof (cases "es = []")
        case True
        then show thesis using that [of ?m1] m1 number by simp
      next
        case False
        then obtain response where es: "es = [REQUEST_DONE ?c response]" using sub(2) by blast
        have "?m1\<lparr>requestConnections := (requestConnections ?m1)(of_nat ?c := None)\<rparr> = ?m1"
          using pr(3) by (simp add: put_connection_def fun_upd_idem)
        then have "processSessionEvents ?hk env cid es ?m1 = Inr (completeRequest env ?c response ?m1)"
          using number pr(3) by (simp add: es processSessionEvent_def onRequestDone_def Let_def) (simp add: put_connection_def)
        then show thesis using that complete [OF m1] number by (simp add: completeRequest_store)
      qed
      obtain cn2 where cn2: "connections m2 cid = Some cn2" using m2(2) cn by (auto simp: P_def elim: light_at)
      obtain fds where fds: "updateWriteInterest env cid m2 = Inr (m2\<lparr>reactor := (reactor m2)\<lparr>rx_fds := fds\<rparr>\<rparr>)"
        by (rule write_interest_result [OF cn2, of env])
      let ?m3 = "m2\<lparr>reactor := (reactor m2)\<lparr>rx_fds := fds\<rparr>\<rparr>"
      have "net_ok F V m2" using m2(2) by (simp add: P_def)
      then have "net_ok F V ?m3 \<and> touches cid m2 ?m3" using write_interest_safe [OF _ cn2, where env = env] fds by simp
      then have "P ?m3" using m2(2) links_touch [of K U S T X m2 cid ?m3] by (auto simp: P_def light_def view_def queue_of_def)
      then show ?thesis using cn True Inr r m2 fds by (simp add: submitOnReactor_def with_connection_def)
    qed
  qed
  then show ?thesis unfolding submit_to_def
  proof (rule returns_bind)
    fix r assume "case r of (ok, m') \<Rightarrow> P m' \<and> (ok \<longrightarrow> connected cn \<and> REQUEST_ID (ctxs m' ?c) = of_nat ?c)"
    then obtain ok m' where r: "r = (ok, m')" "P m'" "ok \<Longrightarrow> connected cn \<and> REQUEST_ID (ctxs m' ?c) = of_nat ?c" by (cases r) auto
    show "returns (\<lambda>m'. net_ok F V m' \<and> links K U S T X m' \<and> light m m' \<and> pendingByEndpoint m' = pendingByEndpoint m)
      (case r of (ok, m) \<Rightarrow>
         let c = pr_context pr in
         if ok then Inr (m\<lparr>requestConnections := (requestConnections m)(REQUEST_ID (ctxs m c) \<mapsto> cid)\<rparr>)
         else if \<not> finished_of c m then Inr (completeRequest env c (failConnectionError ''Submit failed'') m) else Inr m)"
    proof (cases ok)
      case True
      have m': "light m m'" "links K U S T X m'" "requestConnections m' = requestConnections m" "queue_of m' = queue_of m"
        "net_ok F V m'" "pendingByEndpoint m' = pendingByEndpoint m" using r(2) by (simp_all add: P_def)
      obtain c where c: "connections m' cid = Some c" "connected c" using light_at [OF m'(1) cn] r(3) [OF True] by metis
      let ?m4 = "m'\<lparr>requestConnections := (requestConnections m')(of_nat ?c \<mapsto> cid)\<rparr>"
      have "links K U S T X ?m4" by (rule links_sent [OF assms(4,2,5) c m'(2-4)])
      moreover have "net_ok F V ?m4" by (rule net_frame [OF m'(5)]) simp_all
      moreover have "light m ?m4" using m'(1) by (simp add: light_def view_def)
      ultimately show ?thesis using True r(1) r(3) [OF True] m'(6) by simp
    next
      case False
      then show ?thesis using r(1,2) complete [OF r(2)] by (auto simp: P_def Let_def)
    qed
  qed
qed

lemma submit_to_keeps:
  assumes "env_ok env" and "manager_ok K m" and "net_ok F V m" and "links K U (pr # S) T X m" and "cid \<notin> U" and "connections m cid \<noteq> None"
  shows "returns (\<lambda>m'. (net_ok F V m' \<and> links K U S T X m' \<and> light m m' \<and> pendingByEndpoint m' = pendingByEndpoint m) \<and> manager_ok K m')
    (submit_to (manager_hooks (Suc n) env) env cid pr m)"
proof (rule returns_conj [OF submit_to_safe [OF assms]])
  have "pr_context pr \<in> K" using assms(4) by (simp add: links_def ready_def)
  then show "manager_ok K m'" if "submit_to (manager_hooks (Suc n) env) env cid pr m = Inr m'" for m'
    using submit_to_ok [OF hooks_client assms(1,2) _ that] by blast
qed

text \<open>What the manager's handlers and loops keep; a relation to the world before.\<close>

abbreviation keeps where
  "keeps F V K U S T X m m' \<equiv> net_ok F V m' \<and> links K U S T X m' \<and> light m m'"

lemma queue_update [simp]:
  "queue_of (m\<lparr>pendingByEndpoint := tbl\<rparr>) = submitQueue m @ concat (map snd tbl)"
  "queue_of (m\<lparr>submitQueue := q\<rparr>) = q @ concat (map snd (pendingByEndpoint m))"
  by (simp_all add: queue_of_def)

lemma links_pending:
  assumes "links K U S T X m" and "ep_unique tbl" and "entries tbl + mset S' \<subseteq># entries (pendingByEndpoint m) + mset S"
  shows "links K U S' T X (m\<lparr>pendingByEndpoint := tbl\<rparr>)"
proof (rule links_queue [OF assms(1)])
  show "mset (queue_of (m\<lparr>pendingByEndpoint := tbl\<rparr>) @ S') \<subseteq># mset (queue_of m @ S)"
    using assms(3) by (simp add: queue_of_def ac_simps)
qed (use assms(2) in simp_all)

lemma links_unique: "links K U S T X m \<Longrightarrow> ep_unique (pendingByEndpoint m)"
  by (simp add: links_def)

lemma capacity_returns: "connections m cid \<noteq> None \<Longrightarrow> \<exists>b. capacity_of cid m = Inr b"
  by (auto simp: with_connection_def)

lemma submit_pending_safe:
  assumes "env_ok env" and "cid \<notin> U"
  shows "manager_ok K m \<Longrightarrow> net_ok F V m \<Longrightarrow> links K U S T X m \<Longrightarrow> connections m cid \<noteq> None \<Longrightarrow>
    ep_find ep (pendingByEndpoint m) = Some q \<Longrightarrow> length q < n \<Longrightarrow>
    returns (keeps F V K U S T X m) (submit_pending_loop n (manager_hooks (Suc k) env) env ep cid m)"
proof (induction n arbitrary: m q)
  case (Suc n)
  note net = Suc.prems(2) and links = Suc.prems(3)
  have frame: "net_ok F V (m\<lparr>pendingByEndpoint := tbl\<rparr>)" "light m (m\<lparr>pendingByEndpoint := tbl\<rparr>)" for tbl
    by (rule net_frame [OF net], simp_all) (simp add: light_def view_def)
  show ?case
  proof (cases q)
    case Nil
    have "links K U S T X (m\<lparr>pendingByEndpoint := ep_erase ep (pendingByEndpoint m)\<rparr>)"
      using erase_entries [OF Suc.prems(5)] erase_unique [OF links_unique [OF links]] Nil by (intro links_pending [OF links]) simp_all
    then show ?thesis using Suc.prems(5) Nil frame by simp
  next
    case (Cons pr queue)
    obtain b where cap: "capacity_of cid m = Inr b" using capacity_returns [OF Suc.prems(4)] by blast
    let ?m = "m\<lparr>pendingByEndpoint := ep_set ep queue (pendingByEndpoint m)\<rparr>" and ?c = "pr_context pr"
    have found: "ep_find ep (pendingByEndpoint ?m) = Some queue" "length queue < n"
      using find_set [OF Suc.prems(5)] Suc.prems(6) Cons by simp_all
    have "entries (ep_set ep queue (pendingByEndpoint m)) + mset (pr # S) = entries (pendingByEndpoint m) + mset S"
      using set_entries [OF links_unique [OF links] Suc.prems(5), of queue] Cons by simp
    then have popped: "links K U (pr # S) T X ?m" using links_unique [OF links] by (intro links_pending [OF links]) simp_all
    have "queue_in K (pr # queue)" using pending_find [OF manager_refs(2) [OF Suc.prems(1)]] Suc.prems(5) Cons by blast
    then have ok: "manager_ok K ?m" "?c \<in> K"
      using Suc.prems(1) manager_refs(2) [OF Suc.prems(1)] by (auto intro: manager_pending pending_set)
    have again: "returns (keeps F V K U S T X m) (submit_pending_loop n (manager_hooks (Suc k) env) env ep cid m2)"
      if "manager_ok K m2" "keeps F V K U S T X ?m m2" "pendingByEndpoint m2 = pendingByEndpoint ?m" for m2
    proof -
      have l: "light m m2" using that(2) frame(2) light_trans by blast
      obtain cn where cn: "connections m cid = Some cn" using Suc.prems(4) by blast
      then have "connections m2 cid \<noteq> None" using light_budget(2) [OF l] by blast
      then have "returns (keeps F V K U S T X m2) (submit_pending_loop n (manager_hooks (Suc k) env) env ep cid m2)"
        using Suc.IH [OF that(1)] that(2,3) found by simp
      then show ?thesis by (rule returns_mono) (use light_trans [OF l] in blast)
    qed
    show ?thesis
    proof (cases "b \<and> \<not> canceled_of ?c ?m")
      case True
      have there: "connections ?m cid \<noteq> None" using Suc.prems(4) by simp
      have "returns (keeps F V K U S T X m) (net_bind (submit_to (manager_hooks (Suc k) env) env cid pr ?m)
          (submit_pending_loop n (manager_hooks (Suc k) env) env ep cid))"
        by (rule returns_bind [OF submit_to_keeps [OF assms(1) ok(1) frame(1) popped assms(2) there]]) (use again in blast)
      then show ?thesis using Suc.prems(5) Cons cap True by simp
    next
      case False
      let ?d = "completeRequest env ?c (customError ''Request canceled'') ?m"
      have "returns (keeps F V K U S T X m) (submit_pending_loop n (manager_hooks (Suc k) env) env ep cid ?d)"
        using complete_safe [OF frame(1)] complete_links [OF frame(1) links_tail [OF popped]] complete_ok [OF ok]
        by (intro again) simp_all
      then show ?thesis using Suc.prems(5) Cons cap False net links by auto
    qed
  qed
qed simp

lemma pick_in_pool:
  assumes "pickConnectionOnReactor ep m = Some cid"
  shows "cid \<in> pool_ids m" and "connections m cid \<noteq> None"
proof -
  have best: "pick_best cs cids b = Some cid \<Longrightarrow> (cid \<in> set cids \<and> cs cid \<noteq> None) \<or> map_option fst b = Some cid" for cs cids b
    by (induction cids arbitrary: b) (auto split: option.splits if_splits)
  obtain cids where c: "ep_find ep (pools m) = Some cids" "pick_best (connections m) cids None = Some cid"
    using assms by (auto simp: pickConnectionOnReactor_def split: option.splits)
  have "ep_find ep tbl = Some cids \<Longrightarrow> cids \<in> snd ` set tbl" for tbl :: "(Endpoint \<times> ConnectionId list) list"
    by (induction tbl) (auto split: if_splits)
  then show "cid \<in> pool_ids m" "connections m cid \<noteq> None" using best [OF c(2)] c(1) by (fastforce simp: pool_ids_def)+
qed

lemma try_submit_safe:
  assumes "env_ok env" and "manager_ok K m" and "net_ok F V m" and "links K U S T X m"
  shows "returns (keeps F V K U S T X m) (trySubmitPending (manager_hooks (Suc k) env) env ep m)"
proof (cases "ep_find ep (pendingByEndpoint m) = None \<or> ep_find ep (pendingByEndpoint m) = Some [] \<or> pickConnectionOnReactor ep m = None")
  case True
  then show ?thesis using assms(3,4) by (auto simp: trySubmitPending_def split: option.splits)
next
  case False
  then obtain q cid where q: "ep_find ep (pendingByEndpoint m) = Some q" "q \<noteq> []" "pickConnectionOnReactor ep m = Some cid" by auto
  have "cid \<notin> U" using pick_in_pool(1) [OF q(3)] assms(4) by (auto simp: links_def)
  from submit_pending_safe [OF assms(1) this assms(2-4) pick_in_pool(2) [OF q(3)] q(1), of "Suc (length q)"]
  show ?thesis using q by (simp add: trySubmitPending_def del: submit_pending_loop.simps)
qed

lemma links_forget:
  assumes "links K U S T X m" and "\<And>j c. rc j = Some c \<Longrightarrow> requestConnections m j = Some c"
  shows "links K U S T X (m\<lparr>requestConnections := rc\<rparr>)"
proof -
  have none: "rc j = None" if "requestConnections m j = None" for j using assms(2) [of j] that by (cases "rc j") auto
  have q: "queue_of (m\<lparr>requestConnections := rc\<rparr>) = queue_of m" "pool_ids (m\<lparr>requestConnections := rc\<rparr>) = pool_ids m"
    "ids_ok (m\<lparr>requestConnections := rc\<rparr>) = ids_ok m" by (simp_all add: queue_of_def pool_ids_def ids_ok_def)
  have "unat j \<in> K \<and> c \<notin> U \<and> (\<exists>d. connections m c = Some d \<and> (connected d \<or> c \<in> X))" if "rc j = Some c" for j c
    using links_target [OF assms(1) assms(2) [OF that]] by metis
  moreover have "ready K rc (queue_of m @ S)" using assms(1) none by (auto simp: links_def intro: ready_none)
  ultimately show ?thesis using assms(1) by (simp add: links_def q)
qed

lemma request_done_safe:
  assumes "env_ok env" and "manager_ok K m" and "net_ok F V m" and "links K U S T X m" and "c \<in> K"
  shows "returns (keeps F V K U S T X m) (onRequestDone (manager_hooks (Suc k) env) env c response m)"
proof -
  let ?id = "REQUEST_ID (ctxs m c)"
  let ?m = "m\<lparr>requestConnections := (requestConnections m)(?id := None)\<rparr>"
  let ?d = "completeRequest env c response ?m"
  have net: "net_ok F V ?m" by (rule net_frame [OF assms(3)]) simp_all
  have links: "links K U S T X ?m" by (rule links_forget [OF assms(4)]) (simp split: if_splits)
  have d: "net_ok F V ?d" "links K U S T X ?d" "light ?m ?d" using complete_safe(1,2) [OF net] complete_links [OF net links] by simp_all
  have l: "light m ?d" using d(3) by (simp add: light_def view_def)
  have ok: "manager_ok K ?d" using assms(2,5) by (simp add: complete_ok)
  show ?thesis
  proof (cases "requestConnections m ?id")
    case None
    then show ?thesis using d l by (simp add: onRequestDone_def Let_def)
  next
    case (Some cid)
    obtain cn where cn: "connections m cid = Some cn" by (rule links_target [OF assms(4) Some])
    have "returns (keeps F V K U S T X m) (trySubmitPending (manager_hooks (Suc k) env) env (cn_endpoint cn) ?d)"
      by (rule returns_mono [OF try_submit_safe [OF assms(1) ok d(1,2)]]) (use light_trans [OF l] in blast)
    then show ?thesis using Some cn by (simp add: onRequestDone_def Let_def with_connection_def)
  qed
qed

lemma lost_connection_safe:
  assumes "net_ok F V m" and "links K U S T (insert cid X) m" and "connections m cid = Some cn"
  shows "returns (keeps F V K U S T X m) (onConnectionLost cid m)"
proof -
  let ?rc = "\<lambda>k. if requestConnections m k = Some cid then None else requestConnections m k"
  let ?m = "m\<lparr>requestConnections := ?rc\<rparr>"
  have "links K U S T (insert cid X) ?m" by (rule links_forget [OF assms(2)]) (simp split: if_splits)
  then have "links K U S T X ?m" unfolding links_def by (auto split: if_splits)
  moreover have "net_ok F V ?m" by (rule net_frame [OF assms(1)]) simp_all
  moreover have "light m ?m" by (simp add: light_def view_def)
  ultimately show ?thesis using assms(3) by (simp add: onConnectionLost_def with_connection_def)
qed

text \<open>The handlers that a job starts with: two levels are enough.\<close>

lemma hooks_safe: "safe_client (manager_hooks (Suc (Suc k)) env) K (client_ok env K) (links K U S T)"
proof (intro safe_client.intro hooks_client safe_client_axioms.intro)
  show "returns (keeps F V K U S T X w) (requestDone (manager_hooks (Suc (Suc k)) env) c r w)"
    if "client_ok env K w" "net_ok F V w" "links K U S T X w" "c \<in> K" for F V X c r w
    using request_done_safe that by simp
  show "returns (keeps F V K U S T X w) (connectionLost (manager_hooks (Suc (Suc k)) env) cid w)"
    if "net_ok F V w" "links K U S T (insert cid X) w" "connections w cid = Some cn" for F V X cid cn w
    using lost_connection_safe that by simp
  show "returns (keeps F V K U S T X w) (connectionDraining (manager_hooks (Suc (Suc k)) env) cid w)"
    if "net_ok F V w" "links K U S T X w" for F V X cid w
    using that by (simp add: onConnectionDraining_def)
qed (use links_touch links_drop in blast)+

interpretation safe_manager: safe_client "manager_hooks (Suc (Suc k)) env" K "client_ok env K" "links K U S T" for k env K U S T
  by (rule hooks_safe)

end
