(* ===== verification/Manager_Jobs.thy ===== *)
theory Manager_Jobs
  imports Manager_Safe
begin

text \<open>
  Each job of the reactor returns, whatever the network answers, and leaves the manager's references
  in order: timers and watched descriptors belong to connections that exist, posted tasks to connections that wait to be
  registered, and what is destroyed is referred to nowhere.
\<close>

section \<open>Between the jobs\<close>

abbreviation safe where
  "safe env K F U S T X N m \<equiv> fine (client_ok env K) (links K U S T) F U X N m"

lemma safe_ok: "safe env K F U S T X N m \<Longrightarrow> env_ok env \<and> manager_ok K m"
  by (simp add: fine_def)

lemma safe_net: "safe env K F U S T X N m \<Longrightarrow> net_ok F U m"
  by (simp add: fine_def)

lemma safe_links: "safe env K F U S T X N m \<Longrightarrow> links K U S T X m"
  by (simp add: fine_def)

lemma safe_complete:
  assumes "safe env K F U S T X N m" and "c \<in> K"
  shows "safe env K F U S T X N (completeRequest env c response m)"
  using assms complete_safe [OF safe_net [OF assms(1)], of env c response] complete_links [OF safe_net [OF assms(1)] safe_links [OF assms(1)]]
  by (simp add: fine_def complete_ok light_def)

lemma safe_complete_all: "safe env K F U S T X N m \<Longrightarrow> set cs \<subseteq> K \<Longrightarrow> safe env K F U S T X N (complete_all env cs response m)"
  by (induction cs arbitrary: m) (simp_all add: safe_complete)

lemma safe_frame:
  assumes "safe env K F U S T X N m" and "manager_ok K m'" and "links K U' S' T' X m'" and "reactor m' = reactor m"
    and "connections m' = connections m" and "U' \<subseteq> U"
  shows "safe env K F U' S' T' X N m'"
proof -
  have "net_ok F U' m'" by (rule net_mono [OF net_frame [OF safe_net [OF assms(1)] assms(4,5)] subset_refl assms(6)])
  then show ?thesis using assms by (simp add: fine_def)
qed

lemma safe_mark:
  assumes "safe env K F U S T X N m"
  shows "safe env K F U S T X N (update_context c (snd \<circ> markCanceled) m)"
proof (rule safe_frame [OF assms])
  show "manager_ok K (update_context c (snd \<circ> markCanceled) m)" using safe_ok [OF assms] mark_ok by blast
  show "links K U S T X (update_context c (snd \<circ> markCanceled) m)"
    by (rule links_frame [OF safe_links [OF assms]]) (simp_all add: update_context_def)
qed (simp_all add: update_context_def)

lemma hooks_two: "manager_hooks 2 env = manager_hooks (Suc (Suc 0)) env"
  by (simp add: numeral_2_eq_2)

declare manager_hooks.simps [simp del]

lemma fine_mono: "fine I G F U X N w \<Longrightarrow> N \<le> N' \<Longrightarrow> fine I G F U X N' w"
  by (simp add: fine_def)

section \<open>Withdrawing a request\<close>

lemma removed_safe:
  assumes "safe env K F U S T X N m" and "removeFromSubmitQueue k m = Some (d, m')"
  shows "safe env K F U S T X N m'" and "d \<in> K" and "reactor m' = reactor m"
proof -
  obtain q where a: "remove_request k (ctxs m) (submitQueue m) = Some (d, q)" "m' = m\<lparr>submitQueue := q\<rparr>"
    using assms(2) by (auto simp: removeFromSubmitQueue_def)
  obtain pr where pr: "mset (submitQueue m) = add_mset pr (mset q)" "d = pr_context pr" using remove_request_entries [OF a(1)] by blast
  have len: "length q \<le> length (submitQueue m)" using arg_cong [OF pr(1), of size] by simp
  have d: "d \<in> K" "queue_in K q" using remove_request_in [OF a(1)] manager_refs(1) safe_ok [OF assms(1)] by blast+
  show "safe env K F U S T X N m'" unfolding a(2)
  proof (rule safe_frame [OF assms(1)])
    show "manager_ok K (m\<lparr>submitQueue := q\<rparr>)" using safe_ok [OF assms(1)] d(2) by (simp add: manager_queue)
    show "links K U S T X (m\<lparr>submitQueue := q\<rparr>)"
      using pr(1) len links_unique [OF safe_links [OF assms(1)]] by (intro links_queue [OF safe_links [OF assms(1)]]) (simp_all add: queue_of_def)
  qed simp_all
  show "d \<in> K" "reactor m' = reactor m" using d(1) a(2) by simp_all
qed

lemma withdraw_safe:
  assumes "safe env K F U S T X N m" and "c \<in> K" and "N < 2 ^ 64"
  shows "returns (safe env K F U S T X N) (withdraw_request env requestId c response m)"
proof (cases "removeFromSubmitQueue requestId m")
  case (Some a)
  then obtain d m' where a: "removeFromSubmitQueue requestId m = Some (d, m')" by (cases a) simp
  show ?thesis using a safe_complete [OF removed_safe(1,2) [OF assms(1) a]] by (simp add: withdraw_request_def)
next
  case none: None
  show ?thesis
  proof (cases "remove_pending requestId (ctxs m) (pendingByEndpoint m)")
    case (Some a)
    then obtain d tbl where a: "remove_pending requestId (ctxs m) (pendingByEndpoint m) = Some (d, tbl)" by (cases a) simp
    note sub = remove_pending_entries [OF a]
    have d: "d \<in> K" "pending_in K tbl" using remove_pending_in [OF a] manager_refs(2) safe_ok [OF assms(1)] by blast+
    have "ep_unique tbl"
      using links_unique [OF safe_links [OF assms(1)]] sub by (metis ep_unique_def map_map)
    then have "safe env K F U S T X N (m\<lparr>pendingByEndpoint := tbl\<rparr>)"
      using sub d(2) safe_ok [OF assms(1)]
      by (intro safe_frame [OF assms(1)] links_pending [OF safe_links [OF assms(1)]] manager_pending) simp_all
    then show ?thesis using none a d(1) safe_complete by (simp add: withdraw_request_def)
  next
    case None
    let ?run = "case requestConnections m requestId of None \<Rightarrow> Inr m
      | Some cid \<Rightarrow> with_connection cid (\<lambda>cn. if connected cn then cancelRequestOnReactor (hooks_of env) env cid (Some c) m else Inr m) m"
    have "returns (safe env K F U S T X N) ?run"
    proof (cases "requestConnections m requestId")
      case (Some cid)
      obtain cn where cn: "connections m cid = Some cn" by (rule links_target [OF safe_links [OF assms(1)] Some])
      have "returns (safe env K F U S T X N) (cancelRequestOnReactor (hooks_of env) env cid (Some c) m)"
        unfolding hooks_two
        by (rule returns_mono [OF safe_manager.cancel_request_safe [OF fine_good(1) [OF assms(1) cn] assms(3)] good_fine])
      then show ?thesis using Some cn assms(1) by (simp add: with_connection_def)
    qed (use assms(1) in simp)
    then have "returns (safe env K F U S T X N) (net_bind ?run
        (\<lambda>m. if \<not> finished_of c m then Inr (completeRequest env c response m) else Inr m))"
      by (rule returns_bind) (simp add: safe_complete assms(2))
    then show ?thesis using none None by (simp add: withdraw_request_def)
  qed
qed

lemma timeout_job_safe:
  assumes "safe env K F U S T X N m" and "N < 2 ^ 64"
  shows "returns (safe env K F U S T X N) (handleTimeoutOnReactor env requestId m)"
  using assms withdraw_safe [OF safe_mark [OF assms(1)] found_known] safe_ok [OF assms(1)]
  by (auto simp: handleTimeoutOnReactor_def split: option.splits)

lemma cancel_job_safe:
  assumes "safe env K F U S T X N m" and "N < 2 ^ 64"
  shows "returns (safe env K F U S T X N) (handleCancelOnReactor env requestId m)"
  using assms withdraw_safe [OF safe_mark [OF assms(1)] found_known] withdraw_safe [OF assms(1) found_known] safe_ok [OF assms(1)]
  by (auto simp: handleCancelOnReactor_def Let_def split: option.splits)

section \<open>Timers and descriptors\<close>

lemma handler_safe:
  assumes "safe env K (insert p F) U S T X N m" and "p \<notin> F" and "N + 1 < 2 ^ 64"
  shows "returns (safe env K F U S T X (N + 1)) (run_job env (snd p) m)"
proof -
  have net: "net_ok (insert p F) U m" by (rule safe_net [OF assms(1)])
  then have o: "owned (connections m) False p" by (simp add: net_ok_def)
  show ?thesis
  proof (cases "of_ping (snd p)")
    case None
    then obtain k where k: "snd p = Request_Timeout k" using o by (auto simp: owned_def)
    have "safe env K F U S T X N m" using assms(1) net_mono [OF net, of F U] by (auto simp: fine_def)
    then have "returns (safe env K F U S T X N) (handleTimeoutOnReactor env k m)" using timeout_job_safe assms(3) by simp
    then have "returns (safe env K F U S T X (N + 1)) (handleTimeoutOnReactor env k m)" by (rule returns_mono) (simp add: fine_mono)
    then show ?thesis using k by simp
  next
    case (Some cid)
    then obtain cn where cn: "connections m cid = Some cn" using o by (auto simp: owned_def)
    obtain tid j where p: "p = (tid, j)" by fastforce
    note start = fine_good(1) [OF assms(1) cn]
    from Some have "j = Ping_Timer cid \<or> j = Ping_Timeout cid" using p by (auto elim: of_ping_SomeE)
    then show ?thesis
    proof
      assume j: "j = Ping_Timer cid"
      show ?thesis
        using safe_manager.timer_safe [OF start [unfolded p j] assms(2) [unfolded p j] assms(3), where k = 0]
        by (simp add: p j hooks_two)
    next
      assume j: "j = Ping_Timeout cid"
      show ?thesis
        using returns_mono [OF safe_manager.timeout_safe [OF start [unfolded p j] assms(2) [unfolded p j] assms(3), where k = 0] good_fine]
        by (simp add: p j hooks_two)
    qed
  qed
qed

lemma handlers_safe:
  "safe env K (set ps) U S T X N m \<Longrightarrow> distinct ps \<Longrightarrow> N + length ps < 2 ^ 64 \<Longrightarrow>
   returns (safe env K {} U S T X (N + length ps)) (run_handlers (run_job env) (map snd ps) m)"
proof (induction ps arbitrary: m N)
  case (Cons p ps)
  have "returns (safe env K (set ps) U S T X (N + 1)) (run_job env (snd p) m)"
    using handler_safe [where p = p and F = "set ps"] Cons.prems by simp
  moreover have "returns (safe env K {} U S T X (N + length (p # ps))) (run_handlers (run_job env) (map snd ps) m')"
    if "safe env K (set ps) U S T X (N + 1) m'" for m'
    using Cons.IH [OF that] Cons.prems(2,3) by simp
  ultimately show ?case by (auto intro: returns_bind)
qed simp

lemma watched_safe:
  assumes "safe env K {} U S T X N m" and "connections m cid \<noteq> None" and "N + 1 < 2 ^ 64"
  shows "returns (\<lambda>m'. safe env K {} U S T X (N + 1) m' \<and> connections m' cid \<noteq> None) (run_job env (Session_Readable cid) m)"
    and "returns (\<lambda>m'. safe env K {} U S T X (N + 1) m' \<and> connections m' cid \<noteq> None) (run_job env (Session_Writable cid) m)"
proof -
  obtain cn where cn: "connections m cid = Some cn" using assms(2) by blast
  note start = fine_good [OF assms(1) cn]
  have fin: "safe env K {} U S T X (N + 1) m' \<and> connections m' cid \<noteq> None"
    if "good (client_ok env K) (links K U S T) {} U X cid A (N + 1) m'" for A m'
    using good_fine [OF that] that by (simp add: good_def)
  show "returns (\<lambda>m'. safe env K {} U S T X (N + 1) m' \<and> connections m' cid \<noteq> None) (run_job env (Session_Readable cid) m)"
    using returns_mono [OF safe_manager.readable_safe [OF start(2), where k = 0] fin] assms(3) by (simp add: hooks_two)
  show "returns (\<lambda>m'. safe env K {} U S T X (N + 1) m' \<and> connections m' cid \<noteq> None) (run_job env (Session_Writable cid) m)"
    using returns_mono [OF safe_manager.writable_safe [OF start(2)] fin] by simp
qed

lemma net_fire:
  assumes "net_ok {} U w" and "fireDueTimers now now' (reactor w) = (hs, rx)"
  obtains ps where "hs = map snd ps" and "distinct ps" and "length ps \<le> length (live (reactor w))"
    and "net_ok (set ps) U (w\<lparr>reactor := rx\<rparr>)" and "loop_of rx = loop_of (reactor w)" and "nextTimerId rx = nextTimerId (reactor w)"
proof -
  let ?pair = "\<lambda>t. (ti_id t, ti_handler t)"
  have rs: "reactor_safe (reactor w)" using assms(1) by (simp add: net_ok_def)
  note fired = fire_safe [OF rs assms(2)]
  obtain ts where ts: "hs = map ti_handler ts" "distinct ts" "set ts \<inter> set (live rx) = {}" "set ts \<union> set (live rx) = set (live (reactor w))"
    using fired(4) by blast
  let ?ps = "map ?pair ts"
  have same: "t = u" if "t \<in> set (live (reactor w))" "u \<in> set (live (reactor w))" "ti_id t = ti_id u" for t u
    using live_unique [OF rs] that by blast
  have members: "set ts \<subseteq> set (live (reactor w))" "set (live rx) \<subseteq> set (live (reactor w))" using ts(4) by blast+
  have inj: "inj_on ti_id (set (live (reactor w)))" using same by (auto intro: inj_onI)
  have "inj_on ?pair (set ts)" using inj_on_subset [OF inj members(1)] by (auto simp: inj_on_def)
  then have d: "distinct ?ps" using ts(2) by (simp add: distinct_map)
  have "card (set ts) \<le> card (set (live (reactor w)))" using members(1) by (intro card_mono) simp_all
  then have len: "length ?ps \<le> length (live (reactor w))" using distinct_card [OF ts(2)] card_length [of "live (reactor w)"] by simp
  have sub: "set ?ps \<union> armed rx \<subseteq> armed (reactor w)" using members by (auto simp: armed_def)
  have f: "fired_ok (set ?ps) rx"
  proof -
    have "inj_on fst (set ?ps)" using inj_on_subset [OF inj members(1)] by (auto simp: inj_on_def)
    moreover have "fst p < nextTimerId rx" if "p \<in> set ?ps" for p using armed_ids(2) [OF rs] sub that fired(3) by auto
    moreover have "fst p \<notin> fst ` armed rx" if p: "p \<in> set ?ps" for p
    proof
      assume "fst p \<in> fst ` armed rx"
      then obtain u where u: "u \<in> set (live rx)" "fst p = ti_id u" by (auto simp: armed_def)
      obtain t where t: "t \<in> set ts" "fst p = ti_id t" using p by auto
      show False using same [of t u] t u ts(3) members by auto
    qed
    ultimately show ?thesis by (simp add: fired_ok_def)
  qed
  have o: "owned (connections w) True p" if "p \<in> set ?ps \<union> armed rx" for p
    using assms(1) sub that by (auto simp: net_ok_def)
  then have weak: "owned (connections w) False p" if "p \<in> set ?ps" for p
    using that by (fastforce simp: owned_def split: option.splits)
  have fds: "rx_fds rx = rx_fds (reactor w)" "loop_of rx = loop_of (reactor w)" using fired(2) by (simp_all add: same_watch_def loop_of_def)
  have watched: "watched (connections w) rx" using assms(1) by (simp add: net_ok_def watched_def fds(1))
  have idle: "idle (set ?ps) rx cid cn" if i: "idle {} (reactor w) cid cn" for cid cn
  proof -
    have "of_ping (snd p) \<noteq> Some cid" if "p \<in> set ?ps \<union> armed rx" for p
      using subsetD [OF sub that] i by (simp add: idle_def)
    then show ?thesis using i by (simp add: idle_def fds(1))
  qed
  have old: "\<forall>cid cn. connections w cid = Some cn \<longrightarrow> session_ok (cn_session cn)"
    "\<forall>cid\<in>U. \<exists>cn. connections w cid = Some cn \<and> idle {} (reactor w) cid cn" using assms(1) by (simp_all add: net_ok_def)
  have net: "net_ok (set ?ps) U (w\<lparr>reactor := rx\<rparr>)"
    unfolding net_ok_def
  proof (intro conjI)
    show "\<forall>cid\<in>U. \<exists>cn. connections (w\<lparr>reactor := rx\<rparr>) cid = Some cn \<and> idle (set ?ps) (reactor (w\<lparr>reactor := rx\<rparr>)) cid cn"
      using old(2) idle by fastforce
  qed (use fired(1) f o weak watched old(1) in simp_all)
  show thesis by (rule that [OF _ d len net fds(2) fired(3)]) (simp add: ts(1))
qed

text \<open>What \<open>epoll_wait\<close> reports: the timers that are due, or a descriptor, whose handlers are of one connection.\<close>

lemma fd_handlers:
  assumes "watched cs rx" and "handleFdEvent fd readable writable error rx \<noteq> []"
  obtains cid where "cs cid \<noteq> None" and "set (handleFdEvent fd readable writable error rx) \<subseteq> {Session_Readable cid, Session_Writable cid}"
proof (cases "rx_fds rx fd")
  case (Some fc)
  obtain cid cn where c: "fd_read fc = Session_Readable cid" "fd_write fc = Some (Session_Writable cid)" "cs cid = Some cn"
    "connected cn" "sessionFd cn = fd" "fd \<noteq> INVALID_SOCKET" by (rule watchedE [OF assms(1) Some])
  show thesis
  proof (rule that)
    show "cs cid \<noteq> None" using c(3) by simp
    show "set (handleFdEvent fd readable writable error rx) \<subseteq> {Session_Readable cid, Session_Writable cid}"
      unfolding handleFdEvent_def Some c(1,2) option.case by (simp add: c(1,2)) blast
  qed
qed (use assms(2) in \<open>simp add: handleFdEvent_def\<close>)

lemma fd_handlers_safe:
  "safe env K {} U S T X N m \<Longrightarrow> connections m cid \<noteq> None \<Longrightarrow> set hs \<subseteq> {Session_Readable cid, Session_Writable cid} \<Longrightarrow>
   N + length hs < 2 ^ 64 \<Longrightarrow> returns (safe env K {} U S T X (N + length hs)) (run_handlers (run_job env) hs m)"
proof (induction hs arbitrary: m N)
  case (Cons h hs)
  have "returns (\<lambda>m'. safe env K {} U S T X (N + 1) m' \<and> connections m' cid \<noteq> None) (run_job env h m)"
    using watched_safe [OF Cons.prems(1,2)] Cons.prems(3,4) by auto
  moreover have "returns (safe env K {} U S T X (N + length (h # hs))) (run_handlers (run_job env) hs m')"
    if "safe env K {} U S T X (N + 1) m' \<and> connections m' cid \<noteq> None" for m'
    using Cons.IH [where m = m' and N = "N + 1"] that Cons.prems(3,4) by simp
  ultimately show ?case by (auto intro: returns_bind)
qed simp

lemma poll_event_safe:
  assumes "safe env K {} U S T X N m" and "N + 2 + length (live (reactor m)) < 2 ^ 64"
  shows "returns (safe env K {} U S T X (N + 2 + length (live (reactor m)))) (dispatch_event (run_job env) e m)"
proof -
  let ?N = "N + 2 + length (live (reactor m))"
  have net: "net_ok {} U m" by (rule safe_net [OF assms(1)])
  consider "pe_fd e = wakeupFd (reactor m)" | "pe_fd e \<noteq> wakeupFd (reactor m)" "pe_fd e = timerFd (reactor m)"
    | "pe_fd e \<noteq> wakeupFd (reactor m)" "pe_fd e \<noteq> timerFd (reactor m)" by blast
  then show ?thesis
  proof cases
    case 1
    then show ?thesis using fine_mono [OF assms(1)] by (simp add: dispatch_event_def)
  next
    case 2
    obtain hs rx where f: "fireDueTimers (pe_now e) (pe_armNow e) (reactor m) = (hs, rx)" by fastforce
    obtain ps where ps: "hs = map snd ps" "distinct ps" "length ps \<le> length (live (reactor m))" "net_ok (set ps) U (m\<lparr>reactor := rx\<rparr>)"
      "loop_of rx = loop_of (reactor m)" "nextTimerId rx = nextTimerId (reactor m)" by (rule net_fire [OF net f])
    have "links K U S T X (m\<lparr>reactor := rx\<rparr>)" by (rule links_frame [OF safe_links [OF assms(1)]]) (simp_all add: ps(5))
    then have "safe env K (set ps) U S T X N (m\<lparr>reactor := rx\<rparr>)" using assms(1) ps(4,6) by (simp add: fine_def)
    from handlers_safe [OF this ps(2)]
    have "returns (safe env K {} U S T X (N + length ps)) (run_handlers (run_job env) hs (m\<lparr>reactor := rx\<rparr>))"
      using ps(1,3) assms(2) by simp
    then have "returns (safe env K {} U S T X ?N) (run_handlers (run_job env) hs (m\<lparr>reactor := rx\<rparr>))"
      by (rule returns_mono) (use ps(3) in \<open>auto elim!: fine_mono\<close>)
    then show ?thesis using 2 f by (simp add: dispatch_event_def)
  next
    case 3
    let ?hs = "handleFdEvent (pe_fd e) (pe_readable e) (pe_writable e) (pe_error e) (reactor m)"
    have len: "length ?hs \<le> 2" by (simp add: handleFdEvent_def split: option.splits)
    have "returns (safe env K {} U S T X ?N) (run_handlers (run_job env) ?hs m)"
    proof (cases "?hs = []")
      case True
      then show ?thesis using fine_mono [OF assms(1)] by simp
    next
      case False
      have "watched (connections m) (reactor m)" using net by (simp add: net_ok_def)
      from fd_handlers [OF this False] obtain cid where "connections m cid \<noteq> None" "set ?hs \<subseteq> {Session_Readable cid, Session_Writable cid}" .
      from fd_handlers_safe [OF assms(1) this] have "returns (safe env K {} U S T X (N + length ?hs)) (run_handlers (run_job env) ?hs m)"
        using len assms(2) by simp
      then show ?thesis by (rule returns_mono) (use len in \<open>auto elim!: fine_mono\<close>)
    qed
    then show ?thesis using 3 by (simp add: dispatch_event_def)
  qed
qed

section \<open>The submit queue\<close>

lemma submit_safe:
  assumes "safe env K F U (pr # S) T X N m" and "cid \<notin> U" and "connections m cid \<noteq> None"
  shows "returns (\<lambda>m'. safe env K F U S T X N m' \<and> light m m') (submit_to (hooks_of env) env cid pr m)"
proof -
  have m: "env_ok env" "manager_ok K m" using safe_ok [OF assms(1)] by simp_all
  have "safe env K F U S T X N m' \<and> light m m'"
    if "(net_ok F U m' \<and> links K U S T X m' \<and> light m m' \<and> pendingByEndpoint m' = pendingByEndpoint m) \<and> manager_ok K m'" for m'
    using that assms(1) m(1) by (simp add: fine_def light_def)
  from returns_mono [OF submit_to_keeps [OF m safe_net [OF assms(1)] safe_links [OF assms(1)] assms(2,3), where n = "Suc 0"] this]
  show ?thesis unfolding hooks_two .
qed

lemma safe_tail: "safe env K F U (pr # S) T X N m \<Longrightarrow> safe env K F U S T X N m"
  using links_tail [of K U pr S T X m] by (simp add: fine_def)

lemma safe_head: "safe env K F U (pr # S) T X N m \<Longrightarrow> pr_context pr \<in> K"
  by (simp add: fine_def links_def ready_def)

lemma safe_push:
  assumes "safe env K F U (pr # S) T X N m"
  shows "safe env K F U S T X N (m\<lparr>pendingByEndpoint := ep_push (od_pending env) ep pr (pendingByEndpoint m)\<rparr>)"
proof -
  have m: "env_ok env" "manager_ok K m" using safe_ok [OF assms] by simp_all
  then have order: "permutes_entries (od_pending env)" by (simp add: env_ok_def)
  note push = push_entries [OF links_unique [OF safe_links [OF assms]] order]
  show ?thesis
    using push_ok [OF m(2,1) safe_head [OF assms]] push
    by (intro safe_frame [OF assms] links_pending [OF safe_links [OF assms]]) simp_all
qed

lemma enqueue_safe:
  assumes "safe env K {} U S (ts, C, L) X N m" and "unat C + 1 < 2 ^ 64"
  shows "\<exists>C'. safe env K {} U S (ts, C', L) X N (enqueueConnectTask ep m) \<and> unat C' \<le> unat C + 1"
proof (cases "enqueueConnectTask ep m = m")
  case True
  then show ?thesis using assms(1) by (intro exI [of _ C]) simp
next
  case False
  then have m': "enqueueConnectTask ep m = m\<lparr>connectingEndpoints := ep # connectingEndpoints m, nextConnectionId := nextConnectionId m + 1,
      connectTasks := connectTasks m @ [\<lparr>ct_endpoint = ep, ct_connId = nextConnectionId m\<rparr>]\<rparr>" (is "_ = ?m")
    by (simp add: enqueueConnectTask_def split: if_splits)
  have C: "nextConnectionId m = C" and ids: "ids_ok m" using safe_links [OF assms(1)] by (simp_all add: links_def)
  note up = room [OF assms(2)]
  then have less: "c < C + 1" if "c < C \<or> c = C" for c using that by (auto simp: word_less_nat_alt)
  have same: "pool_ids ?m = pool_ids m" "queue_of ?m = queue_of m" by (simp_all add: pool_ids_def queue_of_def)
  have "C \<notin> dom (connections m) \<union> pool_ids m" using ids C by (auto simp: ids_ok_def)
  then have "ids_ok ?m" using ids less unfolding ids_ok_def same by (auto simp: C)
  then have "links K U S (ts, C + 1, L) X ?m" using safe_links [OF assms(1)] unfolding links_def same by (simp add: C)
  then have "safe env K {} U S (ts, C + 1, L) X N ?m" using safe_ok [OF assms(1)] by (intro safe_frame [OF assms(1)]) simp_all
  then show ?thesis unfolding m' using up by (intro exI [of _ "C + 1"]) simp
qed

lemma drain_requests_safe:
  "safe env K {} U (prs @ S) (ts, C, L) X N m \<Longrightarrow> unat C + length prs < 2 ^ 64 \<Longrightarrow>
   returns (\<lambda>m'. \<exists>C'. safe env K {} U S (ts, C', L) X N m' \<and> unat C' \<le> unat C + length prs) (drain_requests env prs m)"
proof (induction prs arbitrary: m C)
  case Nil
  then show ?case by auto
next
  case (Cons pr prs)
  let ?P = "\<lambda>m'. \<exists>C'. safe env K {} U S (ts, C', L) X N m' \<and> unat C' \<le> unat C + length (pr # prs)"
  have start: "safe env K {} U (pr # prs @ S) (ts, C, L) X N m" using Cons.prems(1) by simp
  have again: "returns ?P (drain_requests env prs m')" if "safe env K {} U (prs @ S) (ts, C1, L) X N m'" "unat C1 \<le> unat C + 1" for m' C1
    by (rule returns_mono [OF Cons.IH [OF that(1)]]) (use that(2) Cons.prems(2) in auto)
  show ?case
  proof (cases "canceled_of (pr_context pr) m")
    case True
    then show ?thesis using again [OF safe_complete [OF safe_tail [OF start] safe_head [OF start]]] by simp
  next
    case False
    show ?thesis
    proof (cases "pickConnectionOnReactor (pr_endpoint pr) m")
      case None
      have "unat C + 1 < 2 ^ 64" using Cons.prems(2) by simp
      from enqueue_safe [OF safe_push [OF start, of "pr_endpoint pr"] this, of "pr_endpoint pr"] obtain C1
        where "safe env K {} U (prs @ S) (ts, C1, L) X N (enqueueConnectTask (pr_endpoint pr)
          (m\<lparr>pendingByEndpoint := ep_push (od_pending env) (pr_endpoint pr) pr (pendingByEndpoint m)\<rparr>))" "unat C1 \<le> unat C + 1" by blast
      from again [OF this] show ?thesis using False None by simp
    next
      case (Some cid)
      have cid: "connections m cid \<noteq> None" "cid \<notin> U"
        using pick_in_pool [OF Some] safe_links [OF start] by (auto simp: links_def)
      obtain b where cap: "capacity_of cid m = Inr b" using capacity_returns [OF cid(1)] by blast
      have "returns (safe env K {} U (prs @ S) (ts, C, L) X N) (if b then submit_to (hooks_of env) env cid pr m
          else Inr (m\<lparr>pendingByEndpoint := ep_push (od_pending env) (pr_endpoint pr) pr (pendingByEndpoint m)\<rparr>))"
        using returns_mono [OF submit_safe [OF start cid(2,1)]] safe_push [OF start] by simp
      then have "returns ?P (net_bind (if b then submit_to (hooks_of env) env cid pr m
          else Inr (m\<lparr>pendingByEndpoint := ep_push (od_pending env) (pr_endpoint pr) pr (pendingByEndpoint m)\<rparr>)) (drain_requests env prs))"
        by (rule returns_bind) (erule again, rule le_add1)
      then show ?thesis using False Some cap by simp
    qed
  qed
qed

lemma submit_waiting_safe:
  "safe env K F U (prs @ S) T X N m \<Longrightarrow> cid \<notin> U \<Longrightarrow> connections m cid \<noteq> None \<Longrightarrow>
   returns (safe env K F U S T X N) (submit_waiting env ep cid prs m)"
proof (induction prs arbitrary: m)
  case (Cons pr prs)
  have start: "safe env K F U (pr # prs @ S) T X N m" using Cons.prems(1) by simp
  note again = Cons.IH [OF _ Cons.prems(2)]
  show ?case
  proof (cases "canceled_of (pr_context pr) m")
    case True
    then show ?thesis using again [OF safe_complete [OF safe_tail [OF start] safe_head [OF start]]] Cons.prems(3) by simp
  next
    case False
    obtain b where cap: "capacity_of cid m = Inr b" using capacity_returns [OF Cons.prems(3)] by blast
    obtain cn where cn: "connections m cid = Some cn" using Cons.prems(3) by blast
    have "returns (\<lambda>m'. safe env K F U (prs @ S) T X N m' \<and> light m m') (if b then submit_to (hooks_of env) env cid pr m
        else Inr (m\<lparr>pendingByEndpoint := ep_push (od_pending env) ep pr (pendingByEndpoint m)\<rparr>))"
      using submit_safe [OF start Cons.prems(2,3)] safe_push [OF start] by (simp add: light_def view_def)
    then have "returns (safe env K F U S T X N) (net_bind (if b then submit_to (hooks_of env) env cid pr m
        else Inr (m\<lparr>pendingByEndpoint := ep_push (od_pending env) ep pr (pendingByEndpoint m)\<rparr>)) (submit_waiting env ep cid prs))"
      by (rule returns_bind) (use again light_budget(2) [OF _ cn] in blast)
    then show ?thesis using False cap by simp
  qed
qed simp

section \<open>Connections that are destroyed\<close>

lemma fold_destroy: "fold destroy cids m = m\<lparr>connections := (\<lambda>cid. if cid \<in> set cids then None else connections m cid)\<rparr>"
  by (induction cids arbitrary: m) (auto simp: destroy_def fun_eq_iff)

lemma net_fold_destroy:
  assumes "net_ok {} U w" and "set cids \<inter> U = {}" and "\<And>cid cn. cid \<in> set cids \<Longrightarrow> connections w cid = Some cn \<Longrightarrow> \<not> connected cn"
  shows "net_ok {} U (w\<lparr>connections := (\<lambda>cid. if cid \<in> set cids then None else connections w cid)\<rparr>)"
  using assms
proof (induction cids arbitrary: w)
  case (Cons cid cids)
  let ?w = "w\<lparr>connections := (connections w)(cid := None)\<rparr>"
  have "net_ok {} U ?w" using Cons.prems by (intro net_destroy_lost) auto
  then have "net_ok {} U (?w\<lparr>connections := (\<lambda>c. if c \<in> set cids then None else connections ?w c)\<rparr>)"
    using Cons.prems(2,3) by (intro Cons.IH) (auto split: if_splits)
  moreover have "?w\<lparr>connections := (\<lambda>c. if c \<in> set cids then None else connections ?w c)\<rparr> =
      w\<lparr>connections := (\<lambda>c. if c \<in> set (cid # cids) then None else connections w c)\<rparr>" by (auto simp: fun_eq_iff)
  ultimately show ?case by simp
qed simp

text \<open>Connections that are not connected and not referred to.\<close>

lemma links_destroy:
  assumes "links K U S T X m" and "\<And>k cid. requestConnections m k = Some cid \<Longrightarrow> cid \<notin> D" and "X' = X - D"
  shows "links K U S T X' (m\<lparr>connections := (\<lambda>cid. if cid \<in> D then None else connections m cid)\<rparr>)"
proof -
  let ?m = "m\<lparr>connections := (\<lambda>cid. if cid \<in> D then None else connections m cid)\<rparr>"
  have same: "queue_of ?m = queue_of m" "pool_ids ?m = pool_ids m" by (simp_all add: queue_of_def pool_ids_def)
  have "ids_ok m" using assms(1) by (simp add: links_def)
  then have "ids_ok ?m" unfolding ids_ok_def same by (auto split: if_splits)
  moreover have "unat k \<in> K \<and> cid \<notin> U \<and> (\<exists>cn. connections ?m cid = Some cn \<and> (connected cn \<or> cid \<in> X'))" if r: "requestConnections m k = Some cid" for k cid
  proof -
    obtain cn where "cid \<notin> U" "connections m cid = Some cn" "connected cn \<or> cid \<in> X" "unat k \<in> K" by (rule links_target [OF assms(1) r])
    then show ?thesis using assms(2) [OF r] assms(3) by auto
  qed
  ultimately show ?thesis using assms(1,3) unfolding links_def same by (auto split: if_splits)
qed

lemma safe_destroy:
  assumes "safe env K {} U S T X N m" and "set cids \<inter> U = {}" and "X \<subseteq> set cids"
    and "\<And>cid cn. cid \<in> set cids \<Longrightarrow> connections m cid = Some cn \<Longrightarrow> \<not> connected cn"
    and "\<And>k cid. requestConnections m k = Some cid \<Longrightarrow> cid \<notin> set cids"
  shows "safe env K {} U S T {} N (fold destroy cids m)"
  using net_fold_destroy [OF safe_net [OF assms(1)] assms(2,4)] links_destroy [OF safe_links [OF assms(1)] assms(5), where X' = "{}"] assms(3)
    fold_destroy_ok [of K m cids] assms(1) by (simp add: fine_def fold_destroy)

text \<open>The pools only name connections that are registered.\<close>

lemma links_pools:
  assumes "links K U S T X m" and "set (concat (map snd ps)) \<subseteq> pool_ids m \<union> P" and "P \<subseteq> dom (connections m)" and "P \<inter> U = {}"
  shows "links K U S T X (m\<lparr>pools := ps\<rparr>)"
proof -
  let ?m = "m\<lparr>pools := ps\<rparr>"
  have same: "queue_of ?m = queue_of m" by (simp add: queue_of_def)
  have sub: "pool_ids ?m \<subseteq> pool_ids m \<union> P" using assms(2) by (simp add: pool_ids_def)
  have "ids_ok m" "pool_ids m \<inter> U = {}" using assms(1) by (simp_all add: links_def)
  then have "ids_ok ?m" "pool_ids ?m \<inter> U = {}" using sub assms(3,4) by (fastforce simp: ids_ok_def)+
  then show ?thesis using assms(1) unfolding links_def same by simp
qed

lemma prune_safe:
  assumes "safe env K {} U S T {} N m"
  shows "safe env K {} U S T {} N (prune_pools m)" and "submitQueue (prune_pools m) = submitQueue m"
proof -
  let ?lost = "filter (disconnected m) (concat (map snd (pools m)))"
  let ?ps = "map (\<lambda>(ep, cids). (ep, filter (\<lambda>cid. \<not> disconnected m cid) cids)) (pools m)"
  let ?m = "m\<lparr>pools := ?ps\<rparr>"
  note links = safe_links [OF assms]
  have "set (concat (map snd (map (\<lambda>(ep, cids). (ep, filter P cids)) tbl))) \<subseteq> set (concat (map snd tbl))"
    for P and tbl :: "(Endpoint \<times> ConnectionId list) list" by (induction tbl) auto
  then have "set (concat (map snd ?ps)) \<subseteq> pool_ids m \<union> {}" by (simp only: pool_ids_def Un_empty_right)
  then have "links K U S T {} ?m" by (rule links_pools [OF links]) simp_all
  then have m: "safe env K {} U S T {} N ?m" using safe_ok [OF assms] by (intro safe_frame [OF assms]) simp_all
  have "set ?lost \<subseteq> pool_ids m" by (auto simp: pool_ids_def)
  then have "set ?lost \<inter> U = {}" using links by (auto simp: links_def)
  moreover have "\<not> connected cn" if "cid \<in> set ?lost" "connections ?m cid = Some cn" for cid cn
    using that by (simp add: disconnected_def)
  moreover have "cid \<notin> set ?lost" if r: "requestConnections ?m k = Some cid" for k cid
  proof -
    have r': "requestConnections m k = Some cid" using r by simp
    obtain cn where "connections m cid = Some cn" "connected cn" using links_target [OF links r'] by blast
    then show ?thesis by (simp add: disconnected_def)
  qed
  ultimately have "safe env K {} U S T {} N (fold destroy ?lost ?m)" by (intro safe_destroy [OF m]) simp_all
  then show "safe env K {} U S T {} N (prune_pools m)" by (simp add: prune_pools_def Let_def)
  show "submitQueue (prune_pools m) = submitQueue m" by (simp add: prune_pools_def Let_def fold_destroy_fields)
qed

lemma drain_queue_safe:
  assumes "safe env K {} U S (ts, C, L) {} N m" and "unat C + L < 2 ^ 64"
  shows "returns (\<lambda>m'. \<exists>C'. safe env K {} U S (ts, C', 0) {} N m' \<and> unat C' \<le> unat C + L) (drainSubmitQueue env m)"
proof -
  note p = prune_safe [OF assms(1)]
  let ?m = "(prune_pools m)\<lparr>submitQueue := []\<rparr>"
  have len: "length (submitQueue m) \<le> L" using safe_links [OF assms(1)] by (simp add: links_def)
  have "links K U (submitQueue m @ S) (ts, C, L) {} ?m"
    using links_unique [OF safe_links [OF p(1)]] p(2)
    by (intro links_queue [OF safe_links [OF p(1)]]) (simp_all add: queue_of_def ac_simps)
  then have "links K U (submitQueue m @ S) (ts, C, 0) {} ?m" by (simp add: links_def)
  then have "safe env K {} U (submitQueue m @ S) (ts, C, 0) {} N ?m"
    using safe_ok [OF p(1)] by (intro safe_frame [OF p(1)]) (simp_all add: manager_queue)
  from drain_requests_safe [OF this] show ?thesis
    using assms(2) len by (auto simp: drainSubmitQueue_def Let_def p(2) elim!: returns_mono)
qed

section \<open>Connections that are made\<close>

lemma drain_pending_safe:
  assumes "safe env K F U S T X N m"
  shows "safe env K F U S T X N (drainPendingForEndpoint env ep m)"
proof (cases "ep_find ep (pendingByEndpoint m)")
  case (Some q)
  let ?m = "m\<lparr>pendingByEndpoint := ep_erase ep (pendingByEndpoint m)\<rparr>"
  have m: "manager_ok K m" using safe_ok [OF assms] by simp
  have "entries (ep_erase ep (pendingByEndpoint m)) \<subseteq># entries (pendingByEndpoint m)"
    using erase_entries [OF Some] by (metis mset_subset_eq_add_left subset_mset.order_trans)
  then have "safe env K F U S T X N ?m"
    using erase_unique [OF links_unique [OF safe_links [OF assms]]] m manager_refs(2) [OF m]
    by (intro safe_frame [OF assms] links_pending [OF safe_links [OF assms]] manager_pending pending_erase) simp_all
  moreover have "set (map pr_context q) \<subseteq> K" using pending_find [OF manager_refs(2) [OF m] Some] by (simp add: queue_in_def)
  ultimately show ?thesis using Some by (simp add: drainPendingForEndpoint_def safe_complete_all)
qed (use assms in \<open>simp add: drainPendingForEndpoint_def\<close>)

lemma forget_connecting_safe:
  assumes "safe env K F U S T X N m"
  shows "safe env K F U S T X N (forget_connecting ep m)"
proof (rule safe_frame [OF assms])
  show "manager_ok K (forget_connecting ep m)" using safe_ok [OF assms] by simp
  show "links K U S T X (forget_connecting ep m)" by (rule links_frame [OF safe_links [OF assms]]) (simp_all add: forget_connecting_def)
qed (simp_all add: forget_connecting_def)

lemma failed_safe: "safe env K F U S T X N m \<Longrightarrow> safe env K F U S T X N (onConnectionFailed env ep m)"
  by (simp add: onConnectionFailed_def drain_pending_safe forget_connecting_safe)

lemma push_set:
  assumes "permutes_entries order"
  shows "set (concat (map snd (ep_push order ep x tbl))) \<subseteq> insert x (set (concat (map snd tbl)))"
proof (cases "ep_find ep tbl")
  case None
  then show ?thesis using permutes_set [OF assms, of "(ep, [x]) # tbl"] by (simp add: ep_push_def)
next
  case (Some xs)
  have "ep_find ep t = Some xs \<Longrightarrow> xs \<in> snd ` set t" for t :: "(Endpoint \<times> 'a list) list"
    by (induction t) (auto split: if_splits)
  then have "set xs \<subseteq> set (concat (map snd tbl))" using Some by fastforce
  moreover have "snd ` set (ep_set ep ys t) \<subseteq> insert ys (snd ` set t)" for ys :: "'a list" and t
    by (force simp: ep_set_def split: if_splits)
  then have "set (concat (map snd (ep_set ep ys t))) \<subseteq> set ys \<union> set (concat (map snd t))" for ys :: "'a list" and t
    by fastforce
  ultimately show ?thesis using Some by (fastforce simp: ep_push_def)
qed

lemma links_fewer: "links K U S T X m \<Longrightarrow> U' \<subseteq> U \<Longrightarrow> links K U' S T X m"
  unfolding links_def by blast

lemma established_safe:
  assumes "safe env K {} (insert cid U) S T {} N m" and "cid \<notin> U" and "N + 1 < 2 ^ 64"
  shows "returns (safe env K {} U S T {} (N + 1)) (onConnectionEstablished env ep cid m)"
proof -
  let ?U = "insert cid U"
  have env: "env_ok env" using safe_ok [OF assms(1)] by simp
  have start: "safe env K {} ?U S T {} N (forget_connecting ep m)" by (rule forget_connecting_safe [OF assms(1)])
  have reg: "returns (\<lambda>(registered, w'). if registered then good (client_ok env K) (links K ?U S T) {} U {} cid False (N + 1) w'
      else safe env K {} ?U S T {cid} N w' \<or> safe env K {} ?U S T {} N w') (registerWithReactor env cid (forget_connecting ep m))"
    using start by (intro safe_manager.register_safe [OF _ _ _ _ assms(2,3)]) (simp_all add: fine_def)
  show ?thesis unfolding onConnectionEstablished_def
  proof (rule returns_bind [OF reg], clarify)
    fix b m1
    assume r: "if b then good (client_ok env K) (links K ?U S T) {} U {} cid False (N + 1) m1
        else safe env K {} ?U S T {cid} N m1 \<or> safe env K {} ?U S T {} N m1"
    show "returns (safe env K {} U S T {} (N + 1)) (if \<not> b then Inr (destroy cid (drainPendingForEndpoint env ep m1))
       else let m = m1\<lparr>pools := ep_push (od_pools env) ep cid (pools m1)\<rparr> in
         case ep_find ep (pendingByEndpoint m) of
           None \<Rightarrow> Inr m
         | Some prs \<Rightarrow> submit_waiting env ep cid prs (m\<lparr>pendingByEndpoint := ep_erase ep (pendingByEndpoint m)\<rparr>))"
    proof (cases b)
      case False
      then obtain X where X: "safe env K {} ?U S T X N m1" "X \<subseteq> {cid}" using r by auto
      let ?d = "drainPendingForEndpoint env ep m1"
      have d: "safe env K {} ?U S T X N ?d" by (rule drain_pending_safe [OF X(1)])
      have gone: "destroy cid ?d = ?d\<lparr>connections := (\<lambda>c. if c \<in> {cid} then None else connections ?d c)\<rparr>"
        by (auto simp: destroy_def fun_eq_iff)
      have "links K ?U S T {} (destroy cid ?d)" unfolding gone
      proof (rule links_destroy [OF safe_links [OF d]])
        show "c \<notin> {cid}" if r: "requestConnections ?d k = Some c" for k c
          by (rule links_target [OF safe_links [OF d] r]) simp
      qed (use X(2) in blast)
      then have "links K U S T {} (destroy cid ?d)" by (rule links_fewer) blast
      moreover have "net_ok {} U (destroy cid ?d)" using net_destroy_new [OF safe_net [OF d] assms(2)] by (simp add: destroy_def)
      moreover have "manager_ok K (destroy cid ?d)" using safe_ok [OF d] destroy_ok by blast
      ultimately show ?thesis using False d by (simp add: fine_def destroy_def)
    next
      case True
      let ?m = "m1\<lparr>pools := ep_push (od_pools env) ep cid (pools m1)\<rparr>"
      have g: "manager_ok K m1" "net_ok {} U m1" "links K ?U S T {} m1" "connections m1 cid \<noteq> None"
        "unat (nextTimerId (reactor m1)) \<le> N + 1" using r True by (simp_all add: good_def budget_def)
      have order: "permutes_entries (od_pools env)" using env by (simp add: env_ok_def)
      have "links K U S T {} m1" by (rule links_fewer [OF g(3)]) blast
      then have "links K U S T {} ?m"
        using push_set [OF order, of ep cid "pools m1"] g(4) assms(2) by (intro links_pools [where P = "{cid}"]) (auto simp: pool_ids_def)
      then have m: "safe env K {} U S T {} (N + 1) ?m" using env g net_frame [OF g(2), of ?m] by (simp add: fine_def)
      show ?thesis
      proof (cases "ep_find ep (pendingByEndpoint ?m)")
        case None
        then show ?thesis using True m by simp
      next
        case (Some prs)
        let ?e = "?m\<lparr>pendingByEndpoint := ep_erase ep (pendingByEndpoint ?m)\<rparr>"
        have "links K U (prs @ S) T {} ?e"
          using erase_entries [OF Some] erase_unique [OF links_unique [OF safe_links [OF m]]]
          by (intro links_pending [OF safe_links [OF m]]) simp_all
        then have "safe env K {} U (prs @ S) T {} (N + 1) ?e"
          using safe_ok [OF m] manager_refs(2) [of K ?m] by (intro safe_frame [OF m] manager_pending pending_erase) simp_all
        from submit_waiting_safe [OF this assms(2), of ep] show ?thesis using True Some g(4) by simp
      qed
    qed
  qed
qed

section \<open>Closing\<close>

lemma safe_lost:
  assumes "safe env K F U S T X N m" and "\<And>cn. connections m cid = Some cn \<Longrightarrow> \<not> connected cn"
  shows "safe env K F U S T (insert cid X) N m"
proof -
  have "links K U S T (insert cid X) m" using safe_links [OF assms(1)] assms(2) unfolding links_def by blast
  then show ?thesis using assms(1) by (simp add: fine_def)
qed

lemma links_lost: "links K U S T X m \<Longrightarrow> cid \<in> X \<Longrightarrow> connections m cid = Some cn \<Longrightarrow> \<not> connected cn"
  unfolding links_def by blast

lemma close_connections_safe:
  "safe env K {} U S T X N m \<Longrightarrow> N < 2 ^ 64 \<Longrightarrow> returns (safe env K {} U S T (set cids \<union> X) N) (close_connections env cids m)"
proof (induction cids arbitrary: m X)
  case (Cons cid cids)
  let ?one = "case connections m cid of None \<Rightarrow> Inr m
      | Some cn \<Rightarrow> if connected cn then Connection_closeOnReactor (hooks_of env) env cid m else Inr m"
  have "returns (safe env K {} U S T (insert cid X) N) ?one"
  proof (cases "\<exists>cn. connections m cid = Some cn \<and> connected cn")
    case True
    then obtain cn where cn: "connections m cid = Some cn" "connected cn" by blast
    have "returns (safe env K {} U S T (insert cid X) N) (Connection_closeOnReactor (hooks_of env) env cid m)"
      unfolding hooks_two
      by (rule returns_mono [OF safe_manager.close_safe [OF fine_good(1) [OF Cons.prems(1) cn(1)] Cons.prems(2)] good_fine])
    then show ?thesis using cn by simp
  next
    case False
    then show ?thesis using safe_lost [OF Cons.prems(1), of cid] by (auto split: option.splits)
  qed
  then have "returns (safe env K {} U S T (set cids \<union> insert cid X) N) (net_bind ?one (close_connections env cids))"
    by (rule returns_bind) (rule Cons.IH [OF _ Cons.prems(2)])
  then show ?case by simp
qed simp

lemma close_job_safe:
  assumes "safe env K {} U S T {} N m" and "N < 2 ^ 64"
  shows "returns (safe env K {} U S T {} N) (Manager_closeOnReactor env m)"
proof -
  let ?closed = "failConnectionError ''Connection closed''"
  let ?d = "complete_all env (map pr_context (concat (map snd (pendingByEndpoint m)))) ?closed m"
  let ?p = "?d\<lparr>pendingByEndpoint := [], connectingEndpoints := []\<rparr>"
  let ?local = "concat (map snd (pools ?p))"
  let ?m = "?p\<lparr>pools := []\<rparr>"
  have "queue_in K (concat (map snd (pendingByEndpoint m)))" using pending_concat manager_refs(2) safe_ok [OF assms(1)] by blast
  then have d: "safe env K {} U S T {} N ?d" using safe_complete_all [OF assms(1)] by (simp add: queue_in_def)
  have "links K U S T {} (?d\<lparr>pendingByEndpoint := []\<rparr>)" by (rule links_pending [OF safe_links [OF d]]) simp_all
  then have "links K U S T {} ?p" by (rule links_frame) simp_all
  then have p: "safe env K {} U S T {} N ?p"
    using safe_ok [OF d] manager_pending [of K ?d "[]"] by (intro safe_frame [OF d]) simp_all
  have "links K U S T {} ?m" by (rule links_pools [OF safe_links [OF p], of _ "{}"]) simp_all
  then have m: "safe env K {} U S T {} N ?m" using safe_ok [OF p] by (intro safe_frame [OF p]) simp_all
  have out: "set ?local \<inter> U = {}" using safe_links [OF p] by (simp add: links_def pool_ids_def)
  have last: "safe env K {} U S T {} N (fold destroy ?local (m'\<lparr>requestConnections := Map.empty\<rparr>))"
    if m': "safe env K {} U S T (set ?local \<union> {}) N m'" for m'
  proof (rule safe_destroy)
    have "links K U S T (set ?local) (m'\<lparr>requestConnections := Map.empty\<rparr>)" using links_forget [OF safe_links [OF m'], of Map.empty] by simp
    then show "safe env K {} U S T (set ?local) N (m'\<lparr>requestConnections := Map.empty\<rparr>)"
      using safe_ok [OF m'] m' by (intro safe_frame [OF m' [unfolded Un_empty_right]]) simp_all
    show "\<not> connected cn" if "cid \<in> set ?local" "connections (m'\<lparr>requestConnections := Map.empty\<rparr>) cid = Some cn" for cid cn
      using links_lost [OF safe_links [OF m'], of cid cn] that by simp
  qed (use out in simp_all)
  have "returns (safe env K {} U S T {} N)
      (net_bind (close_connections env ?local ?m) (\<lambda>m. Inr (fold destroy ?local (m\<lparr>requestConnections := Map.empty\<rparr>))))"
    by (rule returns_bind [OF close_connections_safe [OF m assms(2)]]) (simp only: returns_Inr last)
  then show ?thesis by (simp add: Manager_closeOnReactor_def Let_def)
qed

section \<open>Posted tasks\<close>

fun registers :: "job \<Rightarrow> ConnectionId list" where
  "registers (Connection_Established ep cid) = [cid]"
| "registers _ = []"

fun posted :: "job \<Rightarrow> bool" where
  "posted (Session_Readable cid) = False"
| "posted (Session_Writable cid) = False"
| "posted (Ping_Timer cid) = False"
| "posted (Ping_Timeout cid) = False"
| "posted (Request_Timeout k) = False"
| "posted _ = True"

text \<open>The connections whose registration is posted, each once.\<close>

definition tasks_ok :: "job list \<Rightarrow> bool" where
  "tasks_ok ts \<longleftrightarrow> list_all posted ts \<and> distinct (concat (map registers ts))"

abbreviation to_register :: "job list \<Rightarrow> ConnectionId set" where
  "to_register ts \<equiv> set (concat (map registers ts))"

lemma task_safe:
  assumes "safe env K {} (set (registers j) \<union> U) S (ts, C, L) {} N m" and "posted j" and "set (registers j) \<inter> U = {}"
    and "N + 1 < 2 ^ 64" and "unat C + L < 2 ^ 64"
  shows "returns (\<lambda>m'. \<exists>C' L'. safe env K {} U S (ts, C', L') {} (N + 1) m' \<and> unat C' + L' \<le> unat C + L) (run_job env j m)"
proof -
  let ?P = "\<lambda>m'. \<exists>C' L'. safe env K {} U S (ts, C', L') {} (N + 1) m' \<and> unat C' + L' \<le> unat C + L"
  have same: "returns ?P r" if "returns (safe env K {} U S (ts, C, L) {} N) r" for r
    by (rule returns_mono [OF that], intro exI [of _ C] exI [of _ L]) (simp add: fine_mono)
  have N: "N < 2 ^ 64" using assms(4) by simp
  show ?thesis
  proof (cases j)
    case Drain_Submit_Queue
    have "returns (\<lambda>m'. \<exists>C'. safe env K {} U S (ts, C', 0) {} N m' \<and> unat C' \<le> unat C + L) (drainSubmitQueue env m)"
      using drain_queue_safe [OF _ assms(5)] assms(1) Drain_Submit_Queue by simp
    then have "returns ?P (drainSubmitQueue env m)"
      by (rule returns_mono) (metis add_0_right fine_mono le_add1)
    then show ?thesis using Drain_Submit_Queue by simp
  next
    case (Cancel_Request k)
    then show ?thesis using same [OF cancel_job_safe [OF _ N]] assms(1) by simp
  next
    case (Connection_Established ep cid)
    have "returns (safe env K {} U S (ts, C, L) {} (N + 1)) (onConnectionEstablished env ep cid m)"
      using established_safe [OF _ _ assms(4), of env K cid U S "(ts, C, L)" m ep] assms(1,3) Connection_Established by simp
    then have "returns ?P (onConnectionEstablished env ep cid m)" by (rule returns_mono) blast
    then show ?thesis using Connection_Established by simp
  next
    case (Connection_Failed ep)
    have "safe env K {} U S (ts, C, L) {} N (onConnectionFailed env ep m)" using failed_safe assms(1) Connection_Failed by simp
    then show ?thesis using same [of "Inr (onConnectionFailed env ep m)"] Connection_Failed by simp
  next
    case Close_Manager
    then show ?thesis using same [OF close_job_safe [OF _ N]] assms(1) by simp
  qed (use assms(2) in simp_all)
qed

lemma net_tasks: "net_ok F U (w\<lparr>reactor := (reactor w)\<lparr>rx_tasks := ts\<rparr>\<rparr>) = net_ok F U w"
proof -
  have "reactor_safe ((reactor w)\<lparr>rx_tasks := ts\<rparr>) = reactor_safe (reactor w)" "armed ((reactor w)\<lparr>rx_tasks := ts\<rparr>) = armed (reactor w)"
    by (simp_all add: reactor_safe_def reactor_ok_def armed_def live_def)
  then show ?thesis by (simp add: net_ok_def fired_ok_def watched_def idle_def)
qed

lemma links_tasks:
  assumes "links K U S ((R, ts), C, L) X m"
  shows "links K U S ((R, ts'), C, L) X (m\<lparr>reactor := (reactor m)\<lparr>rx_tasks := ts'\<rparr>\<rparr>)"
proof -
  let ?m = "m\<lparr>reactor := (reactor m)\<lparr>rx_tasks := ts'\<rparr>\<rparr>"
  have same: "queue_of ?m = queue_of m" "pool_ids ?m = pool_ids m" "ids_ok ?m = ids_ok m" by (simp_all add: queue_of_def pool_ids_def ids_ok_def)
  show ?thesis using assms unfolding links_def same by (simp add: loop_of_def)
qed

text \<open>A task is taken from the queue.\<close>

lemma take_safe:
  assumes "safe env K {} (to_register (j # ts)) S ((R, j # ts), C, L) {} N m"
  shows "safe env K {} (set (registers j) \<union> to_register ts) S ((R, ts), C, L) {} N (m\<lparr>reactor := (reactor m)\<lparr>rx_tasks := ts\<rparr>\<rparr>)"
  using assms links_tasks [OF safe_links [OF assms], of ts] safe_net [OF assms] net_tasks [where w = m and ts = ts] by (simp add: fine_def)

lemma drain_tasks_safe:
  assumes "safe env K {} (to_register ts) S ((R, ts), C, L) {} N m" and "tasks_ok ts" and "length ts < n" and "N + length ts < 2 ^ 64"
    and "unat C + L < 2 ^ 64"
  shows "returns (\<lambda>m'. \<exists>C' L'. safe env K {} {} S ((R, []), C', L') {} (N + length ts) m' \<and> unat C' + L' \<le> unat C + L)
    (drainPostedTasks n (run_job env) m)"
  using assms
proof (induction ts arbitrary: n m N C L)
  case Nil
  have "rx_tasks (reactor m) = []" using safe_links [OF Nil.prems(1)] by (simp add: links_def loop_of_def)
  then show ?case using Nil.prems by (cases n) (auto simp: take_task_def)
next
  case (Cons j ts)
  obtain k where n: "n = Suc k" using Cons.prems(3) by (cases n) simp_all
  let ?m = "m\<lparr>reactor := (reactor m)\<lparr>rx_tasks := ts\<rparr>\<rparr>"
  have q: "rx_tasks (reactor m) = j # ts" using safe_links [OF Cons.prems(1)] by (simp add: links_def loop_of_def)
  have j: "posted j" "set (registers j) \<inter> to_register ts = {}" "tasks_ok ts" using Cons.prems(2) by (auto simp: tasks_ok_def)
  have room: "N + 1 < 2 ^ 64" using Cons.prems(4) by simp
  have step: "returns (\<lambda>m'. \<exists>C' L'. safe env K {} (to_register ts) S ((R, ts), C', L') {} (N + 1) m' \<and> unat C' + L' \<le> unat C + L) (run_job env j ?m)"
    by (rule task_safe [OF take_safe [OF Cons.prems(1)] j(1,2) room Cons.prems(5)])
  have "returns (\<lambda>m'. \<exists>C' L'. safe env K {} {} S ((R, []), C', L') {} (N + length (j # ts)) m' \<and> unat C' + L' \<le> unat C + L)
      (net_bind (run_job env j ?m) (drainPostedTasks k (run_job env)))"
  proof (rule returns_bind [OF step], elim exE conjE)
    fix m1 C1 L1 assume m1: "safe env K {} (to_register ts) S ((R, ts), C1, L1) {} (N + 1) m1" "unat C1 + L1 \<le> unat C + L"
    show "returns (\<lambda>m'. \<exists>C' L'. safe env K {} {} S ((R, []), C', L') {} (N + length (j # ts)) m' \<and> unat C' + L' \<le> unat C + L)
        (drainPostedTasks k (run_job env) m1)"
    proof (rule returns_mono [OF Cons.IH [OF m1(1) j(3), of k]])
      fix m' assume "\<exists>C' L'. safe env K {} {} S ((R, []), C', L') {} (N + 1 + length ts) m' \<and> unat C' + L' \<le> unat C1 + L1"
      then obtain C' L' where "safe env K {} {} S ((R, []), C', L') {} (N + 1 + length ts) m'" "unat C' + L' \<le> unat C1 + L1" by blast
      then show "\<exists>C' L'. safe env K {} {} S ((R, []), C', L') {} (N + length (j # ts)) m' \<and> unat C' + L' \<le> unat C + L"
        using m1(2) by (intro exI [of _ C'] exI [of _ L']) (simp add: ac_simps)
    qed (use Cons.prems(3-5) n m1(2) in simp_all)
  qed
  then show ?case using q n by (simp add: take_task_def)
qed

end
