(* ===== verification/Manager_Close.thy ===== *)
theory Manager_Close
  imports Manager_Jobs
begin

text \<open>
  The invariant between the steps of the threads: what the manager and the reactor refer to
  exists. The tasks and events of the reactor's thread, the connector's rounds, a cancellation and \<open>close\<close> return and
  keep it, as long as the 64-bit counters of timers and connections do not wrap around.
\<close>

section \<open>The invariant\<close>

text \<open>Before the next step the ids that it may need are left.\<close>

definition roomy :: "Manager \<Rightarrow> bool" where
  "roomy m \<longleftrightarrow>
     unat (nextTimerId (reactor m)) + length (rx_timers (reactor m)) + length (rx_tasks (reactor m)) + length (connectTasks m) + 3 < 2 ^ 64 \<and>
     unat (nextConnectionId m) + length (submitQueue m) < 2 ^ 64"

definition settled :: "ctx set \<Rightarrow> PendingRequest list \<Rightarrow> Manager \<Rightarrow> bool" where
  "settled K S m \<longleftrightarrow> manager_ok K m \<and> net_ok {} (to_register (rx_tasks (reactor m))) m \<and>
     links K (to_register (rx_tasks (reactor m))) S (loop_of (reactor m), nextConnectionId m, length (submitQueue m)) {} m \<and>
     tasks_ok (rx_tasks (reactor m))"

lemma settled_safe:
  assumes "settled K S m" and "env_ok env"
  shows "safe env K {} (to_register (rx_tasks (reactor m))) S
    ((rx_running (reactor m), rx_tasks (reactor m)), nextConnectionId m, length (submitQueue m)) {} (unat (nextTimerId (reactor m))) m"
  using assms by (simp add: settled_def fine_def loop_of_def)

lemma safe_settled:
  assumes "safe env K {} (to_register ts) S ((R, ts), C, L) {} N m" and "tasks_ok ts"
  shows "settled K S m"
  using assms by (auto simp: settled_def fine_def links_def loop_of_def)

lemma u64_less: "unat (k :: u64) < 2 ^ 64"
  using unsigned_less [of k, where 'a = nat] by simp

lemma settled_tasks: "settled K S m \<Longrightarrow> tasks_ok (rx_tasks (reactor m))"
  by (simp add: settled_def)

lemma settled_returns:
  "returns (safe env K {} (to_register ts) S ((R, ts), C, L) {} N) r \<Longrightarrow> tasks_ok ts \<Longrightarrow> returns (settled K S) r"
  by (erule returns_mono) (erule safe_settled)

lemma settled_started: "settled K S m \<Longrightarrow> startOnce m"
  by (simp add: settled_def links_def)

text \<open>What keeps the reactor's timers and descriptors and the connections.\<close>

lemma settled_frame:
  assumes "settled K S m" and "manager_ok K m'" and "reactor m' = reactor m" and "connections m' = connections m"
    and "requestConnections m' = requestConnections m" and "pools m' = pools m" and "pendingByEndpoint m' = pendingByEndpoint m"
    and "submitQueue m' = submitQueue m" and "connectTasks m' = connectTasks m" and "nextConnectionId m' = nextConnectionId m"
    and "startOnce m' = startOnce m" and "mg_config m' = mg_config m"
  shows "settled K S m'"
  using assms(1,2) links_frame [of K "to_register (rx_tasks (reactor m))" S _ "{}" m m'] net_frame [of "{}" _ m m'] assms(3-)
  by (simp add: settled_def)

section \<open>Posting a task\<close>

lemma tasks_post: "tasks_ok ts \<Longrightarrow> posted j \<Longrightarrow> set (registers j) \<inter> to_register ts = {} \<Longrightarrow> tasks_ok (ts @ [j])"
  by (cases j) (auto simp: tasks_ok_def)

lemma settled_post:
  assumes "settled K S m" and "posted j" and "registers j = []" and "Reactor_post (Some j) (reactor m) = (b, rx)"
  shows "settled K S (m\<lparr>reactor := rx\<rparr>)"
proof (cases b)
  case True
  let ?ts = "rx_tasks (reactor m) @ [j]"
  have rx: "rx = (reactor m)\<lparr>rx_tasks := ?ts\<rparr>" using assms(4) True by (auto simp: Reactor_post_def split: if_splits)
  have "to_register ?ts = to_register (rx_tasks (reactor m))" using assms(3) by simp
  then show ?thesis
    using assms(1-3) tasks_post [of "rx_tasks (reactor m)" j] by (auto simp: settled_def rx net_tasks loop_of_def intro: links_tasks)
next
  case False
  then have "rx = reactor m" using assms(4) by (simp add: Reactor_post_def split: if_splits)
  then show ?thesis using assms(1) by simp
qed

section \<open>The reactor's thread\<close>

lemma live_length: "length (live rx) \<le> length (rx_timers rx)"
  by (simp add: live_def live_in_def)

lemma event_settles:
  assumes "settled K S m" and "env_ok env" and "roomy m"
  shows "returns (settled K S) (dispatch_event (run_job env) e m)"
proof -
  have "unat (nextTimerId (reactor m)) + 2 + length (live (reactor m)) < 2 ^ 64"
    using assms(3) live_length [of "reactor m"] by (simp add: roomy_def)
  from settled_returns [OF poll_event_safe [OF settled_safe [OF assms(1,2)] this] settled_tasks [OF assms(1)]] show ?thesis .
qed

lemma task_settles:
  assumes "settled K S m" and "env_ok env" and "roomy m" and "take_task (reactor m) = Some (j, rx)"
  shows "returns (settled K S) (run_job env j (m\<lparr>reactor := rx\<rparr>))"
proof -
  obtain ts where ts: "rx_tasks (reactor m) = j # ts" "rx = (reactor m)\<lparr>rx_tasks := ts\<rparr>"
    using assms(4) by (auto simp: take_task_def split: list.splits)
  have t: "tasks_ok (j # ts)" using assms(1) ts(1) by (simp add: settled_def)
  then have j: "posted j" "set (registers j) \<inter> to_register ts = {}" "tasks_ok ts" by (auto simp: tasks_ok_def)
  have N: "unat (nextTimerId (reactor m)) + 1 < 2 ^ 64" "unat (nextConnectionId m) + length (submitQueue m) < 2 ^ 64"
    using assms(3) by (simp_all add: roomy_def)
  note start = take_safe [OF settled_safe [OF assms(1,2), unfolded ts(1)]]
  show ?thesis unfolding ts(2)
    by (rule returns_mono [OF task_safe [OF start j(1,2) N]]) (elim exE conjE, erule safe_settled, rule j(3))
qed

section \<open>The users' threads\<close>

lemma cancel_settles:
  assumes "settled K S m" and "env_ok env"
  shows "returns (\<lambda>(b, m'). settled K S m') (cancel_operation env c m)"
proof -
  obtain b1 rc handler where r: "RequestContext_cancel (ctxs m c) = (b1, rc, handler)" by (cases "RequestContext_cancel (ctxs m c)")
  let ?m = "update_context c (\<lambda>_. rc) m"
  have ok: "manager_ok K m" using assms(1) by (simp add: settled_def)
  have set_context: "settled K S (update_context d f m')" if "settled K S m'" "manager_ok K (update_context d f m')" for d f m'
    by (rule settled_frame [OF that]) (simp_all add: update_context_def)
  have m: "settled K S ?m" by (rule set_context [OF assms(1)]) (rule context_cancel_ok [OF ok r])
  have "returns (\<lambda>(b, m'). settled K S m') (Manager_cancel env k ?m)" for k
  proof (cases "findContext k ?m = None \<or> (\<exists>d. findContext k ?m = Some d \<and> finished_of d ?m)")
    case True
    then show ?thesis using m by (auto simp: Manager_cancel_def)
  next
    case False
    then obtain d where d: "findContext k ?m = Some d" "\<not> finished_of d ?m" by auto
    let ?c = "update_context d (snd \<circ> markCanceled) ?m"
    have c: "settled K S ?c" by (rule set_context [OF m]) (use m mark_ok in \<open>simp add: settled_def\<close>)
    obtain b rx where post: "Reactor_post (Some (Cancel_Request k)) (reactor ?c) = (b, rx)" by fastforce
    have p: "settled K S (?c\<lparr>reactor := rx\<rparr>)" by (rule settled_post [OF c _ _ post]) simp_all
    have "returns (settled K S) (handleCancelOnReactor env k (?c\<lparr>reactor := rx\<rparr>))"
      by (rule settled_returns [OF cancel_job_safe [OF settled_safe [OF p assms(2)] u64_less] settled_tasks [OF p]])
    then have "returns (\<lambda>(b, m'). settled K S m') (net_bind (handleCancelOnReactor env k (?c\<lparr>reactor := rx\<rparr>)) (\<lambda>m. Inr (True, m)))"
      by (rule returns_bind) simp
    then show ?thesis using d post p by (simp add: Manager_cancel_def Let_def)
  qed
  then show ?thesis using r m
    by (auto simp: cancel_operation_def Let_def split: option.splits intro!: returns_bind [of "\<lambda>(b, m'). settled K S m'"])
qed

lemma callback_settles:
  assumes "settled K S m" and "dispatch_callback m = Some m'"
  shows "settled K S m'"
proof -
  obtain c response d where "m' = call_back c response (m\<lparr>callbackDispatcher := d\<rparr>)"
    using assms(2) by (auto simp: dispatch_callback_def split: prod.splits loop_round.splits)
  moreover have "manager_ok K m'" by (rule callback_ok [OF _ assms(2)]) (use assms(1) in \<open>simp add: settled_def\<close>)
  ultimately show ?thesis by (intro settled_frame [OF assms(1)]) (simp_all add: call_back_def)
qed

section \<open>The connector's thread\<close>

lemma connect_made:
  assumes "config_ok cfg" and "Connection_connect connector w (Connection_new cid ep cfg) = (True, cn)"
  shows "session_ok (cn_session cn)" and "\<not> pendingPing cn"
proof -
  let ?c = "Connection_new cid ep cfg"
  obtain ok s where s: "Session_start connector w (Http2Session_new ep cfg) = (ok, s)" by fastforce
  then have "ok" and cn: "cn_session cn = s" "pendingPing cn = pendingPing ?c"
    using assms(2) by (auto simp: Connection_connect_def Connection_new_def Let_def split: if_splits)
  then show "session_ok (cn_session cn)" using start_ok(1) [OF assms(1)] s by simp
  show "\<not> pendingPing cn" using cn(2) by (simp add: Connection_new_def)
qed

lemma net_new:
  assumes "net_ok {} U w" and "connections w cid = None" and "session_ok (cn_session cn)" and "\<not> pendingPing cn"
  shows "net_ok {} (insert cid U) (put_connection cid cn w)"
proof -
  let ?cs = "(connections w)(cid \<mapsto> cn)"
  have old: "reactor_safe (reactor w)" "fired_ok {} (reactor w)" "\<forall>p\<in>armed (reactor w). owned (connections w) True p"
    "watched (connections w) (reactor w)" "\<forall>c d. connections w c = Some d \<longrightarrow> session_ok (cn_session d)"
    "\<forall>c\<in>U. \<exists>d. connections w c = Some d \<and> idle {} (reactor w) c d" using assms(1) by (simp_all add: net_ok_def)
  have other: "of_ping (snd p) \<noteq> Some cid" if "p \<in> armed (reactor w)" for p
    using bspec [OF old(3) that] assms(2) by (auto simp: owned_def)
  have owned: "owned ?cs True p" if "p \<in> armed (reactor w)" for p
    using bspec [OF old(3) that] other [OF that] by (auto simp: owned_def split: option.splits)
  have reads: "fd_read fc \<noteq> Session_Readable cid" if "rx_fds (reactor w) fd = Some fc" for fd fc
    using watchedE [OF old(4) that] assms(2) by (metis job.inject(1) option.distinct(1))
  have "watched ?cs (reactor w)" unfolding watched_def
  proof (intro allI impI)
    fix fd fc assume fc: "rx_fds (reactor w) fd = Some fc"
    obtain c d where c: "fd_read fc = Session_Readable c" "fd_write fc = Some (Session_Writable c)" "connections w c = Some d"
      "connected d" "sessionFd d = fd" "fd \<noteq> INVALID_SOCKET" by (rule watchedE [OF old(4) fc])
    then have "c \<noteq> cid" using assms(2) by auto
    then show "\<exists>c d. fd_read fc = Session_Readable c \<and> fd_write fc = Some (Session_Writable c) \<and> ?cs c = Some d \<and> connected d \<and>
        sessionFd d = fd \<and> fd \<noteq> INVALID_SOCKET" using c by (intro exI [of _ c] exI [of _ d]) simp
  qed
  moreover have "\<exists>d. ?cs c = Some d \<and> idle {} (reactor w) c d" if "c \<in> insert cid U" for c
  proof (cases "c = cid")
    case True
    then show ?thesis using other reads assms(4) by (simp add: idle_def)
  next
    case False
    then show ?thesis using old(6) that by simp
  qed
  ultimately show ?thesis using old(1,2,5) owned assms(3) by (simp add: net_ok_def put_connection_def)
qed

lemma links_new:
  assumes "links K U S T {} m" and "connections m cid = None" and "cid \<notin> pool_ids m" and "cid < nextConnectionId m"
    and "cid \<notin> ct_connId ` set (connectTasks m)"
  shows "links K (insert cid U) S T {} (put_connection cid cn m)"
proof -
  let ?m = "put_connection cid cn m"
  have same: "queue_of ?m = queue_of m" "pool_ids ?m = pool_ids m" by (simp_all add: queue_of_def pool_ids_def put_connection_def)
  have "ids_ok m" using assms(1) by (simp add: links_def)
  then have "ids_ok ?m" using assms(4,5) unfolding ids_ok_def same by (auto simp: put_connection_def)
  moreover have "unat k \<in> K \<and> c \<notin> insert cid U \<and> (\<exists>d. connections ?m c = Some d \<and> (connected d \<or> c \<in> {}))"
    if r: "requestConnections m k = Some c" for k c
  proof -
    obtain d where d: "c \<notin> U" "connections m c = Some d" "connected d \<or> c \<in> {}" "unat k \<in> K" by (rule links_target [OF assms(1) r])
    then have "c \<noteq> cid" using assms(2) by auto
    then show ?thesis using d by (simp add: put_connection_def)
  qed
  ultimately show ?thesis using assms(1,3) unfolding links_def same by (auto simp: put_connection_def)
qed

lemma settled_next:
  assumes "settled K S m" and "connectTasks m = task # tasks"
  shows "settled K S (m\<lparr>connectTasks := tasks\<rparr>)" and "connections m (ct_connId task) = None" and "ct_connId task \<notin> pool_ids m"
    and "ct_connId task < nextConnectionId m" and "ct_connId task \<notin> ct_connId ` set tasks"
proof -
  let ?m = "m\<lparr>connectTasks := tasks\<rparr>"
  have same: "queue_of ?m = queue_of m" "pool_ids ?m = pool_ids m" by (simp_all add: queue_of_def pool_ids_def)
  have i: "ids_ok m" using assms(1) by (simp add: settled_def links_def)
  then show "connections m (ct_connId task) = None" "ct_connId task \<notin> pool_ids m" "ct_connId task < nextConnectionId m"
    "ct_connId task \<notin> ct_connId ` set tasks" using assms(2) by (auto simp: ids_ok_def)
  have "ids_ok ?m" using i assms(2) unfolding ids_ok_def same by simp
  then have "links K U S T {} m \<Longrightarrow> links K U S T {} ?m" for U T unfolding links_def same by simp
  then show "settled K S ?m" using assms(1) net_frame [of "{}" _ m ?m] by (simp add: settled_def)
qed

lemma connector_settles:
  assumes "settled K S m" and "connectorLoop_round connector w m = Some m'"
  shows "settled K S m'" and "nextTimerId (reactor m') = nextTimerId (reactor m)" and "nextConnectionId m' = nextConnectionId m"
    and "submitQueue m' = submitQueue m" and "rx_running (reactor m') = rx_running (reactor m)"
    and "length (rx_tasks (reactor m')) + length (connectTasks m') \<le> length (rx_tasks (reactor m)) + length (connectTasks m)"
    and "length (connectTasks m) = Suc (length (connectTasks m'))"
proof -
  obtain task tasks where q: "connectTasks m = task # tasks" using assms(2) by (auto simp: connectorLoop_round_def split: list.splits)
  let ?ep = "ct_endpoint task" and ?cid = "ct_connId task" and ?m = "m\<lparr>connectTasks := tasks\<rparr>"
  obtain ok cn where made: "Connection_connect connector w (Connection_new ?cid ?ep (mg_config m)) = (ok, cn)" by fastforce
  let ?j = "if ok then Connection_Established ?ep ?cid else Connection_Failed ?ep"
  obtain b rx where post: "Reactor_post (Some ?j) (reactor m) = (b, rx)" by fastforce
  have m': "m' = (if ok \<and> b then put_connection ?cid cn (?m\<lparr>reactor := rx\<rparr>) else ?m\<lparr>reactor := rx\<rparr>)"
    using assms(2) q made post by (simp add: connectorLoop_round_def Let_def)
  have rx: "rx = (if b then (reactor m)\<lparr>rx_tasks := rx_tasks (reactor m) @ [?j]\<rparr> else reactor m)"
    using post by (simp add: Reactor_post_def split: if_splits)
  show "nextTimerId (reactor m') = nextTimerId (reactor m)" "nextConnectionId m' = nextConnectionId m"
    "submitQueue m' = submitQueue m" "rx_running (reactor m') = rx_running (reactor m)" "length (connectTasks m) = Suc (length (connectTasks m'))"
    "length (rx_tasks (reactor m')) + length (connectTasks m') \<le> length (rx_tasks (reactor m)) + length (connectTasks m)"
    by (simp_all add: m' rx put_connection_def q)
  note now_ok = settled_next [OF assms(1) q]
  show "settled K S m'"
  proof (cases "ok \<and> b")
    case True
    let ?ts = "rx_tasks (reactor m)" and ?R = "rx_running (reactor m)" and ?j = "Connection_Established ?ep ?cid"
    have eq: "m' = put_connection ?cid cn (?m\<lparr>reactor := (reactor ?m)\<lparr>rx_tasks := ?ts @ [?j]\<rparr>\<rparr>)" (is "_ = put_connection _ _ ?w")
      using m' rx True by simp
    have net: "net_ok {} (to_register ?ts) ?w" using now_ok(1) net_tasks [where w = ?m and ts = "?ts @ [?j]"] by (simp add: settled_def del: set_concat)
    have links: "links K (to_register ?ts) S ((?R, ?ts @ [?j]), nextConnectionId m, length (submitQueue m)) {} ?w"
    proof (rule links_tasks)
      show "links K (to_register ?ts) S ((?R, ?ts), nextConnectionId m, length (submitQueue m)) {} ?m"
        using now_ok(1) by (simp add: settled_def loop_of_def del: set_concat)
    qed
    have "\<exists>d. connections m c = Some d" if "c \<in> to_register ?ts" for c
      using assms(1) that unfolding settled_def net_ok_def by blast
    then have new: "?cid \<notin> to_register ?ts" using now_ok(2) by (metis option.distinct(1))
    have "config_ok (mg_config m)" using links by (simp add: links_def)
    from connect_made [OF this, of connector w ?cid ?ep cn] have cn: "session_ok (cn_session cn)" "\<not> pendingPing cn"
      using made True by simp_all
    have "to_register (?ts @ [?j]) = insert ?cid (to_register ?ts)" by simp
    moreover have "net_ok {} (insert ?cid (to_register ?ts)) m'"
      unfolding eq by (rule net_new [OF net]) (use now_ok(2) cn in simp_all)
    moreover have "links K (insert ?cid (to_register ?ts)) S ((?R, ?ts @ [?j]), nextConnectionId m, length (submitQueue m)) {} m'"
      unfolding eq by (rule links_new [OF links]) (use now_ok in \<open>simp_all add: pool_ids_def\<close>)
    moreover have "tasks_ok (?ts @ [?j])" using tasks_post settled_tasks [OF assms(1)] new by simp
    moreover have "manager_ok K m'" by (rule connector_round_ok [OF _ assms(2)]) (use assms(1) in \<open>simp add: settled_def\<close>)
    ultimately show ?thesis by (simp add: settled_def eq put_connection_def loop_of_def del: set_concat)
  next
    case False
    then have "settled K S (?m\<lparr>reactor := rx\<rparr>)"
      using settled_post [OF now_ok(1), of ?j b rx] post now_ok(1) rx by (cases ok) simp_all
    then show ?thesis using m' False by simp
  qed
qed

text \<open>While the connector makes the last connections, the reactor's timers and the queues stay.\<close>

definition same_rest :: "Manager \<Rightarrow> Manager \<Rightarrow> bool" where
  "same_rest m m' \<longleftrightarrow> nextTimerId (reactor m') = nextTimerId (reactor m) \<and> nextConnectionId m' = nextConnectionId m \<and>
     submitQueue m' = submitQueue m \<and>
     length (rx_tasks (reactor m')) \<le> length (rx_tasks (reactor m)) + length (connectTasks m)"

lemma connector_end_settles:
  "settled K S m \<Longrightarrow> length (connectTasks m) \<le> length results \<Longrightarrow>
   returns (\<lambda>m'. settled K S m' \<and> same_rest m m') (connectorLoop_to_end results m)"
proof (induction results arbitrary: m)
  case Nil
  then have "manager_ok K m" by (simp add: settled_def)
  then have "settled K S (m\<lparr>connectorThread := False\<rparr>)" by (intro settled_frame [OF Nil.prems(1)]) simp_all
  then show ?case using Nil by (simp add: connectorLoop_to_end.simps same_rest_def)
next
  case (Cons a results)
  obtain connector w where a: "a = (connector, w)" by fastforce
  show ?case
  proof (cases "connectTasks m = []")
    case True
    have "manager_ok K m" using Cons.prems(1) by (simp add: settled_def)
    then have "settled K S (m\<lparr>connectorThread := False\<rparr>)" by (intro settled_frame [OF Cons.prems(1)]) simp_all
    then show ?thesis using True by (simp add: connectorLoop_to_end.simps same_rest_def)
  next
    case False
    then obtain m1 where m1: "connectorLoop_round connector w m = Some m1"
      by (auto simp: connectorLoop_round_def Let_def case_prod_unfold neq_Nil_conv)
    note r = connector_settles [OF Cons.prems(1) m1]
    have "returns (\<lambda>m'. settled K S m' \<and> same_rest m1 m') (connectorLoop_to_end results m1)"
      by (rule Cons.IH [OF r(1)]) (use r(7) Cons.prems(2) in simp)
    then have "returns (\<lambda>m'. settled K S m' \<and> same_rest m m') (connectorLoop_to_end results m1)"
      by (rule returns_mono) (use r in \<open>auto simp: same_rest_def\<close>)
    then show ?thesis using False m1 unfolding a by (simp add: connectorLoop_to_end.simps [of "(connector, w) # results" m])
  qed
qed

section \<open>Closing\<close>

text \<open>A stopped reactor has no timers, descriptors or tasks.\<close>

section \<open>Closing\<close>

text \<open>A reactor that has been stopped has no timers, descriptors or tasks.\<close>

lemma reactor_stopped:
  assumes "reactor_safe rx" and "\<not> rx_running rx"
  shows "reactor_safe (Reactor_stop_finish (rx\<lparr>rx_worker := w\<rparr>))"
  using assms by (auto simp: reactor_safe_def reactor_ok_def Reactor_stop_finish_def teardownPlatformPrimitives_def timers_wf_def)

lemma safe_stop:
  assumes "safe env K {} U S ((False, ts), C, L) {} N m"
  shows "settled K S (m\<lparr>reactor := Reactor_stop_finish ((reactor m)\<lparr>rx_worker := w\<rparr>)\<rparr>)" (is "settled K S ?m")
proof -
  let ?rx = "reactor ?m"
  have run: "rx_running (reactor m) = False" using safe_links [OF assms] by (simp add: links_def loop_of_def)
  have rx: "rx_fds ?rx = Map.empty" "loop_of ?rx = (False, [])" "armed ?rx = {}" "nextTimerId ?rx = nextTimerId (reactor m)"
    by (auto simp: Reactor_stop_finish_def teardownPlatformPrimitives_def armed_def live_def live_in_def loop_of_def run)
  have "reactor_safe (reactor m)" using safe_net [OF assms] by (simp add: net_ok_def)
  then have "reactor_safe ?rx" using reactor_stopped run by simp
  then have "net_ok {} {} ?m"
    using safe_net [OF assms] rx by (simp add: net_ok_def fired_ok_def watched_def)
  moreover have "links K {} S ((False, []), C, L) {} ?m"
  proof -
    have same: "queue_of ?m = queue_of m" "pool_ids ?m = pool_ids m" "ids_ok ?m = ids_ok m" by (simp_all add: queue_of_def pool_ids_def ids_ok_def)
    show ?thesis using links_fewer [OF safe_links [OF assms], of "{}"] rx(2) unfolding links_def same by simp
  qed
  ultimately have "safe env K {} (to_register []) S ((False, []), C, L) {} N ?m" using assms rx(4) by (simp add: fine_def)
  then show ?thesis by (rule safe_settled) (simp add: tasks_ok_def)
qed

lemma stop_settles:
  assumes "settled K S m" and "env_ok env" and "length (rx_tasks (reactor m)) < n"
    and "unat (nextTimerId (reactor m)) + length (rx_tasks (reactor m)) < 2 ^ 64" and "unat (nextConnectionId m) + length (submitQueue m) < 2 ^ 64"
  shows "returns (settled K S) (stop_reactor n env m)"
proof (cases "rx_running (reactor m)")
  case False
  then show ?thesis using assms(1) by (simp add: stop_reactor_def)
next
  case True
  let ?rx = "(reactor m)\<lparr>rx_running := False\<rparr>"
  let ?m = "m\<lparr>reactor := ?rx\<rparr>" and ?ts = "rx_tasks (reactor m)"
  let ?T = "((False, ?ts), nextConnectionId m, length (submitQueue m))"
  let ?stopped = "\<lambda>m'. settled K S (m'\<lparr>reactor := Reactor_stop_finish (reactor m')\<rparr>)"
  have same: "queue_of ?m = queue_of m" "pool_ids ?m = pool_ids m" "ids_ok ?m = ids_ok m" by (simp_all add: queue_of_def pool_ids_def ids_ok_def)
  have old: "manager_ok K m" "net_ok {} (to_register ?ts) m" "links K (to_register ?ts) S (loop_of (reactor m), nextConnectionId m, length (submitQueue m)) {} m"
    "tasks_ok ?ts" using assms(1) by (simp_all add: settled_def)
  have l: "links K (to_register ?ts) S ?T {} ?m" using old(3) unfolding links_def same by (simp add: loop_of_def)
  have "reactor_safe ?rx" "armed ?rx = armed (reactor m)"
    using old(2) by (auto simp: net_ok_def reactor_safe_def reactor_ok_def armed_def live_def)
  then have "net_ok {} (to_register ?ts) ?m" using old(2) by (simp add: net_ok_def fired_ok_def watched_def idle_def)
  then have start: "safe env K {} (to_register ?ts) S ?T {} (unat (nextTimerId (reactor m))) ?m"
    using old(1) l assms(2) by (simp add: fine_def)
  have left: "?stopped (leave_loop m') \<and> ?stopped m'" if "safe env K {} U S ((False, ts), C, L) {} N m'" for U ts C L N m'
    using safe_stop [OF that, of False] safe_stop [OF that, of "rx_worker (reactor m')"] by simp
  have "returns ?stopped (if rx_worker ?rx then runLoop n (run_job env) [] ?m else Inr ?m)"
  proof (cases "rx_worker ?rx")
    case True
    have loop: "runLoop n (run_job env) [] ?m = net_bind (drainPostedTasks n (run_job env) ?m) (\<lambda>w. Inr (leave_loop w))"
      by (subst runLoop.simps) simp
    have "returns ?stopped (runLoop n (run_job env) [] ?m)" unfolding loop
      by (rule returns_bind [OF drain_tasks_safe [OF start old(4) assms(3-5)]], elim exE conjE) (simp only: returns_Inr left)
    then show ?thesis using True by simp
  next
    case False
    then show ?thesis using left [OF start] by simp
  qed
  then have "returns (settled K S) (net_bind (if rx_worker ?rx then runLoop n (run_job env) [] ?m else Inr ?m)
      (\<lambda>m. Inr (m\<lparr>reactor := Reactor_stop_finish (reactor m)\<rparr>)))" by (rule returns_bind) (simp only: returns_Inr)
  then show ?thesis using True by (simp add: stop_reactor_def Reactor_stop_request_def)
qed

lemma settled_complete_all:
  assumes "settled K S m" and "env_ok env" and "set cs \<subseteq> K"
  shows "settled K S (complete_all env cs response m)"
  by (rule safe_settled [OF safe_complete_all [OF settled_safe [OF assms(1,2)] assms(3)] settled_tasks [OF assms(1)]])

lemma settled_queue:
  assumes "settled K S m"
  shows "settled K S (m\<lparr>submitQueue := []\<rparr>)"
proof -
  let ?m = "m\<lparr>submitQueue := []\<rparr>"
  have m: "manager_ok K m" "links K (to_register (rx_tasks (reactor m))) S (loop_of (reactor m), nextConnectionId m, length (submitQueue m)) {} m"
    using assms by (simp_all add: settled_def)
  have "links K (to_register (rx_tasks (reactor m))) S (loop_of (reactor m), nextConnectionId m, length (submitQueue m)) {} ?m"
    using links_unique [OF m(2)] by (intro links_queue [OF m(2)]) (simp_all add: queue_of_def)
  then have "links K (to_register (rx_tasks (reactor m))) S (loop_of (reactor m), nextConnectionId m, 0) {} ?m" by (simp add: links_def)
  then show ?thesis using assms manager_queue [OF m(1), of "[]"] net_frame [of "{}" _ m ?m] by (simp add: settled_def)
qed

lemma fail_settles:
  assumes "settled K S m" and "env_ok env"
  shows "settled K S (failAllContexts env response (failQueuedRequests env response m))"
proof -
  have m: "manager_ok K m" using assms(1) by (simp add: settled_def)
  then have "set (map pr_context (submitQueue m)) \<subseteq> K" using manager_refs(1) [OF m] by (simp add: queue_in_def)
  then have q: "settled K S (failQueuedRequests env response m)"
    using settled_complete_all [OF settled_queue [OF assms(1)] assms(2)] by (simp add: failQueuedRequests_def)
  then have "manager_ok K (failQueuedRequests env response m)" by (simp add: settled_def)
  then have "set (map snd (contexts (failQueuedRequests env response m))) \<subseteq> K" using table_known by fastforce
  then show ?thesis using settled_complete_all [OF q assms(2)] by (simp add: failAllContexts_def)
qed

lemma dispatcher_settles:
  assumes "settled K S m"
  shows "returns (settled K S) (stop_dispatcher m)"
proof (cases "stop_dispatcher m")
  case (Inl a)
  then show ?thesis by (cases "CallbackDispatcher_stop False (callbackDispatcher m)") (auto simp: stop_dispatcher_def)
next
  case (Inr m')
  have m: "manager_ok K m" using assms by (simp add: settled_def)
  then have "threads_ok m" by (simp add: manager_ok_def requests_ok_def)
  then obtain d cs where "m' = m\<lparr>callbackDispatcher := d, called := cs\<rparr>" using stop_dispatcher_result(4) [OF Inr] by blast
  moreover have "manager_ok K m'" by (rule stop_dispatcher_ok [OF m Inr])
  ultimately show ?thesis using Inr by (simp add: settled_frame [OF assms])
qed

text \<open>The answers of the network for the connections that are still to be made, and steps for the tasks.\<close>

abbreviation enough :: "nat \<Rightarrow> 'a list \<Rightarrow> Manager \<Rightarrow> bool" where
  "enough n results m \<equiv> length (connectTasks m) \<le> length results \<and> length (rx_tasks (reactor m)) + length (connectTasks m) + 1 < n"

lemma close_settles:
  assumes "settled K S m" and "env_ok env" and "roomy m" and "enough n results m"
  shows "returns (settled K S) (Manager_close n results env m)"
proof -
  let ?m = "m\<lparr>connectorStop := True\<rparr>"
  have m: "manager_ok K m" using assms(1) by (simp add: settled_def)
  have stop: "settled K S ?m" using m by (intro settled_frame [OF assms(1)]) simp_all
  have same: "same_rest ?m m' = same_rest m m'" for m' by (simp add: same_rest_def)
  have "returns (\<lambda>m'. settled K S m' \<and> same_rest m m') (if connectorThread ?m then connectorLoop_to_end results ?m else Inr ?m)"
    using connector_end_settles [OF stop] stop assms(4) by (simp add: same) (simp add: same_rest_def)
  moreover have "returns (settled K S)
      (net_bind (stop_reactor n env (if rx_running (reactor ma) then ma\<lparr>reactor := snd (Reactor_post (Some Close_Manager) (reactor ma))\<rparr> else ma))
        (\<lambda>m. net_bind (stop_dispatcher m) (\<lambda>m.
          let closed = failConnectionError ''Connection closed'' in Inr (failAllContexts env closed (failQueuedRequests env closed m)))))"
    if ma: "settled K S ma \<and> same_rest m ma" for ma
  proof (rule returns_bind [of "settled K S"])
    let ?b = "if rx_running (reactor ma) then ma\<lparr>reactor := snd (Reactor_post (Some Close_Manager) (reactor ma))\<rparr> else ma"
    have "settled K S (ma\<lparr>reactor := snd (Reactor_post (Some Close_Manager) (reactor ma))\<rparr>)"
      by (rule settled_post [of _ _ _ Close_Manager "fst (Reactor_post (Some Close_Manager) (reactor ma))"]) (use ma in simp_all)
    then have b: "settled K S ?b" using ma by simp
    have "nextTimerId (reactor ?b) = nextTimerId (reactor m)" "nextConnectionId ?b = nextConnectionId m" "submitQueue ?b = submitQueue m"
      "length (rx_tasks (reactor ?b)) \<le> length (rx_tasks (reactor m)) + length (connectTasks m) + 1"
      using ma by (auto simp: same_rest_def Reactor_post_def)
    then show "returns (settled K S) (stop_reactor n env ?b)"
      using assms(3,4) by (intro stop_settles [OF b assms(2)]) (simp_all add: roomy_def)
  next
    fix mb assume "settled K S mb"
    from dispatcher_settles [OF this] show "returns (settled K S) (net_bind (stop_dispatcher mb) (\<lambda>m.
        let closed = failConnectionError ''Connection closed'' in Inr (failAllContexts env closed (failQueuedRequests env closed m))))"
      by (rule returns_bind) (simp add: Let_def fail_settles assms(2))
  qed
  ultimately show ?thesis unfolding Manager_close_def Let_def by (rule returns_bind)
qed

text \<open>More steps and more answers do not change a result.\<close>

lemma drain_more: "drainPostedTasks n run w = Inr w' \<Longrightarrow> n \<le> n' \<Longrightarrow> drainPostedTasks n' run w = Inr w'"
proof (induction n arbitrary: n' w)
  case (Suc n)
  then obtain k where k: "n' = Suc k" "n \<le> k" by (cases n') simp_all
  then show ?case using Suc.prems(1) Suc.IH [OF _ k(2)] by (auto simp: net_simps split: option.splits)
qed simp

lemma connector_more: "connectorLoop_to_end results m = Inr m' \<Longrightarrow> connectorLoop_to_end (results @ extra) m = Inr m'"
proof (induction results arbitrary: m)
  case Nil
  then show ?case by (simp add: connectorLoop_to_end.simps split: if_splits)
next
  case (Cons a results)
  then show ?case by (cases a) (simp add: connectorLoop_to_end.simps [of "_ # _"] split: if_splits option.splits)
qed

lemma close_more:
  assumes "Manager_close n results env m = Inr m'" and "n \<le> n'"
  shows "Manager_close n' (results @ extra) env m = Inr m'"
proof -
  have loop: "runLoop n' (run_job env) [] w = Inr w'" if "runLoop n (run_job env) [] w = Inr w'" for w w'
    using that drain_more [OF _ assms(2)] by (fastforce simp: runLoop.simps [of _ _ "[]"] net_simps split: if_splits)
  have stop: "stop_reactor n' env w = Inr w'" if s: "stop_reactor n env w = Inr w'" for w w'
  proof (cases "rx_running (reactor w)")
    case True
    then obtain w1 where "(if rx_worker (reactor w) then runLoop n (run_job env) [] (w\<lparr>reactor := (reactor w)\<lparr>rx_running := False\<rparr>\<rparr>)
        else Inr (w\<lparr>reactor := (reactor w)\<lparr>rx_running := False\<rparr>\<rparr>)) = Inr w1" "w' = w1\<lparr>reactor := Reactor_stop_finish (reactor w1)\<rparr>"
      using s by (auto simp: stop_reactor_def Reactor_stop_request_def net_simps)
    then show ?thesis using True loop by (auto simp: stop_reactor_def Reactor_stop_request_def split: if_splits)
  qed (use s in \<open>simp add: stop_reactor_def\<close>)
  show ?thesis using assms(1) connector_more stop by (auto simp: Manager_close_def Let_def net_simps split: if_splits)
qed

end
