(* ===== verification/Manager_Live.thy ===== *)
theory Manager_Live
  imports Manager_Close
begin

text \<open>
  The invariant of the whole client: every step of every thread keeps it, from the first request, which starts the
  threads, to the last.
\<close>

section \<open>The invariant\<close>

definition bounded_step :: "Manager \<times> PendingRequest list \<Rightarrow> manager_label \<Rightarrow> Manager \<times> PendingRequest list \<Rightarrow> bool" where
  "bounded_step s l s' \<longleftrightarrow> roomy (fst s) \<and> manager_step s l s'"

text \<open>Until the first request nothing has been started and nothing waits.\<close>

definition unstarted :: "PendingRequest list \<Rightarrow> Manager \<Rightarrow> bool" where
  "unstarted S m \<longleftrightarrow> reactor m = Reactor_new \<and> contexts m = [] \<and> submitQueue m = [] \<and> connectTasks m = [] \<and> S = []"

definition sound :: "Manager \<times> PendingRequest list \<Rightarrow> bool" where
  "sound s \<longleftrightarrow> (case s of (m, S) \<Rightarrow> system_ok (m, S) \<and> settled (known m) S (m\<lparr>startOnce := True\<rparr>) \<and> (startOnce m \<or> unstarted S m))"

lemma startOnce_same: "startOnce m \<Longrightarrow> m\<lparr>startOnce := True\<rparr> = (m :: Manager)"
  by (cases m) simp

lemma sound_settled: "sound (m, S) \<Longrightarrow> startOnce m \<Longrightarrow> settled (known m) S m"
  by (simp add: sound_def startOnce_same)

lemma settled_sound:
  assumes "settled K S m'" and "queue_in K S" and "startOnce m'"
  shows "sound (m', S)"
proof -
  have k: "manager_ok K m'" using assms(1) by (simp add: settled_def)
  from ok_known [OF k] show ?thesis using assms k by (simp add: sound_def system_ok_def startOnce_same)
qed

lemma sound_system: "sound s \<Longrightarrow> system_ok s"
  by (cases s) (simp add: sound_def)

lemma sound_queue: "sound (m, S) \<Longrightarrow> queue_in (known m) S"
  by (simp add: sound_def system_ok_def)

section \<open>Sending\<close>

text \<open>The part of the invariant that is not about the requests' contexts.\<close>

definition linked :: "ctx set \<Rightarrow> PendingRequest list \<Rightarrow> Manager \<Rightarrow> bool" where
  "linked K S m \<longleftrightarrow> net_ok {} (to_register (rx_tasks (reactor m))) m \<and>
     links K (to_register (rx_tasks (reactor m))) S (loop_of (reactor m), nextConnectionId m, length (submitQueue m)) {} m \<and>
     tasks_ok (rx_tasks (reactor m))"

lemma settled_linked: "settled K S m \<longleftrightarrow> manager_ok K m \<and> linked K S m"
  by (simp add: settled_def linked_def)

lemma linked_frame:
  assumes "linked K S m" and "reactor m' = reactor m" and "connections m' = connections m"
    and "requestConnections m' = requestConnections m" and "pools m' = pools m" and "pendingByEndpoint m' = pendingByEndpoint m"
    and "submitQueue m' = submitQueue m" and "connectTasks m' = connectTasks m" and "nextConnectionId m' = nextConnectionId m"
    and "startOnce m' = startOnce m" and "mg_config m' = mg_config m"
  shows "linked K S m'"
  using assms(1) links_frame [of K "to_register (rx_tasks (reactor m))" S _ "{}" m m'] net_frame [of "{}" _ m m'] assms(2-)
  by (simp add: linked_def)

lemma linked_complete:
  assumes "linked K S m"
  shows "linked K S (completeRequest env c response m)"
proof -
  let ?m = "completeRequest env c response m"
  have m: "net_ok {} (to_register (rx_tasks (reactor m))) m" using assms by (simp add: linked_def)
  note c = complete_safe [OF m, of env c response] complete_links [OF m, where env = env and c = c and response = response]
  then show ?thesis using assms by (simp add: linked_def loop_of_def)
qed

lemma linked_schedule:
  assumes "linked K S m" and "nextTimerId (reactor m) \<noteq> -1"
    and s: "scheduleOnce before now now' ms (Some (Request_Timeout k)) (reactor m) = (tid, rx)"
  shows "linked K S (m\<lparr>reactor := rx\<rparr>)"
proof -
  let ?m = "m\<lparr>reactor := rx\<rparr>" and ?U = "to_register (rx_tasks (reactor m))"
  have m: "net_ok {} ?U m" "links K ?U S (loop_of (reactor m), nextConnectionId m, length (submitQueue m)) {} m"
    "tasks_ok (rx_tasks (reactor m))" using assms(1) by (simp_all add: linked_def)
  have rs: "reactor_safe (reactor m)" using m(1) by (simp add: net_ok_def)
  note sch = schedule_safe(1,2) [OF rs assms(2) s] armed_schedule [OF rs assms(2) s]
  have loop: "loop_of rx = loop_of (reactor m)" "rx_fds rx = rx_fds (reactor m)" "rx_tasks rx = rx_tasks (reactor m)"
    using sch(2) by (simp_all add: same_watch_def loop_of_def)
  have "owned (connections m) True p" if "p \<in> armed rx" for p
    using sch(3) [OF that] m(1) by (auto simp: net_ok_def owned_def)
  moreover have "idle {} rx cid cn" if i: "idle {} (reactor m) cid cn" for cid cn
    using i sch(3) by (fastforce simp: idle_def loop(2))
  moreover have "watched (connections m) rx" using m(1) by (simp add: net_ok_def watched_def loop(2))
  ultimately have "net_ok {} ?U ?m" using m(1) sch(1) unfolding net_ok_def fired_ok_def by fastforce
  moreover have "links K ?U S (loop_of rx, nextConnectionId m, length (submitQueue m)) {} ?m"
    unfolding loop(1) by (rule links_frame [OF m(2)]) (simp_all add: loop(1))
  ultimately show ?thesis using m(3) by (simp add: linked_def loop(3))
qed

lemma start_reactor:
  "startThreadsIfNeeded a m = (ok, m') \<Longrightarrow> reactor m' = reactor m \<or> \<not> startOnce m \<and> reactor m' = snd (Reactor_start a (reactor m))"
  by (auto simp: startThreadsIfNeeded_def Let_def split: if_splits prod.splits)

lemma start_once: "startThreadsIfNeeded a m = (ok, m') \<Longrightarrow> startOnce m'"
  by (auto simp: startThreadsIfNeeded_def Let_def split: if_splits prod.splits)

lemma started_tasks [simp]: "rx_tasks (snd (Reactor_start a Reactor_new)) = []"
  by (simp add: Reactor_start_def setupPlatformPrimitives_def teardownPlatformPrimitives_def Reactor_new_def Let_def)

lemma net_started:
  assumes "net_ok {} {} m" and "reactor m = Reactor_new"
  shows "net_ok {} {} (m\<lparr>reactor := snd (Reactor_start a Reactor_new)\<rparr>)"
proof -
  let ?rx = "snd (Reactor_start a Reactor_new) :: job Reactor"
  have rx: "rx_fds ?rx = Map.empty" "rx_timers ?rx = []" "canceledTimers ?rx = Map.empty" "nextTimerId ?rx = 1" "rx_armed ?rx = None"
    "rx_running ?rx \<longrightarrow> 0 \<le> timerFd ?rx"
    by (simp_all add: Reactor_start_def setupPlatformPrimitives_def teardownPlatformPrimitives_def Reactor_new_def Let_def)
  then have "reactor_safe ?rx" "armed ?rx = {}"
    by (simp_all add: reactor_safe_def reactor_ok_def timers_wf_def live_def live_in_def armed_def)
  then show ?thesis using assms(1) rx by (simp add: net_ok_def fired_ok_def watched_def)
qed

lemma start_links:
  assumes "linked K S (m\<lparr>startOnce := True\<rparr>)" and "startOnce m \<or> reactor m = Reactor_new" and "startThreadsIfNeeded a m = (ok, m')" and "threads_ok m"
  shows "linked K S m'"
proof (cases rule: start_threads_cases [OF assms(3,4)])
  case (2 d rx c t r)
  have net: "net_ok {} (to_register (rx_tasks (reactor m))) (m\<lparr>startOnce := True\<rparr>)" using assms(1) by (simp add: linked_def)
  have new: "reactor m = Reactor_new" using assms(2) 2(1) by simp
  have "linked K S (m\<lparr>startOnce := True, reactor := rx\<rparr>)"
  proof (cases "rx = reactor m")
    case True
    then show ?thesis using assms(1) by simp
  next
    case False
    then have rx: "rx = snd (Reactor_start a Reactor_new)" using start_reactor [OF assms(3)] 2(4) new by simp
    have none: "rx_tasks (Reactor_new :: job Reactor) = []" by (simp add: Reactor_new_def)
    note n = net_started [of "m\<lparr>startOnce := True\<rparr>" a]
    have "links K {} S (loop_of rx, nextConnectionId m, length (submitQueue m)) {} (m\<lparr>startOnce := True, reactor := rx\<rparr>)"
    proof -
      have same: "queue_of (m\<lparr>startOnce := True, reactor := rx\<rparr>) = queue_of (m\<lparr>startOnce := True\<rparr>)"
        "pool_ids (m\<lparr>startOnce := True, reactor := rx\<rparr>) = pool_ids (m\<lparr>startOnce := True\<rparr>)"
        "ids_ok (m\<lparr>startOnce := True, reactor := rx\<rparr>) = ids_ok (m\<lparr>startOnce := True\<rparr>)"
        by (simp_all add: queue_of_def pool_ids_def ids_ok_def)
      have "links K {} S (loop_of (reactor m), nextConnectionId m, length (submitQueue m)) {} (m\<lparr>startOnce := True\<rparr>)"
        using assms(1) by (simp add: linked_def new none)
      then show ?thesis unfolding links_def same by simp
    qed
    moreover have "net_ok {} {} (m\<lparr>startOnce := True, reactor := rx\<rparr>)" using n net new none by (simp add: rx)
    ultimately show ?thesis by (simp add: linked_def rx tasks_ok_def)
  qed
  from linked_frame [OF this, of m'] show ?thesis using 2(4) by simp
qed (use assms start_once [OF assms(3)] in \<open>simp add: startOnce_same\<close>)

lemma send_links:
  assumes "sound (m, S)" and "roomy m" and "send_begin env a timeout callback m = (go_on, c, m')"
  shows "linked (known m) S m'"
proof -
  let ?k = "nextRequestId m" and ?K = "known m"
  let ?m1 = "m\<lparr>nextRequestId := ?k + 1, ctxs := (ctxs m)(unat ?k := setCancelHandler (RequestContext_new ?k timeout callback))\<rparr>"
  obtain ok m2 where s: "startThreadsIfNeeded a ?m1 = (ok, m2)" by fastforce
  have start: "linked ?K S (m\<lparr>startOnce := True\<rparr>)" "threads_ok m" "startOnce m \<or> reactor m = Reactor_new"
    using assms(1) by (auto simp: sound_def settled_linked unstarted_def system_ok_def manager_ok_def requests_ok_def)
  have "linked ?K S (?m1\<lparr>startOnce := True\<rparr>)" by (rule linked_frame [OF start(1)]) simp_all
  then have m2: "linked ?K S m2"
    by (rule start_links [OF _ _ s]) (use start(2,3) in \<open>simp_all add: threads_ok_def\<close>)
  have "nextTimerId (snd (Reactor_start a rx)) = nextTimerId rx" for rx :: "job Reactor"
    by (simp add: Reactor_start_def setupPlatformPrimitives_def teardownPlatformPrimitives_def Let_def)
  then have "nextTimerId (reactor m2) = nextTimerId (reactor m)" using start_reactor [OF s] by auto
  moreover have "unat (-1 :: u64) = 2 ^ 64 - 1" by (simp add: unsigned_minus_1_eq_mask mask_eq_exp_minus_1)
  ultimately have n: "nextTimerId (reactor m2) \<noteq> -1" using assms(2) by (auto simp: roomy_def)
  note done_links = linked_complete [where env = env and c = "unat ?k"]
  have put: "linked ?K S (m2\<lparr>contexts := cs\<rparr>)" for cs by (rule linked_frame [OF m2]) simp_all
  obtain tid rx where t: "scheduleOnce (en_before env) (en_now env) (en_armNow env) timeout (Some (Request_Timeout ?k)) (reactor m2) = (tid, rx)"
    by fastforce
  have timed: "linked ?K S (m2\<lparr>contexts := cs, reactor := rx\<rparr>)" for cs
    using linked_schedule [OF put, of cs "en_before env" "en_now env" "en_armNow env" timeout ?k tid rx] n t by simp
  have set: "linked ?K S (update_context (unat ?k) (setTimerId tid) (m2\<lparr>contexts := cs, reactor := rx\<rparr>))" for cs
    by (rule linked_frame [OF timed [of cs]]) (simp_all add: update_context_def)
  show ?thesis
    using assms(3) s t done_links [OF m2] done_links [OF timed] put set by (auto simp: send_begin_def Let_def split: if_splits)
qed

lemma links_issue:
  assumes "links K U S T X m" and "c \<notin> K" and "unat (of_nat c :: u64) = c" and "length (rq_body (pr_request pr)) < 2 ^ 64" and "pr_context pr = c"
  shows "links (insert c K) U S T X m" and "links (insert c K) U (pr # S) T X m"
proof -
  have r: "ready K (requestConnections m) (queue_of m @ S)" using assms(1) by (simp add: links_def)
  have none: "requestConnections m (of_nat c) = None"
  proof (cases "requestConnections m (of_nat c)")
    case (Some cid)
    then have "unat (of_nat c :: u64) \<in> K" by (rule links_target [OF assms(1)])
    then show ?thesis using assms(2,3) by simp
  qed
  have "ready (insert c K) (requestConnections m) (queue_of m @ S)" using r by (simp add: ready_def)
  moreover have "ready (insert c K) (requestConnections m) (queue_of m @ pr # S)"
    using r none assms(2,4,5) by (auto simp: ready_def)
  ultimately show "links (insert c K) U S T X m" "links (insert c K) U (pr # S) T X m"
    using assms(1) unfolding links_def by blast+
qed

lemma send_sound:
  assumes "sound (m, S)" and "env_ok env" and "nextRequestId m \<noteq> -1" and "roomy m" and "send_begin env a timeout callback m = (go_on, c, m')"
    and "length (rq_body (pr_request pr)) < 2 ^ 64" and "pr_context pr = c"
  shows "sound (m', S)" and "sound (m', pr # S)"
proof -
  have m: "manager_ok (known m) m" and S: "queue_in (known m) S" using assms(1) by (simp_all add: sound_def system_ok_def)
  note b = send_begin_ok [OF m assms(2,3,5)]
  note l = send_links [OF assms(1,4,5)]
  have c: "c \<notin> known m" "unat (of_nat c :: u64) = c" using b by (simp_all add: known_def)
  have k: "known m' = insert c (known m)" using b ok_known by blast
  note new = links_issue [OF _ c assms(6,7)]
  have "settled (known m') S m'" "settled (known m') (pr # S) m'"
    using l new b by (auto simp: settled_linked linked_def k)
  moreover have "startOnce m'" using l by (simp add: linked_def links_def)
  moreover have "queue_in (known m') S" "queue_in (known m') (pr # S)" using queue_in_mono [OF S] assms(7) by (auto simp: k)
  ultimately show "sound (m', S)" "sound (m', pr # S)" by (auto intro: settled_sound)
qed

lemma settled_removed:
  assumes "settled K S m" and "env_ok env" and "removeFromSubmitQueue k m = Some (d, m')"
  shows "settled K S m'"
  by (rule safe_settled [OF removed_safe(1) [OF settled_safe [OF assms(1,2)] assms(3)] settled_tasks [OF assms(1)]])

lemma enqueue_settles:
  assumes "settled K S m" and "env_ok env" and "pr \<in> set S"
  shows "settled K (remove1 pr S) (send_finish env pr m)"
proof -
  let ?S = "remove1 pr S" and ?m = "m\<lparr>submitQueue := submitQueue m @ [pr]\<rparr>" and ?U = "to_register (rx_tasks (reactor m))"
  have m: "manager_ok K m" "net_ok {} ?U m" "links K ?U S (loop_of (reactor m), nextConnectionId m, length (submitQueue m)) {} m"
    using assms(1) by (simp_all add: settled_def)
  have ready: "ready K (requestConnections m) (queue_of m @ S)" using m(3) by (simp add: links_def)
  obtain M where "mset S = add_mset pr M" using assms(3) multi_member_split [of pr "mset S"] by auto
  then have perm: "mset (queue_of ?m @ ?S) = mset (queue_of m @ S)" by (simp add: queue_of_def)
  have "ready K (requestConnections m) (queue_of ?m @ ?S)" by (rule ready_sub [OF ready]) (simp only: perm subset_mset.order_refl)
  moreover have "ids_ok ?m = ids_ok m" "pool_ids ?m = pool_ids m" by (simp_all add: ids_ok_def pool_ids_def)
  ultimately have l: "links K ?U ?S (loop_of (reactor m), nextConnectionId m, length (submitQueue ?m)) {} ?m" using m(3) by (simp add: links_def)
  have c: "pr_context pr \<in> K" using ready assms(3) by (auto simp: ready_def)
  then have "manager_ok K ?m" using manager_queue [OF m(1)] manager_refs(1) [OF m(1)] by simp
  then have q: "settled K ?S ?m" using l net_frame [OF m(2), of ?m] settled_tasks [OF assms(1)] by (simp add: settled_def)
  obtain b rx where post: "Reactor_post (Some Drain_Submit_Queue) (reactor m) = (b, rx)" by fastforce
  have p: "settled K ?S (?m\<lparr>reactor := rx\<rparr>)" using settled_post [OF q, of Drain_Submit_Queue b rx] post by simp
  let ?w = "?m\<lparr>reactor := rx\<rparr>"
  have "settled K ?S (case removeFromSubmitQueue k ?w of None \<Rightarrow> ?w | Some (_, m) \<Rightarrow> m)" for k
    using p settled_removed [OF p assms(2)] by (auto split: option.splits)
  then have "settled K ?S (completeRequest env (pr_context pr) response
      (case removeFromSubmitQueue k ?w of None \<Rightarrow> ?w | Some (_, m) \<Rightarrow> m))" for k response
    using settled_complete_all [OF _ assms(2), of _ _ _ "[pr_context pr]"] c by simp
  then show ?thesis using post p by (simp add: send_finish_def Let_def)
qed

section \<open>Every step\<close>

lemma unstarted_cancel:
  assumes "unstarted S m"
  shows "\<exists>b rc. cancel_operation env c m = Inr (b, update_context c (\<lambda>_. rc) m)"
proof -
  obtain b1 rc handler where r: "RequestContext_cancel (ctxs m c) = (b1, rc, handler)" by (cases "RequestContext_cancel (ctxs m c)")
  have "findContext k (update_context c (\<lambda>_. rc) m) = None" for k
    using assms by (simp add: findContext_def update_context_def unstarted_def)
  then show ?thesis using r by (auto simp: cancel_operation_def Manager_cancel_def Let_def split: option.splits)
qed

lemma unstarted_close:
  assumes "unstarted S m"
  shows "Manager_close n results env m = net_bind (stop_dispatcher (m\<lparr>connectorStop := True, connectorThread := False\<rparr>)) (\<lambda>m.
    let closed = failConnectionError ''Connection closed'' in Inr (failAllContexts env closed (failQueuedRequests env closed m)))"
proof -
  let ?m = "m\<lparr>connectorStop := True, connectorThread := False\<rparr>"
  have "\<not> connectorThread m \<Longrightarrow> m\<lparr>connectorStop := True\<rparr> = ?m" by (cases m) simp
  then have "(if connectorThread m then connectorLoop_to_end results (m\<lparr>connectorStop := True\<rparr>)
      else Inr (m\<lparr>connectorStop := True\<rparr>)) = Inr ?m"
    using assms by (simp add: unstarted_def connectorLoop_to_end.simps)
  moreover have "\<not> rx_running (reactor ?m)" using assms by (simp add: unstarted_def Reactor_new_def)
  ultimately show ?thesis by (simp add: Manager_close_def stop_reactor_def)
qed

lemma unstarted_closed:
  assumes "unstarted S m" and "Manager_close n results env m = Inr m'" and "threads_ok m"
  shows "\<exists>c d cs. m' = m\<lparr>connectorStop := True, connectorThread := c, callbackDispatcher := d, called := cs\<rparr>"
proof -
  let ?m = "m\<lparr>connectorStop := True, connectorThread := False\<rparr>"
  obtain m2 where m2: "stop_dispatcher ?m = Inr m2"
    "m' = failAllContexts env (failConnectionError ''Connection closed'') (failQueuedRequests env (failConnectionError ''Connection closed'') m2)"
    using assms(2) unfolding unstarted_close [OF assms(1)] by (auto simp: net_simps Let_def)
  have "threads_ok ?m" using assms(3) by (simp add: threads_ok_def)
  then obtain d cs where d: "m2 = ?m\<lparr>callbackDispatcher := d, called := cs\<rparr>" using stop_dispatcher_result(4) [OF m2(1)] by blast
  have "m2\<lparr>submitQueue := []\<rparr> = m2" using assms(1) d by (cases m) (simp add: unstarted_def)
  then have "m' = m2" using m2(2) assms(1) by (simp add: failAllContexts_def failQueuedRequests_def d unstarted_def)
  then show ?thesis using d by blast
qed

text \<open>Before the first request, what changes does not matter.\<close>

lemma manager_startOnce:
  assumes "manager_ok K m"
  shows "manager_ok K (m\<lparr>startOnce := True\<rparr>)"
proof -
  have r: "requests_ok m" using assms by (simp add: manager_ok_def)
  have "requests_ok (m\<lparr>startOnce := True\<rparr>)"
    by (rule requests_frame [OF r]) (simp_all add: delivered_def threads_ok_def)
  then show ?thesis using assms by (simp add: manager_ok_def known_def)
qed

lemma sound_frame:
  assumes "sound (m, S)" and "system_ok (m', S)" and "known m' = known m" and "reactor m' = reactor m" and "connections m' = connections m"
    and "requestConnections m' = requestConnections m" and "pools m' = pools m" and "pendingByEndpoint m' = pendingByEndpoint m"
    and "submitQueue m' = submitQueue m" and "connectTasks m' = connectTasks m" and "nextConnectionId m' = nextConnectionId m"
    and "startOnce m' = startOnce m" and "mg_config m' = mg_config m" and "contexts m' = contexts m"
  shows "sound (m', S)"
proof -
  have "manager_ok (known m) m'" using assms(2) by (simp add: system_ok_def assms(3))
  from manager_startOnce [OF this] have "settled (known m) S (m'\<lparr>startOnce := True\<rparr>)"
    by (rule settled_frame [of _ _ "m\<lparr>startOnce := True\<rparr>", rotated]) (use assms(1) in \<open>simp_all add: sound_def assms(4-)\<close>)
  then show ?thesis using assms(1) unfolding sound_def unstarted_def prod.case assms(3-) by (simp add: assms(2))
qed

lemma sound_unstarted: "sound (m, S) \<Longrightarrow> \<not> startOnce m \<Longrightarrow> unstarted S m"
  by (simp add: sound_def)

lemma unstarted_worker: "unstarted S m \<Longrightarrow> \<not> rx_worker (reactor m)"
  by (simp add: unstarted_def Reactor_new_def)

lemma sound_step:
  assumes "sound s" and "bounded_step s l s'"
  shows "sound s'"
proof -
  have step: "manager_step s l s'" and room: "roomy (fst s)" using assms(2) by (simp_all add: bounded_step_def)
  have system: "system_ok s'" by (rule system_step [OF sound_system [OF assms(1)] step])
  have keep: "sound (m', S)" if "sound (m, S)" "settled (known m) S m'" for m m' S
    by (rule settled_sound [OF that(2) sound_queue [OF that(1)] settled_started [OF that(2)]])
  from step show ?thesis
  proof cases
    case (step_send env m request a timeout callback c m' sending ep)
    then show ?thesis using send_sound(2) [of m sending env a timeout callback True c m' "\<lparr>pr_request = request, pr_endpoint = ep, pr_context = c\<rparr>"]
      assms(1) room by simp
  next
    case (step_send_fails env m a timeout callback c m' sending)
    then show ?thesis
      using send_sound(1) [of m sending env a timeout callback False c m' "\<lparr>pr_request = Request_new, pr_endpoint = Endpoint_new, pr_context = c\<rparr>"]
      assms(1) room by (simp add: Request_new_def)
  next
    case (step_enqueue env pr sending m)
    then have "startOnce m" using assms(1) by (auto simp: sound_def unstarted_def)
    then have "settled (known m) (remove1 pr sending) (send_finish env pr m)"
      using sound_settled assms(1) step_enqueue enqueue_settles by blast
    moreover have "queue_in (known m) (remove1 pr sending)"
      using sound_queue assms(1) step_enqueue(1) by (auto simp: queue_in_def dest!: subsetD [OF set_remove1_subset])
    ultimately show ?thesis using step_enqueue(3) by (simp add: settled_sound settled_started)
  next
    case (step_cancel env c m b m' sending)
    show ?thesis
    proof (cases "startOnce m")
      case True
      have "settled (known m) sending m'"
        using returns_value [OF cancel_settles [OF sound_settled [OF _ True]]] assms(1) step_cancel by fastforce
      then show ?thesis using keep assms(1) step_cancel(1,3) by simp
    next
      case False
      obtain rc where "m' = update_context c (\<lambda>_. rc) m"
        using unstarted_cancel [OF sound_unstarted [OF _ False], of sending env c] assms(1) step_cancel by auto
      then show ?thesis using sound_frame [of m sending m'] assms(1) step_cancel system by (simp add: update_context_def known_def)
    qed
  next
    case (step_connect connector w m m' sending)
    have "connectTasks m \<noteq> []" using step_connect(4) by (auto simp: connectorLoop_round_def)
    then have "startOnce m" using assms(1) step_connect(1) by (auto simp: sound_def unstarted_def)
    then show ?thesis using keep connector_settles(1) [OF sound_settled] assms(1) step_connect by blast
  next
    case (step_task env m j rx m' sending)
    have on: "startOnce m" using sound_unstarted unstarted_worker assms(1) step_task by blast
    have "settled (known m) sending m'"
      using returns_value [OF task_settles [OF sound_settled [OF _ on]]] assms(1) room step_task by fastforce
    then show ?thesis using keep assms(1) step_task(1,3) by simp
  next
    case (step_event env m e m' sending)
    have on: "startOnce m" using sound_unstarted unstarted_worker assms(1) step_event by blast
    have "settled (known m) sending m'"
      using returns_value [OF event_settles [OF sound_settled [OF _ on]]] assms(1) room step_event by fastforce
    then show ?thesis using keep assms(1) step_event(1,3) by simp
  next
    case (step_callback m m' sending)
    show ?thesis
    proof (cases "startOnce m")
      case True
      then show ?thesis using keep callback_settles [OF sound_settled] assms(1) step_callback by blast
    next
      case False
      then have "cd_tasks (callbackDispatcher m) = []"
        using assms(1) step_callback(1) by (auto simp: sound_def system_ok_def manager_ok_def requests_ok_def threads_ok_def)
      then show ?thesis using step_callback(4) by (simp add: dispatch_callback_def runLoop_section_def split: if_splits)
    qed
  next
    case (step_close env n results m m' sending)
    show ?thesis
    proof (cases "startOnce m")
      case True
      let ?n = "n + length (rx_tasks (reactor m)) + length (connectTasks m) + 2"
      let ?results = "results @ replicate (length (connectTasks m)) undefined"
      have "Manager_close ?n ?results env m = Inr m'" by (rule close_more [OF step_close(5)]) simp
      moreover have "returns (settled (known m) sending) (Manager_close ?n ?results env m)"
        by (rule close_settles [OF sound_settled [OF _ True]]) (use assms(1) room step_close in simp_all)
      ultimately have "settled (known m) sending m'" by simp
      then show ?thesis using keep assms(1) step_close(1,3) by simp
    next
      case False
      have un: "unstarted sending m" "threads_ok m"
        using sound_unstarted [OF _ False] assms(1) step_close(1) by (auto simp: sound_def system_ok_def manager_ok_def requests_ok_def)
      obtain c d cs where "m' = m\<lparr>connectorStop := True, connectorThread := c, callbackDispatcher := d, called := cs\<rparr>"
        using unstarted_closed [OF un(1) step_close(5) un(2)] by blast
      then show ?thesis using sound_frame [of m sending m'] assms(1) step_close system by (simp add: known_def)
    qed
  qed
qed

interpretation live_ops: invariant_machine bounded_step sound
  by unfold_locales (rule sound_step)

lemma bounded_manager: "runs bounded_step s ls t \<Longrightarrow> runs manager_step s ls t"
  by (induction rule: runs.induct) (auto simp: bounded_step_def intro: runs.runs_snoc)

lemma new_sound:
  assumes "config_ok config"
  shows "sound (ConnectionManager_new config, [])"
proof -
  let ?m = "ConnectionManager_new config"
  have "system_ok (?m, [])" by (rule new_ok)
  then have "manager_ok (known ?m) (?m\<lparr>startOnce := True\<rparr>)" by (simp add: system_ok_def manager_startOnce)
  moreover have "reactor_safe (Reactor_new :: job Reactor)" "armed (Reactor_new :: job Reactor) = {}"
    by (simp_all add: reactor_safe_def reactor_ok_def timers_wf_def live_def live_in_def armed_def Reactor_new_def)
  then have "net_ok {} {} (?m\<lparr>startOnce := True\<rparr>)"
    by (simp add: net_ok_def fired_ok_def watched_def ConnectionManager_new_def) (simp add: Reactor_new_def)
  moreover have "links K {} [] (loop_of (reactor ?m), 1, 0) {} (?m\<lparr>startOnce := True\<rparr>)" for K
    using assms by (simp add: links_def ConnectionManager_new_def pool_ids_def queue_of_def ready_def ids_ok_def)
  moreover have "rx_tasks (reactor ?m) = []" "nextConnectionId ?m = 1" "submitQueue ?m = []"
    by (simp_all add: ConnectionManager_new_def Reactor_new_def)
  ultimately show ?thesis
    using \<open>system_ok (?m, [])\<close> by (simp add: sound_def settled_def tasks_ok_def) (simp add: unstarted_def ConnectionManager_new_def)
qed

lemma reachable_sound:
  "runs bounded_step (ConnectionManager_new config, []) ls s \<Longrightarrow> config_ok config \<Longrightarrow> sound s"
  by (rule live_ops.runs_inv [OF _ new_sound])

text \<open>No step that a thread may take uses what was destroyed or goes on for ever.\<close>

abbreviation faultless :: "'a net \<Rightarrow> bool" where
  "faultless r \<equiv> r \<noteq> Inl Dangling \<and> r \<noteq> Inl Unending"

lemma faultless_returns: "returns P r \<Longrightarrow> faultless r"
  by auto

lemma sound_faultless:
  assumes "sound (m, S)" and "env_ok env" and "roomy m"
  shows "rx_worker (reactor m) \<Longrightarrow> faultless (dispatch_event (run_job env) e m)"
    and "rx_worker (reactor m) \<Longrightarrow> take_task (reactor m) = Some (j, rx) \<Longrightarrow> faultless (run_job env j (m\<lparr>reactor := rx\<rparr>))"
    and "faultless (cancel_operation env c m)"
    and "enough n results m \<Longrightarrow> faultless (Manager_close n results env m)"
proof -
  have on: "startOnce m" if "rx_worker (reactor m)" using sound_unstarted [OF assms(1)] unstarted_worker that by blast
  show "faultless (dispatch_event (run_job env) e m)" if "rx_worker (reactor m)"
    by (rule faultless_returns [OF event_settles [OF sound_settled [OF assms(1) on [OF that]] assms(2,3)]])
  show "faultless (run_job env j (m\<lparr>reactor := rx\<rparr>))" if "rx_worker (reactor m)" "take_task (reactor m) = Some (j, rx)"
    by (rule faultless_returns [OF task_settles [OF sound_settled [OF assms(1) on [OF that(1)]] assms(2,3) that(2)]])
  show "faultless (cancel_operation env c m)"
  proof (cases "startOnce m")
    case True
    show ?thesis by (rule faultless_returns [OF cancel_settles [OF sound_settled [OF assms(1) True] assms(2)]])
  next
    case False
    obtain b m' where "cancel_operation env c m = Inr (b, m')" using unstarted_cancel [OF sound_unstarted [OF assms(1) False]] by blast
    then show ?thesis by simp
  qed
  show "faultless (Manager_close n results env m)" if "enough n results m"
  proof (cases "startOnce m")
    case True
    show ?thesis by (rule faultless_returns [OF close_settles [OF sound_settled [OF assms(1) True] assms(2,3) that]])
  next
    case False
    let ?m = "m\<lparr>connectorStop := True, connectorThread := False\<rparr>"
    show ?thesis unfolding unstarted_close [OF sound_unstarted [OF assms(1) False]]
      by (cases "CallbackDispatcher_stop False (callbackDispatcher m)") (auto simp: stop_dispatcher_def Let_def)
  qed
qed

text \<open>What a reachable state refers to.\<close>

lemma sound_references:
  assumes "sound (m, S)"
  shows "requestConnections m k = Some cid \<Longrightarrow> issued m k \<and> (\<exists>cn. connections m cid = Some cn \<and> connected cn)"
    and "rx_fds (reactor m) fd = Some fc \<Longrightarrow> \<exists>cid cn. fd_read fc = Session_Readable cid \<and> fd_write fc = Some (Session_Writable cid) \<and>
      connections m cid = Some cn \<and> connected cn \<and> sessionFd cn = fd"
    and "t \<in> set (live (reactor m)) \<Longrightarrow> ti_handler t = Ping_Timer cid \<Longrightarrow>
      \<exists>cn. connections m cid = Some cn \<and> connected cn \<and> pingTimerId cn = ti_id t \<and> \<not> pendingPing cn"
    and "t \<in> set (live (reactor m)) \<Longrightarrow> ti_handler t = Ping_Timeout cid \<Longrightarrow>
      \<exists>cn. connections m cid = Some cn \<and> connected cn \<and> pingTimeoutTimerId cn = ti_id t \<and> pendingPing cn"
    and "Connection_Established ep cid \<in> set (rx_tasks (reactor m)) \<Longrightarrow> connections m cid \<noteq> None"
proof -
  have s: "settled (known m) S (m\<lparr>startOnce := True\<rparr>)" using assms by (simp add: sound_def)
  then have net: "net_ok {} (to_register (rx_tasks (reactor m))) (m\<lparr>startOnce := True\<rparr>)"
    and l: "links (known m) (to_register (rx_tasks (reactor m))) S (loop_of (reactor m), nextConnectionId m, length (submitQueue m)) {} (m\<lparr>startOnce := True\<rparr>)"
    by (simp_all add: settled_def)
  show "issued m k \<and> (\<exists>cn. connections m cid = Some cn \<and> connected cn)" if "requestConnections m k = Some cid"
    using links_target [OF l, of k cid] that by (auto simp: issued_known)
  have w: "watched (connections m) (reactor m)" and o: "\<forall>p\<in>armed (reactor m). owned (connections m) True p"
    and u: "\<forall>c\<in>to_register (rx_tasks (reactor m)). \<exists>cn. connections m c = Some cn \<and> idle {} (reactor m) c cn"
    using net by (simp_all add: net_ok_def del: set_concat)
  show "\<exists>cid cn. fd_read fc = Session_Readable cid \<and> fd_write fc = Some (Session_Writable cid) \<and> connections m cid = Some cn \<and>
      connected cn \<and> sessionFd cn = fd" if "rx_fds (reactor m) fd = Some fc"
    using watchedE [OF w that] by metis
  have owner: "owned (connections m) True (ti_id t, ti_handler t)" if "t \<in> set (live (reactor m))"
    using o that by (auto simp: armed_def)
  show "\<exists>cn. connections m cid = Some cn \<and> connected cn \<and> pingTimerId cn = ti_id t \<and> \<not> pendingPing cn"
    if "t \<in> set (live (reactor m))" "ti_handler t = Ping_Timer cid" using owner [OF that(1)] that(2) by (auto simp: owned_def)
  show "\<exists>cn. connections m cid = Some cn \<and> connected cn \<and> pingTimeoutTimerId cn = ti_id t \<and> pendingPing cn"
    if "t \<in> set (live (reactor m))" "ti_handler t = Ping_Timeout cid" using owner [OF that(1)] that(2) by (auto simp: owned_def)
  show "connections m cid \<noteq> None" if "Connection_Established ep cid \<in> set (rx_tasks (reactor m))"
  proof -
    have "cid \<in> to_register (rx_tasks (reactor m))" using that by (force intro: image_eqI)
    then show ?thesis using u by blast
  qed
qed

end
