(* ===== verification/Live_Example.thy ===== *)
theory Live_Example
  imports Manager_Example Manager_Live
begin

text \<open>
  A run of the client up to a connection that is made: a request is sent and queued, the reactor
  takes it out of the queue, and the connector's thread connects.
\<close>

definition get_h :: PendingRequest where
  "get_h = pending_get\<lparr>pr_endpoint := Endpoint_new\<lparr>ep_host := ''h''\<rparr>\<rparr>"

definition queued_h :: Manager where
  "queued_h = send_finish idle_env get_h sent"

definition waiting_h :: Manager where
  "waiting_h = queued_h
     \<lparr>reactor := (reactor sent)\<lparr>rx_tasks := []\<rparr>, submitQueue := [], pendingByEndpoint := [(pr_endpoint get_h, [get_h])],
      connectingEndpoints := [pr_endpoint get_h], nextConnectionId := 2,
      connectTasks := [\<lparr>ct_endpoint = pr_endpoint get_h, ct_connId = 1\<rparr>]\<rparr>"

abbreviation tcp_connects :: "connect_call \<Rightarrow> SocketFd cpp" where
  "tcp_connects \<equiv> \<lambda>_. Inr \<lparr>rawFd = 3\<rparr>"

definition connected_h :: Manager where
  "connected_h = the (connectorLoop_round tcp_connects sslAnswers_ok waiting_h)"

lemma queued_h_state: "queued_h = sent\<lparr>submitQueue := [get_h], reactor := (reactor sent)\<lparr>rx_tasks := [Drain_Submit_Queue]\<rparr>\<rparr>"
  by (simp add: queued_h_def send_finish_def Let_def Reactor_post_def sent_state ConnectionManager_new_def)

lemma waiting_h_job:
  "run_job idle_env Drain_Submit_Queue (queued_h\<lparr>reactor := (reactor queued_h)\<lparr>rx_tasks := []\<rparr>\<rparr>) = Inr waiting_h"
  by (simp add: waiting_h_def queued_h_state sent_state ConnectionManager_new_def get_h_def pending_get_def idle_env_def drainSubmitQueue_def
      prune_pools_def Let_def pickConnectionOnReactor_def ep_push_def enqueueConnectTask_def)

lemma connects_h:
  "\<exists>cn. Connection_connect tcp_connects sslAnswers_ok (Connection_new 1 (pr_endpoint get_h) ClientConfig_new) = (True, cn) \<and> connected cn"
  by (auto simp: Connection_connect_def Connection_new_def get_h_def Session_start_def Http2Session_new_def StreamTransportFactory_create_def
      connect_of_def Endpoint_new_def transport_init_def Tcp_init_def TcpStreamTransport_new_def SocketFd_valid_def SocketFd_guard_def
      INVALID_SOCKET_def sslAnswers_ok_def consumeStepResult_def Session_pollFd_def transport_fd_def Let_def split: prod.splits)

lemma connected_h:
  "connectorLoop_round tcp_connects sslAnswers_ok waiting_h = Some connected_h"
  "\<exists>cn. connections connected_h 1 = Some cn \<and> connected cn"
  "reactor connected_h = (reactor sent)\<lparr>rx_tasks := [Connection_Established (pr_endpoint get_h) 1]\<rparr>"
  "connectTasks connected_h = []" "submitQueue connected_h = []" "nextConnectionId connected_h = 2" "contexts connected_h = [(1, 1)]"
proof -
  obtain cn where cn: "Connection_connect tcp_connects sslAnswers_ok (Connection_new 1 (pr_endpoint get_h) ClientConfig_new) = (True, cn)" "connected cn"
    using connects_h by blast
  have fields: "connectTasks waiting_h = [\<lparr>ct_endpoint = pr_endpoint get_h, ct_connId = 1\<rparr>]" "mg_config waiting_h = ClientConfig_new"
    "reactor waiting_h = (reactor sent)\<lparr>rx_tasks := []\<rparr>" "rx_running (reactor sent)"
    by (simp_all add: waiting_h_def queued_h_state sent_state ConnectionManager_new_def)
  have round: "connectorLoop_round tcp_connects sslAnswers_ok waiting_h = Some (put_connection 1 cn (waiting_h
      \<lparr>connectTasks := [], reactor := (reactor sent)\<lparr>rx_tasks := [Connection_Established (pr_endpoint get_h) 1]\<rparr>\<rparr>))"
    using cn by (simp add: connectorLoop_round_def fields Let_def Reactor_post_def)
  then show "connectorLoop_round tcp_connects sslAnswers_ok waiting_h = Some connected_h" by (simp add: connected_h_def)
  have state: "connected_h = put_connection 1 cn (waiting_h
      \<lparr>connectTasks := [], reactor := (reactor sent)\<lparr>rx_tasks := [Connection_Established (pr_endpoint get_h) 1]\<rparr>\<rparr>)"
    using round by (simp add: connected_h_def)
  show "\<exists>cn. connections connected_h 1 = Some cn \<and> connected cn" using cn(2) by (simp add: state put_connection_def)
  show "reactor connected_h = (reactor sent)\<lparr>rx_tasks := [Connection_Established (pr_endpoint get_h) 1]\<rparr>"
    "connectTasks connected_h = []" "submitQueue connected_h = []" "nextConnectionId connected_h = 2" "contexts connected_h = [(1, 1)]"
    by (simp_all add: state put_connection_def waiting_h_def queued_h_state sent_state)
qed

lemma sent_facts: "rx_worker (reactor sent)" "nextTimerId (reactor sent) = 2" "length (rx_timers (reactor sent)) = 1" "rx_tasks (reactor sent) = []"
  "connectTasks sent = []" "nextConnectionId sent = 1" "submitQueue sent = []" "rx_timers (reactor sent) = [\<lparr>due = 1000000000, ti_id = 1, ti_handler = Request_Timeout 1\<rparr>]"
  by (simp_all add: sent_state ConnectionManager_new_def)

lemma rooms: "roomy new_manager" "roomy sent" "roomy queued_h" "roomy waiting_h" "roomy connected_h"
proof -
  show "roomy new_manager" by (simp add: roomy_def ConnectionManager_new_def Reactor_new_def)
  show "roomy sent" "roomy queued_h" "roomy waiting_h" "roomy connected_h"
    by (simp_all add: roomy_def queued_h_state waiting_h_def connected_h sent_facts)
qed

lemma connected_run:
  "runs bounded_step (new_manager, []) [Sends 1, Enqueues 1, Runs_Task, Connects] (connected_h, [])"
proof -
  have "nextRequestId new_manager \<noteq> -1" by (simp add: ConnectionManager_new_def)
  moreover have "rq_body (pr_request get_h) = []" by (simp add: get_h_def pending_get_def buildWireRequest_def ClientRequest_new_def Let_def)
  ultimately have "bounded_step (new_manager, []) (Sends 1) (sent, [get_h])"
    using step_send [OF idle_env_ok _ _ sent_begin, of "pr_request get_h" "[]" "pr_endpoint get_h"] rooms(1)
    by (simp add: bounded_step_def get_h_def pending_get_def)
  then have "runs bounded_step (new_manager, []) [Sends 1] (sent, [get_h])" by (rule runs_single)
  moreover have "bounded_step (sent, [get_h]) (Enqueues 1) (queued_h, [])"
    using step_enqueue [OF idle_env_ok, of get_h "[get_h]" sent] rooms(2)
    by (simp add: bounded_step_def queued_h_def) (simp add: get_h_def pending_get_def)
  moreover have "rx_worker (reactor queued_h)" "take_task (reactor queued_h) = Some (Drain_Submit_Queue, (reactor queued_h)\<lparr>rx_tasks := []\<rparr>)"
    by (simp_all add: queued_h_state sent_facts take_task_def)
  then have "bounded_step (queued_h, []) Runs_Task (waiting_h, [])"
    using step_task [OF idle_env_ok _ _ waiting_h_job] rooms(3) by (simp add: bounded_step_def)
  moreover have "bounded_step (waiting_h, []) Connects (connected_h, [])"
    using rooms(4) step_connect [OF connected_h(1)] by (simp add: bounded_step_def)
  ultimately show ?thesis using runs_snoc [of bounded_step] by (metis append_Cons append_Nil)
qed

end
