(* ===== verification/Spec2Isabelle.thy ===== *)
theory Spec2Isabelle
  imports Session_Example Live_Example
begin

text \<open>
  A verification development for chttp2, an HTTP/2 client library in C++ (include/chttp2 and src).

  \<^bold>\<open>The program and its theories.\<close> From the bytes up:

  \<^item> \<open>Prelude\<close>: words, C++ results (\<open>'a cpp\<close>: an exception or undefined behaviour, or a value), decimal
    text, the locale of decoders that consume a prefix. \<open>Machine\<close>: labelled executions and the locale
    \<open>invariant_machine\<close>. \<open>Task_Queue\<close>: the locale of a queue between threads.
  \<^item> \<open>Bytes\<close>: byte_span.hpp, byte_buffer. \<open>Flow\<close>: flow. \<open>Constants\<close>: http2_constants.hpp.
  \<^item> \<open>Huffman\<close>, \<open>Hpack_Table\<close>, \<open>Hpack\<close>: src/hpack; the code and its tree, the static and dynamic table, the
    encoder and the decoder.
  \<^item> \<open>Frames\<close>: frame and frame_codec. \<open>Messages\<close>: request.hpp, response.hpp, client_config.hpp and the checks at
    the head of http2_protocol.cpp. \<open>Streams\<close>: stream, protocol_event.hpp.
  \<^item> \<open>Protocol\<close>: the class \<open>Http2Protocol\<close>, a record that every method takes and returns together with its
    \<open>ProtocolStepResult\<close> (bytes to send, events). \<open>Protocol_Emit\<close>, \<open>Protocol_Inv\<close>, \<open>Protocol_Steps\<close>,
    \<open>Protocol_Machine\<close> and \<open>Protocol_Wire\<close> prove what it emits, its invariant \<open>proto_ok\<close> (one lemma per handler), its
    executions, and what a peer reads.
  \<^item> \<open>Transport\<close>: socket_fd, the error classes of platform.hpp, connector, stream_transport. \<open>Request_Context\<close>:
    request_context. \<open>Endpoint\<close>: endpoint.hpp. \<open>Client\<close>: client.
  \<^item> \<open>Session\<close>: http2_session, which drives the protocol over a transport and maps streams to request contexts;
    \<open>Session_Inv\<close> its accounting of contexts, \<open>Session_Example\<close> a concrete session.
  \<^item> \<open>Reactor\<close>: the event loop of reactor.cpp on Linux; \<open>Reactor_Inv\<close> its timers and tasks. \<open>Dispatcher\<close>:
    callback_dispatcher.
  \<^item> \<open>Connection\<close>: connection.cpp over the reactor and a session; \<open>Connection_Client\<close> the contract with its
    handlers. \<open>Manager\<close>: connection_manager.cpp; \<open>Manager_Requests\<close>, \<open>Manager_Machine\<close>, \<open>Manager_Pool\<close>
    prove what it keeps, and \<open>Manager_Example\<close> has the concrete states.
  \<^item> Memory safety, from the session up: \<open>Session_Safe\<close>; \<open>Connection_Safe\<close>, the invariant \<open>net_ok\<close> of what the
    reactor refers to; \<open>Connection_Hooks\<close>, the contract \<open>safe_client\<close> with the connection's handlers and one lemma per
    operation of it; \<open>Manager_Safe\<close>, the invariant \<open>links\<close> of what the manager refers to; \<open>Manager_Jobs\<close>, one lemma per job of the
    reactor; \<open>Manager_Close\<close>, the other threads and \<open>close\<close>; \<open>Manager_Live\<close>, every step; \<open>Live_Example\<close>, a concrete run.

  \<^bold>\<open>How they interact.\<close> A user's thread calls the client, which hands a wire request to the manager. The
  manager issues a context, puts the request into the submit queue and posts a job to the reactor. On the reactor's thread
  the job hands the request to a connection of the endpoint's pool, or lets the connector thread make one; the
  connection's session submits it to the protocol, whose bytes the session queues and the reactor's write events
  send. Read events go down to \<open>receiveBytes\<close>; its events come back as session events, which the connection reports to
  the manager's handlers; the manager completes the context, and the dispatcher's thread calls the user back.

  \<^bold>\<open>Correspondence.\<close> A class is a record with the code's members, a method a definition with the method's name (a
  prefix keeps \<open>start\<close>, \<open>close\<close> and the like apart), an \<open>enum\<close> a \<open>datatype\<close>, an unsigned integer a word and
  \<open>int\<close> an integer with its overflow as undefined behaviour. An \<open>unordered_map\<close> is the list of its entries
  in the table's order; where an insertion puts the new entry is a parameter (assumed to keep the entries, \<open>permutes_entries\<close>).
  Exceptions and undefined behaviour are \<open>Inl\<close> results. What the operating system, OpenSSL and the clock
  answer is an argument. A pointer to a connection is its id, a shared pointer to a context its address in a store, a
  closure given to the reactor a value of \<open>job\<close>; the use of a destroyed connection is the fault \<open>Dangling\<close>.
  Threads interleave between critical sections: \<open>manager_step\<close> has one rule for each thing a thread may do next.

  \<^bold>\<open>Interfaces.\<close> The locales and their interpretations: \<open>byte_sink\<close> by \<open>ByteBuffer\<close>, \<open>receive_window\<close> by
  \<open>InFlow\<close>, \<open>header_index\<close> by \<open>HpackTable\<close>, \<open>incremental_codec\<close> (an extension of \<open>wire_codec\<close>) by the frame codec,
  \<open>task_queue\<close> by the dispatcher and by the reactor, \<open>invariant_machine\<close> by the protocol, the session, the reactor and
  the manager, \<open>connection_client\<close> and its extension \<open>safe_client\<close> by the manager's handlers.

  \<^bold>\<open>Fuel and bounds.\<close> Loops that consume their input recurse on it. With fuel: \<open>drainPostedTasks\<close>, since a task may post
  tasks (\<open>drain_all\<close>: one more than the queue is enough if none does, as after \<open>stop\<close>); \<open>submit_pending_loop\<close>, called with
  the length of the queue and one more, which loses an entry in each round; \<open>manager_hooks\<close>, the depth to which the handlers
  and a connection call each other, called with 2. The growth of a byte buffer is a \<open>while_option\<close>, since it does not end
  beyond two gigabytes. Request numbers are assumed not to wrap at \<open>2 ^ 64\<close>, a request's body is shorter than that, and the
  properties on destroyed connections assume the same of the ids of timers and connections (\<open>roomy\<close>, before every step). That the
  depth 2 of \<open>manager_hooks\<close> and the steps of \<open>submit_pending_loop\<close> are enough is proved with them (\<open>Unending\<close> is not reached), and so is
  that \<open>close\<close> ends.

  \<^bold>\<open>What the properties show.\<close> One connection from the first byte to the last (state, events, failure, what is
  on the wire), header compression and frames (round trips, refinement, termination), buffers and checks, a session's accounting of
  its requests and the three ways in which it loses them, the contexts and the wire request, and the client as a whole: a
  request is answered exactly once, \<open>close\<close> ends and leaves none, no thread uses a connection that was destroyed, callbacks and timers
  keep their order. Where the code does not do
  what it means to, the property states what it does.

  \<^bold>\<open>Not modelled.\<close> Logging (output only). The wrappers of platform.cpp around system calls, and the code for
  Windows and macOS (the pollers \<open>select\<close> and \<open>kqueue\<close>). The blocking \<open>Client::Send\<close>, which waits on a
  \<open>std::future\<close>. The command line tool, the examples and the benchmarks. Memory that is not a connection (the
  shared pointers of the contexts), and data races on the fields that the code guards with a mutex: a critical section is one step.
\<close>

section \<open>The connection\<close>

text \<open>
  C1. Over every sequence of public operations (start, requests, received bytes, cancellations,
  pings, close, loss of the transport) on a new connection, the state invariant holds: stream ids odd and below the next id, windows
  and header tables within bounds, stream states consistent with what was sent and received.
  The reported events account for the stream table: the streams in it are
  those reported open and not closed, the ones without an answer are exactly those still
  to be answered, ids are handed out in increasing order, and no stream is closed twice.
\<close>

theorem connection_history:
  assumes "config_ok config" and "runs protocol_step (Http2Protocol_new config) rs p"
  shows "proto_ok p \<and>
    set (keys p) = set (opened_ids (history rs)) - set (closed_ids (history rs)) \<and>
    pending p = set (opened_ids (history rs)) - answered_ids (history rs) \<and>
    sorted_wrt (<) (opened_ids (history rs)) \<and> distinct (closed_ids (history rs))"
proof -
  have "proto_ok p" using protocol.runs_inv [OF assms(2) proto_ok_new [OF assms(1)]] .
  moreover have "streams (Http2Protocol_new config) = []" by (simp add: Http2Protocol_new_def Http2Protocol_default_def Let_def)
  then have "accounted (history rs) p" using accounted_runs [OF assms(2) proto_ok_new [OF assms(1)]] by blast
  ultimately show ?thesis by (simp add: accounted_def)
qed

theorem connection_history_witness: "proto_ok fresh \<and> pending fresh = {}"
proof -
  have "opened_ids (history [snd (protocol_start (Http2Protocol_new ClientConfig_new))]) = []"
    by (simp add: history_def protocol_start_def Http2Protocol_new_def Http2Protocol_default_def Let_def)
  then show ?thesis using connection_history [OF config_default fresh_run] by simp
qed

text \<open>
  C2. Whatever bytes the peer sends, receiving them ends with the
  invariant intact and every stream accounted for, or in one of two named hazards of
  the code: the capacity loop of a header buffer beyond two gigabytes, or the loop over the streams
  that erases the entry it stands on. No parser reads out of bounds, no exception escapes,
  no signed overflow occurs.
\<close>

theorem receive_outcomes:
  assumes "proto_ok p"
  shows "case receiveBytes data p of
      Inl e \<Rightarrow> e = Diverges ''ByteBuffer::ensureCapacity'' \<or> e = UndefinedBehaviour ''increment of an erased iterator''
    | Inr (p', r) \<Rightarrow> proto_ok p' \<and> tracks p (events r) p'"
  using receive_tracks [OF assms, of data] by (simp only: hang_def)

theorem receive_outcomes_witness:
  "case receiveBytes [0, 0, 1] fresh of
      Inl e \<Rightarrow> e = Diverges ''ByteBuffer::ensureCapacity'' \<or> e = UndefinedBehaviour ''increment of an erased iterator''
    | Inr (p', r) \<Rightarrow> proto_ok p' \<and> tracks fresh (events r) p'"
  by (rule receive_outcomes [OF fresh_ok])

text \<open>
  C9. The second hazard is real: after a SETTINGS frame was applied, if the first stream
  of the table has its response complete and the windows now let the whole rest of its request
  body out, the flush erases that stream under the range-based loop.
\<close>

theorem settings_flush_undefined:
  assumes "streamId (rf_header fr) = 0" and "payloadLength (rf_header fr) mod 6 = 0" and "\<not> hasAnyFlag FF_ACK (rf_header fr)"
    and "SettingFrame_of_raw fr = Inr sf"
    and "applyPeerSettings (sf_settings sf) (p\<lparr>gotPeerSettings := True\<rparr>) = Inr (EC_NO_ERROR, p1)"
    and "proto_ok p" and "streams p1 = (sid, s) # es" and "remoteEndStreamReceived s"
    and "requestBodyOffset s < length (rq_body (rqst s))"
    and "sendable s (connectionOutFlow p1) = length (rq_body (rqst s)) - requestBodyOffset s"
  shows "processSettingFrame fr p = Inl (UndefinedBehaviour ''increment of an erased iterator'')"
proof -
  have "proto_ok (p\<lparr>gotPeerSettings := True\<rparr>)" using assms(6) by (simp add: proto_ok_def)
  then have "proto_ok p1" using applyPeerSettings_ok [of _ "sf_settings sf"] assms(5) by (fastforce simp: evolves_def)
  then have "emit_each (map fst (streams p1)) p1 no_result = Inl (UndefinedBehaviour ''increment of an erased iterator'')"
    by (rule flush_erases [OF _ assms(7-10)])
  then show ?thesis using assms(1-5) by (simp add: processSettingFrame_def Let_def)
qed

theorem settings_flush_undefined_witness:
  "processSettingFrame wider starved = Inl (UndefinedBehaviour ''increment of an erased iterator'')"
proof (rule settings_flush_undefined [OF _ _ _ wider_reads _ starved_ok, where sid = 1 and es = "[]"
      and s = "starved_stream\<lparr>outflow := \<lparr>of_window = 10\<rparr>\<rparr>"])
  show "applyPeerSettings (sf_settings \<lparr>sf_header = rf_header wider, sf_settings = [(4, 65545)]\<rparr>) (starved\<lparr>gotPeerSettings := True\<rparr>) =
     Inr (EC_NO_ERROR, starved\<lparr>gotPeerSettings := True, initialWindowSize := 65545,
          streams := [(1, starved_stream\<lparr>outflow := \<lparr>of_window = 10\<rparr>\<rparr>)]\<rparr>)"
    using starved_settings by simp
qed (simp_all add: starved_def posted_def opened_def put_stream_def starved_stream_def wider_def FrameHeader_new_def hasAnyFlag_def
       sendable_def OutFlow_available_def post_request_def)

section \<open>Requests and responses\<close>

text \<open>
  C3. An accepted request is on the wire as the peer must read it: the bytes
  parse into frames of the new stream, none larger than the peer's maximum; the HEADERS and CONTINUATION payloads decode, with the
  peer's decoder, to exactly the request's header fields, and only the last carries END_HEADERS;
  the DATA payloads are the part of the body that both send windows allow, and END_STREAM marks the last of them if and only
  if the whole body is out.
\<close>

theorem request_on_wire:
  assumes "proto_ok p" and "permutes_entries order" and "length (rq_body request) < 2 ^ 64"
    and "refusal request p = None" and "in_step (hpack p) d"
    and "hpack_encode (buildRequestHeaderFields request) (hpack p) = Inr (encoded, hp)" and "length encoded < 2 ^ 32"
  shows "\<exists>p' r hs ds d'.
    submitRequest order request p = Inr (p', r) \<and> wire_frames r = (hs @ ds, []) \<and>
    (\<forall>f\<in>set (hs @ ds). streamId (rf_header f) = nextStreamId p \<and> length (rf_data f) \<le> unat (maxFrameSize p)) \<and>
    hpack_decode (span_of (concat (map rf_data hs))) [] d = Inr (True, d', buildRequestHeaderFields request) \<and>
    in_step hp d' \<and>
    (\<forall>i<length hs. hasAnyFlag FF_END_HEADERS (rf_header (hs ! i)) \<longleftrightarrow> Suc i = length hs) \<and>
    (let n = min (length (rq_body request)) (nat (min (uint (initialWindowSize p)) (of_window (connectionOutFlow p))))
     in concat (map rf_data ds) = bytes_of_string (take n (rq_body request)) \<and>
        (\<forall>i<length ds. hasAnyFlag FF_END_STREAM (rf_header (ds ! i)) \<longleftrightarrow>
           n = length (rq_body request) \<and> Suc i = length ds))"
proof -
  let ?sid = "nextStreamId p" and ?m = "unat (maxFrameSize p)" and ?b = "rq_body request"
  let ?n = "min (length ?b) (nat (min (uint (initialWindowSize p)) (of_window (connectionOutFlow p))))"
  let ?hs = "header_frames ?sid ?m encoded (?b = [])"
  let ?ds = "data_frames ?sid ?m (bytes_of_string (take ?n ?b)) (?n = length ?b)"
  have m: "0 < ?m" using assms(1) by (simp add: proto_ok_def)
  obtain p' r where r: "submitRequest order request p = Inr (p', r)" "wire_frames r = (?hs @ ?ds, [])"
    using request_frames [OF assms(1-4,6)] by blast
  obtain d' where d': "hpack_decode (span_of encoded) [] d = Inr (True, d', buildRequestHeaderFields request)" "in_step hp d'"
    using hpack_round_trip [OF assms(5,6,7), of "[]"] by auto
  show ?thesis
    using r d' m header_frames_header [of _ ?sid ?m encoded "?b = []"] data_frames_header [of _ ?sid ?m "bytes_of_string (take ?n ?b)" "?n = length ?b"]
      header_frames_END_HEADERS [of _ ?sid ?m encoded "?b = []"] data_frames_END_STREAM [of _ ?sid ?m "bytes_of_string (take ?n ?b)" "?n = length ?b"]
    by (intro exI [of _ p'] exI [of _ r] exI [of _ ?hs] exI [of _ ?ds] exI [of _ d'])
       (auto simp: header_frames_payload data_frames_payload Let_def)
qed

theorem request_on_wire_witness:
  "\<exists>p' r hs ds d'. submitRequest (\<lambda>es. es) get_request fresh = Inr (p', r) \<and> wire_frames r = (hs @ ds, []) \<and>
     hpack_decode (span_of (concat (map rf_data hs))) [] Hpack_new = Inr (True, d', buildRequestHeaderFields get_request)"
proof -
  obtain hp where enc: "hpack_encode (buildRequestHeaderFields get_request) (hpack fresh) = Inr ([0x3f, 0xe1, 0x1f, 0x82, 0x84, 0x86], hp)"
    using fresh_encodes by blast
  have "length (rq_body get_request) < 2 ^ 64" by (simp add: get_request_def)
  from request_on_wire [OF fresh_ok id_permutes this fresh_accepts fresh_in_step enc] show ?thesis by auto
qed

text \<open>
  C10. A request that cannot be sent (connection not started, closed or going
  away; request invalid; limit of concurrent streams reached; stream ids used up) changes nothing and sends
  nothing: the only effect is a failure event for stream 0. In particular a peer limit of
  zero refuses every request.
\<close>

theorem submission_refused:
  assumes "proto_ok p"
    and "\<not> canSubmitRequests p \<or> \<not> Request_isValid request \<or> unat (maxConcurrentStreams p) \<le> length (streams p) \<or>
         0x7fffffff \<le> nextStreamId p"
  shows "\<exists>e. submitRequest order request p =
    Inr (p, \<lparr>outbound = [], events = [EV_RESPONSE_FAILED 0 e], hasSubmittedStream = False, submittedStreamId = 0\<rparr>) \<and>
    (e = EC_PROTOCOL_ERROR \<longleftrightarrow> canSubmitRequests p \<and> \<not> Request_isValid request) \<and> (e = EC_PROTOCOL_ERROR \<or> e = EC_REFUSED_STREAM)"
proof -
  have "0x7fffffff \<le> nextStreamId p \<Longrightarrow> 0x7fffffff - 1 < nextStreamId p"
    by (erule order.strict_trans2 [rotated]) simp
  then have "refusal request p \<noteq> None" using assms(2) by (auto simp: refusal_def)
  then obtain e where e: "refusal request p = Some e" by blast
  then have "(e = EC_PROTOCOL_ERROR \<longleftrightarrow> canSubmitRequests p \<and> \<not> Request_isValid request) \<and> (e = EC_PROTOCOL_ERROR \<or> e = EC_REFUSED_STREAM)"
    by (auto simp: refusal_def split: if_splits)
  then show ?thesis using submitRequest_refused [OF assms(1) e, of order] by (auto simp: push_event_def no_result_def)
qed

theorem submission_refused_witness:
  "\<exists>e. submitRequest (\<lambda>es. es) Request_new fresh =
    Inr (fresh, \<lparr>outbound = [], events = [EV_RESPONSE_FAILED 0 e], hasSubmittedStream = False, submittedStreamId = 0\<rparr>)"
proof -
  have "\<not> Request_isValid Request_new" by (simp add: Request_isValid_def Request_new_def Request_find_def)
  then show ?thesis using submission_refused [OF fresh_ok, of Request_new "\<lambda>es. es"] by blast
qed

text \<open>
  C11. The loop that sends a request body equals its reference: the longest prefix of the rest
  that both windows allow, cut into chunks of the peer's frame size, END_STREAM on the last
  chunk of the body; both windows shrink by exactly the bytes sent.
\<close>

theorem body_emission:
  assumes "0 < unat mfs" and "body_ok s" and "OutFlow_wf conn"
  shows "emit_body_loop mfs s conn r =
     (let n = sendable s conn; sent = take n (drop (requestBodyOffset s) (rq_body (rqst s)));
          frames = data_frames (st_id s) (unat mfs) (bytes_of_string sent) (requestBodyOffset s + n = length (rq_body (rqst s)))
      in Inr (sent_body n s, conn\<lparr>of_window := of_window conn - int n\<rparr>,
              r\<lparr>outbound := outbound r @ map raw_bytes frames\<rparr>))"
  using emit_body_loop_frames [OF assms, of r] by (simp add: Let_def spend_def)

theorem body_emission_witness:
  "emit_body_loop 2 replied_stream \<lparr>of_window = 3\<rparr> no_result =
     Inr (sent_body 3 replied_stream, \<lparr>of_window = 0\<rparr>,
          no_result\<lparr>outbound := map raw_bytes (data_frames 1 2 (bytes_of_string ''hel'') False)\<rparr>)"
proof -
  have "body_ok replied_stream" "OutFlow_wf \<lparr>of_window = 3\<rparr>"
    using replied_stream_ok by (simp_all add: stream_ok_def OutFlow_wf_def i32_bounds)
  from body_emission [OF _ this, of 2 no_result] show ?thesis
    by (simp add: sendable_def OutFlow_available_def post_request_def numeral_3_eq_3)
qed





text \<open>
  C6. A connection error sends GOAWAY at most once, fails every open stream
  with the error, in the order of the table, and reports the error and the closing last; afterwards
  the connection is closed with an empty stream table.
\<close>

theorem connection_failure:
  assumes "proto_ok p" and "failConnection e debug p = (p', r)"
  shows "closed p' \<and> streams p' = [] \<and> connectionErrorCode p' = e \<and>
    events r = (if sentGoaway p \<or> transportClosed p then [] else [EV_GOAWAY_SENT (lastPeerStreamId p) e debug]) @
      concat (map (\<lambda>sid. [EV_STREAM_CLOSED sid e, EV_RESPONSE_FAILED sid e]) (keys p)) @
      [EV_CONNECTION_ERROR e, EV_CONNECTION_CLOSED e] \<and>
    outbound r = (if sentGoaway p \<or> transportClosed p then [] else [GoAwayFrame_toBytes (buildGoAwayFrame e debug p)])"
proof -
  have "distinct (keys p)" using assms(1) by (simp add: proto_ok_def)
  from failConnection_spec [OF this, of e debug] show ?thesis
    using assms(2) by (auto simp: shut_def goaway_part_def fail_events_def [abs_def])
qed

theorem connection_failure_witness:
  "events (snd (failConnection EC_PROTOCOL_ERROR [] replied)) =
     [EV_GOAWAY_SENT (lastPeerStreamId replied) EC_PROTOCOL_ERROR [], EV_STREAM_CLOSED 1 EC_PROTOCOL_ERROR,
      EV_RESPONSE_FAILED 1 EC_PROTOCOL_ERROR, EV_CONNECTION_ERROR EC_PROTOCOL_ERROR, EV_CONNECTION_CLOSED EC_PROTOCOL_ERROR]"
  using connection_failure [OF replied_ok(1), of EC_PROTOCOL_ERROR "[]"]
  by (cases "failConnection EC_PROTOCOL_ERROR [] replied")
     (auto simp: replied_def posted_def opened_def put_stream_def keys_def)

section \<open>Header compression\<close>

text \<open>
  C7. A header block is decoded to exactly the headers that were encoded, the decoder's
  dynamic table follows the encoder's, also over pending table size updates, and the
  states are again in step for the next block.
\<close>

theorem hpack_block_round_trip:
  assumes "in_step e d" and "hpack_encode hs e = Inr (bs, e')" and "length bs < 2 ^ 32"
  shows "\<exists>d'. hpack_decode (span_of bs) headers d = Inr (True, d', headers @ hs) \<and> in_step e' d'"
  using hpack_round_trip [OF assms] by blast

theorem hpack_block_round_trip_witness:
  "\<exists>d'. hpack_decode (span_of [0x82]) [] Hpack_new = Inr (True, d', [HeaderField_new '':method'' ''GET'']) \<and>
        in_step Hpack_new d'"
proof -
  have "hpack_encode [HeaderField_new '':method'' ''GET''] Hpack_new = Inr ([0x82], Hpack_new)"
    by (simp add: hpack_encode_def encode_updates_def Hpack_new_def encode_header_def table_find_def
        STATIC_NAME_VALUE_TABLE_def STATIC_NAME_VALUES_def HeaderField_new_def encodeIndexedHeader_def
        encodeVInt_def maxPrefix_def buf_or_at_def)
  from hpack_block_round_trip [OF in_step_new this, of "[]"] show ?thesis by simp
qed

text \<open>
  C8. The Huffman decoder accepts exactly the encodings that the encoder produces, and returns
  the string they encode: it neither rejects a valid encoding nor accepts a second encoding
  of a string (wrong padding, truncated or non-canonical codes).
\<close>

theorem huffman_exact: "huffman_decode data = Inr (HR_OK, s) \<longleftrightarrow> data = huffman_encode s"
  by (rule huffman_decode_iff)

text \<open>
  C12. On every input the block decoder returns: it reads within the
  block, appends to the headers decoded so far, and leaves a well-formed table whose
  entries take no more than the limit announced to the peer.
\<close>

theorem hpack_decoder_total:
  assumes "decoder_ok d" and "length bs < 2 ^ 32"
  shows "\<exists>ok d' hs. hpack_decode (span_of bs) headers d = Inr (ok, d', headers @ hs) \<and> decoder_ok d' \<and>
    decodeTableLimit d' = decodeTableLimit d \<and> total_size (dyn (decodeTable d')) \<le> decodeTableLimit d'"
proof -
  obtain ok d' hs where r: "hpack_decode (span_of bs) headers d = Inr (ok, d', headers @ hs)" "decoded_from d d'"
    using hpack_decode_total [OF assms(1), of "span_of bs" headers] assms(2) by auto
  then show ?thesis
    by (intro exI [of _ ok] exI [of _ d'] exI [of _ hs]) (auto simp: decoded_from_def decoder_ok_def table_wf_def indexed_from_def dyn_def)
qed

theorem hpack_decoder_total_witness:
  "\<exists>ok d' hs. hpack_decode (span_of [0x40]) [] Hpack_new = Inr (ok, d', hs) \<and> decoder_ok d'"
  using hpack_decoder_total [OF decoder_ok_new, of "[0x40]" "[]"] by auto

text \<open>
  C13. The dynamic table, kept as an array with two hash maps and a byte count, implements the
  specification of RFC 7541: newest entry first, inserting and resizing keep the longest
  run of newest entries whose sizes fit; the maps and the count stay consistent with the array.
\<close>

theorem table_refines_window:
  assumes "table_wf t"
  shows "table_wf (table_insert h t) \<and> dyn (table_insert h t) = fit (maxSize t) (h # dyn t) \<and>
    table_wf (table_setMaxSize m t) \<and> dyn (table_setMaxSize m t) = fit m (dyn t) \<and>
    maxSize (table_insert h t) = maxSize t \<and> maxSize (table_setMaxSize m t) = m"
  using table_insert_spec [OF assms] table_setMaxSize_spec [OF assms] by simp

theorem table_refines_window_witness:
  "dyn (table_setMaxSize 40 (table_insert (HeaderField_new ''a'' ''b'') HpackTable_new)) = [HeaderField_new ''a'' ''b'']"
proof -
  have "dyn (table_insert (HeaderField_new ''a'' ''b'') HpackTable_new) = [HeaderField_new ''a'' ''b'']"
    "table_wf (table_insert (HeaderField_new ''a'' ''b'') HpackTable_new)"
    using table_refines_window [OF HpackTable_new_wf(1), of "HeaderField_new ''a'' ''b''"] HpackTable_new_wf(2)
    by (simp_all add: HpackTable_new_def INIT_MAX_TABLE_SIZE_def field_size_def HeaderField_new_def)
  then show ?thesis
    using table_refines_window [of "table_insert (HeaderField_new ''a'' ''b'') HpackTable_new" _ 40]
    by (simp add: field_size_def HeaderField_new_def)
qed

text \<open>
  C14. A lookup names an entry that the decoder finds under that index: an exact match has the
  same name and value, a name match the same name; a field that is not sensitive and is in the static or the
  dynamic table is always matched exactly.
\<close>

theorem table_lookup_sound:
  assumes "table_wf t" and "table_find h t = (exact, i)"
  shows "(exact \<longrightarrow> \<not> sensitivity h \<and> (\<exists>e. table_at i t = Some e \<and> hname e = hname h \<and> hvalue e = hvalue h)) \<and>
    (\<not> exact \<and> i \<noteq> 0 \<longrightarrow> (\<exists>e. table_at i t = Some e \<and> hname e = hname h)) \<and>
    (\<not> sensitivity h \<and> (\<exists>e j. table_at j t = Some e \<and> hname e = hname h \<and> hvalue e = hvalue h) \<longrightarrow> exact)"
  using assms table_find_exact [OF assms(1)] table_find_name [OF assms(1)] table_find_complete [OF assms(1), of h]
    table_at_holds
  by (cases exact) fastforce+

theorem table_lookup_sound_witness:
  "\<exists>e. table_at 4 HpackTable_new = Some e \<and> hname e = '':path'' \<and> hvalue e = ''/''"
  using table_lookup_sound [OF HpackTable_new_wf(1) static_finds(2)] by (simp add: HeaderField_new_def)

section \<open>Frames, buffers and fields\<close>



text \<open>
  C16. Every frame the library builds is parsed back to itself from its bytes: DATA and HEADERS with
  padding and priority, RST_STREAM, SETTINGS, PUSH_PROMISE, PING, GOAWAY, WINDOW_UPDATE and CONTINUATION.
\<close>

theorem frames_read_back:
  "(padding_ok (df_header df) (df_padLength df) (df_padding df) \<and>
    fits (df_header df) (pad_prefix (df_header df) (df_padLength df) @ df_data df @ df_padding df) \<longrightarrow>
    read_back DataFrame_toBytes DataFrame_of_raw df) \<and>
   (padding_ok (hf_header hf) (hf_padLength hf) (hf_padding hf) \<and>
    (\<not> hasAnyFlag FF_PRIORITY (hf_header hf) \<longrightarrow> hf_streamDependency hf = 0 \<and> hf_weight hf = 0) \<and>
    fits (hf_header hf) (pad_prefix (hf_header hf) (hf_padLength hf)
      @ (if hasAnyFlag FF_PRIORITY (hf_header hf) then be_bytes 4 (hf_streamDependency hf) @ be_bytes 1 (hf_weight hf) else [])
      @ hf_data hf @ hf_padding hf) \<longrightarrow>
    read_back HeadersFrame_toBytes HeadersFrame_of_raw hf) \<and>
   (fits (rst_header rf) (be_bytes 4 (rst_errorCode rf)) \<longrightarrow> read_back RstStreamFrame_toBytes RstStreamFrame_of_raw rf) \<and>
   (fits (sf_header sf) (concat (map setting_bytes (sf_settings sf))) \<longrightarrow> read_back SettingFrame_toBytes SettingFrame_of_raw sf) \<and>
   (padding_ok (pp_header pp) (pp_padLength pp) (pp_padding pp) \<and> unat (pp_promisedStreamId pp) < 2 ^ 31 \<and>
    fits (pp_header pp) (pad_prefix (pp_header pp) (pp_padLength pp)
      @ be_bytes 4 (pp_promisedStreamId pp) @ pp_data pp @ pp_padding pp) \<longrightarrow>
    read_back PushPromiseFrame_toBytes PushPromiseFrame_of_raw pp) \<and>
   (fits (ping_header pf) (ping_data pf) \<longrightarrow> read_back PingFrame_toBytes (Inr \<circ> PingFrame_of_raw) pf) \<and>
   (unat (ga_lastStreamId gf) < 2 ^ 31 \<and>
    fits (ga_header gf) (be_bytes 4 (ga_lastStreamId gf) @ be_bytes 4 (ga_errorCode gf) @ ga_data gf) \<longrightarrow>
    read_back GoAwayFrame_toBytes GoAwayFrame_of_raw gf) \<and>
   (fits (wu_header wu) (be_bytes 4 (wu_windowSizeIncrement wu)) \<longrightarrow>
    read_back WindowUpdateFrame_toBytes WindowUpdateFrame_of_raw wu) \<and>
   (fits (cf_header cf) (cf_data cf) \<longrightarrow> read_back ContinuationFrame_toBytes (Inr \<circ> ContinuationFrame_of_raw) cf)"
  unfolding read_back_def comp_def sum.inject
  by (intro conjI impI allI; (elim conjE)?;
      (rule DataFrame_read_back HeadersFrame_read_back RstStreamFrame_read_back SettingFrame_read_back PushPromiseFrame_read_back
         PingFrame_read_back GoAwayFrame_read_back WindowUpdateFrame_read_back ContinuationFrame_read_back; assumption))

theorem frames_read_back_witness:
  "read_back SettingFrame_toBytes SettingFrame_of_raw settings_ack"
proof -
  have "fits (sf_header settings_ack) (concat (map setting_bytes (sf_settings settings_ack)))"
    by (simp add: settings_ack_def fits_def raw_ok_def FrameHeader_new_def setFlag_def)
  then show ?thesis using frames_read_back [where sf = settings_ack] by blast
qed

text \<open>
  C17. Appending to a header block is list append as long as the block stays within
  two gigabytes; beyond that the loop that doubles the capacity does not end.
\<close>

theorem buffer_append_refines:
  assumes "bb_wf b" and "power_cap (bb_cap b)" and "length (bb_bytes b) + length bs < 2 ^ 32"
  shows "if bs = [] \<or> length (bb_bytes b) + length bs \<le> 2 ^ 31
    then \<exists>b'. bb_append_range bs b = Inr b' \<and> bb_wf b' \<and> power_cap (bb_cap b') \<and> bb_bytes b' = bb_bytes b @ bs
    else bb_append_range bs b = Inl (Diverges ''ByteBuffer::ensureCapacity'')"
  using append_range_exact [OF assms] by (auto simp: not_le split: if_splits)

theorem buffer_append_refines_witness:
  "\<exists>b'. bb_append_range [1, 2, 3] (bb_new 0) = Inr b' \<and> bb_bytes b' = [1, 2, 3]"
  using buffer_append_refines [of "bb_new 0" "[1, 2, 3]"] bb_new_wf [of 0] by (auto simp: power_cap_def bb_new_def)

text \<open>
  C18. The padding check accepts a padded frame exactly when some data
  is left beyond the fixed prefix and the padding: a frame whose padding exactly fills the payload, which
  RFC 9113 allows, is refused with a protocol error.
\<close>

theorem padding_checked:
  assumes "raw_ok fr" and "hasAnyFlag FF_PADDED (rf_header fr)" and "rf_data fr = pad # rest" and "unat k \<le> 5"
  shows "validatePaddedPayload fr k =
    (if length rest < unat k then Inr (Inl (EC_FRAME_SIZE_ERROR, ''frame payload shorter than padded prefix''))
     else if length rest - unat k \<le> unat pad then Inr (Inl (EC_PROTOCOL_ERROR, ''padding exceeds frame payload''))
     else Inr (Inr ()))"
  by (rule padded_payload_exact [OF assms])

theorem padding_checked_witness:
  "validatePaddedPayload (plain_raw FT_DATA 8 1 [0]) 0 = Inr (Inl (EC_PROTOCOL_ERROR, ''padding exceeds frame payload''))"
proof -
  have "raw_ok (plain_raw FT_DATA 8 1 [0])" by (rule plain_raw_ok) simp_all
  moreover have "hasAnyFlag FF_PADDED (rf_header (plain_raw FT_DATA 8 1 [0]))" "rf_data (plain_raw FT_DATA 8 1 [0]) = [0]"
    by (simp_all add: plain_raw_def hasAnyFlag_def)
  ultimately show ?thesis using padding_checked [of "plain_raw FT_DATA 8 1 [0]" 0 "[]" 0] by simp
qed

text \<open>
  C19. The status parser accepts exactly three digits between 100 and 599, and the value that
  the response later computes from the same text is the same.
\<close>

theorem status_code_exact:
  "(tryParseStatusCode s = Some n \<longleftrightarrow> length s = 3 \<and> list_all is_digit s \<and> n = digits_value s \<and> 100 \<le> n \<and> n \<le> 599) \<and>
   (tryParseStatusCode s = Some n \<longrightarrow> std_stoi s = Inr n)"
  using tryParseStatusCode_iff status_code_stoi by simp

theorem status_code_exact_witness: "std_stoi ''200'' = Inr 200"
  using status_code_exact [of "''200''" 200] by (simp add: is_digit_def digits_value_def digit_value_def)

section \<open>Sessions\<close>



text \<open>
  C21. When a read finds the connection closed or broken, the events that the
  reads before it produced in the same call are thrown away: the returned events answer only the contexts that are
  still held, and the requests that were already taken out of the table (a response just completed, say) are neither answered nor held.
\<close>

theorem read_failure_loses:
  assumes "session_ok s" and "Session_isHealthy s" and "ss_transport s = Some t"
    and "\<forall>(a, b)\<in>set reads. moving_answer t 8192 a" and "read_loop reads s [] = Inr (es1, s1)" and "closing_answer t 8192 a"
  shows "\<exists>es s'. Session_onReadable (reads @ [(a, b)]) s = Inr (es, s') \<and>
    held s = done_by es1 + done_by es \<and> held s' = {#} \<and> (\<not> ss_healthy s1 \<longrightarrow> es = [])"
proof -
  have "\<forall>(a, b)\<in>set reads. \<not> closing_answer t 8192 a" using assms(4) by (auto simp: moving_answer_def closing_answer_def)
  then have s1: "session_ok s1" "held s = done_by es1 + held s1"
    using read_loop_ok [OF assms(1,3), of reads "[]"] assms(5) by auto
  obtain es s' where f: "handleTransportFailure s1 = (es, s')" by fastforce
  have "Session_onReadable (reads @ [(a, b)]) s = Inr (es, s')"
    using read_loop_drops [OF assms(1,3,4,5,6), of b] assms(2) f by (simp add: Session_onReadable_def)
  moreover have "\<not> ss_healthy s1 \<longrightarrow> es = []" using f by (auto simp: handleTransportFailure_def)
  ultimately show ?thesis using failure_ok [OF s1(1) f] s1(2) by auto
qed

theorem read_failure_loses_witness:
  "\<exists>s'. Session_onReadable [(answer 17, early_ping), (answer 0, [])] busy = Inr ([], s') \<and> held busy = {#7#} \<and> held s' = {#}"
proof -
  obtain s1 where s1: "read_loop [(answer 17, early_ping)] busy [] =
      Inr ([REQUEST_DONE 7 (protocolError EC_PROTOCOL_ERROR ''errorCode=1''), SESSION_DEAD, SESSION_DEAD], s1)" "\<not> ss_healthy s1"
    using early_ping_read by blast
  have a: "\<forall>(a, b)\<in>set [(answer 17, early_ping)]. moving_answer tcp_open 8192 a" "closing_answer tcp_open 8192 (answer 0)"
    by (simp_all add: moving_answer_def closing_answer_def)
  show ?thesis using read_failure_loses [OF busy_ok(1-3) a(1) s1(1) a(2), of "[]"] s1(2) busy_ok(4) by auto
qed

text \<open>
  C22. When a write fails, every context is taken out of the table and the events that would answer
  them, the SESSION_DEAD event included, are discarded: the requests are never answered and the connection is never told.
\<close>

theorem write_failure_loses:
  assumes "session_ok s" and "Session_isHealthy s" and "ss_transport s = Some t" and "ss_outbound s = chunk # rest"
    and "ch_offset chunk < length (ch_data chunk)" and "closing_answer t (length (ch_data chunk) - ch_offset chunk) a"
  shows "\<exists>s'. Session_onWritable (a # writes) s = Inr ([], s') \<and> held s' = {#} \<and> \<not> ss_healthy s' \<and> ss_started s' \<and>
    done_by (fst (handleTransportFailure s)) = held s"
proof -
  obtain es s' where f: "handleTransportFailure s = (es, s')" by fastforce
  have "Session_onWritable (a # writes) s = Inr ([], s')"
    using assms(2-6) f by (auto simp: Session_onWritable_def write_loop.simps [of "a # writes"] closing_answer_def Let_def)
  moreover have "ss_started s'" using f assms(2)
    by (auto simp: handleTransportFailure_def Session_isHealthy_def Session_failAllStreams_def consumeStepResult_def Let_def split: prod.splits)
  ultimately show ?thesis using failure_ok [OF assms(1) f] f by auto
qed

theorem write_failure_loses_witness:
  "\<exists>s'. Session_onWritable [answer 0] busy = Inr ([], s') \<and> held busy = {#7#} \<and> held s' = {#}"
  using write_failure_loses [OF busy_ok(1-3), of "\<lparr>ch_data = [1, 2, 3], ch_offset = 0\<rparr>" "[]" "answer 0" "[]"] busy_ok(4)
  by (auto simp: busy_def closing_answer_def)

text \<open>
  C23. A request that the protocol refuses is neither held nor answered: its
  failure event names stream 0, for which no context is registered. This happens to every CONNECT request of the
  client, since the wire request always carries :scheme and :path.
\<close>

theorem refused_request_lost:
  assumes "session_ok s" and "Session_isHealthy s" and "cq_method request = ''CONNECT''"
    and "last_value '':method'' (cq_headers request) = None"
  shows "Session_submit order corder (buildWireRequest userAgent request) c h s = Inr ([], h, s)"
proof -
  let ?r = "buildWireRequest userAgent request" and ?p = "ss_protocol s"
  have p: "proto_ok ?p" using assms(1) by (simp add: session_ok_def)
  have "Request_find ?r '':method'' = Some ''CONNECT''" using assms(3,4) by (simp add: wire_find default_headers_def)
  then have "\<not> Request_isValid ?r" by (simp add: wire_valid_iff)
  then have "refusal ?r ?p \<noteq> None" by (simp add: refusal_def)
  then obtain e where e: "refusal ?r ?p = Some e" by blast
  have "context_at 0 s = None"
    using assms(1,2) zero_not_pending [OF p] by (simp add: context_at_def map_of_eq_None_iff session_ok_def Session_isHealthy_def)
  then show ?thesis
    using submitRequest_refused [OF p e, of order] assms(2)
    by (simp add: Session_submit_def consumeStepResult_def Let_def translateEvent_def answer_context_def context_at_def)
qed

theorem refused_request_lost_witness:
  "Session_submit (\<lambda>es. es) (\<lambda>cs. cs) (buildWireRequest ''ua'' (ClientRequest_new\<lparr>cq_method := ''CONNECT''\<rparr>)) 9 (\<lambda>_. RequestContext_new 9 0 True) busy =
     Inr ([], \<lambda>_. RequestContext_new 9 0 True, busy)"
  using refused_request_lost [OF busy_ok(1,2), of "ClientRequest_new\<lparr>cq_method := ''CONNECT''\<rparr>"] by (simp add: ClientRequest_new_def last_value_def)



text \<open>
  C25. Canceling a request in flight resets its stream and answers it exactly once, with the protocol
  error CANCEL: the answer "Request canceled" that the code keeps for this case is never given.
\<close>

theorem cancel_in_flight:
  assumes "session_ok s" and "Session_isHealthy s" and "ctx_streamId (h c) = sid" and "context_at sid s = Some d"
  shows "\<exists>s'. Session_cancelRequest (Some c) h s = ([REQUEST_DONE d (protocolError EC_CANCEL ''errorCode=8'')], s') \<and>
    session_ok s' \<and> held s = add_mset d (held s')"
proof -
  have "sid \<in> set (waiting s)" using assms(4) by (force simp: context_at_def dest: map_of_SomeD)
  then have "sid \<noteq> 0" using assms(1,2) zero_not_pending [of "ss_protocol s"] by (auto simp: session_ok_def Session_isHealthy_def)
  obtain es s' where c: "cancel_stream_of sid s = (es, s')" by fastforce
  then have "Session_cancelRequest (Some c) h s = (es, s')"
    using assms(2-4) \<open>sid \<noteq> 0\<close> by (simp add: Session_cancelRequest_def Let_def)
  then show ?thesis using cancel_stream_ok [OF assms(1,2,4) c] by simp
qed

theorem cancel_in_flight_witness:
  "\<exists>s'. Session_cancelRequest (Some 7) (\<lambda>_. setStreamId 1 (RequestContext_new 5 0 True)) busy =
     ([REQUEST_DONE 7 (protocolError EC_CANCEL ''errorCode=8'')], s') \<and> held s' = {#}"
  using cancel_in_flight [OF busy_ok(1,2), of "\<lambda>_. setStreamId 1 (RequestContext_new 5 0 True)" 7 1 7] busy_ok(4,6)
  by (auto simp: setStreamId_def context_at_def)

section \<open>Requests, connectors\<close>

text \<open>
  C26. However the threads interleave, the flag that guards the completion of a
  request is won exactly once if anyone tries, and cancellation is recorded at most once.
\<close>

theorem completion_once:
  assumes "perform_all accesses (RequestContext_new i t f) = (bs, c)"
  shows "wins finishing bs = (if Try_Finish \<in> set accesses then 1 else 0) \<and> wins canceling bs \<le> 1 \<and>
    finished_flag c = (Try_Finish \<in> set accesses)"
  using finish_wins [OF assms] cancel_wins [OF assms] by (auto simp: RequestContext_new_def)

theorem completion_once_witness:
  "wins finishing (fst (perform_all [Cancel, Try_Finish, Mark_Canceled, Try_Finish] (RequestContext_new 1 0 True))) = 1"
  using completion_once [of "[Cancel, Try_Finish, Mark_Canceled, Try_Finish]" 1 0 True]
  by (cases "perform_all [Cancel, Try_Finish, Mark_Canceled, Try_Finish] (RequestContext_new 1 0 True)") simp

text \<open>
  C27. The request on the wire has each of the caller's headers (the last value, if a
  name is repeated), the defaults for the names the caller does not set, and a content length that the library's own
  parser reads as the size of the body; its body is the caller's. It is valid exactly if its method is not CONNECT.
\<close>

theorem wire_request:
  "(case last_value k (cq_headers request) of
      Some v \<Rightarrow> Request_find (buildWireRequest userAgent request) k = Some v
    | None \<Rightarrow> k \<noteq> ''content-length'' \<longrightarrow>
        Request_find (buildWireRequest userAgent request) k = map_of (default_headers userAgent request) k) \<and>
   (cq_body request \<noteq> [] \<and> cq_autoContentLength request \<and> last_value ''content-length'' (cq_headers request) = None \<and>
    length (cq_body request) \<le> 10000000000000000 \<longrightarrow>
      (\<exists>v. Request_find (buildWireRequest userAgent request) ''content-length'' = Some v \<and>
           tryParseContentLength v = Some (int (length (rq_body (buildWireRequest userAgent request)))))) \<and>
   rq_body (buildWireRequest userAgent request) = cq_body request \<and>
   (Request_isValid (buildWireRequest userAgent request) \<longleftrightarrow>
      Request_find (buildWireRequest userAgent request) '':method'' \<noteq> Some ''CONNECT'')"
  using wire_find [of userAgent request] wire_valid_iff [of userAgent request]
    content_length_round_trip [of "length (cq_body request)"] wire_wf(2) [of userAgent request]
  by (auto simp: default_headers_def split: option.splits)

theorem wire_request_witness:
  "\<exists>v. Request_find (buildWireRequest ''ua'' (ClientRequest_new\<lparr>cq_body := ''hello''\<rparr>)) ''content-length'' = Some v \<and>
       tryParseContentLength v = Some 5"
proof -
  let ?request = "ClientRequest_new\<lparr>cq_body := ''hello''\<rparr>"
  have "cq_body ?request = ''hello''" "cq_autoContentLength ?request" "last_value ''content-length'' (cq_headers ?request) = None"
    by (simp_all add: ClientRequest_new_def last_value_def)
  then show ?thesis using wire_request [where request = ?request and userAgent = "''ua''" and k = "''content-length''"] by auto
qed

text \<open>
  C28. Whatever the system answers, connecting opens and closes descriptors in balance: each
  one opened is closed again or is the one returned, and the one returned is valid.
\<close>

theorem connector_balanced:
  "balanced (connectIp resolved a timeoutMs) \<and> balanced (connectDomain resolved as timeoutMs) \<and> balanced (connectUnix a timeoutMs)"
  using connect_balanced by blast

section \<open>The connection manager\<close>









text \<open>
  C33. In every reachable state a request in flight is one that was issued and its connection exists
  and is connected; a watched descriptor and a live ping timer belong to a connection that is connected and knows them by
  this descriptor and this id; and the connection whose registration is posted exists.
\<close>

theorem reachable_references:
  assumes "runs bounded_step (ConnectionManager_new config, []) ls (m, sending)" and "config_ok config"
  shows "(requestConnections m k = Some cid \<longrightarrow> issued m k \<and> (\<exists>cn. connections m cid = Some cn \<and> connected cn)) \<and>
    (rx_fds (reactor m) fd = Some fc \<longrightarrow> (\<exists>cid cn. fd_read fc = Session_Readable cid \<and> fd_write fc = Some (Session_Writable cid) \<and>
       connections m cid = Some cn \<and> connected cn \<and> sessionFd cn = fd)) \<and>
    (\<forall>t\<in>set (live (reactor m)).
       (ti_handler t = Ping_Timer cid \<longrightarrow> (\<exists>cn. connections m cid = Some cn \<and> connected cn \<and> pingTimerId cn = ti_id t \<and> \<not> pendingPing cn)) \<and>
       (ti_handler t = Ping_Timeout cid \<longrightarrow> (\<exists>cn. connections m cid = Some cn \<and> connected cn \<and> pingTimeoutTimerId cn = ti_id t \<and> pendingPing cn))) \<and>
    (Connection_Established ep cid \<in> set (rx_tasks (reactor m)) \<longrightarrow> connections m cid \<noteq> None)"
  using sound_references [OF reachable_sound [OF assms]] by blast

theorem reachable_references_witness:
  "connections connected_h 1 \<noteq> None"
  using reachable_references [OF connected_run config_default, of _ 1 _ _ "pr_endpoint get_h"] by (simp add: connected_h)

text \<open>
  C34. The connection picked for an endpoint is the first of those in its pool that accept
  requests and carry the fewest active streams; none is picked exactly if none accepts.
\<close>

theorem least_loaded_connection:
  "pickConnectionOnReactor ep m = Option.bind (ep_find ep (pools m)) (least_loaded (connections m))"
  by (simp add: pickConnectionOnReactor_def pick_best_least split: option.splits)

text \<open>
  C35. A request that times out while its stream is open is answered at once and exactly once, but as a
  stream error with the code CANCEL: the answer "Request timeout" is only given to requests that wait.
\<close>

theorem timeout_in_flight:
  assumes "findContext k m = Some c" and "\<not> finished_of c m" and "REQUEST_ID (ctxs m c) = k" and "completionHandler (ctxs m c)"
    and "removeFromSubmitQueue k m = None" and "remove_pending k (ctxs m) (pendingByEndpoint m) = None"
    and "requestConnections m k = Some cid" and "connections m cid = Some cn" and "connected cn"
    and "session_ok (cn_session cn)" and "Session_isHealthy (cn_session cn)"
    and "context_at (ctx_streamId (ctxs m c)) (cn_session cn) = Some c"
    and "ep_find (cn_endpoint cn) (pendingByEndpoint m) = None"
  shows "\<exists>m'. run_job env (Request_Timeout k) m = Inr m' \<and> finished_of c m' \<and>
    answered m' = answered m + {#(c, protocolError EC_CANCEL ''errorCode=8'')#}"
  using timeout_answer [OF assms] by simp

theorem timeout_in_flight_witness:
  "\<exists>m'. run_job idle_env (Request_Timeout 7) in_flight = Inr m' \<and>
     answered m' = {#(7, protocolError EC_CANCEL ''errorCode=8'')#}"
  using timeout_in_flight [of 7 in_flight 7 1 in_flight_connection idle_env] busy_ok(1,2,6)
  by (auto simp: in_flight_facts context_at_def setStreamId_def RequestContext_new_def)

text \<open>
  C36. The equality of endpoints that keys the pools is an equivalence that agrees with the hash, whatever the
  standard hashes are; it does not look at the certificate file.
\<close>

theorem endpoint_keys:
  "equivp ep_eq \<and> (ep_eq a b \<longrightarrow> EndpointHash hs hp hb a = EndpointHash hs hp hb b) \<and>
   (ep_type a = TCP \<longrightarrow> ep_eq a (a\<lparr>ep_certFile := f\<rparr>))"
proof -
  have "equivp ep_eq" by (rule equivpI) (auto intro!: reflpI sympI transpI intro: ep_eq_equivalence)
  moreover have "ep_type a = TCP \<longrightarrow> ep_eq a (a\<lparr>ep_certFile := f\<rparr>)" by (simp add: ep_eq_def ep_target_def)
  ultimately show ?thesis using EndpointHash_eq by blast
qed

theorem endpoint_keys_witness:
  "EndpointHash (\<lambda>s. of_nat (length s)) ucast of_bool (Endpoint_new\<lparr>ep_host := ''localhost''\<rparr>) =
   EndpointHash (\<lambda>s. of_nat (length s)) ucast of_bool (Endpoint_new\<lparr>ep_ip := ''localhost''\<rparr>)"
  using endpoint_keys [of "Endpoint_new\<lparr>ep_host := ''localhost''\<rparr>" "Endpoint_new\<lparr>ep_ip := ''localhost''\<rparr>"
      "\<lambda>s. of_nat (length s)" ucast of_bool]
  by (simp add: ep_eq_def ep_target_def Endpoint_new_def)

section \<open>The reactor and the callback thread\<close>

text \<open>
  C37. Over every interleaving of posts with the worker's loop, the callbacks run in the order in which
  they were accepted, and \<open>stop\<close> runs those that are left: none is lost, none runs twice, and none after.
\<close>

theorem callbacks_in_order:
  assumes "CallbackDispatcher_start CallbackDispatcher_new = (True, d0)"
    and "runs (queue_step (\<lambda>t. CallbackDispatcher_post (Some t)) dispatcher_take) d0 ls d"
  shows "\<exists>executed d'. CallbackDispatcher_stop False d = Inr (executed, d') \<and> taken ls @ executed = accepted ls \<and>
    cd_tasks d' = [] \<and> (\<forall>task. \<not> fst (CallbackDispatcher_post task d'))"
proof -
  have d0: "cd_tasks d0 = []" "dispatcher_accepts d0"
    using assms(1) by (auto simp: CallbackDispatcher_start_def CallbackDispatcher_new_def)
  have order: "accepted ls = taken ls @ cd_tasks d" using dispatcher.runs_in_order [OF assms(2)] d0(1) by simp
  have "dispatcher_accepts d" using assms(2) d0(2)
    by (induction rule: runs.induct) (use dispatcher.step_waiting(2) in blast)+
  then obtain d' where "CallbackDispatcher_stop False d = Inr (cd_tasks d, d')" "cd_tasks d' = []" "\<not> cd_running d'"
    using stop_runs_all by blast
  then show ?thesis using order by (auto simp: CallbackDispatcher_post_def split: option.splits)
qed

theorem callbacks_in_order_witness:
  "\<exists>executed d'. CallbackDispatcher_stop False \<lparr>cd_running = True, cd_stopRequested = False, cd_worker = True, cd_tasks = [''b'']\<rparr> =
     Inr (executed, d') \<and> [''a''] @ executed = [''a'', ''b'']"
proof -
  let ?d = "\<lambda>ts. \<lparr>cd_running = True, cd_stopRequested = False, cd_worker = True, cd_tasks = ts\<rparr> :: string CallbackDispatcher"
  let ?step = "queue_step (\<lambda>t. CallbackDispatcher_post (Some t)) dispatcher_take"
  have s: "?step (?d []) (Accepted ''a'') (?d [''a''])" "?step (?d [''a'']) (Accepted ''b'') (?d [''a'', ''b''])"
    "?step (?d [''a'', ''b'']) (Taken ''a'') (?d [''b''])"
    by (auto intro!: queue_accept queue_take simp: CallbackDispatcher_post_def dispatcher_take_def runLoop_section_def)
  have "runs ?step (?d []) [Accepted ''a''] (?d [''a''])" using s(1) by (rule runs_single)
  then have "runs ?step (?d []) [Accepted ''a'', Accepted ''b''] (?d [''a'', ''b''])"
    using runs_snoc [of ?step "?d []" "[Accepted ''a'']" "?d [''a'']"] s(2) by simp
  then have "runs ?step (?d []) [Accepted ''a'', Accepted ''b'', Taken ''a''] (?d [''b''])"
    using runs_snoc [of ?step "?d []" "[Accepted ''a'', Accepted ''b'']" "?d [''a'', ''b'']"] s(3) by simp
  then show ?thesis
    using callbacks_in_order [of "?d []" "[Accepted ''a'', Accepted ''b'', Taken ''a'']" "?d [''b'']"]
    by (auto simp: CallbackDispatcher_start_def CallbackDispatcher_new_def)
qed

text \<open>
  C38. When the timer descriptor fires, exactly the live timers that are due are called, in the order of
  their due times; the others stay, and a canceled timer is never called.
\<close>

theorem due_timers_fire:
  assumes "reactor_live rx" and "fireDueTimers now armNow rx = (hs, rx')"
  shows "hs = map ti_handler (filter (\<lambda>t. due t \<le> now) (live rx)) \<and> live rx' = filter (\<lambda>t. now < due t) (live rx) \<and>
    sorted (map due (live rx)) \<and> (\<forall>t\<in>set (live rx). canceledTimers rx (ti_id t) = Some False)"
proof -
  have ok: "reactor_ok rx" "0 \<le> timerFd rx" using assms(1) by (auto simp: reactor_live_def reactor_ok_def)
  then have "sorted (map due (live rx))" by (simp add: reactor_ok_def timers_wf_def live_def live_in_def sorted_filter)
  moreover have "\<forall>t\<in>set (live rx). canceledTimers rx (ti_id t) = Some False" by (simp add: live_def live_in_def)
  ultimately show ?thesis using fire_ok(2,3) [OF ok assms(2)] by blast
qed

theorem due_timers_fire_witness:
  "fst (fireDueTimers 2000000000 2000000000 (reactor sent)) = [Request_Timeout 1]"
proof -
  have live: "reactor_live (reactor sent)" "live (reactor sent) = [\<lparr>due = 1000000000, ti_id = 1, ti_handler = Request_Timeout 1\<rparr>]"
    by (simp_all add: reactor_live_def reactor_ok_def timers_wf_def live_def live_in_def sent_state)
  then show ?thesis
    using due_timers_fire [OF live(1), of 2000000000 2000000000] by (cases "fireDueTimers 2000000000 2000000000 (reactor sent)") simp
qed

text \<open>
  C39. Over every sequence of operations on a reactor that was started, the timers that were scheduled are
  those that fired, those that were canceled and those that are live: none is lost and none fires twice. The
  timer descriptor is armed exactly if one is live, and never for less than a millisecond.
\<close>

theorem timers_accounted:
  assumes "Reactor_start a Reactor_new = (True, rx0)" and "runs reactor_step rx0 ls rx"
  shows "sum_list (map fst ls) = sum_list (map (fst \<circ> snd) ls) + sum_list (map (snd \<circ> snd) ls) + handlers (live rx) \<and>
    (rx_armed rx = None \<longleftrightarrow> live rx = []) \<and> (\<forall>ns. rx_armed rx = Some ns \<longrightarrow> 1000000 \<le> ns)"
proof -
  have "reactor_ok Reactor_new" "rx_timers Reactor_new = []" "rx_armed Reactor_new = None" "\<not> rx_running Reactor_new"
    by (simp_all add: Reactor_new_def reactor_ok_def timers_wf_def live_def live_in_def)
  note start = start_live [OF this(1,2,3) assms(1) this(4)]
  then have "reactor_live rx" using reactor_ops.runs_inv [OF assms(2)] by simp
  then have "reactor_ok rx" "0 \<le> timerFd rx" by (auto simp: reactor_live_def reactor_ok_def)
  then show ?thesis using timers_history [OF assms(2)] start by (auto simp: reactor_ok_def)
qed

theorem timers_accounted_witness:
  "\<exists>rx. runs reactor_step (started all_well) [({#''tick''#}, {#}, {#}), ({#}, {#}, {#''tick''#})] rx \<and> live rx = []"
proof -
  let ?s = "scheduleOnce (\<lambda>_ _. True) 0 0 5 (Some ''tick'') (started all_well)"
  let ?c = "cancelTimer 0 (fst ?s) (snd ?s)"
  have "nextTimerId (started all_well :: string Reactor) \<noteq> -1"
    by (simp add: started_def Reactor_start_def setupPlatformPrimitives_def all_well_def Reactor_new_def)
  then have s: "reactor_step (started all_well) ({#''tick''#}, {#}, {#}) (snd ?s)"
    using timer_schedule [of "started all_well" "\<lambda>_ _. True" 0 0 5 "''tick''" "fst ?s" "snd ?s"] by simp
  have "handlers (filter (\<lambda>t. ti_id t = fst ?s) (live (snd ?s))) = {#''tick''#}"
    by (simp add: scheduleOnce_def started_def Reactor_start_def setupPlatformPrimitives_def all_well_def Reactor_new_def
        Let_def armNextTimerLocked_def live_def live_in_def)
  then have "reactor_step (snd ?s) ({#}, {#}, {#''tick''#}) (snd ?c)"
    using timer_cancel [of 0 "fst ?s" "snd ?s" "fst ?c" "snd ?c"] by simp
  then have r: "runs reactor_step (started all_well) [({#''tick''#}, {#}, {#}), ({#}, {#}, {#''tick''#})] (snd ?c)"
    using runs_snoc [of reactor_step, OF runs_single [of reactor_step, OF s]] by simp
  then show ?thesis
    using timers_accounted [of all_well "started all_well", OF _ r]
    by (auto simp: started_def Reactor_start_def setupPlatformPrimitives_def all_well_def Reactor_new_def)
qed

text \<open>
  C40. If \<open>epoll_wait\<close> fails for another reason than an interrupt, the loop ends but the reactor goes on
  saying that it runs: it accepts tasks that nobody will run, and it cannot be started again.
\<close>

theorem poll_error_strands:
  assumes "rx_running (reactor w)" and "rx_tasks (reactor w) = []"
  shows "\<exists>w'. runLoop (Suc n) run (Poll_Error False # polls) w = Inr w' \<and> \<not> rx_worker (reactor w') \<and>
    (\<forall>t. Reactor_post (Some t) (reactor w') = (True, (reactor w')\<lparr>rx_tasks := [t]\<rparr>)) \<and>
    (\<forall>a. Reactor_start a (reactor w') = (True, reactor w'))"
  using loop_error [OF assms, of n run polls] assms by (simp add: Reactor_post_def Reactor_start_def)

theorem poll_error_strands_witness:
  "\<exists>w'. runLoop 1 (run_job idle_env) [Poll_Error False] sent = Inr w' \<and>
     fst (Reactor_post (Some Drain_Submit_Queue) (reactor w'))"
  using poll_error_strands [of sent 0 "run_job idle_env" "[]"] by (auto simp: sent_state)

end
